(* ===== verification/Prelude.thy ===== *)
theory Prelude
  imports Main "HOL-Library.Word" "HOL-Library.Finite_Map"
begin

text \<open>
  Shared ground of the development: the names of Go's machine types, the outcome of a
  Go call that may return an error or panic, the parts of the standard packages
  \<^verbatim>\<open>slices\<close> and \<^verbatim>\<open>math/bits\<close> the engine calls, and the generic lemmas on words, sorted
  lists and finite maps that the component theories use.

  Representation choices, used everywhere: \<^verbatim>\<open>uint64\<close> is \<open>64 word\<close>, so every \<open>+\<close>,
  \<open>-\<close> and \<open>*\<close> on prices, quantities and amounts wraps as Go's does; the signed
  identifiers (\<^verbatim>\<open>int32\<close>, \<^verbatim>\<open>int64\<close>), which the program only compares, negates and prints,
  are \<open>int\<close>; a Go map is a finite map, so that looking up, storing, deleting and the
  sorted iteration of the snapshot code all compute.
\<close>

section \<open>Machine types and outcomes\<close>

type_synonym uint64 = "64 word"
type_synonym int64 = int
type_synonym int32 = int
type_synonym time = int \<comment> \<open>nanoseconds since Go's zero \<^verbatim>\<open>time.Time\<close>; \<open>0\<close> is \<^verbatim>\<open>IsZero()\<close>\<close>

text \<open>
  The errors the engine returns or panics with. A call ends by returning (\<open>Ret\<close>), with a
  non-nil \<^verbatim>\<open>error\<close> (\<open>Err\<close>), or by panicking (\<open>Panic\<close>).
\<close>

datatype err =
    TradeIDExhausted
  | TargetNotRemoved int64
  | TargetNotActive int64
  | UnknownTradingType
  | MarshalFailed
  | WalFailed
  | NilDereference
  | DivideByZero
  | UnmarshalFailed
  | StoreFailed
  | NoTradeIDStore
  | InvalidTradeID int64
  | BrokerFailed
  | UnsupportedVersion "32 word"

datatype 'a outcome = Ret 'a | Err err | Panic err

named_theorems pattern_defs \<open>definitions of the message and event patterns\<close>
named_theorems ledger_defs \<open>unfolding of the ledger's accessors\<close>

section \<open>Words\<close>

lemma unat_64_less: "unat (x::uint64) < 18446744073709551616"
  using unsigned_less [of x] by simp

lemma unat_word_of_nat64: "n < 2 ^ 64 \<Longrightarrow> unat (word_of_nat n :: uint64) = n"
  by (simp add: unat_of_nat take_bit_eq_mod)

lemma unat_sub_le: "b \<le> a \<Longrightarrow> unat (a - b :: uint64) = unat a - unat b"
  by (simp add: unat_sub)

lemma unat_add_less:
  "unat (a::uint64) + unat b < 18446744073709551616 \<Longrightarrow> unat (a + b) = unat a + unat b"
  by (simp add: unat_word_ariths)

lemma unat_mult_less:
  "unat (a::uint64) * unat b < 18446744073709551616 \<Longrightarrow> unat (a * b) = unat a * unat b"
  by (simp add: unat_word_ariths)

lemma unat_min_uint64: "unat (min a b :: uint64) = min (unat a) (unat b)"
  by (simp add: min_def word_le_nat_alt)

lemma unat_gt_0_uint64: "(0 < unat (a::uint64)) = (a \<noteq> 0)"
  by (simp add: unat_gt_0)

text \<open>\<^verbatim>\<open>bits.Mul64\<close> and \<^verbatim>\<open>bits.Add64\<close> (carry-in 0): the high word, respectively the carry.\<close>

definition Mul64 :: "uint64 \<Rightarrow> uint64 \<Rightarrow> uint64 \<times> uint64" where
  "Mul64 x y = (word_of_nat (unat x * unat y div 2 ^ 64), x * y)"

definition Add64 :: "uint64 \<Rightarrow> uint64 \<Rightarrow> uint64 \<times> uint64" where
  "Add64 x y = (x + y, if unat x + unat y < 2 ^ 64 then 0 else 1)"

lemma Mul64_hi_0: "fst (Mul64 x y) = 0 \<longleftrightarrow> unat x * unat y < 18446744073709551616"
proof -
  let ?n = "unat x * unat y div 18446744073709551616"
  have "unat x * unat y < 18446744073709551616 * 18446744073709551616"
    using unat_64_less [of x] unat_64_less [of y] by (intro mult_strict_mono) auto
  then have n: "?n < 18446744073709551616"
    by (simp add: less_mult_imp_div_less)
  have "(word_of_nat ?n :: uint64) = 0 \<longleftrightarrow> ?n = 0"
    using n by (auto simp: word_of_nat_eq_0_iff elim: dvdE)
  then show ?thesis
    by (simp add: Mul64_def div_eq_0_iff)
qed

lemma Add64_carry_0: "snd (Add64 x y) = 0 \<longleftrightarrow> unat x + unat y < 18446744073709551616"
  by (simp add: Add64_def)

section \<open>The package slices\<close>

text \<open>
  \<^verbatim>\<open>slices.BinarySearch\<close> as the library writes it: the half-open interval \<open>i..<j\<close> shrinks
  until \<open>i\<close> is the first position whose element is not below the target.
\<close>

function binarySearchLoop :: "'a::linorder list \<Rightarrow> 'a \<Rightarrow> nat \<Rightarrow> nat \<Rightarrow> nat" where
  "binarySearchLoop xs t i j =
     (if i < j
      then (let h = (i + j) div 2
            in if xs ! h < t then binarySearchLoop xs t (h + 1) j
               else binarySearchLoop xs t i h)
      else i)"
  by pat_completeness auto
termination
  by (relation "measure (\<lambda>(xs, t, i, j). j - i)") auto

declare binarySearchLoop.simps [simp del]

definition BinarySearch :: "'a::linorder list \<Rightarrow> 'a \<Rightarrow> nat \<times> bool" where
  "BinarySearch xs t =
     (let i = binarySearchLoop xs t 0 (length xs)
      in (i, i < length xs \<and> xs ! i = t))"

definition slices_Insert :: "'a list \<Rightarrow> nat \<Rightarrow> 'a \<Rightarrow> 'a list" where
  "slices_Insert xs i v = take i xs @ v # drop i xs"

definition slices_Delete :: "'a list \<Rightarrow> nat \<Rightarrow> nat \<Rightarrow> 'a list" where
  "slices_Delete xs i j = take i xs @ drop j xs"

abbreviation ascending :: "'a::linorder list \<Rightarrow> bool" where
  "ascending \<equiv> sorted_wrt (<)"

text \<open>The search returns the number of elements below the target, on any sorted slice.\<close>

lemma binarySearchLoop_spec:
  assumes "sorted xs" "i \<le> j" "j \<le> length xs"
    and "\<forall>k < i. xs ! k < t" and "\<forall>k. j \<le> k \<and> k < length xs \<longrightarrow> \<not> xs ! k < t"
  shows "binarySearchLoop xs t i j = length (takeWhile (\<lambda>x. x < t) xs)"
  using assms
proof (induction xs t i j rule: binarySearchLoop.induct)
  case (1 xs t i j)
  show ?case
  proof (cases "i < j")
    case False
    with 1 have "i = j" by simp
    have "takeWhile (\<lambda>x. x < t) xs = take j xs"
      using 1(6,7) \<open>i = j\<close> 1(5) by (intro takeWhile_eq_take_P_nth) auto
    with 1(5) \<open>i = j\<close> show ?thesis by (simp add: binarySearchLoop.simps)
  next
    case True
    define h where "h = (i + j) div 2"
    have h: "i \<le> h" "h < j" using True by (auto simp: h_def)
    show ?thesis
    proof (cases "xs ! h < t")
      case below: True
      have "\<forall>k < h + 1. xs ! k < t"
      proof (intro allI impI)
        fix k assume "k < h + 1"
        then have "xs ! k \<le> xs ! h"
          using 1(3,5) h by (intro sorted_nth_mono) auto
        with below show "xs ! k < t" by simp
      qed
      then have "binarySearchLoop xs t (h + 1) j = length (takeWhile (\<lambda>x. x < t) xs)"
        using "1.IH"(1) [OF True h_def below] 1 h by simp
      with True below show ?thesis
        by (subst binarySearchLoop.simps) (simp add: h_def [symmetric] Let_def)
    next
      case above: False
      have "\<forall>k. h \<le> k \<and> k < length xs \<longrightarrow> \<not> xs ! k < t"
      proof (intro allI impI)
        fix k assume "h \<le> k \<and> k < length xs"
        then have "xs ! h \<le> xs ! k"
          using 1(3) by (intro sorted_nth_mono) auto
        with above show "\<not> xs ! k < t" by simp
      qed
      then have "binarySearchLoop xs t i h = length (takeWhile (\<lambda>x. x < t) xs)"
        using "1.IH"(2) [OF True h_def above] 1 h by simp
      with True above show ?thesis
        by (subst binarySearchLoop.simps) (simp add: h_def [symmetric] Let_def)
    qed
  qed
qed

lemma BinarySearch_sorted:
  assumes "ascending xs"
  shows "BinarySearch xs t = (length (takeWhile (\<lambda>x. x < t) xs), t \<in> set xs)"
proof -
  have srt: "sorted xs" using assms by (simp add: strict_sorted_iff)
  let ?i = "length (takeWhile (\<lambda>x. x < t) xs)"
  have i: "binarySearchLoop xs t 0 (length xs) = ?i"
    by (rule binarySearchLoop_spec) (auto simp: srt)
  have "(?i < length xs \<and> xs ! ?i = t) \<longleftrightarrow> t \<in> set xs"
    using srt
  proof (induction xs)
    case (Cons a xs)
    then show ?case by (cases "a < t") (auto simp: less_le_not_le)
  qed simp
  with i show ?thesis by (simp add: BinarySearch_def)
qed

text \<open>Inserting at, respectively deleting, the position found.\<close>

lemma takeWhile_insert_insort:
  "sorted xs \<Longrightarrow> t \<notin> set xs \<Longrightarrow>
   slices_Insert xs (length (takeWhile (\<lambda>x. x < t) xs)) t = insort t xs"
  by (induction xs) (auto simp: slices_Insert_def)

lemma takeWhile_delete_remove1:
  "sorted xs \<Longrightarrow> t \<in> set xs \<Longrightarrow>
   slices_Delete xs (length (takeWhile (\<lambda>x. x < t) xs))
     (Suc (length (takeWhile (\<lambda>x. x < t) xs))) = remove1 t xs"
  by (induction xs) (auto simp: slices_Delete_def)

lemma BinarySearch_Insert:
  assumes "ascending xs" "t \<notin> set xs"
  shows "slices_Insert xs (fst (BinarySearch xs t)) t = insort t xs"
  using assms by (simp add: BinarySearch_sorted takeWhile_insert_insort strict_sorted_iff)

lemma BinarySearch_Delete:
  assumes "ascending xs" "t \<in> set xs"
  shows "slices_Delete xs (fst (BinarySearch xs t)) (fst (BinarySearch xs t) + 1) = remove1 t xs"
  using assms by (simp add: BinarySearch_sorted takeWhile_delete_remove1 strict_sorted_iff)

lemma ascending_insort: "ascending xs \<Longrightarrow> t \<notin> set xs \<Longrightarrow> ascending (insort t xs)"
  by (simp add: strict_sorted_iff sorted_insort distinct_insort)

lemma ascending_remove1: "ascending xs \<Longrightarrow> ascending (remove1 t xs)"
  by (simp add: strict_sorted_iff sorted_remove1)

lemma ascending_distinct: "ascending xs \<Longrightarrow> distinct xs"
  by (simp add: strict_sorted_iff)

lemma ascending_hd_least: "ascending xs \<Longrightarrow> p \<in> set xs \<Longrightarrow> hd xs \<le> p"
  by (cases xs) (auto simp: less_imp_le)

lemma ascending_last_greatest: "ascending xs \<Longrightarrow> p \<in> set xs \<Longrightarrow> p \<le> last xs"
  by (induction xs) (auto simp: less_imp_le split: if_splits)

section \<open>Sums over maps\<close>

text \<open>
  \<open>osum m f\<close> adds \<open>f v\<close> over the entries of a map: total balances, total holdings and
  the amounts resting orders reserve are all of this form.
\<close>

definition osum :: "('k \<Rightarrow> 'v option) \<Rightarrow> ('v \<Rightarrow> nat) \<Rightarrow> nat" where
  "osum m f = (\<Sum>k\<in>dom m. f (the (m k)))"

lemma osum_empty [simp]: "osum (\<lambda>k. None) f = 0"
  by (simp add: osum_def)

lemma osum_add: "finite (dom m) \<Longrightarrow> m k = None \<Longrightarrow> osum (m(k \<mapsto> v)) f = osum m f + f v"
  unfolding osum_def by (simp add: sum.insert_if domIff) (rule sum.cong, auto)

lemma osum_remove:
  assumes "finite (dom m)" "m k = Some v"
  shows "osum (m(k := None)) f + f v = osum m f"
proof -
  have "osum m f = f v + (\<Sum>j\<in>dom m - {k}. f (the (m j)))"
    unfolding osum_def using assms by (subst sum.remove [of _ k]) auto
  also have "(\<Sum>j\<in>dom m - {k}. f (the (m j))) = osum (m(k := None)) f"
    unfolding osum_def by (rule sum.cong) auto
  finally show ?thesis by simp
qed

lemma osum_replace:
  assumes "finite (dom m)" "m k = Some v"
  shows "osum (m(k \<mapsto> w)) f + f v = osum m f + f w"
  using osum_add [of "m(k := None)" k w f] osum_remove [OF assms, of f] assms(1) by simp

lemma osum_ge: "finite (dom m) \<Longrightarrow> m k = Some v \<Longrightarrow> f v \<le> osum m f"
  using osum_remove [of m k v f] by simp

lemma osum_ge_two:
  assumes "finite (dom m)" "m k = Some v" "m j = Some w" "k \<noteq> j"
  shows "f v + f w \<le> osum m f"
  using osum_remove [OF assms(1,2), of f] osum_ge [of "m(k := None)" j w f] assms by simp

lemma osum_cong:
  "(\<And>k v. m k = Some v \<Longrightarrow> f v = g v) \<Longrightarrow> osum m f = osum m g"
  unfolding osum_def by (rule sum.cong) auto

lemma osum_zero: "(\<And>k v. m k = Some v \<Longrightarrow> f v = 0) \<Longrightarrow> osum m f = 0"
  unfolding osum_def by (rule sum.neutral) auto

text \<open>The value of a column at a key, and how storing an entry moves the column's sum.\<close>

definition colv :: "('k \<Rightarrow> 'v option) \<Rightarrow> ('v \<Rightarrow> nat) \<Rightarrow> 'k \<Rightarrow> nat" where
  "colv m f k = (case m k of None \<Rightarrow> 0 | Some v \<Rightarrow> f v)"

lemma colv_Some [simp]: "m k = Some v \<Longrightarrow> colv m f k = f v"
  by (simp add: colv_def)

lemma colv_None [simp]: "m k = None \<Longrightarrow> colv m f k = 0"
  by (simp add: colv_def)

lemma colv_upd [simp]: "colv (m(k \<mapsto> v)) f j = (if j = k then f v else colv m f j)"
  by (simp add: colv_def)

lemma osum_upd:
  assumes "finite (dom m)"
  shows "osum (m(k \<mapsto> v)) f + colv m f k = osum m f + f v"
  using osum_add [OF assms] osum_replace [OF assms] by (cases "m k") simp_all

lemma osum_none: "(\<And>k. m k = None) \<Longrightarrow> osum m f = 0"
  by (rule osum_zero) simp

lemma fmlookup_upd_fun: "fmlookup (fmupd k v m) = (fmlookup m)(k \<mapsto> v)"
  by auto

lemma osum_upd_fmap:
  "osum (fmlookup (fmupd k v m)) f =
     f v + osum (fmlookup (fmdrop k m)) f"
proof -
  have "fmlookup (fmupd k v m) = (fmlookup (fmdrop k m))(k \<mapsto> v)" by auto
  moreover have "fmlookup (fmdrop k m) k = None" by simp
  ultimately show ?thesis using osum_add [of "fmlookup (fmdrop k m)" k v f] by simp
qed

lemma fmap_of_sorted_list: "fmap_of_list (sorted_list_of_fmap m) = m"
  by (rule fmap_ext) (simp add: fmlookup_of_list)

end
