(* ===== verification/Domain.thy ===== *)
theory Domain
  imports Prelude
begin

text \<open>
  The package \<^verbatim>\<open>internal/domain\<close>: the enumerations with their JSON spellings, the request
  and ledger structs, and the structs the engine writes into its output events.

  The enumerations are \<^verbatim>\<open>uint8\<close> types with named constants. Each is a datatype with the
  source's constants as constructors and one more constructor for the numbers that name no
  constant, because the source's \<^verbatim>\<open>switch\<close> statements have default branches for them.
\<close>

section \<open>Enumerations\<close>

datatype OrderType = ORDER_LIMIT | ORDER_MARKET | OrderType_other "8 word"

datatype TradingType =
  TRADING_BUY | TRADING_SELL | TRADING_EDIT | TRADING_CANCEL | TradingType_other "8 word"

datatype StockStatus = LISTED | SUSPENDED | DELISTED | PENDING | StockStatus_other "8 word"

text \<open>The underlying numbers, in the order \<^verbatim>\<open>iota\<close> gives them, and the conversions from them.\<close>

fun OrderType_uint8 :: "OrderType \<Rightarrow> 8 word" where
  "OrderType_uint8 ORDER_LIMIT = 0"
| "OrderType_uint8 ORDER_MARKET = 1"
| "OrderType_uint8 (OrderType_other w) = w"

definition OrderType_of :: "8 word \<Rightarrow> OrderType" where
  "OrderType_of w = (if w = 0 then ORDER_LIMIT else if w = 1 then ORDER_MARKET
     else OrderType_other w)"

fun TradingType_uint8 :: "TradingType \<Rightarrow> 8 word" where
  "TradingType_uint8 TRADING_BUY = 0"
| "TradingType_uint8 TRADING_SELL = 1"
| "TradingType_uint8 TRADING_EDIT = 2"
| "TradingType_uint8 TRADING_CANCEL = 3"
| "TradingType_uint8 (TradingType_other w) = w"

definition TradingType_of :: "8 word \<Rightarrow> TradingType" where
  "TradingType_of w = (if w = 0 then TRADING_BUY else if w = 1 then TRADING_SELL
     else if w = 2 then TRADING_EDIT else if w = 3 then TRADING_CANCEL
     else TradingType_other w)"

fun StockStatus_uint8 :: "StockStatus \<Rightarrow> 8 word" where
  "StockStatus_uint8 LISTED = 0"
| "StockStatus_uint8 SUSPENDED = 1"
| "StockStatus_uint8 DELISTED = 2"
| "StockStatus_uint8 PENDING = 3"
| "StockStatus_uint8 (StockStatus_other w) = w"

definition StockStatus_of :: "8 word \<Rightarrow> StockStatus" where
  "StockStatus_of w = (if w = 0 then LISTED else if w = 1 then SUSPENDED
     else if w = 2 then DELISTED else if w = 3 then PENDING
     else StockStatus_other w)"

text \<open>
  The JSON spellings. \<^verbatim>\<open>MarshalJSON\<close> of an order or trading type fails on an unnamed
  number; \<^verbatim>\<open>StockStatus.String\<close> maps it to \<^verbatim>\<open>LISTED\<close>.
\<close>

fun OrderType_MarshalJSON :: "OrderType \<Rightarrow> string option" where
  "OrderType_MarshalJSON ORDER_LIMIT = Some ''LIMIT''"
| "OrderType_MarshalJSON ORDER_MARKET = Some ''MARKET''"
| "OrderType_MarshalJSON (OrderType_other w) = None"

definition OrderType_UnmarshalJSON :: "string \<Rightarrow> OrderType option" where
  "OrderType_UnmarshalJSON s =
     (if s = ''LIMIT'' then Some ORDER_LIMIT
      else if s = ''MARKET'' then Some ORDER_MARKET
      else None)"

fun TradingType_MarshalJSON :: "TradingType \<Rightarrow> string option" where
  "TradingType_MarshalJSON TRADING_BUY = Some ''BUY''"
| "TradingType_MarshalJSON TRADING_SELL = Some ''SELL''"
| "TradingType_MarshalJSON TRADING_EDIT = Some ''EDIT''"
| "TradingType_MarshalJSON TRADING_CANCEL = Some ''CANCEL''"
| "TradingType_MarshalJSON (TradingType_other w) = None"

definition TradingType_UnmarshalJSON :: "string \<Rightarrow> TradingType option" where
  "TradingType_UnmarshalJSON s =
     (if s = ''BUY'' then Some TRADING_BUY
      else if s = ''SELL'' then Some TRADING_SELL
      else if s = ''EDIT'' then Some TRADING_EDIT
      else if s = ''CANCEL'' then Some TRADING_CANCEL
      else None)"

fun StockStatus_String :: "StockStatus \<Rightarrow> string" where
  "StockStatus_String SUSPENDED = ''SUSPENDED''"
| "StockStatus_String DELISTED = ''DELISTED''"
| "StockStatus_String PENDING = ''PENDING''"
| "StockStatus_String _ = ''LISTED''"

definition StockStatus_UnmarshalJSON :: "string \<Rightarrow> StockStatus option" where
  "StockStatus_UnmarshalJSON s =
     (if s = ''LISTED'' then Some LISTED
      else if s = ''SUSPENDED'' then Some SUSPENDED
      else if s = ''DELISTED'' then Some DELISTED
      else if s = ''PENDING'' then Some PENDING
      else None)"

section \<open>Orders, accounts, holdings and stocks\<close>

text \<open>The field names carry the initial of their struct, since Isabelle's fields are global.\<close>

record Order =
  oId :: int64
  oTargetId :: int64
  oAccountId :: int32
  oStockId :: int32
  oPrice :: uint64
  oQuantity :: uint64
  oFilledQuantity :: uint64
  oOrderType :: OrderType
  oTradingType :: TradingType
  oCreatedAt :: time

text \<open>The zero value \<^verbatim>\<open>domain.Order{}\<close>, which \<^verbatim>\<open>Get\<close> returns with \<^verbatim>\<open>ok=false\<close>.\<close>

definition zeroOrder :: Order where
  "zeroOrder = \<lparr>oId = 0, oTargetId = 0, oAccountId = 0, oStockId = 0, oPrice = 0,
     oQuantity = 0, oFilledQuantity = 0, oOrderType = ORDER_LIMIT,
     oTradingType = TRADING_BUY, oCreatedAt = 0\<rparr>"

record Account =
  aId :: int32
  aBalance :: uint64
  aAvailableBalance :: uint64

record StockBalance =
  hAccountId :: int32
  hStockId :: int32
  hQuantity :: uint64
  hAvailableQuantity :: uint64
  hAverage :: uint64
  hTotalBuyAmount :: uint64

record Stock =
  sId :: int32
  sPrice :: uint64
  sStatus :: StockStatus

section \<open>Requests\<close>

record BalanceAdjust =
  baId :: int64
  baAccountId :: int32
  baDelta :: int64

record StockBalanceAdjust =
  sbaId :: int64
  sbaAccountId :: int32
  sbaStockId :: int32
  sbaDelta :: int64
  sbaAverage :: uint64

record Transfer =
  tId :: int64
  tSenderAccountId :: int32
  tRecipientAccountId :: int32
  tAmount :: uint64

section \<open>Event payloads\<close>

record Trade =
  trId :: int64
  trStockId :: int32
  trPrice :: uint64
  trQuantity :: uint64
  trMakerOrderId :: int64
  trTakerOrderId :: int64
  trTradingType :: TradingType
  trExecutedAt :: time

record OrderEvent =
  oeId :: int64
  oeTargetId :: int64
  oeAccountId :: int32
  oeStockId :: int32
  oePrice :: uint64
  oeTradingType :: TradingType
  oeOrderType :: OrderType
  oeQuantity :: uint64
  oeFilledQuantity :: uint64
  oeCreatedAt :: "time option"
  oeFullyFilledAt :: "time option"

record OrderRejected =
  orOrderId :: int64
  orReason :: string

record OrderBookLevel =
  lvSide :: string
  lvPrice :: uint64
  lvQuantity :: uint64

record OrderBookUpdated =
  obuStockId :: int32
  obuLevels :: "OrderBookLevel list"

record TransferCompleted =
  tcId :: int64
  tcSenderAccountId :: int32
  tcRecipientAccountId :: int32
  tcAmount :: uint64
  tcCompletedAt :: time

record TransferRejected =
  tjId :: int64
  tjSenderAccountId :: int32
  tjRecipientAccountId :: int32
  tjAmount :: uint64
  tjReason :: string
  tjCompletedAt :: time

record AdminRequestCompleted =
  acId :: int64
  acCompletedAt :: time

record AdminRequestRejected =
  ajId :: int64
  ajReason :: string
  ajCompletedAt :: time

section \<open>The spellings round trip\<close>

lemma OrderType_of_uint8: "OrderType_of (OrderType_uint8 t) = t \<longleftrightarrow>
    (\<forall>w. t = OrderType_other w \<longrightarrow> w \<notin> {0, 1})"
  by (cases t) (auto simp: OrderType_of_def)

lemma TradingType_of_uint8: "TradingType_of (TradingType_uint8 t) = t \<longleftrightarrow>
    (\<forall>w. t = TradingType_other w \<longrightarrow> w \<notin> {0, 1, 2, 3})"
  by (cases t) (auto simp: TradingType_of_def)

lemma StockStatus_of_uint8: "StockStatus_of (StockStatus_uint8 t) = t \<longleftrightarrow>
    (\<forall>w. t = StockStatus_other w \<longrightarrow> w \<notin> {0, 1, 2, 3})"
  by (cases t) (auto simp: StockStatus_of_def)

lemma OrderType_JSON_roundtrip:
  "OrderType_MarshalJSON t = Some s \<longleftrightarrow> OrderType_UnmarshalJSON s = Some t"
  by (cases t) (auto simp: OrderType_UnmarshalJSON_def split: if_splits)

lemma TradingType_JSON_roundtrip:
  "TradingType_MarshalJSON t = Some s \<longleftrightarrow> TradingType_UnmarshalJSON s = Some t"
  by (cases t) (auto simp: TradingType_UnmarshalJSON_def split: if_splits)

lemma StockStatus_JSON_roundtrip:
  "StockStatus_UnmarshalJSON (StockStatus_String t) =
     Some (case t of StockStatus_other w \<Rightarrow> LISTED | _ \<Rightarrow> t)"
  by (cases t) (auto simp: StockStatus_UnmarshalJSON_def)

end
