(* ===== verification/OrderBook.thy ===== *)
theory OrderBook
  imports Domain
begin

text \<open>
  The order book of one stock (\<^verbatim>\<open>internal/ledger/orderbook.go\<close>).

  The Go book shares mutable state: a price level is a \<^verbatim>\<open>container/list\<close> of elements, each
  holding a pointer to an order, and \<^verbatim>\<open>index\<close> keeps a second reference to the same element, so
  that \<^verbatim>\<open>Fill\<close>, which goes through the index, changes the order a price level holds. The
  model keeps that sharing: a list element is an address into the store \<open>elems\<close>, a price
  level is a list of addresses, and an index entry holds an address.
\<close>

section \<open>State and operations\<close>

type_synonym addr = nat

record orderRef =
  rTradingType :: TradingType
  rPrice :: uint64
  rElem :: addr

record OrderBook =
  buy :: "(uint64, addr list) fmap"
  sell :: "(uint64, addr list) fmap"
  buyPrices :: "uint64 list"
  sellPrices :: "uint64 list"
  index :: "(int64, orderRef) fmap"
  elems :: "(addr, Order) fmap"  \<comment> \<open>what the list elements point to\<close>
  nextElem :: addr               \<comment> \<open>the next fresh list element\<close>

definition NewOrderBook :: OrderBook where
  "NewOrderBook = \<lparr>buy = fmempty, sell = fmempty, buyPrices = [], sellPrices = [],
     index = fmempty, elems = fmempty, nextElem = 0\<rparr>"

text \<open>
  Every operation picks the side with the same three lines of code
  (\<^verbatim>\<open>side := b.buy; if t == TRADING_SELL { side = b.sell }\<close>), and writes both the map and
  the price slice of that side.
\<close>

definition sideMap :: "OrderBook \<Rightarrow> TradingType \<Rightarrow> (uint64, addr list) fmap" where
  "sideMap b t = (if t = TRADING_SELL then sell b else buy b)"

definition sidePrices :: "OrderBook \<Rightarrow> TradingType \<Rightarrow> uint64 list" where
  "sidePrices b t = (if t = TRADING_SELL then sellPrices b else buyPrices b)"

definition setSide ::
  "OrderBook \<Rightarrow> TradingType \<Rightarrow> (uint64, addr list) fmap \<Rightarrow> uint64 list \<Rightarrow> OrderBook" where
  "setSide b t q ps =
     (if t = TRADING_SELL then b\<lparr>sell := q, sellPrices := ps\<rparr>
      else b\<lparr>buy := q, buyPrices := ps\<rparr>)"

text \<open>Dereferencing a list element. Elements in a queue or in the index are always stored.\<close>

definition elemValue :: "OrderBook \<Rightarrow> addr \<Rightarrow> Order" where
  "elemValue b a = (case fmlookup (elems b) a of Some o' \<Rightarrow> o' | None \<Rightarrow> zeroOrder)"

definition Add :: "OrderBook \<Rightarrow> Order \<Rightarrow> OrderBook" where
  "Add b order =
     (let t = oTradingType order;
          side = sideMap b t;
          prices = sidePrices b t;
          found = fmlookup side (oPrice order);
          queue = (case found of Some q \<Rightarrow> q | None \<Rightarrow> []);
          prices' = (case found of
                       Some q \<Rightarrow> prices
                     | None \<Rightarrow> slices_Insert prices (fst (BinarySearch prices (oPrice order)))
                                 (oPrice order));
          elem = nextElem b;
          b' = setSide b t (fmupd (oPrice order) (queue @ [elem]) side) prices'
      in b'\<lparr>elems := fmupd elem order (elems b'), nextElem := elem + 1,
            index := fmupd (oId order)
              \<lparr>rTradingType = t, rPrice = oPrice order, rElem = elem\<rparr> (index b')\<rparr>)"

text \<open>
  \<^verbatim>\<open>removeRef\<close> dereferences the price level found in the side map. A missing level is a nil
  list and a panic, written here as \<open>None\<close>.
\<close>

definition removeRef :: "OrderBook \<Rightarrow> int64 \<Rightarrow> orderRef \<Rightarrow> OrderBook option" where
  "removeRef b orderId ref =
     (let t = rTradingType ref;
          side = sideMap b t;
          prices = sidePrices b t
      in case fmlookup side (rPrice ref) of
           None \<Rightarrow> None
         | Some queue \<Rightarrow>
             (let queue' = remove1 (rElem ref) queue;
                  index' = fmdrop orderId (index b);
                  (i, found) = BinarySearch prices (rPrice ref)
              in Some (if queue' = []
                       then (setSide b t (fmdrop (rPrice ref) side)
                               (if found then slices_Delete prices i (i + 1) else prices))
                              \<lparr>index := index'\<rparr>
                       else (setSide b t (fmupd (rPrice ref) queue' side) prices)
                              \<lparr>index := index'\<rparr>)))"

definition Cancel :: "OrderBook \<Rightarrow> int64 \<Rightarrow> (bool \<times> OrderBook) option" where
  "Cancel b orderId =
     (case fmlookup (index b) orderId of
        None \<Rightarrow> Some (False, b)
      | Some ref \<Rightarrow> map_option (Pair True) (removeRef b orderId ref))"

definition BestAsk :: "OrderBook \<Rightarrow> uint64 option" where
  "BestAsk b = (if sellPrices b = [] then None else Some (hd (sellPrices b)))"

definition BestBid :: "OrderBook \<Rightarrow> uint64 option" where
  "BestBid b = (if buyPrices b = [] then None else Some (last (buyPrices b)))"

definition Front :: "OrderBook \<Rightarrow> TradingType \<Rightarrow> uint64 \<Rightarrow> Order option" where
  "Front b side price =
     (case fmlookup (sideMap b side) price of
        None \<Rightarrow> None
      | Some queue \<Rightarrow> (case queue of [] \<Rightarrow> None | a # _ \<Rightarrow> Some (elemValue b a)))"

definition Get :: "OrderBook \<Rightarrow> int64 \<Rightarrow> Order option" where
  "Get b orderId =
     (case fmlookup (index b) orderId of
        None \<Rightarrow> None
      | Some ref \<Rightarrow> Some (elemValue b (rElem ref)))"

text \<open>The sum wraps, as the Go loop over the list does.\<close>

definition levelQuantity :: "OrderBook \<Rightarrow> addr list \<Rightarrow> uint64" where
  "levelQuantity b queue =
     foldl (\<lambda>sum a. sum + (oQuantity (elemValue b a) - oFilledQuantity (elemValue b a))) 0 queue"

definition LevelQuantity :: "OrderBook \<Rightarrow> TradingType \<Rightarrow> uint64 \<Rightarrow> uint64" where
  "LevelQuantity b side price =
     (case fmlookup (sideMap b side) price of
        None \<Rightarrow> 0
      | Some queue \<Rightarrow> levelQuantity b queue)"

definition Fill :: "OrderBook \<Rightarrow> int64 \<Rightarrow> uint64 \<Rightarrow> (uint64 \<times> OrderBook) option" where
  "Fill b orderId want =
     (case fmlookup (index b) orderId of
        None \<Rightarrow> Some (0, b)
      | Some ref \<Rightarrow>
          (let order = elemValue b (rElem ref);
               remaining = oQuantity order - oFilledQuantity order;
               filled = min want remaining
           in if filled = 0 then Some (0, b)
              else (let order' = order\<lparr>oFilledQuantity := oFilledQuantity order + filled\<rparr>;
                        b' = b\<lparr>elems := fmupd (rElem ref) order' (elems b)\<rparr>
                    in if oFilledQuantity order' = oQuantity order'
                       then map_option (Pair filled) (removeRef b' orderId ref)
                       else Some (filled, b'))))"

text \<open>The flattening of a book for the snapshot: buy levels, then sell levels, prices ascending.\<close>

definition orders :: "OrderBook \<Rightarrow> Order list" where
  "orders b =
     concat (map (\<lambda>(queues, prices).
       concat (map (\<lambda>p. case fmlookup queues p of
                            None \<Rightarrow> []
                          | Some queue \<Rightarrow> map (elemValue b) queue) prices))
       [(buy b, buyPrices b), (sell b, sellPrices b)])"

section \<open>Well-formed books\<close>

text \<open>
  A resting order is on the side of its trading type, at the level of its price, not yet
  fully filled, and indexed by its id; a price is listed exactly when its level exists, and
  the list is ascending; the index holds nothing else.
\<close>

definition is_side :: "TradingType \<Rightarrow> bool" where
  "is_side t \<longleftrightarrow> t = TRADING_BUY \<or> t = TRADING_SELL"

definition wf_elem :: "OrderBook \<Rightarrow> TradingType \<Rightarrow> uint64 \<Rightarrow> addr \<Rightarrow> bool" where
  "wf_elem b t p a \<longleftrightarrow>
     (\<exists>o'. fmlookup (elems b) a = Some o' \<and> oTradingType o' = t \<and> oPrice o' = p \<and>
        oFilledQuantity o' < oQuantity o' \<and>
        fmlookup (index b) (oId o') = Some \<lparr>rTradingType = t, rPrice = p, rElem = a\<rparr>)"

definition wf_side :: "OrderBook \<Rightarrow> TradingType \<Rightarrow> bool" where
  "wf_side b t \<longleftrightarrow>
     ascending (sidePrices b t) \<and> set (sidePrices b t) = fmdom' (sideMap b t) \<and>
     (\<forall>p q. fmlookup (sideMap b t) p = Some q \<longrightarrow>
        q \<noteq> [] \<and> distinct q \<and> (\<forall>a\<in>set q. wf_elem b t p a))"

definition wf_index :: "OrderBook \<Rightarrow> bool" where
  "wf_index b \<longleftrightarrow>
     (\<forall>i r. fmlookup (index b) i = Some r \<longrightarrow>
        is_side (rTradingType r) \<and> oId (elemValue b (rElem r)) = i \<and>
        (\<exists>q. fmlookup (sideMap b (rTradingType r)) (rPrice r) = Some q \<and> rElem r \<in> set q))"

definition wf_book :: "OrderBook \<Rightarrow> bool" where
  "wf_book b \<longleftrightarrow>
     wf_side b TRADING_BUY \<and> wf_side b TRADING_SELL \<and> wf_index b \<and>
     (\<forall>a o'. fmlookup (elems b) a = Some o' \<longrightarrow> a < nextElem b)"

text \<open>The two abstract views of a book: the orders at a price level, and the order of an id.\<close>

definition level :: "OrderBook \<Rightarrow> TradingType \<Rightarrow> uint64 \<Rightarrow> Order list" where
  "level b t p =
     (case fmlookup (sideMap b t) p of None \<Rightarrow> [] | Some q \<Rightarrow> map (elemValue b) q)"

subsection \<open>Access to well-formedness\<close>

lemma is_side_simps [simp]:
  "is_side TRADING_BUY" "is_side TRADING_SELL" "\<not> is_side TRADING_EDIT"
  "\<not> is_side TRADING_CANCEL" "\<not> is_side (TradingType_other w)"
  by (simp_all add: is_side_def)

lemma setSide_simps [simp]:
  "index (setSide b t q ps) = index b" "elems (setSide b t q ps) = elems b"
  "nextElem (setSide b t q ps) = nextElem b"
  by (simp_all add: setSide_def)

lemma sideMap_setSide:
  "is_side t \<Longrightarrow> is_side t' \<Longrightarrow>
   sideMap (setSide b t q ps) t' = (if t' = t then q else sideMap b t')"
  by (auto simp: is_side_def sideMap_def setSide_def)

lemma sidePrices_setSide:
  "is_side t \<Longrightarrow> is_side t' \<Longrightarrow>
   sidePrices (setSide b t q ps) t' = (if t' = t then ps else sidePrices b t')"
  by (auto simp: is_side_def sidePrices_def setSide_def)

lemma side_record_updates [simp]:
  "sideMap (b\<lparr>index := i\<rparr>) t = sideMap b t" "sideMap (b\<lparr>elems := e\<rparr>) t = sideMap b t"
  "sideMap (b\<lparr>nextElem := n\<rparr>) t = sideMap b t"
  "sidePrices (b\<lparr>index := i\<rparr>) t = sidePrices b t" "sidePrices (b\<lparr>elems := e\<rparr>) t = sidePrices b t"
  "sidePrices (b\<lparr>nextElem := n\<rparr>) t = sidePrices b t"
  by (simp_all add: sideMap_def sidePrices_def)

lemma wf_book_side: "wf_book b \<Longrightarrow> is_side t \<Longrightarrow> wf_side b t"
  by (auto simp: wf_book_def is_side_def)

lemma wf_bookI:
  assumes "\<And>t. is_side t \<Longrightarrow> wf_side b t" "wf_index b"
    and "\<And>a o'. fmlookup (elems b) a = Some o' \<Longrightarrow> a < nextElem b"
  shows "wf_book b"
  using assms by (auto simp: wf_book_def)

lemma wf_queueD:
  assumes "wf_book b" "is_side t" "fmlookup (sideMap b t) p = Some q"
  shows "q \<noteq> []" "distinct q" "a \<in> set q \<Longrightarrow> wf_elem b t p a"
  using wf_book_side [OF assms(1,2)] assms(3) by (auto simp: wf_side_def)

lemma wf_elemD:
  assumes "wf_elem b t p a"
  shows "fmlookup (elems b) a = Some (elemValue b a)"
    and "oTradingType (elemValue b a) = t" and "oPrice (elemValue b a) = p"
    and "oFilledQuantity (elemValue b a) < oQuantity (elemValue b a)"
    and "fmlookup (index b) (oId (elemValue b a)) =
           Some \<lparr>rTradingType = t, rPrice = p, rElem = a\<rparr>"
  using assms by (auto simp: wf_elem_def elemValue_def)

lemma wf_indexD:
  assumes "wf_book b" "fmlookup (index b) i = Some r"
  obtains q where "is_side (rTradingType r)" "oId (elemValue b (rElem r)) = i"
    "fmlookup (sideMap b (rTradingType r)) (rPrice r) = Some q" "rElem r \<in> set q"
    "wf_elem b (rTradingType r) (rPrice r) (rElem r)"
proof -
  obtain q where q: "is_side (rTradingType r)" "oId (elemValue b (rElem r)) = i"
    "fmlookup (sideMap b (rTradingType r)) (rPrice r) = Some q" "rElem r \<in> set q"
    using assms unfolding wf_book_def wf_index_def by blast
  from that [OF q] show ?thesis
    using wf_queueD(3) [OF assms(1) q(1,3,4)] by blast
qed

lemma wf_book_New: "wf_book NewOrderBook"
  by (auto simp: wf_book_def wf_side_def wf_index_def NewOrderBook_def sideMap_def sidePrices_def)

lemma Get_Some_elim:
  assumes "wf_book b" "Get b i = Some o'"
  obtains a where "fmlookup (index b) i = Some \<lparr>rTradingType = oTradingType o', rPrice = oPrice o', rElem = a\<rparr>"
    "o' = elemValue b a" "oId o' = i" "is_side (oTradingType o')" "oFilledQuantity o' < oQuantity o'"
proof -
  obtain r where r: "fmlookup (index b) i = Some r" "o' = elemValue b (rElem r)"
    using assms(2) by (auto simp: Get_def split: option.splits)
  obtain q where q: "is_side (rTradingType r)" "oId (elemValue b (rElem r)) = i"
    "wf_elem b (rTradingType r) (rPrice r) (rElem r)"
    by (rule wf_indexD [OF assms(1) r(1)])
  note wf = wf_elemD [OF q(3)]
  show ?thesis
    by (rule that [of "rElem r"]) (use r q(1,2) wf in simp_all)
qed

text \<open>Every order of a level is the order its id finds, and conversely.\<close>

lemma level_Get:
  assumes "wf_book b" "is_side t" "o' \<in> set (level b t p)"
  shows "Get b (oId o') = Some o'" "oTradingType o' = t" "oPrice o' = p"
    "oFilledQuantity o' < oQuantity o'"
proof -
  obtain q a where q: "fmlookup (sideMap b t) p = Some q" "a \<in> set q" "o' = elemValue b a"
    using assms(3) by (cases "fmlookup (sideMap b t) p") (auto simp: level_def)
  note wf = wf_elemD [OF wf_queueD(3) [OF assms(1,2) q(1,2)]]
  show "Get b (oId o') = Some o'" "oTradingType o' = t" "oPrice o' = p"
    "oFilledQuantity o' < oQuantity o'"
    using wf q(3) by (simp_all add: Get_def)
qed

lemma Get_level:
  assumes "wf_book b" "Get b i = Some o'"
  shows "o' \<in> set (level b (oTradingType o') (oPrice o'))"
proof -
  obtain r where r: "fmlookup (index b) i = Some r" "o' = elemValue b (rElem r)"
    using assms(2) by (auto simp: Get_def split: option.splits)
  obtain q where q: "fmlookup (sideMap b (rTradingType r)) (rPrice r) = Some q"
    "rElem r \<in> set q" "wf_elem b (rTradingType r) (rPrice r) (rElem r)"
    by (rule wf_indexD [OF assms(1) r(1)])
  show ?thesis
    using r(2) q(1,2) wf_elemD(2,3) [OF q(3)] by (simp add: level_def)
qed

lemma level_distinct_ids:
  assumes "wf_book b" "is_side t"
  shows "distinct (map oId (level b t p))"
proof (cases "fmlookup (sideMap b t) p")
  case (Some q)
  note q = wf_queueD [OF assms Some]
  have "inj_on (\<lambda>a. oId (elemValue b a)) (set q)"
  proof (rule inj_onI)
    fix x y assume xy: "x \<in> set q" "y \<in> set q" "oId (elemValue b x) = oId (elemValue b y)"
    then have "Some \<lparr>rTradingType = t, rPrice = p, rElem = x\<rparr> =
      Some \<lparr>rTradingType = t, rPrice = p, rElem = y\<rparr>"
      using wf_elemD(5) [OF q(3) [OF xy(1)]] wf_elemD(5) [OF q(3) [OF xy(2)]] by (simp only:)
    then show "x = y" by simp
  qed
  with q(2) Some show ?thesis by (simp add: level_def distinct_map comp_def)
qed (simp add: level_def)

lemma sidePrices_iff_level:
  assumes "wf_book b" "is_side t"
  shows "p \<in> set (sidePrices b t) \<longleftrightarrow> level b t p \<noteq> []"
proof -
  have "set (sidePrices b t) = fmdom' (sideMap b t)"
    using wf_book_side [OF assms] by (simp add: wf_side_def)
  then show ?thesis
    using wf_queueD(1) [OF assms, of p]
    by (cases "fmlookup (sideMap b t) p") (simp_all add: level_def fmlookup_dom'_iff)
qed

lemma sidePrices_ascending: "wf_book b \<Longrightarrow> is_side t \<Longrightarrow> ascending (sidePrices b t)"
  by (drule (1) wf_book_side) (simp add: wf_side_def)

end
