(* ===== verification/BookLaws.thy ===== *)
theory BookLaws
  imports OrderBook
begin

text \<open>
  What the operations of a well-formed order book do to its two abstract views, the price
  levels (\<open>level\<close>) and the resting order of an id (\<open>Get\<close>), and that each of them keeps the
  book well-formed. \<open>Cancel\<close> and \<open>Fill\<close> are shown never to reach the nil dereference.
\<close>

section \<open>Generic frame lemmas\<close>

lemma wf_elem_frame:
  assumes "wf_elem b t p a"
    and "fmlookup (elems b') a = fmlookup (elems b) a"
    and "fmlookup (index b') (oId (elemValue b a)) = fmlookup (index b) (oId (elemValue b a))"
  shows "wf_elem b' t p a"
  using assms by (auto simp: wf_elem_def elemValue_def)

lemma elemValue_frame:
  "fmlookup (elems b') a = fmlookup (elems b) a \<Longrightarrow> elemValue b' a = elemValue b a"
  by (simp add: elemValue_def)

lemma wf_elem_addr_less: "wf_book b \<Longrightarrow> wf_elem b t p a \<Longrightarrow> a < nextElem b"
  by (auto simp: wf_book_def wf_elem_def)

text \<open>An element is queued at one level only.\<close>

lemma queue_unique:
  assumes "wf_book b" "is_side t" "is_side t'"
    and "fmlookup (sideMap b t) p = Some q" "a \<in> set q"
    and "fmlookup (sideMap b t') p' = Some q'" "a \<in> set q'"
  shows "t' = t" "p' = p" "q' = q"
proof -
  have e: "wf_elem b t p a" "wf_elem b t' p' a"
    using wf_queueD(3) [OF assms(1)] assms by blast+
  show "t' = t" "p' = p"
    using wf_elemD(2,3) [OF e(1)] wf_elemD(2,3) [OF e(2)] by simp_all
  then show "q' = q" using assms by simp
qed

section \<open>Add\<close>

text \<open>The fields after \<open>Add\<close>.\<close>

lemma Add_fields:
  assumes "wf_book b" "is_side (oTradingType o')"
  defines "t \<equiv> oTradingType o'" and "p \<equiv> oPrice o'"
  shows "is_side t' \<Longrightarrow> sideMap (Add b o') t' =
      (if t' = t
       then fmupd p ((case fmlookup (sideMap b t) p of Some q \<Rightarrow> q | None \<Rightarrow> []) @ [nextElem b])
              (sideMap b t)
       else sideMap b t')"
    and "is_side t' \<Longrightarrow> sidePrices (Add b o') t' =
      (if t' = t \<and> fmlookup (sideMap b t) p = None then insort p (sidePrices b t)
       else sidePrices b t')"
    and "index (Add b o') =
      fmupd (oId o') \<lparr>rTradingType = t, rPrice = p, rElem = nextElem b\<rparr> (index b)"
    and "elems (Add b o') = fmupd (nextElem b) o' (elems b)"
    and "nextElem (Add b o') = nextElem b + 1"
proof -
  have "fmlookup (sideMap b t) p = None \<Longrightarrow> p \<notin> set (sidePrices b t)"
    using wf_book_side [OF assms(1,2)] by (auto simp: wf_side_def t_def fmlookup_dom'_iff)
  then have ins: "fmlookup (sideMap b t) p = None \<Longrightarrow>
      slices_Insert (sidePrices b t) (fst (BinarySearch (sidePrices b t) p)) p =
      insort p (sidePrices b t)"
    using sidePrices_ascending [OF assms(1,2)] by (simp add: BinarySearch_Insert t_def)
  show "is_side t' \<Longrightarrow> sideMap (Add b o') t' =
      (if t' = t
       then fmupd p ((case fmlookup (sideMap b t) p of Some q \<Rightarrow> q | None \<Rightarrow> []) @ [nextElem b])
              (sideMap b t)
       else sideMap b t')"
    using assms(2) by (simp add: Add_def Let_def sideMap_setSide t_def p_def)
  show "is_side t' \<Longrightarrow> sidePrices (Add b o') t' =
      (if t' = t \<and> fmlookup (sideMap b t) p = None then insort p (sidePrices b t)
       else sidePrices b t')"
    using assms(2) ins
    by (cases "fmlookup (sideMap b t) p")
      (simp_all add: Add_def Let_def sidePrices_setSide t_def p_def)
  show "index (Add b o') =
      fmupd (oId o') \<lparr>rTradingType = t, rPrice = p, rElem = nextElem b\<rparr> (index b)"
    "elems (Add b o') = fmupd (nextElem b) o' (elems b)"
    "nextElem (Add b o') = nextElem b + 1"
    by (simp_all add: Add_def Let_def t_def p_def)
qed

lemma elemValue_Add:
  assumes "wf_book b" "is_side (oTradingType o')"
  shows "elemValue (Add b o') a = (if a = nextElem b then o' else elemValue b a)"
  by (simp add: elemValue_def Add_fields(4) [OF assms])

lemma Get_Add:
  assumes "wf_book b" "is_side (oTradingType o')"
  shows "Get (Add b o') i = (if i = oId o' then Some o' else Get b i)"
proof (cases "i = oId o'")
  case True
  then show ?thesis
    by (simp add: Get_def Add_fields(3) [OF assms] elemValue_Add [OF assms])
next
  case False
  show ?thesis
  proof (cases "fmlookup (index b) i")
    case (Some r)
    then have "rElem r < nextElem b"
      by (rule wf_indexD [OF assms(1)]) (rule wf_elem_addr_less [OF assms(1)])
    with False Some show ?thesis
      by (simp add: Get_def Add_fields(3) [OF assms] elemValue_Add [OF assms])
  next
    case None
    with False show ?thesis by (simp add: Get_def Add_fields(3) [OF assms])
  qed
qed

lemma level_Add:
  assumes "wf_book b" "is_side (oTradingType o')" "is_side t"
  shows "level (Add b o') t p =
    (if t = oTradingType o' \<and> p = oPrice o' then level b t p @ [o'] else level b t p)"
proof -
  have old: "map (elemValue (Add b o')) q = map (elemValue b) q"
    if "fmlookup (sideMap b t) p' = Some q" for p' q
    using wf_elem_addr_less [OF assms(1)] wf_queueD(3) [OF assms(1,3) that]
    by (auto simp: elemValue_Add [OF assms(1,2)])
  show ?thesis
    by (cases "fmlookup (sideMap b t) p")
      (auto simp: level_def Add_fields(1) [OF assms] old elemValue_Add [OF assms(1,2)])
qed

lemma wf_elem_Add_old:
  assumes "wf_book b" "is_side (oTradingType o')" "Get b (oId o') = None" "wf_elem b t p a"
  shows "wf_elem (Add b o') t p a"
proof (rule wf_elem_frame [OF assms(4)])
  have "a < nextElem b" using assms wf_elem_addr_less by blast
  then show "fmlookup (elems (Add b o')) a = fmlookup (elems b) a"
    by (simp add: Add_fields(4) [OF assms(1,2)])
  have "oId (elemValue b a) \<noteq> oId o'"
    using wf_elemD(5) [OF assms(4)] assms(3) by (auto simp: Get_def)
  then show "fmlookup (index (Add b o')) (oId (elemValue b a)) =
      fmlookup (index b) (oId (elemValue b a))"
    by (simp add: Add_fields(3) [OF assms(1,2)])
qed

lemma wf_elem_Add_new:
  assumes "wf_book b" "is_side (oTradingType o')" "oFilledQuantity o' < oQuantity o'"
  shows "wf_elem (Add b o') (oTradingType o') (oPrice o') (nextElem b)"
  using assms(3) by (simp add: wf_elem_def Add_fields(3,4) [OF assms(1,2)])

lemma wf_side_Add:
  assumes "wf_book b" "is_side (oTradingType o')" "Get b (oId o') = None"
    and "oFilledQuantity o' < oQuantity o'" "is_side t"
  shows "wf_side (Add b o') t"
proof -
  note f = Add_fields(1,2) [OF assms(1,2,5)]
  let ?t = "oTradingType o'" and ?p = "oPrice o'"
  have asc: "ascending (sidePrices b t)" and dom: "set (sidePrices b t) = fmdom' (sideMap b t)"
    using wf_book_side [OF assms(1,5)] by (auto simp: wf_side_def)
  have old: "q \<noteq> [] \<and> distinct q \<and> (\<forall>a\<in>set q. wf_elem (Add b o') t p a) \<and> nextElem b \<notin> set q"
    if "fmlookup (sideMap b t) p = Some q" for p q
    using wf_queueD [OF assms(1,5) that] wf_elem_Add_old [OF assms(1-3)]
      wf_elem_addr_less [OF assms(1)] by blast
  have "ascending (sidePrices (Add b o') t)"
    using asc dom by (auto simp: f(2) fmlookup_dom'_iff intro!: ascending_insort)
  moreover have "set (sidePrices (Add b o') t) = fmdom' (sideMap (Add b o') t)"
    unfolding f using dom by (cases "t = ?t"; cases "fmlookup (sideMap b t) ?p")
      (simp_all add: set_insort_key insert_absorb fmdom'I)
  moreover have "q \<noteq> [] \<and> distinct q \<and> (\<forall>a\<in>set q. wf_elem (Add b o') t p a)"
    if "fmlookup (sideMap (Add b o') t) p = Some q" for p q
    using that old wf_elem_Add_new [OF assms(1,2,4)]
    by (cases "fmlookup (sideMap b t) p") (auto simp: f(1) split: if_splits)
  ultimately show ?thesis by (simp add: wf_side_def)
qed

lemma wf_index_Add:
  assumes "wf_book b" "is_side (oTradingType o')" "Get b (oId o') = None"
  shows "wf_index (Add b o')"
proof -
  have "is_side (rTradingType r) \<and> oId (elemValue (Add b o') (rElem r)) = i \<and>
      (\<exists>q. fmlookup (sideMap (Add b o') (rTradingType r)) (rPrice r) = Some q \<and> rElem r \<in> set q)"
    if r: "fmlookup (index (Add b o')) i = Some r" for i r
  proof (cases "i = oId o'")
    case True
    with r have [simp]: "r = \<lparr>rTradingType = oTradingType o', rPrice = oPrice o', rElem = nextElem b\<rparr>"
      by (simp add: Add_fields(3) [OF assms(1,2)])
    show ?thesis
      using assms(2) True by (simp add: elemValue_Add [OF assms(1,2)] Add_fields(1) [OF assms(1,2)])
  next
    case False
    with r have "fmlookup (index b) i = Some r" by (simp add: Add_fields(3) [OF assms(1,2)])
    then obtain q where q: "is_side (rTradingType r)" "oId (elemValue b (rElem r)) = i"
      "fmlookup (sideMap b (rTradingType r)) (rPrice r) = Some q" "rElem r \<in> set q"
      "wf_elem b (rTradingType r) (rPrice r) (rElem r)"
      by (rule wf_indexD [OF assms(1)])
    have "rElem r \<noteq> nextElem b" using wf_elem_addr_less [OF assms(1) q(5)] by simp
    with q show ?thesis
      by (auto simp: elemValue_Add [OF assms(1,2)] Add_fields(1) [OF assms(1,2)])
  qed
  then show ?thesis by (simp add: wf_index_def)
qed

lemma wf_book_Add:
  assumes "wf_book b" "is_side (oTradingType o')" "Get b (oId o') = None"
    and "oFilledQuantity o' < oQuantity o'"
  shows "wf_book (Add b o')"
proof (rule wf_bookI)
  fix a x assume "fmlookup (elems (Add b o')) a = Some x"
  then show "a < nextElem (Add b o')"
    using assms(1) by (auto simp: Add_fields(4,5) [OF assms(1,2)] wf_book_def less_Suc_eq
        split: if_splits)
qed (simp_all add: wf_side_Add [OF assms] wf_index_Add [OF assms(1-3)])

section \<open>Removing an order\<close>

text \<open>
  Removing an element takes it out of its queue, drops the queue when it was the last one,
  keeps the price slice in step, and drops the index entry. Since an element is queued once,
  the queues of the new book are the old ones filtered.
\<close>

definition without_elem :: "addr \<Rightarrow> addr list \<Rightarrow> addr list option" where
  "without_elem a q = (let q' = filter (\<lambda>x. x \<noteq> a) q in if q' = [] then None else Some q')"

definition removed_from :: "OrderBook \<Rightarrow> int64 \<Rightarrow> addr \<Rightarrow> OrderBook \<Rightarrow> bool" where
  "removed_from b i a b' \<longleftrightarrow>
     (\<forall>t. is_side t \<longrightarrow>
        fmlookup (sideMap b' t) = (\<lambda>p. Option.bind (fmlookup (sideMap b t) p) (without_elem a)) \<and>
        ascending (sidePrices b' t) \<and> set (sidePrices b' t) = fmdom' (sideMap b' t)) \<and>
     index b' = fmdrop i (index b) \<and> elems b' = elems b \<and> nextElem b' = nextElem b"

lemma without_elem_idle: "a \<notin> set q \<Longrightarrow> q \<noteq> [] \<Longrightarrow> without_elem a q = Some q"
  by (subgoal_tac "filter (\<lambda>x. x \<noteq> a) q = q") (auto simp: without_elem_def filter_id_conv)

lemma without_elem_remove1:
  "distinct q \<Longrightarrow> without_elem a q = (if remove1 a q = [] then None else Some (remove1 a q))"
  by (simp add: without_elem_def distinct_remove1_removeAll removeAll_filter_not_eq Let_def
      eq_commute [of a])

text \<open>The side map after \<open>removeRef\<close> is the filtered one.\<close>

lemma removed_side:
  assumes "wf_book b" "is_side t" "fmlookup (sideMap b t) p = Some q" "a \<in> set q" "is_side t'"
  shows "Option.bind (fmlookup (sideMap b t') p') (without_elem a) =
    (if t' = t \<and> p' = p then (if remove1 a q = [] then None else Some (remove1 a q))
     else fmlookup (sideMap b t') p')"
proof (cases "fmlookup (sideMap b t') p'")
  case (Some q')
  show ?thesis
  proof (cases "t' = t \<and> p' = p")
    case True
    with Some assms(3) wf_queueD(2) [OF assms(1-3)] show ?thesis
      by (simp add: without_elem_remove1)
  next
    case False
    then have "a \<notin> set q'" using queue_unique(1,2) [OF assms(1,2,5,3,4) Some] by blast
    with False Some wf_queueD(1) [OF assms(1,5) Some] show ?thesis
      by (auto simp: without_elem_idle)
  qed
next
  case None
  with assms(3) show ?thesis by auto
qed

lemma removeRef_removed:
  assumes "wf_book b" "fmlookup (index b) i = Some r"
  obtains b' where "removeRef b i r = Some b'" "removed_from b i (rElem r) b'"
proof -
  define t p where "t = rTradingType r" and "p = rPrice r"
  obtain q where q: "is_side t" "fmlookup (sideMap b t) p = Some q" "rElem r \<in> set q"
    unfolding t_def p_def by (rule wf_indexD [OF assms])
  define q' where "q' = remove1 (rElem r) q"
  note asc = sidePrices_ascending [OF assms(1) q(1)]
  have dom: "set (sidePrices b t) = fmdom' (sideMap b t)" if "is_side t" for t
    using wf_book_side [OF assms(1) that] by (simp add: wf_side_def)
  have p: "p \<in> set (sidePrices b t)" using q by (simp add: dom fmlookup_dom'_iff)
  have srch: "BinarySearch (sidePrices b t) p =
      (length (takeWhile (\<lambda>x. x < p) (sidePrices b t)), True)"
    using p by (simp add: BinarySearch_sorted [OF asc])
  note del = BinarySearch_Delete [OF asc p, unfolded srch fst_conv]
  define b' where "b' = (setSide b t
      (if q' = [] then fmdrop p (sideMap b t) else fmupd p q' (sideMap b t))
      (if q' = [] then remove1 p (sidePrices b t) else sidePrices b t))\<lparr>index := fmdrop i (index b)\<rparr>"
  have rm: "removeRef b i r = Some b'"
    using q(2) del by (simp add: removeRef_def b'_def Let_def srch q'_def flip: t_def p_def)
  have side: "fmlookup (sideMap b' t') p' =
      Option.bind (fmlookup (sideMap b t') p') (without_elem (rElem r))" if "is_side t'" for t' p'
    using q(1) that by (simp add: removed_side [OF assms(1) q that] b'_def sideMap_setSide q'_def)
  have prices: "ascending (sidePrices b' t') \<and> set (sidePrices b' t') = fmdom' (sideMap b' t')"
    if "is_side t'" for t'
    using q(1,2) that dom sidePrices_ascending [OF assms(1)] asc
    by (auto simp: b'_def sideMap_setSide sidePrices_setSide ascending_remove1 set_remove1_eq
        ascending_distinct fmlookup_dom'_iff)
  have "removed_from b i (rElem r) b'"
    unfolding removed_from_def using side prices by (auto simp: b'_def)
  with rm show ?thesis by (rule that)
qed

text \<open>
  It does not read the stored orders, so it commutes with overwriting one, which is how
  \<open>Fill\<close> uses it on a fully filled order.
\<close>

lemma removeRef_elems:
  "removeRef (b\<lparr>elems := e\<rparr>) i r = map_option (\<lambda>b'. b'\<lparr>elems := e\<rparr>) (removeRef b i r)"
  by (auto simp: removeRef_def Let_def setSide_def split: option.split prod.split)

lemma index_other_id:
  assumes "wf_book b" "fmlookup (index b) i = Some r"
    and "is_side t" "fmlookup (sideMap b t) p = Some q" "a \<in> set q"
  shows "oId (elemValue b a) = i \<longleftrightarrow> a = rElem r"
proof
  assume "oId (elemValue b a) = i"
  then have "r = \<lparr>rTradingType = t, rPrice = p, rElem = a\<rparr>"
    using wf_elemD(5) [OF wf_queueD(3) [OF assms(1,3-5)]] assms(2) by simp
  then show "a = rElem r" by simp
next
  assume "a = rElem r"
  moreover have "oId (elemValue b (rElem r)) = i" by (rule wf_indexD [OF assms(1,2)])
  ultimately show "oId (elemValue b a) = i" by simp
qed

lemma removed_val: "removed_from b i c b' \<Longrightarrow> elemValue b' a = elemValue b a"
  by (simp add: removed_from_def elemValue_def)

lemma removed_queue:
  assumes "removed_from b i c b'" "is_side t" "fmlookup (sideMap b' t) p = Some q'"
  obtains q where "fmlookup (sideMap b t) p = Some q" "q' = filter (\<lambda>x. x \<noteq> c) q" "q' \<noteq> []"
  using assms by (auto simp: removed_from_def without_elem_def Let_def bind_eq_Some_conv
      split: if_splits)

lemma removed_level:
  assumes wf: "wf_book b" and idx: "fmlookup (index b) i = Some r"
    and rem: "removed_from b i (rElem r) b'"
    and side: "is_side t"
  shows "level b' t p = filter (\<lambda>o'. oId o' \<noteq> i) (level b t p)"
proof (cases "fmlookup (sideMap b t) p")
  case (Some q)
  have "filter (\<lambda>o'. oId o' \<noteq> i) (map (elemValue b) q) =
      map (elemValue b) (filter (\<lambda>a. a \<noteq> rElem r) q)"
    using index_other_id [OF wf idx side Some] by (auto simp: filter_map comp_def intro!: filter_cong arg_cong [of _ _ "map (elemValue b)"])
  moreover have "elemValue b' = elemValue b" using removed_val [OF rem] by auto
  ultimately show ?thesis
    using Some rem side by (simp add: level_def removed_from_def without_elem_def Let_def)
next
  case None
  with rem side show ?thesis by (simp add: level_def removed_from_def)
qed

lemma removed_elem:
  assumes wf: "wf_book b" and idx: "fmlookup (index b) i = Some r"
    and rem: "removed_from b i (rElem r) b'"
    and q: "is_side t" "fmlookup (sideMap b t) p = Some q" "a \<in> set q" and "a \<noteq> rElem r"
  shows "wf_elem b' t p a"
  by (rule wf_elem_frame [OF wf_queueD(3) [OF wf q]])
    (use index_other_id [OF wf idx q] assms(7) rem in \<open>auto simp: removed_from_def\<close>)

lemma removed_wf_side:
  assumes wf: "wf_book b" and idx: "fmlookup (index b) i = Some r"
    and rem: "removed_from b i (rElem r) b'"
    and side: "is_side t"
  shows "wf_side b' t"
proof -
  have "q' \<noteq> [] \<and> distinct q' \<and> (\<forall>a\<in>set q'. wf_elem b' t p a)"
    if q': "fmlookup (sideMap b' t) p = Some q'" for p q'
  proof -
    obtain q where "fmlookup (sideMap b t) p = Some q" "q' = filter (\<lambda>x. x \<noteq> rElem r) q" "q' \<noteq> []"
      using removed_queue [OF rem side q'] .
    then show ?thesis
      using removed_elem [OF wf idx rem side] wf_queueD(2) [OF wf side] by auto
  qed
  with rem side show ?thesis by (simp add: wf_side_def removed_from_def)
qed

lemma removed_wf_index:
  assumes wf: "wf_book b" and idx: "fmlookup (index b) i = Some r"
    and rem: "removed_from b i (rElem r) b'"
  shows "wf_index b'"
proof -
  have "is_side (rTradingType s) \<and> oId (elemValue b' (rElem s)) = j \<and>
      (\<exists>q1. fmlookup (sideMap b' (rTradingType s)) (rPrice s) = Some q1 \<and> rElem s \<in> set q1)"
    if "fmlookup (index b') j = Some s" for j s
  proof -
    have j: "j \<noteq> i" "fmlookup (index b) j = Some s"
      using that rem by (auto simp: removed_from_def split: if_splits)
    obtain q where q: "is_side (rTradingType s)" "oId (elemValue b (rElem s)) = j"
        "fmlookup (sideMap b (rTradingType s)) (rPrice s) = Some q" "rElem s \<in> set q"
      by (rule wf_indexD [OF wf j(2)])
    have "rElem s \<noteq> rElem r" using index_other_id [OF wf idx q(1,3,4)] q(2) j(1) by simp
    with q(4) have "without_elem (rElem r) q = Some (filter (\<lambda>x. x \<noteq> rElem r) q)"
      "rElem s \<in> set (filter (\<lambda>x. x \<noteq> rElem r) q)"
      by (auto simp: without_elem_def filter_empty_conv Let_def)
    with q rem show ?thesis by (simp add: removed_val [OF rem]) (simp add: removed_from_def)
  qed
  then show ?thesis by (simp add: wf_index_def)
qed

lemma removed_wf:
  assumes wf: "wf_book b" and idx: "fmlookup (index b) i = Some r"
    and rem: "removed_from b i (rElem r) b'"
  shows "wf_book b'"
  using wf rem by (intro wf_bookI removed_wf_side [OF assms] removed_wf_index [OF assms])
    (auto simp: removed_from_def wf_book_def)

lemma removed_Get:
  "removed_from b i c b' \<Longrightarrow> Get b' j = (if j = i then None else Get b j)"
  by (cases "j = i") (simp_all add: Get_def elemValue_def removed_from_def split: option.split)

lemma removed_unqueued:
  assumes "removed_from b i c b'" "is_side t" "fmlookup (sideMap b' t) p = Some q"
  shows "c \<notin> set q"
  by (rule removed_queue [OF assms]) simp

section \<open>Cancel\<close>

lemma Cancel_absent: "Get b i = None \<Longrightarrow> Cancel b i = Some (False, b)"
  by (simp add: Get_def Cancel_def split: option.splits)

lemma Cancel_resting:
  assumes "wf_book b" "Get b i = Some o'"
  obtains b' where "Cancel b i = Some (True, b')" "wf_book b'"
    "\<And>j. Get b' j = (if j = i then None else Get b j)"
    "\<And>t p. is_side t \<Longrightarrow> level b' t p = filter (\<lambda>x. oId x \<noteq> i) (level b t p)"
proof -
  obtain r where r: "fmlookup (index b) i = Some r"
    using assms(2) by (auto simp: Get_def split: option.splits)
  obtain b' where b': "removeRef b i r = Some b'" "removed_from b i (rElem r) b'"
    by (rule removeRef_removed [OF assms(1) r])
  show ?thesis
    by (rule that [OF _ removed_wf [OF assms(1) r b'(2)] removed_Get [OF b'(2)]
          removed_level [OF assms(1) r b'(2)]])
      (simp add: Cancel_def r b'(1))
qed

section \<open>Fill\<close>

definition fill_order :: "uint64 \<Rightarrow> Order \<Rightarrow> Order" where
  "fill_order f x = x\<lparr>oFilledQuantity := oFilledQuantity x + f\<rparr>"

abbreviation remaining :: "Order \<Rightarrow> uint64" where
  "remaining x \<equiv> oQuantity x - oFilledQuantity x"

lemma fill_order_simps [simp]:
  "oId (fill_order f x) = oId x" "oTargetId (fill_order f x) = oTargetId x"
  "oAccountId (fill_order f x) = oAccountId x" "oStockId (fill_order f x) = oStockId x"
  "oPrice (fill_order f x) = oPrice x" "oQuantity (fill_order f x) = oQuantity x"
  "oFilledQuantity (fill_order f x) = oFilledQuantity x + f"
  "oOrderType (fill_order f x) = oOrderType x" "oTradingType (fill_order f x) = oTradingType x"
  "oCreatedAt (fill_order f x) = oCreatedAt x"
  by (simp_all add: fill_order_def)

lemma fill_below:
  assumes "a < (q::uint64)" "f < q - a"
  shows "a + f < q"
proof -
  have "unat f < unat q - unat a" "unat a < unat q"
    using assms by (simp_all add: word_less_nat_alt unat_sub_le less_imp_le)
  then have "unat (a + f) = unat a + unat f"
    using unat_64_less [of q] by (intro unat_add_less) simp
  with \<open>unat f < unat q - unat a\<close> show ?thesis by (simp add: word_less_nat_alt)
qed

lemma Fill_absent: "Get b i = None \<Longrightarrow> Fill b i want = Some (0, b)"
  by (simp add: Get_def Fill_def split: option.splits)

text \<open>Overwriting a stored order by one with the same identity, side and price.\<close>

lemma elems_upd_level:
  assumes wf: "wf_book b" and idx: "fmlookup (index b) i = Some r"
    and side: "is_side t"
  shows "level (b\<lparr>elems := fmupd (rElem r) y (elems b)\<rparr>) t p =
    map (\<lambda>x. if oId x = i then y else x) (level b t p)"
proof (cases "fmlookup (sideMap b t) p")
  case (Some q)
  have "elemValue (b\<lparr>elems := fmupd (rElem r) y (elems b)\<rparr>) a =
      (if oId (elemValue b a) = i then y else elemValue b a)" if "a \<in> set q" for a
    using index_other_id [OF wf idx side Some that] by (simp add: elemValue_def)
  with Some show ?thesis by (simp add: level_def)
qed (simp add: level_def)

lemma elems_upd_Get:
  assumes wf: "wf_book b" and idx: "fmlookup (index b) i = Some r"
  shows "Get (b\<lparr>elems := fmupd (rElem r) y (elems b)\<rparr>) j = (if j = i then Some y else Get b j)"
proof (cases "fmlookup (index b) j")
  case (Some s)
  obtain q where q: "is_side (rTradingType s)" "oId (elemValue b (rElem s)) = j"
      "fmlookup (sideMap b (rTradingType s)) (rPrice s) = Some q" "rElem s \<in> set q"
    by (rule wf_indexD [OF wf Some])
  have "rElem s = rElem r \<longleftrightarrow> j = i"
    using index_other_id [OF wf idx q(1,3,4)] q(2) by auto
  with Some idx show ?thesis by (auto simp: Get_def elemValue_def)
qed (use idx in \<open>auto simp: Get_def\<close>)

lemma elems_upd_wf:
  assumes wf: "wf_book b" and idx: "fmlookup (index b) i = Some r"
    and y: "oId y = i" "oTradingType y = rTradingType r" "oPrice y = rPrice r"
      "oFilledQuantity y < oQuantity y"
  shows "wf_book (b\<lparr>elems := fmupd (rElem r) y (elems b)\<rparr>)" (is "wf_book ?b")
proof (rule wf_bookI)
  fix t assume t: "is_side t"
  have "wf_elem ?b t p a" if q: "fmlookup (sideMap b t) p = Some q" "a \<in> set q" for p q a
  proof (cases "a = rElem r")
    case True
    then have "oId (elemValue b a) = i" using index_other_id [OF wf idx t q] by simp
    then have r: "fmlookup (index b) i = Some \<lparr>rTradingType = t, rPrice = p, rElem = a\<rparr>"
      using wf_elemD(5) [OF wf_queueD(3) [OF wf t q]] by simp
    then have "rTradingType r = t" "rPrice r = p" using idx by simp_all
    with y r True show ?thesis by (simp add: wf_elem_def)
  next
    case False
    then show ?thesis
      by (intro wf_elem_frame [OF wf_queueD(3) [OF wf t q]]) simp_all
  qed
  then show "wf_side ?b t" using wf_book_side [OF wf t] by (simp add: wf_side_def)
next
  have "oId (elemValue ?b (rElem s)) = j" if "fmlookup (index b) j = Some s" for j s
  proof -
    have "oId (elemValue b (rElem s)) = j" by (rule wf_indexD [OF wf that])
    moreover have "rElem s = rElem r \<Longrightarrow> j = i"
      using calculation wf_indexD [OF wf idx] by metis
    ultimately show ?thesis using y(1) by (auto simp: elemValue_def)
  qed
  then show "wf_index ?b" using wf by (simp add: wf_book_def wf_index_def)
next
  fix a x assume "fmlookup (elems ?b) a = Some x"
  moreover have "rElem r < nextElem b"
    by (rule wf_indexD [OF wf idx]) (rule wf_elem_addr_less [OF wf])
  ultimately show "a < nextElem ?b" using wf by (auto simp: wf_book_def split: if_splits)
qed

lemma Fill_partial:
  assumes wf: "wf_book b" and get: "Get b i = Some o'"
    and "want \<noteq> 0" "want < remaining o'"
  obtains b' where "Fill b i want = Some (want, b')" "wf_book b'"
    "\<And>j. Get b' j = (if j = i then Some (fill_order want o') else Get b j)"
    "\<And>t p. is_side t \<Longrightarrow>
       level b' t p = map (\<lambda>x. if oId x = i then fill_order want o' else x) (level b t p)"
    "\<And>t. sidePrices b' t = sidePrices b t"
proof -
  obtain a where a: "fmlookup (index b) i = Some \<lparr>rTradingType = oTradingType o', rPrice = oPrice o', rElem = a\<rparr>"
    "o' = elemValue b a" "oId o' = i" "oFilledQuantity o' < oQuantity o'"
    by (rule Get_Some_elim [OF wf get])
  let ?b = "b\<lparr>elems := fmupd a (fill_order want o') (elems b)\<rparr>"
  have less: "oFilledQuantity o' + want < oQuantity o'"
    using fill_below [OF a(4) assms(4)] .
  show ?thesis
  proof (rule that [of ?b])
    show "Fill b i want = Some (want, ?b)"
      using a(1,2) assms(3,4) less by (auto simp: Fill_def fill_order_def Let_def min_def)
    show "wf_book ?b"
      using elems_upd_wf [OF wf a(1), of "fill_order want o'"] a(3) less by simp
    show "Get ?b j = (if j = i then Some (fill_order want o') else Get b j)" for j
      using elems_upd_Get [OF wf a(1)] by simp
    show "level ?b t p = map (\<lambda>x. if oId x = i then fill_order want o' else x) (level b t p)"
      if "is_side t" for t p
      using elems_upd_level [OF wf a(1) that] by simp
  qed simp
qed

text \<open>A stored order that is queued nowhere may change without effect.\<close>

lemma unqueued_upd:
  fixes y :: Order
  assumes wf: "wf_book b" and "c < nextElem b"
    and un: "\<And>t p q. is_side t \<Longrightarrow> fmlookup (sideMap b t) p = Some q \<Longrightarrow> c \<notin> set q"
  defines "b' \<equiv> b\<lparr>elems := fmupd c y (elems b)\<rparr>"
  shows "wf_book b'" "Get b' j = Get b j" "is_side t \<Longrightarrow> level b' t p = level b t p"
proof -
  have val: "elemValue b' a = elemValue b a"
    if "is_side t" "fmlookup (sideMap b t) p = Some q" "a \<in> set q" for t p q a
    using un [OF that(1,2)] that(3) by (auto simp: b'_def elemValue_def)
  have ival: "elemValue b' (rElem s) = elemValue b (rElem s)"
    if "fmlookup (index b) j = Some s" for j s
    by (rule wf_indexD [OF wf that]) (rule val)
  show "Get b' j = Get b j"
    using ival by (auto simp: Get_def b'_def split: option.splits)
  show "is_side t \<Longrightarrow> level b' t p = level b t p"
    using val by (auto simp: level_def b'_def split: option.splits)
  show "wf_book b'"
  proof (rule wf_bookI)
    fix t assume t: "is_side t"
    have "wf_elem b' t p a" if q: "fmlookup (sideMap b t) p = Some q" "a \<in> set q" for p q a
      using un [OF t q(1)] q(2)
      by (intro wf_elem_frame [OF wf_queueD(3) [OF wf t q]]) (auto simp: b'_def)
    then show "wf_side b' t" using wf_book_side [OF wf t] by (simp add: wf_side_def b'_def)
  next
    show "wf_index b'"
      using wf ival by (simp add: wf_book_def wf_index_def b'_def)
  next
    fix a x assume "fmlookup (elems b') a = Some x"
    then show "a < nextElem b'"
      using wf assms(2) by (auto simp: b'_def wf_book_def split: if_splits)
  qed
qed

lemma Fill_full:
  assumes wf: "wf_book b" and get: "Get b i = Some o'" and want: "remaining o' \<le> want"
  obtains b' where "Fill b i want = Some (remaining o', b')" "wf_book b'"
    "\<And>j. Get b' j = (if j = i then None else Get b j)"
    "\<And>t p. is_side t \<Longrightarrow> level b' t p = filter (\<lambda>x. oId x \<noteq> i) (level b t p)"
proof -
  obtain a where a: "fmlookup (index b) i = Some \<lparr>rTradingType = oTradingType o', rPrice = oPrice o', rElem = a\<rparr>"
    (is "_ = Some ?r") "o' = elemValue b a" "oFilledQuantity o' < oQuantity o'"
    by (rule Get_Some_elim [OF wf get])
  obtain b1 where b1: "removeRef b i ?r = Some b1" "removed_from b i a b1"
    by (rule removeRef_removed [OF wf a(1)]) simp
  have rem: "removed_from b i (rElem ?r) b1" using b1(2) by simp
  let ?b = "b1\<lparr>elems := fmupd a (fill_order (remaining o') o') (elems b1)\<rparr>"
  have e1: "elems b1 = elems b" using b1(2) by (simp add: removed_from_def)
  have "wf_elem b (oTradingType o') (oPrice o') a"
    by (rule wf_indexD [OF wf a(1)]) simp
  then have less: "a < nextElem b1"
    using wf_elem_addr_less [OF wf] b1(2) by (auto simp: removed_from_def)
  note upd = unqueued_upd [OF removed_wf [OF wf a(1) rem] less removed_unqueued [OF b1(2)]]
  have pos: "remaining o' \<noteq> 0" using a(3) by auto
  have "Fill b i want = Some (remaining o', ?b)"
    using a(1,2) want pos b1(1) by (simp add: Fill_def Let_def min_absorb2 removeRef_elems
        fill_order_def e1)
  then show ?thesis
    by (rule that) (use upd removed_Get [OF b1(2)] removed_level [OF wf a(1) rem] in simp_all)
qed

text \<open>Whatever is asked, no more is filled than was asked.\<close>

lemma Fill_le_want: "Fill b i want = Some (f, b') \<Longrightarrow> f \<le> want"
  by (auto simp: Fill_def Let_def split: option.splits if_splits)

end
