(* ===== verification/BookSpec.thy ===== *)
theory BookSpec
  imports BookLaws
begin

text \<open>
  The specification of an order book and the refinement to it. One side of a book is a
  price-time priority queue: the list of its resting orders, best price first and, within a
  price, first come first served. \<open>prio\<close> is the abstraction function; adding an order is
  inserting it behind every order with a price at least as good, cancelling is filtering,
  and filling the front order shrinks or drops the head of the list.

  The second view, the finite set of resting orders by id, is the interface
  \<open>resting_orders\<close> the accounting proofs use: what one operation does to the sum of a
  quantity over all resting orders.
\<close>

section \<open>The resting orders as an interface\<close>

text \<open>
  A reservation weight \<open>c\<close> counts, per unit of unfilled quantity, what an order holds back;
  filling does not change it. \<open>held c\<close> is what the order still holds back.
\<close>

definition fill_stable :: "(Order \<Rightarrow> nat) \<Rightarrow> bool" where
  "fill_stable c \<longleftrightarrow> (\<forall>f x. c (fill_order f x) = c x)"

definition held :: "(Order \<Rightarrow> nat) \<Rightarrow> Order \<Rightarrow> nat" where
  "held c x = c x * unat (remaining x)"

lemma held_fill_order:
  assumes "fill_stable c" "oFilledQuantity x \<le> oQuantity x" "f \<le> remaining x"
  shows "held c (fill_order f x) + c x * unat f = held c x"
proof -
  have "unat (remaining (fill_order f x)) + unat f = unat (remaining x)"
    using assms(3) by (simp add: diff_diff_eq [symmetric] unat_sub_le word_le_nat_alt)
  then show ?thesis
    using assms(1) by (simp add: held_def fill_stable_def flip: distrib_left)
qed

locale resting_orders =
  fixes wf :: "'b \<Rightarrow> bool"
    and get :: "'b \<Rightarrow> int64 \<Rightarrow> Order option"
    and add :: "'b \<Rightarrow> Order \<Rightarrow> 'b"
    and cancel :: "'b \<Rightarrow> int64 \<Rightarrow> (bool \<times> 'b) option"
    and fill :: "'b \<Rightarrow> int64 \<Rightarrow> uint64 \<Rightarrow> (uint64 \<times> 'b) option"
  assumes finite_get: "finite (dom (get b))"
    and get_unfilled: "wf b \<Longrightarrow> get b i = Some x \<Longrightarrow> oFilledQuantity x < oQuantity x"
    and get_add: "wf b \<Longrightarrow> is_side (oTradingType x) \<Longrightarrow> get (add b x) = (get b)(oId x \<mapsto> x)"
    and get_cancel: "wf b \<Longrightarrow> get b i = Some x \<Longrightarrow>
      \<exists>b'. cancel b i = Some (True, b') \<and> wf b' \<and> get b' = (get b)(i := None)"
    and get_fill: "wf b \<Longrightarrow> get b i = Some x \<Longrightarrow> want \<noteq> 0 \<Longrightarrow>
      \<exists>b'. fill b i want = Some (min want (remaining x), b') \<and> wf b' \<and>
        get b' = (get b)(i := (if want < remaining x then Some (fill_order want x) else None))"
begin

text \<open>The amounts held back after each operation.\<close>

lemma held_add:
  assumes "wf b" "is_side (oTradingType x)" "get b (oId x) = None"
  shows "osum (get (add b x)) (held c) = osum (get b) (held c) + held c x"
  using assms by (simp add: get_add osum_add finite_get)

lemma held_cancel:
  assumes "wf b" "get b i = Some x"
  obtains b' where "cancel b i = Some (True, b')" "wf b'" "get b' = (get b)(i := None)"
    "\<And>c. osum (get b') (held c) + held c x = osum (get b) (held c)"
  using get_cancel [OF assms] osum_remove [OF finite_get assms(2)] by metis

lemma held_fill:
  assumes "wf b" "get b i = Some x" "want \<noteq> 0"
  obtains b' f where "fill b i want = Some (f, b')" "wf b'" "f = min want (remaining x)" "f \<noteq> 0"
    "get b' = (get b)(i := (if want < remaining x then Some (fill_order want x) else None))"
    "\<And>c. fill_stable c \<Longrightarrow> osum (get b') (held c) + c x * unat f = osum (get b) (held c)"
proof -
  let ?f = "min want (remaining x)"
  obtain b' where b': "fill b i want = Some (?f, b')" "wf b'"
      "get b' = (get b)(i := (if want < remaining x then Some (fill_order want x) else None))"
    using get_fill [OF assms] by blast
  have less: "oFilledQuantity x < oQuantity x" using get_unfilled [OF assms(1,2)] .
  have "osum (get b') (held c) + c x * unat ?f = osum (get b) (held c)"
    if c: "fill_stable c" for c
  proof (cases "want < remaining x")
    case True
    with b'(3) held_fill_order [OF c, of x want] less
      osum_replace [OF finite_get assms(2), of "fill_order want x" "held c"]
    show ?thesis by (simp add: min_absorb1 less_imp_le)
  next
    case False
    with b'(3) osum_remove [OF finite_get assms(2), of "held c"] show ?thesis
      by (simp add: min_absorb2 held_def)
  qed
  moreover have "?f \<noteq> 0" using assms(3) less by (auto simp: min_def)
  ultimately show ?thesis using b' that by blast
qed

end

lemma finite_Get: "finite (dom (Get b))"
proof (rule finite_subset)
  show "dom (Get b) \<subseteq> fmdom' (index b)"
    by (auto simp: Get_def fmlookup_dom'_iff split: option.splits)
qed simp

interpretation book: resting_orders wf_book Get Add Cancel Fill
proof
  fix b :: OrderBook and i x and want :: uint64
  show "finite (dom (Get b))" by (rule finite_Get)
  show "wf_book b \<Longrightarrow> is_side (oTradingType x) \<Longrightarrow> Get (Add b x) = (Get b)(oId x \<mapsto> x)"
    by (auto simp: Get_Add)
  assume wf: "wf_book b" and get: "Get b i = Some x"
  show "oFilledQuantity x < oQuantity x" by (rule Get_Some_elim [OF wf get])
  show "\<exists>b'. Cancel b i = Some (True, b') \<and> wf_book b' \<and> Get b' = (Get b)(i := None)"
    by (rule Cancel_resting [OF wf get]) auto
  assume "want \<noteq> 0"
  show "\<exists>b'. Fill b i want = Some (min want (remaining x), b') \<and> wf_book b' \<and>
      Get b' = (Get b)(i := (if want < remaining x then Some (fill_order want x) else None))"
  proof (cases "want < remaining x")
    case True
    show ?thesis
      by (rule Fill_partial [OF wf get \<open>want \<noteq> 0\<close> True])
        (use True in \<open>auto simp: min_absorb1 less_imp_le\<close>)
  next
    case False
    then have "remaining x \<le> want" by simp
    show ?thesis
      by (rule Fill_full [OF wf get \<open>remaining x \<le> want\<close>])
        (use False in \<open>auto simp: min_absorb2\<close>)
  qed
qed

section \<open>Price-time priority\<close>

definition priceBetter :: "TradingType \<Rightarrow> uint64 \<Rightarrow> uint64 \<Rightarrow> bool" where
  "priceBetter t p q \<longleftrightarrow> (if t = TRADING_SELL then p < q else q < p)"

definition bestFirst :: "OrderBook \<Rightarrow> TradingType \<Rightarrow> uint64 list" where
  "bestFirst b t = (if t = TRADING_SELL then sidePrices b t else rev (sidePrices b t))"

definition prio :: "OrderBook \<Rightarrow> TradingType \<Rightarrow> Order list" where
  "prio b t = concat (map (level b t) (bestFirst b t))"

definition insertPrio :: "TradingType \<Rightarrow> Order \<Rightarrow> Order list \<Rightarrow> Order list" where
  "insertPrio t x xs =
     (let ahead = (\<lambda>y. \<not> priceBetter t (oPrice x) (oPrice y))
      in takeWhile ahead xs @ x # dropWhile ahead xs)"

definition bestPrice :: "OrderBook \<Rightarrow> TradingType \<Rightarrow> uint64 option" where
  "bestPrice b t = (if t = TRADING_SELL then BestAsk b else BestBid b)"

lemma priceBetter_side:
  "priceBetter TRADING_SELL = (<)" "t \<noteq> TRADING_SELL \<Longrightarrow> priceBetter t = (>)"
  by (auto simp: priceBetter_def fun_eq_iff)

lemma bestFirst_sorted:
  assumes "wf_book b" "is_side t"
  shows "sorted_wrt (priceBetter t) (bestFirst b t)"
  using sidePrices_ascending [OF assms]
  by (cases "t = TRADING_SELL") (simp_all add: bestFirst_def priceBetter_side sorted_wrt_rev)

lemma set_bestFirst:
  "wf_book b \<Longrightarrow> is_side t \<Longrightarrow> p \<in> set (bestFirst b t) \<longleftrightarrow> level b t p \<noteq> []"
  by (simp add: bestFirst_def sidePrices_iff_level)

lemma set_prio:
  assumes "wf_book b" "is_side t"
  shows "x \<in> set (prio b t) \<longleftrightarrow> Get b (oId x) = Some x \<and> oTradingType x = t"
proof
  assume "x \<in> set (prio b t)"
  then show "Get b (oId x) = Some x \<and> oTradingType x = t"
    using level_Get(1,2) [OF assms] by (auto simp: prio_def)
next
  assume x: "Get b (oId x) = Some x \<and> oTradingType x = t"
  then have "x \<in> set (level b t (oPrice x))"
    using Get_level [OF assms(1), of "oId x" x] by simp
  then show "x \<in> set (prio b t)"
    using set_bestFirst [OF assms, of "oPrice x"] by (auto simp: prio_def)
qed

text \<open>The price slice of a side lists the non-empty levels, so it can be recomputed.\<close>

lemma sidePrices_filter:
  assumes "wf_book b" "wf_book b'" "is_side t"
    and "\<And>p. level b t p = [] \<Longrightarrow> level b' t p = []"
  shows "sidePrices b' t = filter (\<lambda>p. level b' t p \<noteq> []) (sidePrices b t)"
proof (rule strict_sorted_equal)
  show "ascending (sidePrices b' t)" using sidePrices_ascending [OF assms(2,3)] .
  show "ascending (filter (\<lambda>p. level b' t p \<noteq> []) (sidePrices b t))"
    using sidePrices_ascending [OF assms(1,3)] by (rule sorted_wrt_filter)
  show "set (sidePrices b' t) = set (filter (\<lambda>p. level b' t p \<noteq> []) (sidePrices b t))"
    using assms(4) by (auto simp: sidePrices_iff_level assms)
qed

lemma concat_map_nonempty: "concat (map L (filter (\<lambda>p. L p \<noteq> []) ps)) = concat (map L ps)"
  by (induction ps) auto

lemma prio_levels:
  assumes "wf_book b" "wf_book b'" "is_side t"
    and "\<And>p. level b t p = [] \<Longrightarrow> level b' t p = []"
  shows "prio b' t = concat (map (level b' t) (bestFirst b t))"
proof -
  have "bestFirst b' t = filter (\<lambda>p. level b' t p \<noteq> []) (bestFirst b t)"
    by (simp only: bestFirst_def sidePrices_filter [OF assms] rev_filter split: if_split) simp
  then show ?thesis by (simp add: prio_def concat_map_nonempty)
qed

lemma prio_map_levels:
  assumes "wf_book b" "wf_book b'" "is_side t"
    and "\<And>p. level b' t p = map g (level b t p)"
  shows "prio b' t = map g (prio b t)"
proof -
  have "level b' t = map g \<circ> level b t" using assms(4) by auto
  then show ?thesis
    using prio_levels [OF assms(1-3)] by (simp add: prio_def map_concat)
qed

lemma prio_filter_levels:
  assumes "wf_book b" "wf_book b'" "is_side t"
    and "\<And>p. level b' t p = filter P (level b t p)"
  shows "prio b' t = filter P (prio b t)"
proof -
  have "level b' t = filter P \<circ> level b t" using assms(4) by auto
  then show ?thesis
    using prio_levels [OF assms(1-3)] by (simp add: prio_def filter_concat)
qed

text \<open>The head of the queue is the front order at the best price.\<close>

lemma prio_sorted:
  assumes "wf_book b" "is_side t"
  shows "sorted_wrt (\<lambda>x y. \<not> priceBetter t (oPrice y) (oPrice x)) (prio b t)"
proof -
  have "sorted_wrt (\<lambda>x y. \<not> priceBetter t (oPrice y) (oPrice x)) (concat (map (level b t) ps))"
    if "sorted_wrt (priceBetter t) ps" for ps
    using that
  proof (induction ps)
    case (Cons p ps)
    have "sorted_wrt (\<lambda>x y. \<not> priceBetter t (oPrice y) (oPrice x)) (level b t p)"
      by (rule sorted_wrt_mono_rel [of _ "\<lambda>_ _. True"])
        (auto simp: level_Get(3) [OF assms] priceBetter_def sorted_wrt_iff_nth_less)
    moreover have "\<not> priceBetter t (oPrice y) (oPrice x)"
      if "x \<in> set (level b t p)" "q \<in> set ps" "y \<in> set (level b t q)" for x y q
      using Cons.prems that level_Get(3) [OF assms] by (auto simp: priceBetter_def)
    ultimately show ?case using Cons by (auto simp: sorted_wrt_append)
  qed simp
  then show ?thesis unfolding prio_def using bestFirst_sorted [OF assms] by blast
qed

lemma bestPrice_bestFirst:
  "bestPrice b t = (if bestFirst b t = [] then None else Some (hd (bestFirst b t)))" if "is_side t"
  using that by (auto simp: is_side_def bestPrice_def bestFirst_def BestAsk_def BestBid_def
      sidePrices_def hd_rev)

lemma prio_Nil_iff: "wf_book b \<Longrightarrow> is_side t \<Longrightarrow> prio b t = [] \<longleftrightarrow> bestPrice b t = None"
  by (cases "bestFirst b t") (auto simp: prio_def bestPrice_bestFirst
      dest: set_bestFirst [of b t "hd (bestFirst b t)", THEN iffD1])

lemma prio_Cons:
  assumes "wf_book b" "is_side t" "prio b t = x # xs"
  shows "bestPrice b t = Some (oPrice x)" "Front b t (oPrice x) = Some x"
    "Get b (oId x) = Some x" "oTradingType x = t"
proof -
  obtain p ps where ps: "bestFirst b t = p # ps"
    using assms(3) by (cases "bestFirst b t") (auto simp: prio_def)
  have ne: "level b t p \<noteq> []" using set_bestFirst [OF assms(1,2), of p] ps by simp
  then have lv: "level b t p = x # tl (level b t p)"
    using assms(3) ps by (cases "level b t p") (auto simp: prio_def)
  then have px: "oPrice x = p" using level_Get(3) [OF assms(1,2), of x p] by (metis list.set_intros(1))
  then show "bestPrice b t = Some (oPrice x)" using ps by (simp add: bestPrice_bestFirst assms(2))
  from lv show "Front b t (oPrice x) = Some x"
    by (cases "fmlookup (sideMap b t) p") (auto simp: level_def Front_def px split: list.splits)
  show "Get b (oId x) = Some x" "oTradingType x = t"
    using set_prio [OF assms(1,2), of x] assms(3) by auto
qed

lemma prio_distinct:
  assumes "wf_book b" "is_side t"
  shows "distinct (map oId (prio b t))"
proof -
  have "distinct (map oId (concat (map (level b t) ps)))" if "distinct ps" for ps
    using that
  proof (induction ps)
    case (Cons p ps)
    have "oId x \<noteq> oId y" if "x \<in> set (level b t p)" "q \<in> set ps" "y \<in> set (level b t q)" for x y q
    proof
      assume "oId x = oId y"
      then have "Some x = Some y"
        using level_Get(1) [OF assms that(1)] level_Get(1) [OF assms that(3)] by (simp only:)
      then have "p = q" using level_Get(3) [OF assms that(1)] level_Get(3) [OF assms that(3)] by simp
      with Cons.prems that(2) show False by simp
    qed
    then show ?case using Cons level_distinct_ids [OF assms, of p] by auto
  qed simp
  moreover have "distinct (bestFirst b t)"
    using sidePrices_ascending [OF assms, THEN ascending_distinct] by (auto simp: bestFirst_def)
  ultimately show ?thesis by (simp add: prio_def)
qed

subsection \<open>The operations on the queue\<close>

lemma prio_Cancel:
  assumes "wf_book b" "Get b i = Some x"
  obtains b' where "Cancel b i = Some (True, b')" "wf_book b'" "Get b' = (Get b)(i := None)"
    "\<And>t. is_side t \<Longrightarrow> prio b' t = filter (\<lambda>y. oId y \<noteq> i) (prio b t)"
proof -
  obtain b' where b': "Cancel b i = Some (True, b')" "wf_book b'"
    "\<And>j. Get b' j = (if j = i then None else Get b j)"
    "\<And>t p. is_side t \<Longrightarrow> level b' t p = filter (\<lambda>x. oId x \<noteq> i) (level b t p)"
    by (rule Cancel_resting [OF assms]) blast
  then show ?thesis
    using prio_filter_levels [OF assms(1) b'(2)] by (intro that) auto
qed

lemma prio_ids_absent:
  assumes "wf_book b" "is_side t" "Get b i = Some x" "oTradingType x \<noteq> t"
  shows "y \<in> set (prio b t) \<Longrightarrow> oId y \<noteq> i"
  using set_prio [OF assms(1,2), of y] assms(3,4) by auto

text \<open>Filling the front order. The other side of the book does not change.\<close>

lemma prio_Fill_front:
  assumes wf: "wf_book b" and t: "is_side t" and front: "prio b t = x # xs" and "want \<noteq> 0"
  obtains b' where "Fill b (oId x) want = Some (min want (remaining x), b')" "wf_book b'"
    "prio b' t = (if want < remaining x then fill_order want x # xs else xs)"
    "\<And>t'. is_side t' \<Longrightarrow> t' \<noteq> t \<Longrightarrow> prio b' t' = prio b t'"
    "Get b' = (Get b)(oId x := (if want < remaining x then Some (fill_order want x) else None))"
proof -
  note x = prio_Cons(3,4) [OF wf t front]
  have others: "oId y \<noteq> oId x" if "is_side t'" "t' \<noteq> t" "y \<in> set (prio b t')" for t' y
    using prio_ids_absent [OF wf that(1) x(1)] x(2) that(2,3) by simp
  have tail: "oId y \<noteq> oId x" if "y \<in> set xs" for y
    using prio_distinct [OF wf t] that unfolding front by (auto simp: rev_image_eqI)
  show ?thesis
  proof (cases "want < remaining x")
    case True
    let ?g = "\<lambda>y. if oId y = oId x then fill_order want x else y"
    obtain b' where b': "Fill b (oId x) want = Some (want, b')" "wf_book b'"
      "\<And>j. Get b' j = (if j = oId x then Some (fill_order want x) else Get b j)"
      "\<And>t p. is_side t \<Longrightarrow> level b' t p = map ?g (level b t p)"
      by (rule Fill_partial [OF wf x(1) \<open>want \<noteq> 0\<close> True]) blast
    have "prio b' t' = map ?g (prio b t')" if "is_side t'" for t'
      using prio_map_levels [OF wf b'(2) that b'(4) [OF that]] .
    then show ?thesis
      using b' True others tail front t
      by (intro that [of b']) (auto simp: min_absorb1 less_imp_le intro!: map_idI)
  next
    case False
    then have le: "remaining x \<le> want" by simp
    obtain b' where b': "Fill b (oId x) want = Some (remaining x, b')" "wf_book b'"
      "\<And>j. Get b' j = (if j = oId x then None else Get b j)"
      "\<And>t p. is_side t \<Longrightarrow> level b' t p = filter (\<lambda>y. oId y \<noteq> oId x) (level b t p)"
      by (rule Fill_full [OF wf x(1) le]) blast
    have "prio b' t' = filter (\<lambda>y. oId y \<noteq> oId x) (prio b t')" if "is_side t'" for t'
      using prio_filter_levels [OF wf b'(2) that b'(4) [OF that]] .
    then show ?thesis
      using b' False others tail front t
      by (intro that [of b']) (auto simp: min_absorb2 filter_id_conv)
  qed
qed

text \<open>
  Adding: behind all orders whose price is at least as good, in front of all others. The
  prices of the new side split around the order's price.
\<close>

lemma sorted_wrt_split:
  assumes "sorted_wrt R ps" "p \<in> set ps"
  obtains ps1 ps2 where "ps = ps1 @ p # ps2" "\<forall>q\<in>set ps1. R q p" "\<forall>q\<in>set ps2. R p q"
  using assms by (auto simp: in_set_conv_decomp sorted_wrt_append)

lemma insertPrio_split:
  assumes "\<forall>y\<in>set ys. \<not> priceBetter t (oPrice x) (oPrice y)"
    and "\<forall>y\<in>set zs. priceBetter t (oPrice x) (oPrice y)"
  shows "insertPrio t x (ys @ zs) = ys @ x # zs"
proof -
  have "takeWhile (\<lambda>y. \<not> priceBetter t (oPrice x) (oPrice y)) zs = []"
    "dropWhile (\<lambda>y. \<not> priceBetter t (oPrice x) (oPrice y)) zs = zs"
    using assms(2) by (cases zs; simp)+
  then show ?thesis
    using assms(1) by (simp add: insertPrio_def Let_def takeWhile_append dropWhile_append)
qed

lemma prio_Add:
  assumes wf: "wf_book b" and "is_side (oTradingType x)" "Get b (oId x) = None"
    and "oFilledQuantity x < oQuantity x" and t: "is_side t"
  shows "prio (Add b x) t = (if t = oTradingType x then insertPrio t x (prio b t) else prio b t)"
proof -
  let ?b = "Add b x"
  note wf' = wf_book_Add [OF assms(1-4)]
  note lev = level_Add [OF assms(1,2) t]
  have same: "prio b t = concat (map (level b t) (bestFirst ?b t))"
    by (rule prio_levels [OF wf' wf t]) (simp add: lev split: if_splits)
  show ?thesis
  proof (cases "t = oTradingType x")
    case False
    then have "level ?b t = level b t" by (auto simp: lev)
    with False same show ?thesis by (simp add: prio_def)
  next
    case True
    have "oPrice x \<in> set (bestFirst ?b t)"
      unfolding set_bestFirst [OF wf' t] lev using True by simp
    then obtain ps1 ps2 where ps: "bestFirst ?b t = ps1 @ oPrice x # ps2"
      "\<forall>q\<in>set ps1. priceBetter t q (oPrice x)" "\<forall>q\<in>set ps2. priceBetter t (oPrice x) q"
      by (rule sorted_wrt_split [OF bestFirst_sorted [OF wf' t]])
    let ?L = "\<lambda>ps. concat (map (level b t) ps)"
    have irr: "oPrice x \<notin> set ps1" "oPrice x \<notin> set ps2"
      using ps(2,3) by (auto simp: priceBetter_def)
    then have old: "map (level ?b t) ps1 = map (level b t) ps1"
      "map (level ?b t) ps2 = map (level b t) ps2"
      by (auto simp: lev)
    have "level ?b t (oPrice x) = level b t (oPrice x) @ [x]" unfolding lev using True by simp
    then have new: "prio ?b t = (?L ps1 @ level b t (oPrice x)) @ x # ?L ps2"
      unfolding prio_def ps(1) by (simp only: map_append list.map old concat_append concat.simps
          append.simps append_assoc)
    have "insertPrio t x ((?L ps1 @ level b t (oPrice x)) @ ?L ps2) =
        (?L ps1 @ level b t (oPrice x)) @ x # ?L ps2"
      using ps(2,3) level_Get(3) [OF wf t]
      by (intro insertPrio_split) (auto simp: priceBetter_def)
    moreover have "prio b t = (?L ps1 @ level b t (oPrice x)) @ ?L ps2"
      unfolding same ps(1) by simp
    ultimately show ?thesis using new True by simp
  qed
qed


section \<open>Properties\<close>

text \<open>A book to evaluate on: two asks at 100, one at 90 and a bid at 80.\<close>

definition sampleOrder :: "int64 \<Rightarrow> int32 \<Rightarrow> TradingType \<Rightarrow> uint64 \<Rightarrow> uint64 \<Rightarrow> Order" where
  "sampleOrder i acc t p n =
     zeroOrder\<lparr>oId := i, oAccountId := acc, oStockId := 1, oPrice := p, oQuantity := n,
       oTradingType := t\<rparr>"

definition sampleBook :: OrderBook where
  "sampleBook =
     Add (Add (Add (Add NewOrderBook
       (sampleOrder 1 7 TRADING_SELL 100 5)) (sampleOrder 2 7 TRADING_SELL 90 3))
       (sampleOrder 3 8 TRADING_SELL 100 4)) (sampleOrder 4 9 TRADING_BUY 80 6)"

lemma sampleOrder_simps [simp]:
  "oId (sampleOrder i acc t p n) = i" "oAccountId (sampleOrder i acc t p n) = acc"
  "oStockId (sampleOrder i acc t p n) = 1" "oPrice (sampleOrder i acc t p n) = p"
  "oQuantity (sampleOrder i acc t p n) = n" "oFilledQuantity (sampleOrder i acc t p n) = 0"
  "oTradingType (sampleOrder i acc t p n) = t" "oOrderType (sampleOrder i acc t p n) = ORDER_LIMIT"
  by (simp_all add: sampleOrder_def zeroOrder_def)

lemma Get_New [simp]: "Get NewOrderBook i = None"
  by (simp add: Get_def NewOrderBook_def)

lemma prio_New [simp]: "prio NewOrderBook t = []"
  by (simp add: prio_def bestFirst_def sidePrices_def NewOrderBook_def)

lemma wf_sampleBook: "wf_book sampleBook"
  unfolding sampleBook_def by (intro wf_book_Add wf_book_New) (simp_all add: Get_Add wf_book_Add wf_book_New)

lemma Get_sampleBook:
  "Get sampleBook = [1 \<mapsto> sampleOrder 1 7 TRADING_SELL 100 5, 2 \<mapsto> sampleOrder 2 7 TRADING_SELL 90 3,
     3 \<mapsto> sampleOrder 3 8 TRADING_SELL 100 4, 4 \<mapsto> sampleOrder 4 9 TRADING_BUY 80 6]"
  by (simp add: sampleBook_def fun_eq_iff Get_Add wf_book_Add wf_book_New)

lemma prio_sampleBook:
  "prio sampleBook TRADING_SELL = [sampleOrder 2 7 TRADING_SELL 90 3,
     sampleOrder 1 7 TRADING_SELL 100 5, sampleOrder 3 8 TRADING_SELL 100 4]"
  "prio sampleBook TRADING_BUY = [sampleOrder 4 9 TRADING_BUY 80 6]"
  by (simp_all add: sampleBook_def prio_Add Get_Add wf_book_Add wf_book_New insertPrio_def
      priceBetter_def)

text \<open>
  C17: \<^verbatim>\<open>OrderBook.Add\<close> implements price-time priority. On a well-formed book, adding an
  unfilled order under a fresh id gives a well-formed book whose queue on the order's side is
  the old one with the order inserted behind every order whose price is at least as good,
  and ahead of all others; the other side keeps its queue.
\<close>

theorem Add_price_time_priority:
  assumes "wf_book b" "is_side (oTradingType x)" "Get b (oId x) = None"
    and "oFilledQuantity x < oQuantity x"
  shows "wf_book (Add b x) \<and> Get (Add b x) = (Get b)(oId x \<mapsto> x) \<and>
    prio (Add b x) (oTradingType x) = insertPrio (oTradingType x) x (prio b (oTradingType x)) \<and>
    (\<forall>t. is_side t \<and> t \<noteq> oTradingType x \<longrightarrow> prio (Add b x) t = prio b t)"
  using wf_book_Add [OF assms] prio_Add [OF assms] assms(1,2) by (auto simp: Get_Add fun_eq_iff)

theorem Add_price_time_priority_witness:
  "prio (Add sampleBook (sampleOrder 9 9 TRADING_SELL 90 1)) TRADING_SELL =
     [sampleOrder 2 7 TRADING_SELL 90 3, sampleOrder 9 9 TRADING_SELL 90 1,
      sampleOrder 1 7 TRADING_SELL 100 5, sampleOrder 3 8 TRADING_SELL 100 4]"
  using Add_price_time_priority [OF wf_sampleBook, of "sampleOrder 9 9 TRADING_SELL 90 1"]
  by (simp add: Get_sampleBook prio_sampleBook insertPrio_def priceBetter_def)

text \<open>
  C19: \<^verbatim>\<open>OrderBook.Cancel\<close> removes exactly the order with the given id from its queue and from
  the index and keeps the book well-formed; the order of all other orders stays. An unknown
  id is answered with false and changes nothing.
\<close>

theorem Cancel_removes_one_order:
  assumes "wf_book b"
  shows "case Get b i of
      None \<Rightarrow> Cancel b i = Some (False, b)
    | Some x \<Rightarrow> \<exists>b'. Cancel b i = Some (True, b') \<and> wf_book b' \<and> Get b' = (Get b)(i := None) \<and>
        (\<forall>t. is_side t \<longrightarrow> prio b' t = filter (\<lambda>y. oId y \<noteq> i) (prio b t))"
proof (cases "Get b i")
  case None
  then show ?thesis by (simp add: Cancel_absent)
next
  case (Some x)
  show ?thesis by (rule prio_Cancel [OF assms Some]) (use Some in auto)
qed

theorem Cancel_removes_one_order_witness:
  "\<exists>b'. Cancel sampleBook 1 = Some (True, b') \<and>
     prio b' TRADING_SELL = [sampleOrder 2 7 TRADING_SELL 90 3, sampleOrder 3 8 TRADING_SELL 100 4]"
  using Cancel_removes_one_order [OF wf_sampleBook, of 1]
  by (auto simp: Get_sampleBook prio_sampleBook)

text \<open>
  C18: \<^verbatim>\<open>OrderBook.Fill\<close> on the order at the head of a queue fills the smaller of the wanted and
  the remaining quantity, keeps the book well-formed and the order in place while something
  remains, drops it from queue and index once it is completely filled, and touches no other
  order.
\<close>

theorem Fill_head_of_queue:
  assumes "wf_book b" "is_side t" "prio b t = x # xs" "want \<noteq> 0"
  shows "\<exists>b'. Fill b (oId x) want = Some (min want (remaining x), b') \<and> wf_book b' \<and>
    prio b' t = (if want < remaining x then fill_order want x # xs else xs) \<and>
    (\<forall>t'. is_side t' \<and> t' \<noteq> t \<longrightarrow> prio b' t' = prio b t') \<and>
    Get b' = (Get b)(oId x := (if want < remaining x then Some (fill_order want x) else None))"
  by (rule prio_Fill_front [OF assms]) blast

theorem Fill_head_of_queue_witness:
  "\<exists>b'. Fill sampleBook 2 3 = Some (3, b') \<and>
     prio b' TRADING_SELL = [sampleOrder 1 7 TRADING_SELL 100 5, sampleOrder 3 8 TRADING_SELL 100 4]"
  using Fill_head_of_queue [OF wf_sampleBook is_side_simps(2) prio_sampleBook(1), of 3]
  by auto

text \<open>
  The matching loop's view of a side is the head of its queue. On a well-formed book the
  best price (\<^verbatim>\<open>BestAsk\<close> for sells, \<^verbatim>\<open>BestBid\<close> for buys) is missing exactly when the side is
  empty; otherwise it is the price of the queue's head, \<^verbatim>\<open>Front\<close> at that price returns that
  head, and no resting order of the side has a better price.
\<close>

lemma best_price_and_front:
  assumes "wf_book b" "is_side t"
  shows "case prio b t of
      [] \<Rightarrow> bestPrice b t = None
    | x # xs \<Rightarrow> bestPrice b t = Some (oPrice x) \<and> Front b t (oPrice x) = Some x \<and>
        (\<forall>i y. Get b i = Some y \<and> oTradingType y = t \<longrightarrow> \<not> priceBetter t (oPrice y) (oPrice x))"
proof (cases "prio b t")
  case Nil
  then show ?thesis using prio_Nil_iff [OF assms] by simp
next
  case (Cons x xs)
  have "\<not> priceBetter t (oPrice y) (oPrice x)" if "Get b i = Some y" "oTradingType y = t" for i y
  proof -
    have "Get b (oId y) = Some y" using that(1) by (rule Get_Some_elim [OF assms(1)]) (use that in simp)
    then have "y \<in> set (prio b t)" using set_prio [OF assms] that(2) by blast
    then show ?thesis using prio_sorted [OF assms] Cons by (auto simp: priceBetter_def)
  qed
  with Cons show ?thesis using prio_Cons(1,2) [OF assms Cons] by auto
qed

end
