(* ===== verification/Ledger.thy ===== *)
theory Ledger
  imports BookSpec
begin

text \<open>
  The in-memory ledger (\<^verbatim>\<open>internal/ledger\<close>): the tables of accounts, holdings and stocks, the
  order books by stock, and the state record that joins them.

  The three tables have the same two operations and the same contract, the locale
  \<open>keyed_table\<close>: a row is stored under the key computed from it. What clients need of a
  table is proved there once and used at the three interpretations.
\<close>

section \<open>The contract of a table\<close>

locale keyed_table =
  fixes get :: "'m \<Rightarrow> 'k \<Rightarrow> 'v option"
    and upsert :: "'m \<Rightarrow> 'v \<Rightarrow> 'm"
    and key :: "'v \<Rightarrow> 'k"
  assumes get_upsert: "get (upsert m v) = (get m)(key v \<mapsto> v)"
    and finite_rows: "finite (dom (get m))"
begin

definition keyed :: "'m \<Rightarrow> bool" where
  "keyed m \<longleftrightarrow> (\<forall>k v. get m k = Some v \<longrightarrow> key v = k)"

lemma keyed_upsert: "keyed m \<Longrightarrow> keyed (upsert m v)"
  by (auto simp: keyed_def get_upsert)

lemma keyedD: "keyed m \<Longrightarrow> get m k = Some v \<Longrightarrow> key v = k"
  by (simp add: keyed_def)

text \<open>The column sum after storing a row, over an existing one or as a new one.\<close>

lemma osum_upsert:
  "osum (get (upsert m v)) f + colv (get m) f (key v) = osum (get m) f + f v"
  by (simp add: get_upsert osum_upd finite_rows)

lemma colv_upsert [simp]:
  "colv (get (upsert m v)) f k = (if k = key v then f v else colv (get m) f k)"
  by (simp add: get_upsert)

text \<open>
  Moving \<open>n\<close> units from one row to another conserves the column sum, also when the two rows
  are the same one, and in whichever order the two rows are written.
\<close>

lemma move_conserves:
  assumes "f v + n = colv (get m) f (key v)" "f w = colv (get (upsert m v)) f (key w) + n"
  shows "osum (get (upsert (upsert m v) w)) f = osum (get m) f"
  using osum_upsert [of m v f] osum_upsert [of "upsert m v" w f] assms by linarith

lemma move_conserves_rev:
  assumes "f v = colv (get m) f (key v) + n" "f w + n = colv (get (upsert m v)) f (key w)"
  shows "osum (get (upsert (upsert m v) w)) f = osum (get m) f"
  using osum_upsert [of m v f] osum_upsert [of "upsert m v" w f] assms by linarith

lemma colv_le_osum: "colv (get m) f k \<le> osum (get m) f"
  by (cases "get m k") (simp_all add: osum_ge finite_rows)

end

section \<open>Accounts, holdings and stocks\<close>

text \<open>
  The key of a holding. Its order is the comparison function the snapshot sorts with:
  account first, stock second.
\<close>

datatype stockKey = StockKey (accountID: int32) (stockID: int32)

instantiation stockKey :: linorder
begin

definition less_eq_stockKey :: "stockKey \<Rightarrow> stockKey \<Rightarrow> bool" where
  "less_eq_stockKey a b \<longleftrightarrow>
     (if accountID a \<noteq> accountID b then accountID a < accountID b else stockID a \<le> stockID b)"

definition less_stockKey :: "stockKey \<Rightarrow> stockKey \<Rightarrow> bool" where
  "less_stockKey a b \<longleftrightarrow>
     (if accountID a \<noteq> accountID b then accountID a < accountID b else stockID a < stockID b)"

instance
  by standard (auto simp: less_eq_stockKey_def less_stockKey_def stockKey.expand split: if_splits)

end

type_synonym AccountTable = "(int32, Account) fmap"
type_synonym HoldingTable = "(stockKey, StockBalance) fmap"
type_synonym StockTable = "(int32, Stock) fmap"
type_synonym BookTable = "(int32, OrderBook) fmap"

definition Accounts_Get :: "AccountTable \<Rightarrow> int32 \<Rightarrow> Account option" where
  "Accounts_Get m i = fmlookup m i"

definition Accounts_Upsert :: "AccountTable \<Rightarrow> Account \<Rightarrow> AccountTable" where
  "Accounts_Upsert m acc = fmupd (aId acc) acc m"

definition StockBalances_Get :: "HoldingTable \<Rightarrow> stockKey \<Rightarrow> StockBalance option" where
  "StockBalances_Get m k = fmlookup m k"

definition StockBalances_Upsert :: "HoldingTable \<Rightarrow> StockBalance \<Rightarrow> HoldingTable" where
  "StockBalances_Upsert m sb = fmupd (StockKey (hAccountId sb) (hStockId sb)) sb m"

definition Stocks_Get :: "StockTable \<Rightarrow> int32 \<Rightarrow> Stock option" where
  "Stocks_Get m i = fmlookup m i"

definition Stocks_Upsert :: "StockTable \<Rightarrow> Stock \<Rightarrow> StockTable" where
  "Stocks_Upsert m st = fmupd (sId st) st m"

abbreviation holdingKey :: "StockBalance \<Rightarrow> stockKey" where
  "holdingKey sb \<equiv> StockKey (hAccountId sb) (hStockId sb)"

lemma Get_fmlookup:
  "Accounts_Get = fmlookup" "StockBalances_Get = fmlookup" "Stocks_Get = fmlookup"
  by (auto simp: fun_eq_iff Accounts_Get_def StockBalances_Get_def Stocks_Get_def)

interpretation accounts: keyed_table Accounts_Get Accounts_Upsert aId
  by standard (auto simp: Get_fmlookup Accounts_Upsert_def)

interpretation holdings: keyed_table StockBalances_Get StockBalances_Upsert holdingKey
  by standard (auto simp: Get_fmlookup StockBalances_Upsert_def)

interpretation stocks: keyed_table Stocks_Get Stocks_Upsert sId
  by standard (auto simp: Get_fmlookup Stocks_Upsert_def)

lemmas table_defs = Accounts_Get_def Accounts_Upsert_def StockBalances_Get_def
  StockBalances_Upsert_def Stocks_Get_def Stocks_Upsert_def

section \<open>Order books by stock, and the state\<close>

text \<open>
  \<^verbatim>\<open>OrderBooks.Get\<close> creates the book of a stock on first use and returns a pointer to it. The
  model returns the table with the book in it; code that goes on through the pointer reads
  and writes the book in the table (\<open>bookOf\<close>, \<open>putBook\<close>).
\<close>

definition OrderBooks_Get :: "BookTable \<Rightarrow> int32 \<Rightarrow> OrderBook \<times> BookTable" where
  "OrderBooks_Get m i =
     (case fmlookup m i of
        Some ob \<Rightarrow> (ob, m)
      | None \<Rightarrow> (NewOrderBook, fmupd i NewOrderBook m))"

record State =
  Accounts :: AccountTable
  StockBalances :: HoldingTable
  Stocks :: StockTable
  OrderBooks :: BookTable

definition NewState :: State where
  "NewState = \<lparr>Accounts = fmempty, StockBalances = fmempty, Stocks = fmempty,
     OrderBooks = fmempty\<rparr>"

definition openBook :: "State \<Rightarrow> int32 \<Rightarrow> State" where
  "openBook s i = s\<lparr>OrderBooks := snd (OrderBooks_Get (OrderBooks s) i)\<rparr>"

definition bookOf :: "State \<Rightarrow> int32 \<Rightarrow> OrderBook" where
  "bookOf s i = fst (OrderBooks_Get (OrderBooks s) i)"

definition putBook :: "State \<Rightarrow> int32 \<Rightarrow> OrderBook \<Rightarrow> State" where
  "putBook s i b = s\<lparr>OrderBooks := fmupd i b (OrderBooks s)\<rparr>"

lemma bookOf_simps [simp]:
  "bookOf (putBook s i b) j = (if j = i then b else bookOf s j)"
  "bookOf (openBook s i) j = bookOf s j"
  "bookOf (s\<lparr>Accounts := A\<rparr>) j = bookOf s j"
  "bookOf (s\<lparr>StockBalances := H\<rparr>) j = bookOf s j"
  "bookOf (s\<lparr>Stocks := T\<rparr>) j = bookOf s j"
  by (auto simp: bookOf_def putBook_def openBook_def OrderBooks_Get_def split: option.split)

lemma putBook_simps [simp]:
  "Accounts (putBook s i b) = Accounts s" "StockBalances (putBook s i b) = StockBalances s"
  "Stocks (putBook s i b) = Stocks s" "Accounts (openBook s i) = Accounts s"
  "StockBalances (openBook s i) = StockBalances s" "Stocks (openBook s i) = Stocks s"
  by (simp_all add: putBook_def openBook_def)

end
