(* ===== verification/LedgerInv.thy ===== *)
theory LedgerInv
  imports Ledger
begin

text \<open>
  What the ledger promises. Balances are read as natural numbers; a missing row counts as
  zero. An account's balance is its available balance plus what its resting buy orders hold
  back; a holding is its available quantity plus what resting sell orders hold back. While an
  order is being matched part of the reservation is not in the book yet: the invariant
  carries that part as two slack functions, both zero between requests.
\<close>

section \<open>Amounts\<close>

definition bal :: "State \<Rightarrow> int32 \<Rightarrow> nat" where
  "bal s a = colv (Accounts_Get (Accounts s)) (\<lambda>r. unat (aBalance r)) a"

definition avl :: "State \<Rightarrow> int32 \<Rightarrow> nat" where
  "avl s a = colv (Accounts_Get (Accounts s)) (\<lambda>r. unat (aAvailableBalance r)) a"

definition qty :: "State \<Rightarrow> int32 \<Rightarrow> int32 \<Rightarrow> nat" where
  "qty s a st = colv (StockBalances_Get (StockBalances s)) (\<lambda>h. unat (hQuantity h)) (StockKey a st)"

definition avq :: "State \<Rightarrow> int32 \<Rightarrow> int32 \<Rightarrow> nat" where
  "avq s a st =
     colv (StockBalances_Get (StockBalances s)) (\<lambda>h. unat (hAvailableQuantity h)) (StockKey a st)"

definition total_cash :: "State \<Rightarrow> nat" where
  "total_cash s = osum (Accounts_Get (Accounts s)) (\<lambda>r. unat (aBalance r))"

definition sharesOf :: "int32 \<Rightarrow> StockBalance \<Rightarrow> nat" where
  "sharesOf st h = (if hStockId h = st then unat (hQuantity h) else 0)"

definition total_shares :: "State \<Rightarrow> int32 \<Rightarrow> nat" where
  "total_shares s st = osum (StockBalances_Get (StockBalances s)) (sharesOf st)"

text \<open>What a resting order holds back per unfilled unit, and the sum over all books.\<close>

definition cashW :: "int32 \<Rightarrow> Order \<Rightarrow> nat" where
  "cashW a x = (if oAccountId x = a \<and> oTradingType x = TRADING_BUY then unat (oPrice x) else 0)"

definition shareW :: "int32 \<Rightarrow> int32 \<Rightarrow> Order \<Rightarrow> nat" where
  "shareW a st x =
     (if oAccountId x = a \<and> oStockId x = st \<and> oTradingType x = TRADING_SELL then 1 else 0)"

definition reserved :: "(Order \<Rightarrow> nat) \<Rightarrow> State \<Rightarrow> nat" where
  "reserved c s = osum (fmlookup (OrderBooks s)) (\<lambda>b. osum (Get b) (held c))"

lemma fill_stable_weights [simp]: "fill_stable (cashW a)" "fill_stable (shareW a st)"
  by (simp_all add: fill_stable_def cashW_def shareW_def)

lemma reserved_frame [simp]:
  "reserved c (s\<lparr>Accounts := A\<rparr>) = reserved c s"
  "reserved c (s\<lparr>StockBalances := H\<rparr>) = reserved c s"
  "reserved c (s\<lparr>Stocks := T\<rparr>) = reserved c s"
  by (simp_all add: reserved_def)

lemma amounts_frame [simp]:
  "bal (s\<lparr>StockBalances := H\<rparr>) = bal s" "bal (s\<lparr>Stocks := T\<rparr>) = bal s" "bal (putBook s i b) = bal s"
  "bal (openBook s i) = bal s"
  "avl (s\<lparr>StockBalances := H\<rparr>) = avl s" "avl (s\<lparr>Stocks := T\<rparr>) = avl s" "avl (putBook s i b) = avl s"
  "avl (openBook s i) = avl s"
  "qty (s\<lparr>Accounts := A\<rparr>) = qty s" "qty (s\<lparr>Stocks := T\<rparr>) = qty s" "qty (putBook s i b) = qty s"
  "qty (openBook s i) = qty s"
  "avq (s\<lparr>Accounts := A\<rparr>) = avq s" "avq (s\<lparr>Stocks := T\<rparr>) = avq s" "avq (putBook s i b) = avq s"
  "avq (openBook s i) = avq s"
  by (simp_all add: fun_eq_iff bal_def avl_def qty_def avq_def)

lemma totals_frame [simp]:
  "total_cash (s\<lparr>StockBalances := H\<rparr>) = total_cash s" "total_cash (s\<lparr>Stocks := T\<rparr>) = total_cash s"
  "total_cash (putBook s i b) = total_cash s" "total_cash (openBook s i) = total_cash s"
  "total_shares (s\<lparr>Accounts := A\<rparr>) = total_shares s" "total_shares (s\<lparr>Stocks := T\<rparr>) = total_shares s"
  "total_shares (putBook s i b) = total_shares s" "total_shares (openBook s i) = total_shares s"
  by (simp_all add: fun_eq_iff total_cash_def total_shares_def)

lemma osum_New [simp]: "osum (Get NewOrderBook) f = 0"
  by (rule osum_none) simp

lemma osum_Get_bookOf:
  "colv (fmlookup (OrderBooks s)) (\<lambda>b. osum (Get b) (held c)) i = osum (Get (bookOf s i)) (held c)"
  by (cases "fmlookup (OrderBooks s) i") (simp_all add: bookOf_def OrderBooks_Get_def)

lemma reserved_putBook:
  "reserved c (putBook s i b) + osum (Get (bookOf s i)) (held c) =
     reserved c s + osum (Get b) (held c)"
  using osum_upd [of "fmlookup (OrderBooks s)" i b "\<lambda>b. osum (Get b) (held c)"]
  by (simp add: reserved_def putBook_def osum_Get_bookOf fmlookup_upd_fun)

lemma reserved_openBook [simp]: "reserved c (openBook s i) = reserved c s"
  using reserved_putBook [of c s i NewOrderBook]
  by (cases "fmlookup (OrderBooks s) i")
    (simp_all add: openBook_def OrderBooks_Get_def putBook_def bookOf_def)

lemma osum_Get_le_reserved: "osum (Get (bookOf s i)) (held c) \<le> reserved c s"
  using osum_ge [of "fmlookup (OrderBooks s)" i _ "\<lambda>b. osum (Get b) (held c)"]
  by (cases "fmlookup (OrderBooks s) i")
    (simp_all add: reserved_def bookOf_def OrderBooks_Get_def)

lemma held_le_reserved: "Get (bookOf s i) j = Some x \<Longrightarrow> held c x \<le> reserved c s"
  using osum_ge [OF finite_Get, of "bookOf s i" j x "held c"] osum_Get_le_reserved [where s=s and i=i and c=c]
  by (rule order_trans)

section \<open>The invariant\<close>

definition keys_ok :: "State \<Rightarrow> bool" where
  "keys_ok s \<longleftrightarrow> accounts.keyed (Accounts s) \<and> holdings.keyed (StockBalances s) \<and>
     stocks.keyed (Stocks s)"

definition book_ok :: "int32 \<Rightarrow> OrderBook \<Rightarrow> bool" where
  "book_ok i b \<longleftrightarrow> wf_book b \<and>
     (\<forall>j x. Get b j = Some x \<longrightarrow> oStockId x = i \<and> oPrice x \<noteq> 0 \<and> oOrderType x = ORDER_LIMIT)"

definition books_ok :: "State \<Rightarrow> bool" where
  "books_ok s \<longleftrightarrow> (\<forall>i. book_ok i (bookOf s i))"

definition holders_ok :: "State \<Rightarrow> bool" where
  "holders_ok s \<longleftrightarrow>
     (\<forall>a st h. StockBalances_Get (StockBalances s) (StockKey a st) = Some h \<longrightarrow>
        Accounts_Get (Accounts s) a \<noteq> None)"

definition backed :: "State \<Rightarrow> (int32 \<Rightarrow> nat) \<Rightarrow> (int32 \<Rightarrow> int32 \<Rightarrow> nat) \<Rightarrow> bool" where
  "backed s x y \<longleftrightarrow>
     (\<forall>a. bal s a = avl s a + reserved (cashW a) s + x a) \<and>
     (\<forall>a st. qty s a st = avq s a st + reserved (shareW a st) s + y a st)"

text \<open>
  The amounts that exist fit their 64-bit columns. The share bound leaves one bit free: when
  an account trades with itself the code adds the shares before it subtracts them.
\<close>

definition bounded :: "State \<Rightarrow> bool" where
  "bounded s \<longleftrightarrow> total_cash s < 2 ^ 64 \<and> (\<forall>st. total_shares s st < 2 ^ 63)"

definition ledger_inv :: "State \<Rightarrow> (int32 \<Rightarrow> nat) \<Rightarrow> (int32 \<Rightarrow> int32 \<Rightarrow> nat) \<Rightarrow> bool" where
  "ledger_inv s x y \<longleftrightarrow> keys_ok s \<and> books_ok s \<and> holders_ok s \<and> backed s x y \<and> bounded s"

abbreviation no_slack :: "int32 \<Rightarrow> nat" where
  "no_slack \<equiv> \<lambda>a. 0"

abbreviation no_slack2 :: "int32 \<Rightarrow> int32 \<Rightarrow> nat" where
  "no_slack2 \<equiv> \<lambda>a st. 0"

definition uncrossed :: "OrderBook \<Rightarrow> bool" where
  "uncrossed b \<longleftrightarrow>
     (\<forall>i j x y. Get b i = Some x \<and> Get b j = Some y \<and> oTradingType x = TRADING_BUY \<and>
        oTradingType y = TRADING_SELL \<longrightarrow> oPrice x < oPrice y)"

subsection \<open>Consequences\<close>

lemma bal_le_total: "bal s a \<le> total_cash s"
  unfolding bal_def total_cash_def by (rule accounts.colv_le_osum)

lemma keysD:
  assumes "keys_ok s"
  shows "Accounts_Get (Accounts s) a = Some r \<Longrightarrow> aId r = a"
    and "StockBalances_Get (StockBalances s) k = Some h \<Longrightarrow> holdingKey h = k"
    and "Stocks_Get (Stocks s) i = Some t \<Longrightarrow> sId t = i"
  using assms by (auto simp: keys_ok_def dest: accounts.keyedD holdings.keyedD stocks.keyedD)

lemma sharesOf_eq_qty:
  assumes "keys_ok s"
  shows "colv (StockBalances_Get (StockBalances s)) (sharesOf st) (StockKey a st) = qty s a st"
  using keysD(2) [OF assms, of "StockKey a st"]
  by (cases "StockBalances_Get (StockBalances s) (StockKey a st)") (auto simp: qty_def sharesOf_def)

lemma qty_le_total: "keys_ok s \<Longrightarrow> qty s a st \<le> total_shares s st"
  using holdings.colv_le_osum [of "StockBalances s" "sharesOf st" "StockKey a st"]
  by (simp add: sharesOf_eq_qty total_shares_def)

lemma qty_two_le_total:
  assumes "keys_ok s" "a \<noteq> b"
  shows "qty s a st + qty s b st \<le> total_shares s st"
proof (cases "StockBalances_Get (StockBalances s) (StockKey a st)"; cases "StockBalances_Get (StockBalances s) (StockKey b st)")
  fix h k
  assume hk: "StockBalances_Get (StockBalances s) (StockKey a st) = Some h"
    "StockBalances_Get (StockBalances s) (StockKey b st) = Some k"
  have "sharesOf st h + sharesOf st k \<le> total_shares s st"
    unfolding total_shares_def by (rule osum_ge_two [OF holdings.finite_rows hk]) (use assms in simp)
  then show ?thesis
    using hk sharesOf_eq_qty [OF assms(1), of st a] sharesOf_eq_qty [OF assms(1), of st b] by simp
qed (use qty_le_total [OF assms(1), of a st] qty_le_total [OF assms(1), of b st] in
    \<open>simp_all add: qty_def\<close>)

lemma bal_less: "bounded s \<Longrightarrow> bal s a < 2 ^ 64"
  using bal_le_total [of s a] by (simp add: bounded_def)

lemma qty_less: "keys_ok s \<Longrightarrow> bounded s \<Longrightarrow> qty s a st < 2 ^ 63"
  using qty_le_total [of s a st] by (auto simp: bounded_def intro: le_less_trans)

lemma account_exists: "bal s a \<noteq> 0 \<Longrightarrow> \<exists>r. Accounts_Get (Accounts s) a = Some r"
  by (cases "Accounts_Get (Accounts s) a") (simp_all add: bal_def)

lemma holding_exists:
  "qty s a st \<noteq> 0 \<Longrightarrow> \<exists>h. StockBalances_Get (StockBalances s) (StockKey a st) = Some h"
  by (cases "StockBalances_Get (StockBalances s) (StockKey a st)") (simp_all add: qty_def)

lemma book_ok_New: "book_ok i NewOrderBook"
  by (simp add: book_ok_def wf_book_New)

lemma NewState_inv: "ledger_inv NewState no_slack no_slack2"
  by (simp add: ledger_inv_def NewState_def keys_ok_def accounts.keyed_def holdings.keyed_def
      stocks.keyed_def table_defs books_ok_def bookOf_def OrderBooks_Get_def book_ok_New
      holders_ok_def backed_def bounded_def bal_def avl_def qty_def avq_def total_cash_def
      total_shares_def reserved_def osum_none)

end
