(* ===== verification/Json.thy ===== *)
theory Json
  imports Domain "HOL-Library.Monad_Syntax"
begin

text \<open>
  The JSON documents the engine reads and writes, as \<^verbatim>\<open>encoding/json\<close> maps them to the structs
  of \<^verbatim>\<open>internal/domain\<close>. A document is a value; \<open>NotJson\<close> stands for bytes that are none.

  The struct tag \<^verbatim>\<open>,string\<close> makes a number travel as a string of its decimal digits: decoding
  checks the digits and the range of the field's type. A missing field and a \<^verbatim>\<open>null\<close> leave the
  zero value; keys match without regard to case, the last matching key wins. A time travels
  as an RFC 3339 string; \<open>JTime t\<close> stands for the string of the time \<open>t\<close>.
\<close>

section \<open>Documents and decimal numbers\<close>

datatype json =
    JNull
  | JBool bool
  | JNum int
  | JStr string
  | JTime time
  | JArr "json list"
  | JObj "(string \<times> json) list"

datatype bytes = Text json | NotJson

definition digitChar :: "nat \<Rightarrow> char" where
  "digitChar n = char_of (48 + n)"

definition digitVal :: "char \<Rightarrow> nat" where
  "digitVal c = of_char c - 48"

definition isDigit :: "char \<Rightarrow> bool" where
  "isDigit c \<longleftrightarrow> 48 \<le> (of_char c :: nat) \<and> (of_char c :: nat) \<le> 57"

fun showNat :: "nat \<Rightarrow> string" where
  "showNat n = (if n < 10 then [digitChar n] else showNat (n div 10) @ [digitChar (n mod 10)])"

declare showNat.simps [simp del]

definition parseNat :: "string \<Rightarrow> nat option" where
  "parseNat s =
     (if s \<noteq> [] \<and> list_all isDigit s then Some (foldl (\<lambda>a c. 10 * a + digitVal c) 0 s) else None)"

definition showInt :: "int \<Rightarrow> string" where
  "showInt i = (if i < 0 then CHR ''-'' # showNat (nat (- i)) else showNat (nat i))"

definition parseInt :: "int \<Rightarrow> int \<Rightarrow> string \<Rightarrow> int option" where
  "parseInt lo hi s =
     (let parsed = (case s of
                      [] \<Rightarrow> None
                    | c # r \<Rightarrow> if c = CHR ''-'' then map_option (\<lambda>n. - int n) (parseNat r)
                               else map_option int (parseNat s))
      in case parsed of
           None \<Rightarrow> None
         | Some i \<Rightarrow> if lo \<le> i \<and> i \<le> hi then Some i else None)"

definition parseUint :: "string \<Rightarrow> nat option" where
  "parseUint s =
     (case parseNat s of None \<Rightarrow> None | Some n \<Rightarrow> if n < 2 ^ 64 then Some n else None)"

abbreviation int64_min :: int where "int64_min \<equiv> - (2 ^ 63)"
abbreviation int64_max :: int where "int64_max \<equiv> 2 ^ 63 - 1"
abbreviation int32_min :: int where "int32_min \<equiv> - (2 ^ 31)"
abbreviation int32_max :: int where "int32_max \<equiv> 2 ^ 31 - 1"

section \<open>Fields\<close>

definition lowerChar :: "char \<Rightarrow> char" where
  "lowerChar c = (let n = of_char c :: nat in if 65 \<le> n \<and> n \<le> 90 then char_of (n + 32) else c)"

definition sameKey :: "string \<Rightarrow> string \<Rightarrow> bool" where
  "sameKey a b \<longleftrightarrow> map lowerChar a = map lowerChar b"

fun field :: "(string \<times> json) list \<Rightarrow> string \<Rightarrow> json option" where
  "field [] name = None"
| "field ((k, v) # kvs) name =
     (case field kvs name of Some w \<Rightarrow> Some w | None \<Rightarrow> if sameKey k name then Some v else None)"

text \<open>
  A field with the tag \<^verbatim>\<open>,string\<close>: \<^verbatim>\<open>null\<close>, also as the string \<^verbatim>\<open>"null"\<close>, keeps zero; any other
  string must be a number of the type; every other value is an error.
\<close>

definition decInt :: "int \<Rightarrow> int \<Rightarrow> (string \<times> json) list \<Rightarrow> string \<Rightarrow> int option" where
  "decInt lo hi kvs name =
     (case field kvs name of
        None \<Rightarrow> Some 0
      | Some JNull \<Rightarrow> Some 0
      | Some (JStr s) \<Rightarrow> if s = ''null'' then Some 0 else parseInt lo hi s
      | Some _ \<Rightarrow> None)"

definition decI64 :: "(string \<times> json) list \<Rightarrow> string \<Rightarrow> int64 option" where
  "decI64 = decInt int64_min int64_max"

definition decI32 :: "(string \<times> json) list \<Rightarrow> string \<Rightarrow> int32 option" where
  "decI32 = decInt int32_min int32_max"

definition decU64 :: "(string \<times> json) list \<Rightarrow> string \<Rightarrow> uint64 option" where
  "decU64 kvs name =
     (case field kvs name of
        None \<Rightarrow> Some 0
      | Some JNull \<Rightarrow> Some 0
      | Some (JStr s) \<Rightarrow> if s = ''null'' then Some 0 else map_option word_of_nat (parseUint s)
      | Some _ \<Rightarrow> None)"

text \<open>
  A field whose type has its own \<^verbatim>\<open>UnmarshalJSON\<close> on strings: the method also sees \<^verbatim>\<open>null\<close>, which
  it decodes to the empty string.
\<close>

definition decEnum :: "(string \<Rightarrow> 'a option) \<Rightarrow> 'a \<Rightarrow> (string \<times> json) list \<Rightarrow> string \<Rightarrow> 'a option" where
  "decEnum unmarshal zero kvs name =
     (case field kvs name of
        None \<Rightarrow> Some zero
      | Some JNull \<Rightarrow> unmarshal ''''
      | Some (JStr s) \<Rightarrow> unmarshal s
      | Some _ \<Rightarrow> None)"

definition decTime :: "(string \<times> json) list \<Rightarrow> string \<Rightarrow> time option" where
  "decTime kvs name =
     (case field kvs name of
        None \<Rightarrow> Some 0
      | Some JNull \<Rightarrow> Some 0
      | Some (JTime t) \<Rightarrow> Some t
      | Some _ \<Rightarrow> None)"

definition decStr :: "(string \<times> json) list \<Rightarrow> string \<Rightarrow> string option" where
  "decStr kvs name =
     (case field kvs name of
        None \<Rightarrow> Some ''''
      | Some JNull \<Rightarrow> Some ''''
      | Some (JStr s) \<Rightarrow> Some s
      | Some _ \<Rightarrow> None)"

text \<open>The object a struct is decoded from; \<^verbatim>\<open>null\<close> leaves every field at its zero value.\<close>

definition objectOf :: "json \<Rightarrow> (string \<times> json) list option" where
  "objectOf j = (case j of JObj kvs \<Rightarrow> Some kvs | JNull \<Rightarrow> Some [] | _ \<Rightarrow> None)"

section \<open>Requests\<close>

definition Order_Unmarshal :: "json \<Rightarrow> Order option" where
  "Order_Unmarshal j = do {
     kvs \<leftarrow> objectOf j;
     i \<leftarrow> decI64 kvs ''id'';
     target \<leftarrow> decI64 kvs ''targetId'';
     acc \<leftarrow> decI32 kvs ''accountId'';
     stock \<leftarrow> decI32 kvs ''stockId'';
     price \<leftarrow> decU64 kvs ''price'';
     quantity \<leftarrow> decU64 kvs ''quantity'';
     filled \<leftarrow> decU64 kvs ''filledQuantity'';
     ot \<leftarrow> decEnum OrderType_UnmarshalJSON ORDER_LIMIT kvs ''orderType'';
     tt \<leftarrow> decEnum TradingType_UnmarshalJSON TRADING_BUY kvs ''tradingType'';
     created \<leftarrow> decTime kvs ''createdAt'';
     Some \<lparr>oId = i, oTargetId = target, oAccountId = acc, oStockId = stock, oPrice = price,
       oQuantity = quantity, oFilledQuantity = filled, oOrderType = ot, oTradingType = tt,
       oCreatedAt = created\<rparr>
   }"

definition Account_Unmarshal :: "json \<Rightarrow> Account option" where
  "Account_Unmarshal j = do {
     kvs \<leftarrow> objectOf j;
     i \<leftarrow> decI32 kvs ''id'';
     b \<leftarrow> decU64 kvs ''balance'';
     av \<leftarrow> decU64 kvs ''availableBalance'';
     Some \<lparr>aId = i, aBalance = b, aAvailableBalance = av\<rparr>
   }"

definition Stock_Unmarshal :: "json \<Rightarrow> Stock option" where
  "Stock_Unmarshal j = do {
     kvs \<leftarrow> objectOf j;
     i \<leftarrow> decI32 kvs ''id'';
     p \<leftarrow> decU64 kvs ''price'';
     st \<leftarrow> decEnum StockStatus_UnmarshalJSON LISTED kvs ''status'';
     Some \<lparr>sId = i, sPrice = p, sStatus = st\<rparr>
   }"

definition Transfer_Unmarshal :: "json \<Rightarrow> Transfer option" where
  "Transfer_Unmarshal j = do {
     kvs \<leftarrow> objectOf j;
     i \<leftarrow> decI64 kvs ''id'';
     sender \<leftarrow> decI32 kvs ''senderAccountId'';
     recipient \<leftarrow> decI32 kvs ''recipientAccountId'';
     amount \<leftarrow> decU64 kvs ''amount'';
     Some \<lparr>tId = i, tSenderAccountId = sender, tRecipientAccountId = recipient, tAmount = amount\<rparr>
   }"

definition BalanceAdjust_Unmarshal :: "json \<Rightarrow> BalanceAdjust option" where
  "BalanceAdjust_Unmarshal j = do {
     kvs \<leftarrow> objectOf j;
     i \<leftarrow> decI64 kvs ''id'';
     acc \<leftarrow> decI32 kvs ''accountId'';
     delta \<leftarrow> decI64 kvs ''delta'';
     Some \<lparr>baId = i, baAccountId = acc, baDelta = delta\<rparr>
   }"

definition StockBalanceAdjust_Unmarshal :: "json \<Rightarrow> StockBalanceAdjust option" where
  "StockBalanceAdjust_Unmarshal j = do {
     kvs \<leftarrow> objectOf j;
     i \<leftarrow> decI64 kvs ''id'';
     acc \<leftarrow> decI32 kvs ''accountId'';
     stock \<leftarrow> decI32 kvs ''stockId'';
     delta \<leftarrow> decI64 kvs ''delta'';
     average \<leftarrow> decU64 kvs ''average'';
     Some \<lparr>sbaId = i, sbaAccountId = acc, sbaStockId = stock, sbaDelta = delta, sbaAverage = average\<rparr>
   }"

section \<open>Event payloads\<close>

abbreviation encInt :: "int \<Rightarrow> json" where
  "encInt i \<equiv> JStr (showInt i)"

abbreviation encU64 :: "uint64 \<Rightarrow> json" where
  "encU64 w \<equiv> JStr (showNat (unat w))"

definition encTimePtr :: "time option \<Rightarrow> json" where
  "encTimePtr t = (case t of None \<Rightarrow> JNull | Some t \<Rightarrow> JTime t)"

definition Trade_Marshal :: "Trade \<Rightarrow> json option" where
  "Trade_Marshal t = do {
     tt \<leftarrow> TradingType_MarshalJSON (trTradingType t);
     Some (JObj [(''id'', encInt (trId t)), (''stockId'', encInt (trStockId t)),
       (''price'', encU64 (trPrice t)), (''quantity'', encU64 (trQuantity t)),
       (''makerOrderId'', encInt (trMakerOrderId t)), (''takerOrderId'', encInt (trTakerOrderId t)),
       (''tradingType'', JStr tt), (''executedAt'', JTime (trExecutedAt t))])
   }"

definition OrderEvent_Marshal :: "OrderEvent \<Rightarrow> json option" where
  "OrderEvent_Marshal e = do {
     tt \<leftarrow> TradingType_MarshalJSON (oeTradingType e);
     ot \<leftarrow> OrderType_MarshalJSON (oeOrderType e);
     Some (JObj [(''id'', encInt (oeId e)), (''targetId'', encInt (oeTargetId e)),
       (''accountId'', encInt (oeAccountId e)), (''stockId'', encInt (oeStockId e)),
       (''price'', encU64 (oePrice e)), (''tradingType'', JStr tt), (''orderType'', JStr ot),
       (''quantity'', encU64 (oeQuantity e)), (''filledQuantity'', encU64 (oeFilledQuantity e)),
       (''createdAt'', encTimePtr (oeCreatedAt e)),
       (''fullyFilledAt'', encTimePtr (oeFullyFilledAt e))])
   }"

definition OrderRejected_Marshal :: "OrderRejected \<Rightarrow> json" where
  "OrderRejected_Marshal r =
     JObj [(''orderId'', encInt (orOrderId r)), (''reason'', JStr (orReason r))]"

definition Account_Marshal :: "Account \<Rightarrow> json" where
  "Account_Marshal a =
     JObj [(''id'', encInt (aId a)), (''balance'', encU64 (aBalance a)),
       (''availableBalance'', encU64 (aAvailableBalance a))]"

definition StockBalance_Marshal :: "StockBalance \<Rightarrow> json" where
  "StockBalance_Marshal h =
     JObj [(''accountId'', encInt (hAccountId h)), (''stockId'', encInt (hStockId h)),
       (''quantity'', encU64 (hQuantity h)), (''availableQuantity'', encU64 (hAvailableQuantity h)),
       (''average'', encU64 (hAverage h)), (''totalBuyAmount'', encU64 (hTotalBuyAmount h))]"

definition Stock_Marshal :: "Stock \<Rightarrow> json" where
  "Stock_Marshal s =
     JObj [(''id'', encInt (sId s)), (''price'', encU64 (sPrice s)),
       (''status'', JStr (StockStatus_String (sStatus s)))]"

definition OrderBookLevel_Marshal :: "OrderBookLevel \<Rightarrow> json" where
  "OrderBookLevel_Marshal l =
     JObj [(''side'', JStr (lvSide l)), (''price'', encU64 (lvPrice l)),
       (''quantity'', encU64 (lvQuantity l))]"

definition OrderBookUpdated_Marshal :: "OrderBookUpdated \<Rightarrow> json" where
  "OrderBookUpdated_Marshal u =
     JObj [(''stockId'', encInt (obuStockId u)),
       (''levels'', JArr (map OrderBookLevel_Marshal (obuLevels u)))]"

definition TransferCompleted_Marshal :: "TransferCompleted \<Rightarrow> json" where
  "TransferCompleted_Marshal t =
     JObj [(''id'', encInt (tcId t)), (''senderAccountId'', encInt (tcSenderAccountId t)),
       (''recipientAccountId'', encInt (tcRecipientAccountId t)), (''amount'', encU64 (tcAmount t)),
       (''completedAt'', JTime (tcCompletedAt t))]"

definition TransferRejected_Marshal :: "TransferRejected \<Rightarrow> json" where
  "TransferRejected_Marshal t =
     JObj [(''id'', encInt (tjId t)), (''senderAccountId'', encInt (tjSenderAccountId t)),
       (''recipientAccountId'', encInt (tjRecipientAccountId t)), (''amount'', encU64 (tjAmount t)),
       (''reason'', JStr (tjReason t)), (''completedAt'', JTime (tjCompletedAt t))]"

definition AdminRequestCompleted_Marshal :: "AdminRequestCompleted \<Rightarrow> json" where
  "AdminRequestCompleted_Marshal a =
     JObj [(''id'', encInt (acId a)), (''completedAt'', JTime (acCompletedAt a))]"

definition AdminRequestRejected_Marshal :: "AdminRequestRejected \<Rightarrow> json" where
  "AdminRequestRejected_Marshal a =
     JObj [(''id'', encInt (ajId a)), (''reason'', JStr (ajReason a)),
       (''completedAt'', JTime (ajCompletedAt a))]"

definition Trade_Unmarshal :: "json \<Rightarrow> Trade option" where
  "Trade_Unmarshal j = do {
     kvs \<leftarrow> objectOf j;
     i \<leftarrow> decI64 kvs ''id'';
     stock \<leftarrow> decI32 kvs ''stockId'';
     price \<leftarrow> decU64 kvs ''price'';
     quantity \<leftarrow> decU64 kvs ''quantity'';
     maker \<leftarrow> decI64 kvs ''makerOrderId'';
     taker \<leftarrow> decI64 kvs ''takerOrderId'';
     tt \<leftarrow> decEnum TradingType_UnmarshalJSON TRADING_BUY kvs ''tradingType'';
     executed \<leftarrow> decTime kvs ''executedAt'';
     Some \<lparr>trId = i, trStockId = stock, trPrice = price, trQuantity = quantity,
       trMakerOrderId = maker, trTakerOrderId = taker, trTradingType = tt, trExecutedAt = executed\<rparr>
   }"

section \<open>Numbers round trip\<close>

lemma digit_simps [simp]:
  "n < 10 \<Longrightarrow> digitVal (digitChar n) = n" "n < 10 \<Longrightarrow> isDigit (digitChar n)"
  by (simp_all add: digitVal_def digitChar_def isDigit_def of_char_of take_bit_eq_mod)

lemma showNat_digits: "list_all isDigit (showNat n) \<and> showNat n \<noteq> []"
  by (induction n rule: showNat.induct) (subst (1 2) showNat.simps, auto)

lemma showNat_value: "foldl (\<lambda>a c. 10 * a + digitVal c) 0 (showNat n) = n"
  by (induction n rule: showNat.induct) (subst showNat.simps, auto)

lemma parseNat_showNat [simp]: "parseNat (showNat n) = Some n"
  using showNat_digits [of n] by (simp add: parseNat_def showNat_value)

lemma showNat_head: "\<exists>c r. showNat n = c # r \<and> isDigit c"
  using showNat_digits [of n] by (cases "showNat n") auto

lemma showNat_not_null [simp]: "showNat n \<noteq> ''null''"
  using showNat_head [of n] by (auto simp: isDigit_def)

lemma parseInt_showInt [simp]: "lo \<le> i \<Longrightarrow> i \<le> hi \<Longrightarrow> parseInt lo hi (showInt i) = Some i"
proof (cases "i < 0")
  case False
  obtain c r where c: "showNat (nat i) = c # r" "isDigit c" using showNat_head by blast
  have "parseNat (c # r) = Some (nat i)" using parseNat_showNat [of "nat i"] c by simp
  moreover have "c \<noteq> CHR ''-''" using c(2) by (auto simp: isDigit_def)
  moreover assume "lo \<le> i" "i \<le> hi"
  ultimately show ?thesis using False c(1) by (simp add: parseInt_def showInt_def Let_def)
qed (simp add: parseInt_def showInt_def Let_def)

lemma showInt_not_null [simp]: "showInt i \<noteq> ''null''"
  by (simp add: showInt_def)

lemma parseUint_showNat [simp]: "n < 18446744073709551616 \<Longrightarrow> parseUint (showNat n) = Some n"
  by (simp add: parseUint_def)

lemma decInt_encInt [simp]:
  "field kvs name = Some (encInt i) \<Longrightarrow> lo \<le> i \<Longrightarrow> i \<le> hi \<Longrightarrow> decInt lo hi kvs name = Some i"
  by (simp add: decInt_def)

lemma decU64_encU64 [simp]: "field kvs name = Some (encU64 w) \<Longrightarrow> decU64 kvs name = Some w"
  by (simp add: decU64_def unat_64_less)

lemma decTime_JTime [simp]: "field kvs name = Some (JTime t) \<Longrightarrow> decTime kvs name = Some t"
  by (simp add: decTime_def)

lemmas dec_defs = decI64_def decI32_def decEnum_def decStr_def objectOf_def sameKey_def lowerChar_def

lemma Trade_decodes:
  assumes "Trade_Marshal t = Some j"
    and "int64_min \<le> trId t" "trId t \<le> int64_max" "int32_min \<le> trStockId t" "trStockId t \<le> int32_max"
    and "int64_min \<le> trMakerOrderId t" "trMakerOrderId t \<le> int64_max"
    and "int64_min \<le> trTakerOrderId t" "trTakerOrderId t \<le> int64_max"
  shows "Trade_Unmarshal j = Some t"
proof -
  obtain tt where tt: "TradingType_MarshalJSON (trTradingType t) = Some tt"
    using assms(1) by (auto simp: Trade_Marshal_def bind_eq_Some_conv)
  then have "TradingType_UnmarshalJSON tt = Some (trTradingType t)"
    by (simp add: TradingType_JSON_roundtrip)
  with tt assms show ?thesis
    by (auto simp: Trade_Marshal_def Trade_Unmarshal_def dec_defs)
qed

text \<open>
  C40: A trade the engine writes into its output is read back as the same trade, for every trade
  whose ids are in the ranges of their Go types and whose side has a name.
\<close>

theorem Trade_roundtrip:
  assumes "Trade_Marshal t = Some j"
    and "int64_min \<le> trId t" "trId t \<le> int64_max" "int32_min \<le> trStockId t" "trStockId t \<le> int32_max"
    and "int64_min \<le> trMakerOrderId t" "trMakerOrderId t \<le> int64_max"
    and "int64_min \<le> trTakerOrderId t" "trTakerOrderId t \<le> int64_max"
  shows "Trade_Unmarshal j = Some t"
  using assms by (rule Trade_decodes)

theorem Trade_roundtrip_witness:
  "\<exists>j. Trade_Marshal \<lparr>trId = 12, trStockId = 3, trPrice = 70500, trQuantity = 4, trMakerOrderId = 8,
     trTakerOrderId = 9, trTradingType = TRADING_SELL, trExecutedAt = 77\<rparr> = Some j \<and>
   Trade_Unmarshal j = Some \<lparr>trId = 12, trStockId = 3, trPrice = 70500, trQuantity = 4,
     trMakerOrderId = 8, trTakerOrderId = 9, trTradingType = TRADING_SELL, trExecutedAt = 77\<rparr>"
  using Trade_roundtrip [of "\<lparr>trId = 12, trStockId = 3, trPrice = 70500, trQuantity = 4,
     trMakerOrderId = 8, trTakerOrderId = 9, trTradingType = TRADING_SELL, trExecutedAt = 77\<rparr>"]
  by (simp add: Trade_Marshal_def)

lemma Account_roundtrip:
  "int32_min \<le> aId a \<Longrightarrow> aId a \<le> int32_max \<Longrightarrow> Account_Unmarshal (Account_Marshal a) = Some a"
  by (simp add: Account_Marshal_def Account_Unmarshal_def dec_defs)

lemma Stock_roundtrip:
  "int32_min \<le> sId s \<Longrightarrow> sId s \<le> int32_max \<Longrightarrow> (\<forall>w. sStatus s \<noteq> StockStatus_other w) \<Longrightarrow>
   Stock_Unmarshal (Stock_Marshal s) = Some s"
  by (cases "sStatus s") (simp_all add: Stock_Marshal_def Stock_Unmarshal_def dec_defs StockStatus_UnmarshalJSON_def)

section \<open>Events read back by the projector\<close>

definition decTimePtr :: "(string \<times> json) list \<Rightarrow> string \<Rightarrow> time option option" where
  "decTimePtr kvs name =
     (case field kvs name of
        None \<Rightarrow> Some None
      | Some JNull \<Rightarrow> Some None
      | Some (JTime t) \<Rightarrow> Some (Some t)
      | Some _ \<Rightarrow> None)"

definition OrderEvent_Unmarshal :: "json \<Rightarrow> OrderEvent option" where
  "OrderEvent_Unmarshal j = do {
     kvs \<leftarrow> objectOf j;
     i \<leftarrow> decI64 kvs ''id'';
     target \<leftarrow> decI64 kvs ''targetId'';
     acc \<leftarrow> decI32 kvs ''accountId'';
     stock \<leftarrow> decI32 kvs ''stockId'';
     price \<leftarrow> decU64 kvs ''price'';
     tt \<leftarrow> decEnum TradingType_UnmarshalJSON TRADING_BUY kvs ''tradingType'';
     ot \<leftarrow> decEnum OrderType_UnmarshalJSON ORDER_LIMIT kvs ''orderType'';
     quantity \<leftarrow> decU64 kvs ''quantity'';
     filled \<leftarrow> decU64 kvs ''filledQuantity'';
     created \<leftarrow> decTimePtr kvs ''createdAt'';
     full \<leftarrow> decTimePtr kvs ''fullyFilledAt'';
     Some \<lparr>oeId = i, oeTargetId = target, oeAccountId = acc, oeStockId = stock, oePrice = price,
       oeTradingType = tt, oeOrderType = ot, oeQuantity = quantity, oeFilledQuantity = filled,
       oeCreatedAt = created, oeFullyFilledAt = full\<rparr>
   }"

definition OrderRejected_Unmarshal :: "json \<Rightarrow> OrderRejected option" where
  "OrderRejected_Unmarshal j = do {
     kvs \<leftarrow> objectOf j;
     i \<leftarrow> decI64 kvs ''orderId'';
     reason \<leftarrow> decStr kvs ''reason'';
     Some \<lparr>orOrderId = i, orReason = reason\<rparr>
   }"

definition StockBalance_Unmarshal :: "json \<Rightarrow> StockBalance option" where
  "StockBalance_Unmarshal j = do {
     kvs \<leftarrow> objectOf j;
     acc \<leftarrow> decI32 kvs ''accountId'';
     stock \<leftarrow> decI32 kvs ''stockId'';
     quantity \<leftarrow> decU64 kvs ''quantity'';
     available \<leftarrow> decU64 kvs ''availableQuantity'';
     average \<leftarrow> decU64 kvs ''average'';
     total \<leftarrow> decU64 kvs ''totalBuyAmount'';
     Some \<lparr>hAccountId = acc, hStockId = stock, hQuantity = quantity, hAvailableQuantity = available,
       hAverage = average, hTotalBuyAmount = total\<rparr>
   }"

definition TransferCompleted_Unmarshal :: "json \<Rightarrow> TransferCompleted option" where
  "TransferCompleted_Unmarshal j = do {
     kvs \<leftarrow> objectOf j;
     i \<leftarrow> decI64 kvs ''id'';
     sender \<leftarrow> decI32 kvs ''senderAccountId'';
     recipient \<leftarrow> decI32 kvs ''recipientAccountId'';
     amount \<leftarrow> decU64 kvs ''amount'';
     t \<leftarrow> decTime kvs ''completedAt'';
     Some \<lparr>tcId = i, tcSenderAccountId = sender, tcRecipientAccountId = recipient, tcAmount = amount,
       tcCompletedAt = t\<rparr>
   }"

definition TransferRejected_Unmarshal :: "json \<Rightarrow> TransferRejected option" where
  "TransferRejected_Unmarshal j = do {
     kvs \<leftarrow> objectOf j;
     i \<leftarrow> decI64 kvs ''id'';
     sender \<leftarrow> decI32 kvs ''senderAccountId'';
     recipient \<leftarrow> decI32 kvs ''recipientAccountId'';
     amount \<leftarrow> decU64 kvs ''amount'';
     reason \<leftarrow> decStr kvs ''reason'';
     t \<leftarrow> decTime kvs ''completedAt'';
     Some \<lparr>tjId = i, tjSenderAccountId = sender, tjRecipientAccountId = recipient, tjAmount = amount,
       tjReason = reason, tjCompletedAt = t\<rparr>
   }"

definition AdminRequestCompleted_Unmarshal :: "json \<Rightarrow> AdminRequestCompleted option" where
  "AdminRequestCompleted_Unmarshal j = do {
     kvs \<leftarrow> objectOf j;
     i \<leftarrow> decI64 kvs ''id'';
     t \<leftarrow> decTime kvs ''completedAt'';
     Some \<lparr>acId = i, acCompletedAt = t\<rparr>
   }"

definition AdminRequestRejected_Unmarshal :: "json \<Rightarrow> AdminRequestRejected option" where
  "AdminRequestRejected_Unmarshal j = do {
     kvs \<leftarrow> objectOf j;
     i \<leftarrow> decI64 kvs ''id'';
     reason \<leftarrow> decStr kvs ''reason'';
     t \<leftarrow> decTime kvs ''completedAt'';
     Some \<lparr>ajId = i, ajReason = reason, ajCompletedAt = t\<rparr>
   }"

lemma OrderEvent_roundtrip:
  assumes "OrderEvent_Marshal e = Some j"
    and "int64_min \<le> oeId e" "oeId e \<le> int64_max" "int64_min \<le> oeTargetId e" "oeTargetId e \<le> int64_max"
    and "int32_min \<le> oeAccountId e" "oeAccountId e \<le> int32_max" "int32_min \<le> oeStockId e" "oeStockId e \<le> int32_max"
  shows "OrderEvent_Unmarshal j = Some e"
proof -
  obtain tt ot where t: "TradingType_MarshalJSON (oeTradingType e) = Some tt" "OrderType_MarshalJSON (oeOrderType e) = Some ot"
    using assms(1) by (auto simp: OrderEvent_Marshal_def bind_eq_Some_conv)
  then have "TradingType_UnmarshalJSON tt = Some (oeTradingType e)" "OrderType_UnmarshalJSON ot = Some (oeOrderType e)"
    by (simp_all add: TradingType_JSON_roundtrip OrderType_JSON_roundtrip)
  with t assms show ?thesis
    by (cases "oeCreatedAt e"; cases "oeFullyFilledAt e")
      (auto simp: OrderEvent_Marshal_def OrderEvent_Unmarshal_def dec_defs decTimePtr_def encTimePtr_def)
qed

lemma StockBalance_roundtrip:
  "int32_min \<le> hAccountId h \<Longrightarrow> hAccountId h \<le> int32_max \<Longrightarrow> int32_min \<le> hStockId h \<Longrightarrow> hStockId h \<le> int32_max \<Longrightarrow>
   StockBalance_Unmarshal (StockBalance_Marshal h) = Some h"
  by (simp add: StockBalance_Marshal_def StockBalance_Unmarshal_def dec_defs)

lemma notice_roundtrips:
  "int64_min \<le> orOrderId r \<Longrightarrow> orOrderId r \<le> int64_max \<Longrightarrow> OrderRejected_Unmarshal (OrderRejected_Marshal r) = Some r"
  "int64_min \<le> acId c \<Longrightarrow> acId c \<le> int64_max \<Longrightarrow> AdminRequestCompleted_Unmarshal (AdminRequestCompleted_Marshal c) = Some c"
  "int64_min \<le> ajId j \<Longrightarrow> ajId j \<le> int64_max \<Longrightarrow> AdminRequestRejected_Unmarshal (AdminRequestRejected_Marshal j) = Some j"
  by (simp_all add: OrderRejected_Marshal_def OrderRejected_Unmarshal_def AdminRequestCompleted_Marshal_def
      AdminRequestCompleted_Unmarshal_def AdminRequestRejected_Marshal_def AdminRequestRejected_Unmarshal_def dec_defs)

lemma transfer_roundtrips:
  "int64_min \<le> tcId t \<Longrightarrow> tcId t \<le> int64_max \<Longrightarrow> int32_min \<le> tcSenderAccountId t \<Longrightarrow> tcSenderAccountId t \<le> int32_max \<Longrightarrow>
   int32_min \<le> tcRecipientAccountId t \<Longrightarrow> tcRecipientAccountId t \<le> int32_max \<Longrightarrow>
   TransferCompleted_Unmarshal (TransferCompleted_Marshal t) = Some t"
  "int64_min \<le> tjId u \<Longrightarrow> tjId u \<le> int64_max \<Longrightarrow> int32_min \<le> tjSenderAccountId u \<Longrightarrow> tjSenderAccountId u \<le> int32_max \<Longrightarrow>
   int32_min \<le> tjRecipientAccountId u \<Longrightarrow> tjRecipientAccountId u \<le> int32_max \<Longrightarrow>
   TransferRejected_Unmarshal (TransferRejected_Marshal u) = Some u"
  by (simp_all add: TransferCompleted_Marshal_def TransferCompleted_Unmarshal_def TransferRejected_Marshal_def
      TransferRejected_Unmarshal_def dec_defs)

end
