(* ===== verification/Wal.thy ===== *)
theory Wal
  imports Json
begin

text \<open>
  The write-ahead log wrapper (\<^verbatim>\<open>internal/wal/wal.go\<close>) around the package
  \<^verbatim>\<open>github.com/tidwall/wal\<close>. The package is a parameter: a record of its operations on a log
  of type \<open>'l\<close>. What the wrapper relies on is \<open>twal_laws\<close>, the documented behaviour of the
  operations when they succeed, over a view of the log as a list of records whose indices are
  consecutive; \<open>twal_reliable\<close> says that they do succeed. The mutex of the wrapper makes each
  operation one step, which a function of the log is.
\<close>

section \<open>The log package\<close>

datatype 'l truncation = Truncated 'l | OutOfRange | TruncateFailed

record 'l twal =
  twal_FirstIndex :: "'l \<Rightarrow> uint64 option"
  twal_LastIndex :: "'l \<Rightarrow> uint64 option"
  twal_Read :: "'l \<Rightarrow> uint64 \<Rightarrow> bytes option"
  twal_Write :: "'l \<Rightarrow> uint64 \<Rightarrow> bytes \<Rightarrow> 'l option"
  twal_WriteBatch :: "'l \<Rightarrow> (uint64 \<times> bytes) list \<Rightarrow> 'l option"
  twal_TruncateFront :: "'l \<Rightarrow> uint64 \<Rightarrow> 'l truncation"

definition twal_laws :: "'l twal \<Rightarrow> ('l \<Rightarrow> nat) \<Rightarrow> ('l \<Rightarrow> bytes list) \<Rightarrow> bool" where
  "twal_laws ops base recs \<longleftrightarrow>
     (\<forall>l n. twal_LastIndex ops l = Some n \<longrightarrow> n = word_of_nat (base l + length (recs l))) \<and>
     (\<forall>l n. twal_FirstIndex ops l = Some n \<longrightarrow>
        n = (if recs l = [] then 0 else word_of_nat (base l + 1))) \<and>
     (\<forall>l i d. twal_Read ops l i = Some d \<longrightarrow>
        (\<exists>k < length (recs l). i = word_of_nat (base l + k + 1) \<and> d = recs l ! k)) \<and>
     (\<forall>l i d l'. twal_Write ops l i d = Some l' \<longrightarrow>
        i = word_of_nat (base l + length (recs l) + 1) \<and>
        base l' = base l \<and> recs l' = recs l @ [d]) \<and>
     (\<forall>l b l'. twal_WriteBatch ops l b = Some l' \<longrightarrow>
        map fst b = map (\<lambda>k. word_of_nat (base l + length (recs l) + 1 + k)) [0..<length b] \<and>
        base l' = base l \<and> recs l' = recs l @ map snd b) \<and>
     (\<forall>l i l'. twal_TruncateFront ops l i = Truncated l' \<longrightarrow>
        (\<exists>k < length (recs l). i = word_of_nat (base l + k + 1) \<and>
           base l' = base l + k \<and> recs l' = drop k (recs l)))"

definition twal_reliable :: "'l twal \<Rightarrow> ('l \<Rightarrow> nat) \<Rightarrow> ('l \<Rightarrow> bytes list) \<Rightarrow> bool" where
  "twal_reliable ops base recs \<longleftrightarrow>
     (\<forall>l. twal_LastIndex ops l \<noteq> None \<and> twal_FirstIndex ops l \<noteq> None) \<and>
     (\<forall>l k. k < length (recs l) \<and> base l + length (recs l) < 2 ^ 64 \<longrightarrow>
        twal_Read ops l (word_of_nat (base l + k + 1)) = Some (recs l ! k)) \<and>
     (\<forall>l d. base l + length (recs l) + 1 < 2 ^ 64 \<longrightarrow>
        twal_Write ops l (word_of_nat (base l + length (recs l) + 1)) d \<noteq> None)"

section \<open>The wrapper\<close>

definition AppendWithIndex ::
  "'l twal \<Rightarrow> 'l \<Rightarrow> (uint64 \<Rightarrow> bytes option) \<Rightarrow> ('l \<times> uint64) outcome" where
  "AppendWithIndex ops l builder =
     (case twal_LastIndex ops l of
        None \<Rightarrow> Err WalFailed
      | Some lastIdx \<Rightarrow>
          (let index = lastIdx + 1
           in case builder index of
                None \<Rightarrow> Err MarshalFailed
              | Some data \<Rightarrow>
                  (case twal_Write ops l index data of
                     None \<Rightarrow> Err WalFailed
                   | Some l' \<Rightarrow> Ret (l', index))))"

definition Append :: "'l twal \<Rightarrow> 'l \<Rightarrow> bytes \<Rightarrow> ('l \<times> uint64) outcome" where
  "Append ops l data = AppendWithIndex ops l (\<lambda>_. Some data)"

definition AppendBatch :: "'l twal \<Rightarrow> 'l \<Rightarrow> bytes list \<Rightarrow> ('l \<times> uint64) outcome" where
  "AppendBatch ops l datas =
     (if datas = [] then Ret (l, 0)
      else case twal_LastIndex ops l of
             None \<Rightarrow> Err WalFailed
           | Some lastIdx \<Rightarrow>
               (let batch = map (\<lambda>(i, data). (lastIdx + 1 + word_of_nat i, data)) (enumerate 0 datas)
                in case twal_WriteBatch ops l batch of
                     None \<Rightarrow> Err WalFailed
                   | Some l' \<Rightarrow> Ret (l', lastIdx + 1)))"

definition Read :: "'l twal \<Rightarrow> 'l \<Rightarrow> uint64 \<Rightarrow> bytes outcome" where
  "Read ops l i = (case twal_Read ops l i of None \<Rightarrow> Err WalFailed | Some d \<Rightarrow> Ret d)"

definition FirstIndex :: "'l twal \<Rightarrow> 'l \<Rightarrow> uint64 outcome" where
  "FirstIndex ops l = (case twal_FirstIndex ops l of None \<Rightarrow> Err WalFailed | Some n \<Rightarrow> Ret n)"

definition LastIndex :: "'l twal \<Rightarrow> 'l \<Rightarrow> uint64 outcome" where
  "LastIndex ops l = (case twal_LastIndex ops l of None \<Rightarrow> Err WalFailed | Some n \<Rightarrow> Ret n)"

definition TruncateFront :: "'l twal \<Rightarrow> 'l \<Rightarrow> uint64 \<Rightarrow> 'l truncation" where
  "TruncateFront ops l i = twal_TruncateFront ops l i"

section \<open>What the engine relies on\<close>

lemma twal_lawsD:
  assumes "twal_laws ops base recs"
  shows "twal_LastIndex ops l = Some n \<Longrightarrow> n = word_of_nat (base l + length (recs l))"
    and "twal_Write ops l i d = Some l' \<Longrightarrow>
      i = word_of_nat (base l + length (recs l) + 1) \<and> base l' = base l \<and> recs l' = recs l @ [d]"
  using assms unfolding twal_laws_def by blast+

lemma AppendWithIndex_Ret:
  assumes "twal_laws ops base recs" "AppendWithIndex ops l builder = Ret (l', i)"
  obtains d where "builder i = Some d" "recs l' = recs l @ [d]" "base l' = base l"
    "i = word_of_nat (base l + length (recs l) + 1)"
proof -
  obtain lastIdx d where "twal_LastIndex ops l = Some lastIdx" "builder (lastIdx + 1) = Some d"
    "twal_Write ops l (lastIdx + 1) d = Some l'" "i = lastIdx + 1"
    using assms(2) by (auto simp: AppendWithIndex_def Let_def split: option.splits)
  then show ?thesis using twal_lawsD(2) [OF assms(1), of l "lastIdx + 1" d l'] that [of d] by simp
qed

lemma AppendWithIndex_reliable:
  assumes "twal_laws ops base recs" "twal_reliable ops base recs"
    and "base l + length (recs l) + 1 < 2 ^ 64" "builder (word_of_nat (base l + length (recs l) + 1)) = Some d"
  shows "\<exists>l'. AppendWithIndex ops l builder = Ret (l', word_of_nat (base l + length (recs l) + 1))"
proof -
  obtain lastIdx where lastIdx: "twal_LastIndex ops l = Some lastIdx"
    using assms(2) unfolding twal_reliable_def by blast
  then have i: "lastIdx + 1 = word_of_nat (base l + length (recs l) + 1)"
    using twal_lawsD(1) [OF assms(1), of l lastIdx] by simp
  obtain l' where "twal_Write ops l (lastIdx + 1) d = Some l'"
    using assms(2,3) unfolding twal_reliable_def i by blast
  with lastIdx assms(4) [folded i] show ?thesis unfolding i [symmetric] by (simp add: AppendWithIndex_def)
qed

lemma Append_Ret:
  assumes "twal_laws ops base recs" "Append ops l d = Ret (l', i)"
  shows "recs l' = recs l @ [d]" "base l' = base l" "i = word_of_nat (base l + length (recs l) + 1)"
  using AppendWithIndex_Ret [OF assms(1), of l "\<lambda>_. Some d" l' i] assms(2) by (auto simp: Append_def)

lemma Read_reliable:
  assumes "twal_reliable ops base recs" "k < length (recs l)" "base l + length (recs l) < 2 ^ 64"
  shows "Read ops l (word_of_nat (base l + k + 1)) = Ret (recs l ! k)"
proof -
  have "twal_Read ops l (word_of_nat (base l + k + 1)) = Some (recs l ! k)"
    using assms unfolding twal_reliable_def by blast
  then show ?thesis by (simp add: Read_def)
qed

lemma LastIndex_reliable:
  assumes "twal_laws ops base recs" "twal_reliable ops base recs"
  shows "LastIndex ops l = Ret (word_of_nat (base l + length (recs l)))"
proof -
  obtain n where "twal_LastIndex ops l = Some n" using assms(2) unfolding twal_reliable_def by blast
  with twal_lawsD(1) [OF assms(1) this] show ?thesis by (simp add: LastIndex_def)
qed

section \<open>A log in memory\<close>

text \<open>A concrete log with the documented behaviour, on which statements are evaluated.\<close>

record memLog =
  mlBase :: nat
  mlRecs :: "bytes list"

definition memLast :: "memLog \<Rightarrow> uint64" where
  "memLast l = word_of_nat (mlBase l + length (mlRecs l))"

definition memOps :: "memLog twal" where
  "memOps = \<lparr>
     twal_FirstIndex = (\<lambda>l. Some (if mlRecs l = [] then 0 else word_of_nat (mlBase l + 1))),
     twal_LastIndex = (\<lambda>l. Some (memLast l)),
     twal_Read = (\<lambda>l i. let k = unat i in
       if mlBase l < k \<and> k \<le> mlBase l + length (mlRecs l) then Some (mlRecs l ! (k - mlBase l - 1))
       else None),
     twal_Write = (\<lambda>l i d. if i = memLast l + 1 \<and> memLast l + 1 \<noteq> 0
       then Some (l\<lparr>mlRecs := mlRecs l @ [d]\<rparr>) else None),
     twal_WriteBatch = (\<lambda>l b.
       if map fst b = map (\<lambda>k. memLast l + 1 + word_of_nat k) [0..<length b]
       then Some (l\<lparr>mlRecs := mlRecs l @ map snd b\<rparr>) else None),
     twal_TruncateFront = (\<lambda>l i. let k = unat i in
       if mlBase l < k \<and> k \<le> mlBase l + length (mlRecs l)
       then Truncated \<lparr>mlBase = k - 1, mlRecs = drop (k - mlBase l - 1) (mlRecs l)\<rparr>
       else OutOfRange)\<rparr>"

definition memEmpty :: memLog where
  "memEmpty = \<lparr>mlBase = 0, mlRecs = []\<rparr>"

lemma mem_position:
  assumes "mlBase l < unat (i::uint64)" "unat i \<le> mlBase l + length (mlRecs l)"
  shows "\<exists>k < length (mlRecs l). k = unat i - mlBase l - 1 \<and> i = word_of_nat (mlBase l + k + 1)"
  using assms by (intro exI [of _ "unat i - mlBase l - 1"]) auto

lemma memOps_laws: "twal_laws memOps mlBase mlRecs"
proof -
  have rd: "\<exists>k < length (mlRecs l). i = word_of_nat (mlBase l + k + 1) \<and> d = mlRecs l ! k"
    if "twal_Read memOps l i = Some d" for l i d
    using that mem_position [of l i] by (auto simp: memOps_def Let_def split: if_splits)
  have tr: "\<exists>k < length (mlRecs l). i = word_of_nat (mlBase l + k + 1) \<and>
      mlBase l' = mlBase l + k \<and> mlRecs l' = drop k (mlRecs l)"
    if "twal_TruncateFront memOps l i = Truncated l'" for l i l'
    using that mem_position [of l i] by (auto simp: memOps_def Let_def split: if_splits)
  show ?thesis
    unfolding twal_laws_def
    using rd tr by (simp add: memOps_def memLast_def ac_simps split: if_splits)
qed

lemma memOps_reliable: "twal_reliable memOps mlBase mlRecs"
proof -
  have nat: "unat (word_of_nat n :: uint64) = n" if "n < 2 ^ 64" for n
    using that by (simp add: unat_of_nat take_bit_eq_mod)
  have nz: "memLast l + 1 \<noteq> 0" if "mlBase l + length (mlRecs l) + 1 < 2 ^ 64" for l
    using that nat [of "mlBase l + length (mlRecs l) + 1"]
    by (metis add.commute memLast_def of_nat_Suc Suc_eq_plus1 unat_0 Zero_not_Suc)
  have rd: "twal_Read memOps l (word_of_nat (mlBase l + k + 1)) = Some (mlRecs l ! k)"
    if "k < length (mlRecs l)" "mlBase l + length (mlRecs l) < 2 ^ 64" for l k
    using that nat [of "mlBase l + k + 1"] by (simp add: memOps_def Let_def)
  show ?thesis
    unfolding twal_reliable_def
    using rd nz by (simp add: memOps_def memLast_def ac_simps)
qed

end
