(* ===== verification/Dedup.thy ===== *)
theory Dedup
  imports Prelude
begin

text \<open>
  The duplicate filter (\<^verbatim>\<open>internal/core/dedup.go\<close>): per kind of request a set of recently
  accepted ids, with a ring buffer that says which id to forget next. The specification is a
  queue of the last ids, oldest first; the ring is a rotation of that queue.
\<close>

section \<open>Operations\<close>

record recentIDs =
  seen :: "int64 fset"
  ring :: "int64 list"
  pos :: nat

definition newRecentIDs :: "int \<Rightarrow> recentIDs" where
  "newRecentIDs window =
     (let window = (if window \<le> 0 then 1 else window)
      in \<lparr>seen = {||}, ring = replicate (nat window) 0, pos = 0\<rparr>)"

definition recentIDs_has :: "recentIDs \<Rightarrow> int64 \<Rightarrow> bool" where
  "recentIDs_has r i \<longleftrightarrow> i |\<in>| seen r"

definition recentIDs_add :: "recentIDs \<Rightarrow> int64 \<Rightarrow> recentIDs" where
  "recentIDs_add r i =
     (if i |\<in>| seen r then r
      else let old = ring r ! pos r;
               seen' = (if old \<noteq> 0 then seen r |-| {|old|} else seen r);
               ring' = (ring r)[pos r := i];
               pos' = pos r + 1
           in \<lparr>seen = finsert i seen', ring = ring',
               pos = (if pos' = length ring' then 0 else pos')\<rparr>)"

record dedup =
  window :: int
  byKind :: "(string, recentIDs) fmap"

definition newDedup :: "int \<Rightarrow> dedup" where
  "newDedup w = \<lparr>window = w, byKind = fmempty\<rparr>"

definition dedup_has :: "dedup \<Rightarrow> string \<Rightarrow> int64 \<Rightarrow> bool" where
  "dedup_has d kind i =
     (case fmlookup (byKind d) kind of None \<Rightarrow> False | Some r \<Rightarrow> recentIDs_has r i)"

definition dedup_add :: "dedup \<Rightarrow> string \<Rightarrow> int64 \<Rightarrow> dedup" where
  "dedup_add d kind i =
     (let r = (case fmlookup (byKind d) kind of None \<Rightarrow> newRecentIDs (window d) | Some r \<Rightarrow> r)
      in d\<lparr>byKind := fmupd kind (recentIDs_add r i) (byKind d)\<rparr>)"

section \<open>The ring is a queue\<close>

definition idQueue :: "recentIDs \<Rightarrow> int64 list" where
  "idQueue r = drop (pos r) (ring r) @ take (pos r) (ring r)"

text \<open>
  Zero marks an unused slot. Apart from zero, the set holds exactly the used slots, without
  repetition. An id zero is never evicted from the set: its slot looks unused.
\<close>

definition wf_recent :: "recentIDs \<Rightarrow> bool" where
  "wf_recent r \<longleftrightarrow> pos r < length (ring r) \<and> fset (seen r) - {0} = set (ring r) - {0} \<and>
     distinct (filter (\<lambda>i. i \<noteq> 0) (ring r))"

definition pushId :: "int64 list \<Rightarrow> int64 \<Rightarrow> int64 list" where
  "pushId q i = (if i \<in> set q then q else tl q @ [i])"

lemma set_idQueue: "set (idQueue r) = set (ring r)"
  unfolding idQueue_def by (metis append_take_drop_id set_append Un_commute)

lemma wf_newRecentIDs: "wf_recent (newRecentIDs w)"
  by (simp add: wf_recent_def newRecentIDs_def Let_def filter_replicate)

lemma recentIDs_has_queue: "wf_recent r \<Longrightarrow> i \<noteq> 0 \<Longrightarrow> recentIDs_has r i \<longleftrightarrow> i \<in> set (idQueue r)"
  by (auto simp: recentIDs_has_def wf_recent_def set_idQueue)

lemma idQueue_write:
  assumes "p < length xs"
  shows "idQueue \<lparr>seen = S, ring = xs[p := i], pos = (if p + 1 = length xs then 0 else p + 1)\<rparr> =
    tl (drop p xs @ take p xs) @ [i]"
proof -
  have tl: "tl (drop p xs @ take p xs) = drop (Suc p) xs @ take p xs"
    using assms by (simp add: tl_append2 drop_Suc tl_drop)
  have "xs[p := i] = take p xs @ i # drop (Suc p) xs" using assms by (rule upd_conv_take_nth_drop)
  with assms tl show ?thesis by (auto simp: idQueue_def)
qed

lemma recentIDs_add_queue:
  assumes "wf_recent r" "i \<noteq> 0"
  shows "idQueue (recentIDs_add r i) = pushId (idQueue r) i"
proof (cases "i |\<in>| seen r")
  case True
  then have "i \<in> set (idQueue r)" using recentIDs_has_queue [OF assms] by (simp add: recentIDs_has_def)
  with True show ?thesis by (simp add: recentIDs_add_def pushId_def)
next
  case False
  then have "i \<notin> set (idQueue r)" using recentIDs_has_queue [OF assms] by (simp add: recentIDs_has_def)
  moreover have "idQueue (recentIDs_add r i) = tl (drop (pos r) (ring r) @ take (pos r) (ring r)) @ [i]"
  proof -
    have "pos r < length (ring r)" using assms(1) by (simp add: wf_recent_def)
    from idQueue_write [OF this] False show ?thesis
      unfolding recentIDs_add_def Let_def length_list_update by (simp only: if_False)
  qed
  ultimately show ?thesis by (simp add: pushId_def idQueue_def)
qed

lemma recentIDs_add_zero:
  assumes "wf_recent r"
  shows "idQueue (recentIDs_add r 0) \<in> {idQueue r, tl (idQueue r) @ [0]}"
proof (cases "0 |\<in>| seen r")
  case False
  have "pos r < length (ring r)" using assms by (simp add: wf_recent_def)
  from idQueue_write [OF this] False show ?thesis
    unfolding recentIDs_add_def Let_def length_list_update idQueue_def [of r] by (simp only: if_False) simp
qed (simp add: recentIDs_add_def)

lemma wf_recentIDs_add:
  assumes "wf_recent r"
  shows "wf_recent (recentIDs_add r i)"
proof (cases "i |\<in>| seen r")
  case False
  have "pos r < length (ring r)" using assms(1) by (simp add: wf_recent_def)
  then obtain A old B where ring: "ring r = A @ old # B" and len: "pos r = length A"
    using id_take_nth_drop [of "pos r" "ring r"]
    by (intro that [of "take (pos r) (ring r)" "ring r ! pos r" "drop (Suc (pos r)) (ring r)"]) simp_all
  have upd: "(ring r)[pos r := i] = A @ i # B" "ring r ! pos r = old"
    unfolding ring len by simp_all
  have wf: "fset (seen r) - {0} = set (A @ old # B) - {0}" "distinct (filter (\<lambda>i. i \<noteq> 0) (A @ old # B))"
    using assms(1) ring by (simp_all add: wf_recent_def)
  have i: "i = 0 \<or> i \<notin> set A \<and> i \<notin> set B" using False wf(1) by auto
  have "fset (finsert i (if old \<noteq> 0 then seen r |-| {|old|} else seen r)) - {0} =
      insert i (fset (seen r) - {0} - {old}) - {0}" by auto
  also have "\<dots> = set (A @ i # B) - {0}"
    using wf(2) i unfolding wf(1) by (auto split: if_splits)
  finally have "fset (finsert i (if old \<noteq> 0 then seen r |-| {|old|} else seen r)) - {0} = set (A @ i # B) - {0}" .
  moreover have "distinct (filter (\<lambda>i. i \<noteq> 0) (A @ i # B))" using wf(2) i by (auto split: if_splits)
  ultimately show ?thesis
    using False len unfolding recentIDs_add_def Let_def upd by (simp add: wf_recent_def)
qed (use assms in \<open>simp add: recentIDs_add_def\<close>)

section \<open>The filter\<close>

definition wf_dedup :: "dedup \<Rightarrow> bool" where
  "wf_dedup d \<longleftrightarrow> (\<forall>k r. fmlookup (byKind d) k = Some r \<longrightarrow> wf_recent r)"

definition kindQueue :: "dedup \<Rightarrow> string \<Rightarrow> int64 list" where
  "kindQueue d k =
     idQueue (case fmlookup (byKind d) k of None \<Rightarrow> newRecentIDs (window d) | Some r \<Rightarrow> r)"

lemma dedup_has_queue:
  assumes "wf_dedup d" "i \<noteq> 0"
  shows "dedup_has d k i \<longleftrightarrow> i \<in> set (kindQueue d k)"
proof (cases "fmlookup (byKind d) k")
  case None
  then show ?thesis
    using assms(2) recentIDs_has_queue [OF wf_newRecentIDs assms(2), of "window d"]
    by (simp add: dedup_has_def kindQueue_def recentIDs_has_def newRecentIDs_def Let_def)
next
  case (Some r)
  with assms show ?thesis
    by (simp add: dedup_has_def kindQueue_def recentIDs_has_queue wf_dedup_def)
qed

lemma kindQueue_add:
  assumes "wf_dedup d" "i \<noteq> 0"
  shows "kindQueue (dedup_add d k i) j = (if j = k then pushId (kindQueue d k) i else kindQueue d j)"
proof (cases "fmlookup (byKind d) k")
  case None
  then show ?thesis
    using recentIDs_add_queue [OF wf_newRecentIDs assms(2)]
    by (simp add: kindQueue_def dedup_add_def Let_def split: option.split)
next
  case (Some r)
  with assms show ?thesis
    by (simp add: kindQueue_def dedup_add_def Let_def wf_dedup_def recentIDs_add_queue
        split: option.split)
qed

lemma wf_dedup_add: "wf_dedup d \<Longrightarrow> wf_dedup (dedup_add d k i)"
  by (auto simp: wf_dedup_def dedup_add_def Let_def wf_recentIDs_add wf_newRecentIDs split: option.split)

lemma wf_newDedup: "wf_dedup (newDedup w)"
  by (simp add: wf_dedup_def newDedup_def)

lemma length_kindQueue_add:
  assumes "wf_dedup d" "i \<noteq> 0"
  shows "length (kindQueue (dedup_add d k i) k) = length (kindQueue d k)"
proof -
  have "idQueue r \<noteq> []" if "wf_recent r" for r
    using that by (auto simp: idQueue_def wf_recent_def)
  then have "kindQueue d k \<noteq> []"
    using assms(1) wf_newRecentIDs [of "window d"]
    by (auto simp: kindQueue_def wf_dedup_def split: option.split)
  then show ?thesis by (simp add: kindQueue_add [OF assms] pushId_def)
qed

section \<open>The window\<close>

definition addAll :: "dedup \<Rightarrow> string \<Rightarrow> int64 list \<Rightarrow> dedup" where
  "addAll d k is = foldl (\<lambda>d i. dedup_add d k i) d is"

lemma foldl_pushId:
  assumes "q \<noteq> []" "distinct xs" "set xs \<inter> set q = {}"
  shows "foldl pushId q xs = drop (length xs) (q @ xs)"
  using assms
proof (induction xs arbitrary: q)
  case (Cons x xs)
  then obtain a l where q: "q = a # l" by (cases q) auto
  have "foldl pushId (l @ [x]) xs = drop (length xs) ((l @ [x]) @ xs)"
    using Cons.prems by (intro Cons.IH) (auto simp: q)
  moreover have "pushId q x = l @ [x]" using Cons.prems by (simp add: pushId_def q)
  ultimately show ?case by (simp add: q del: drop_append)
qed simp

lemma addAll_queue:
  assumes "wf_dedup d" "0 \<notin> set is"
  shows "wf_dedup (addAll d k is) \<and> kindQueue (addAll d k is) k = foldl pushId (kindQueue d k) is"
  using assms
proof (induction "is" arbitrary: d)
  case (Cons i "is")
  then show ?case
    using Cons.IH [of "dedup_add d k i"] wf_dedup_add [of d k i] kindQueue_add [of d i k k]
    by (simp add: addAll_def)
qed (simp add: addAll_def)

lemma dedup_has_new [simp]: "\<not> dedup_has (newDedup w) k i"
  by (simp add: dedup_has_def newDedup_def)

lemma length_newDedup_queue: "length (kindQueue (newDedup w) k) = nat (if w \<le> 0 then 1 else w)"
  by (simp add: kindQueue_def newDedup_def idQueue_def newRecentIDs_def Let_def)

lemma window_exact:
  assumes "wf_dedup d" "distinct (i # is)" "0 \<notin> set (i # is)"
    and "\<forall>j\<in>set (i # is). \<not> dedup_has d k j"
  shows "dedup_has (addAll d k (i # is)) k i \<longleftrightarrow> length is < length (kindQueue d k)"
proof -
  let ?q = "kindQueue d k" and ?d = "addAll d k (i # is)"
  have new: "set (i # is) \<inter> set ?q = {}"
    using assms(3,4) dedup_has_queue [OF assms(1)] by (auto; metis)
  have ne: "?q \<noteq> []"
    using length_kindQueue_add [OF assms(1), of i k] assms(3) kindQueue_add [OF assms(1), of i k k]
    by (auto simp: pushId_def)
  have wf: "wf_dedup ?d" and q: "kindQueue ?d k = drop (length (i # is)) (?q @ i # is)"
    using addAll_queue [OF assms(1,3), of k] foldl_pushId [OF ne assms(2) new] by auto
  have "dedup_has ?d k i \<longleftrightarrow> i \<in> set (drop (length (i # is)) (?q @ i # is))"
    using dedup_has_queue [OF wf, of i k] assms(3) q by simp
  also have "\<dots> \<longleftrightarrow> length is < length ?q"
  proof (cases "length is < length ?q")
    case False
    then obtain n where "Suc (length is) = length ?q + Suc n" using less_imp_Suc_add [of "length ?q" "Suc (length is)"] by auto
    then show ?thesis using False assms(2) by (auto dest: in_set_dropD)
  qed (auto simp: drop_append)
  finally show ?thesis .
qed

lemma dedup_add_kinds:
  assumes "wf_dedup d" "i \<noteq> 0" "j \<noteq> 0" "k \<noteq> k'"
  shows "dedup_has (dedup_add d k i) k i \<and> dedup_has (dedup_add d k i) k' j = dedup_has d k' j"
  using kindQueue_add [OF assms(1,2), of k] assms wf_dedup_add [OF assms(1), where k = k and i = i]
  by (simp add: dedup_has_queue pushId_def)

section \<open>Filling an empty window\<close>

text \<open>
  A window that still has unused slots in front takes one more id without losing any: also
  when the id is zero, which takes a slot but leaves it looking unused.
\<close>

lemma kindQueue_add_zero:
  assumes "wf_dedup d"
  shows "kindQueue (dedup_add d k 0) k \<in> {kindQueue d k, tl (kindQueue d k) @ [0]}"
  using assms recentIDs_add_zero [OF wf_newRecentIDs [of "window d"]] recentIDs_add_zero
  by (cases "fmlookup (byKind d) k") (auto simp: kindQueue_def dedup_add_def Let_def wf_dedup_def)

lemma kindQueue_other: "j \<noteq> k \<Longrightarrow> kindQueue (dedup_add d k i) j = kindQueue d j"
  by (simp add: kindQueue_def dedup_add_def Let_def split: option.split)

definition freeSlots :: "nat \<Rightarrow> dedup \<Rightarrow> string \<Rightarrow> int64 set \<Rightarrow> bool" where
  "freeSlots n d k S \<longleftrightarrow> (\<exists>m u. n \<le> m \<and> kindQueue d k = replicate m 0 @ u \<and> S \<subseteq> set u)"

lemma freeSlots_add:
  assumes "wf_dedup d" "freeSlots (Suc n) d k S"
  shows "freeSlots n (dedup_add d k i) k (if i = 0 then S else insert i S)"
proof -
  obtain m u where m: "n \<le> m" "kindQueue d k = replicate (Suc m) 0 @ u" "S \<subseteq> set u"
    using assms(2) unfolding freeSlots_def by (metis Suc_le_D Suc_le_mono)
  consider "kindQueue (dedup_add d k i) k = kindQueue d k" "i = 0 \<or> i \<in> set u"
    | "kindQueue (dedup_add d k i) k = tl (kindQueue d k) @ [i]"
    using kindQueue_add [OF assms(1), of i k k] kindQueue_add_zero [OF assms(1), of k] m(2)
    by (cases "i = 0"; cases "i \<in> set (kindQueue d k)") (auto simp: pushId_def)
  then show ?thesis
  proof cases
    case 1
    with m show ?thesis unfolding freeSlots_def by (intro exI [of _ "Suc m"] exI [of _ u]) auto
  next
    case 2
    with m show ?thesis unfolding freeSlots_def by (intro exI [of _ m] exI [of _ "u @ [i]"]) auto
  qed
qed

lemma freeSlots_other: "j \<noteq> k \<Longrightarrow> freeSlots n (dedup_add d k i) j S = freeSlots n d j S"
  by (simp add: freeSlots_def kindQueue_other)

lemma freeSlots_mono: "freeSlots m d k S \<Longrightarrow> n \<le> m \<Longrightarrow> freeSlots n d k S"
  unfolding freeSlots_def by (meson le_trans)

lemma freeSlots_new: "0 < w \<Longrightarrow> freeSlots (nat w) (newDedup w) k {}"
  unfolding freeSlots_def by (rule exI [of _ "nat w"]) (simp add: kindQueue_def newDedup_def idQueue_def newRecentIDs_def)

lemma freeSlots_has: "wf_dedup d \<Longrightarrow> freeSlots n d k S \<Longrightarrow> i \<in> S \<Longrightarrow> i \<noteq> 0 \<Longrightarrow> dedup_has d k i"
  by (auto simp: dedup_has_queue freeSlots_def)

text \<open>Recording requests of several kinds one after the other.\<close>

definition rememberAll :: "dedup \<Rightarrow> (string \<times> int64) list \<Rightarrow> dedup" where
  "rememberAll d xs = foldl (\<lambda>d (k, i). dedup_add d k i) d xs"

lemma rememberAll_slots:
  assumes "wf_dedup d" "freeSlots (length xs) d k S"
  shows "wf_dedup (rememberAll d xs)" "freeSlots 0 (rememberAll d xs) k (S \<union> {i. (k, i) \<in> set xs \<and> i \<noteq> 0})"
proof -
  have "wf_dedup (rememberAll d xs) \<and> freeSlots 0 (rememberAll d xs) k (S \<union> {i. (k, i) \<in> set xs \<and> i \<noteq> 0})"
    using assms
  proof (induction xs arbitrary: d S)
    case (Cons x xs)
    obtain k' i where x: "x = (k', i)" by fastforce
    let ?S = "if k' = k \<and> i \<noteq> 0 then insert i S else S"
    have "freeSlots (length xs) (dedup_add d k' i) k ?S"
    proof (cases "k' = k")
      case True
      with freeSlots_add [of d "length xs" k S i] Cons.prems show ?thesis by (cases "i = 0") auto
    next
      case False
      with freeSlots_mono [OF Cons.prems(2), of "length xs"] show ?thesis by (simp add: freeSlots_other)
    qed
    from Cons.IH [OF wf_dedup_add [OF Cons.prems(1)] this]
    have "wf_dedup (rememberAll d (x # xs))"
      "freeSlots 0 (rememberAll d (x # xs)) k (?S \<union> {i. (k, i) \<in> set xs \<and> i \<noteq> 0})"
      by (simp_all add: rememberAll_def x)
    moreover have "S \<union> {i. (k, i) \<in> set (x # xs) \<and> i \<noteq> 0} = ?S \<union> {i. (k, i) \<in> set xs \<and> i \<noteq> 0}"
      by (auto simp: x)
    ultimately show ?case by simp
  qed (simp add: rememberAll_def)
  then show "wf_dedup (rememberAll d xs)"
    "freeSlots 0 (rememberAll d xs) k (S \<union> {i. (k, i) \<in> set xs \<and> i \<noteq> 0})" by auto
qed

lemma rememberAll_has:
  assumes "0 < w" "length xs \<le> nat w" "(k, i) \<in> set xs" "i \<noteq> 0"
  shows "dedup_has (rememberAll (newDedup w) xs) k i"
proof -
  have "freeSlots (length xs) (newDedup w) k {}"
    by (rule freeSlots_mono [OF freeSlots_new [OF assms(1)] assms(2)])
  note R = rememberAll_slots [OF wf_newDedup this]
  show ?thesis using freeSlots_has [OF R, of i] assms(3,4) by simp
qed

section \<open>The size of the filter\<close>

definition ringSize :: "nat \<Rightarrow> dedup \<Rightarrow> bool" where
  "ringSize n d \<longleftrightarrow> nat (if window d \<le> 0 then 1 else window d) = n \<and>
     (\<forall>k r. fmlookup (byKind d) k = Some r \<longrightarrow> length (ring r) = n)"

lemma ringSize_add: "ringSize n d \<Longrightarrow> ringSize n (dedup_add d k i)"
  by (auto simp: ringSize_def dedup_add_def recentIDs_add_def newRecentIDs_def Let_def split: option.splits if_splits)

lemma rememberAll_size: "ringSize n d \<Longrightarrow> wf_dedup d \<Longrightarrow> ringSize n (rememberAll d xs) \<and> wf_dedup (rememberAll d xs)"
  unfolding rememberAll_def by (induction xs arbitrary: d) (auto simp: ringSize_add wf_dedup_add)

lemma seen_size:
  assumes "wf_recent r"
  shows "card (fset (seen r) - {0}) \<le> length (ring r)"
proof -
  have "fset (seen r) - {0} \<subseteq> set (ring r)" using assms by (auto simp: wf_recent_def)
  then have "card (fset (seen r) - {0}) \<le> card (set (ring r))" by (simp add: card_mono)
  also have "\<dots> \<le> length (ring r)" by (rule card_length)
  finally show ?thesis .
qed

text \<open>
  The memory of the duplicate filter is bounded. However many requests of whatever kinds are
  recorded, the ring of each kind has exactly as many slots as the window is long, and besides
  the id zero, which is never evicted, the set holds at most that many ids.
\<close>

lemma dedup_memory_bounded:
  assumes "0 < w" "fmlookup (byKind (rememberAll (newDedup w) xs)) k = Some r"
  shows "length (ring r) = nat w \<and> card (fset (seen r) - {0}) \<le> nat w \<and> card (fset (seen r)) \<le> nat w + 1"
proof -
  have "ringSize (nat w) (newDedup w)" using assms(1) by (simp add: ringSize_def newDedup_def)
  from rememberAll_size [OF this wf_newDedup, of xs] assms(2)
  have r: "length (ring r) = nat w" "wf_recent r" by (auto simp: ringSize_def wf_dedup_def)
  have "card (fset (seen r)) \<le> card (fset (seen r) - {0}) + 1"
    using card_Diff1_le [of "fset (seen r)" 0] by (cases "(0::int) \<in> fset (seen r)") (simp_all add: card_Diff_singleton)
  with seen_size [OF r(2)] r(1) show ?thesis by simp
qed

lemma length_kindQueue: "ringSize n d \<Longrightarrow> wf_dedup d \<Longrightarrow> length (kindQueue d k) = n"
proof (cases "fmlookup (byKind d) k")
  case (Some r)
  assume "ringSize n d" "wf_dedup d"
  with Some have "length (ring r) = n" "pos r < length (ring r)" by (auto simp: ringSize_def wf_dedup_def wf_recent_def)
  with Some show ?thesis by (simp add: kindQueue_def idQueue_def)
qed (auto simp: ringSize_def kindQueue_def idQueue_def newRecentIDs_def Let_def)

lemma recentIDs_zero: "recentIDs_has r 0 \<Longrightarrow> recentIDs_has (recentIDs_add r i) 0"
  by (auto simp: recentIDs_has_def recentIDs_add_def Let_def)

lemma addAll_zero: "dedup_has d k 0 \<Longrightarrow> dedup_has (addAll d k is) k 0"
proof (induction "is" arbitrary: d)
  case (Cons i "is")
  have "dedup_has (dedup_add d k i) k 0"
    using Cons.prems by (auto simp: dedup_has_def dedup_add_def Let_def recentIDs_zero split: option.splits)
  then show ?case using Cons.IH by (simp add: addAll_def)
qed (simp add: addAll_def)

text \<open>
  C36: The window of the duplicate filter, for ids other than zero. In a filter with a positive
  window, whatever was recorded before, a newly recorded id that is not zero and was not known is
  still known after further ids of its kind were recorded, provided these are not zero, distinct
  and were not known either, exactly as long as there are fewer of them than the window is long:
  then it is forgotten. The id zero is different: once recorded, it is never forgotten.
\<close>

theorem dedup_window_exact:
  assumes "0 < w" "d = rememberAll (newDedup w) xs"
  shows "(distinct (i # is) \<and> 0 \<notin> set (i # is) \<and> (\<forall>j\<in>set (i # is). \<not> dedup_has d k j) \<longrightarrow>
      (dedup_has (addAll d k (i # is)) k i \<longleftrightarrow> length is < nat w)) \<and>
    dedup_has (addAll d k (0 # is)) k 0"
proof -
  have "ringSize (nat w) (newDedup w)" using assms(1) by (simp add: ringSize_def newDedup_def)
  from rememberAll_size [OF this wf_newDedup, of xs] have d: "ringSize (nat w) d" "wf_dedup d" by (simp_all add: assms(2))
  have "dedup_has (dedup_add d k 0) k 0"
    by (simp add: dedup_has_def dedup_add_def Let_def recentIDs_has_def recentIDs_add_def)
  then have "dedup_has (addAll d k (0 # is)) k 0" using addAll_zero by (simp add: addAll_def)
  then show ?thesis using window_exact [OF d(2), of i "is" k] length_kindQueue [OF d] by simp
qed

theorem dedup_window_exact_witness:
  "dedup_has (addAll (rememberAll (newDedup 2) [(''order.created'', 4)]) ''order.created'' [5, 6]) ''order.created'' 5 \<and>
   \<not> dedup_has (addAll (rememberAll (newDedup 2) [(''order.created'', 4)]) ''order.created'' [5, 6, 7]) ''order.created'' 5 \<and>
   dedup_has (addAll (rememberAll (newDedup 2) [(''order.created'', 4)]) ''order.created'' [0, 6, 7, 8]) ''order.created'' 0"
proof -
  have w: "(0::int) < 2" by simp
  have n: "\<not> dedup_has (rememberAll (newDedup 2) [(''order.created'', 4)]) ''order.created'' j" if "j \<in> {5, 6, 7}" for j
    using that by (auto simp: rememberAll_def dedup_has_def dedup_add_def newDedup_def newRecentIDs_def recentIDs_has_def recentIDs_add_def Let_def)
  show ?thesis
    using dedup_window_exact [OF w refl, of 5 "[6]" "[(''order.created'', 4)]" "''order.created''"]
      dedup_window_exact [OF w refl, of 5 "[6, 7]" "[(''order.created'', 4)]" "''order.created''"]
      dedup_window_exact [OF w refl, of 5 "[6, 7, 8]" "[(''order.created'', 4)]" "''order.created''"] n by simp
qed

end
