(* ===== verification/Engine.thy ===== *)
theory Engine
  imports LedgerInv Wal Dedup
begin

text \<open>
  The engine's own state and its output (\<^verbatim>\<open>internal/core/engine.go\<close>): the message and event
  patterns, the events with their payloads, the engine struct, the trade id counter and
  \<^verbatim>\<open>appendOutput\<close>, the one way a handled request leaves a record in the output log.

  Two things outside the program are arguments: \<open>ops\<close>, the log package of \<open>Wal\<close>, and
  \<open>clk\<close>, the readings of \<^verbatim>\<open>time.Now\<close>; the engine counts its readings in \<open>ticks\<close>. A method
  returns the engine it leaves behind together with how it ended, also when it ends in an
  error or a panic.
\<close>

section \<open>Patterns\<close>

definition PatternOrderCreated :: string where
  [pattern_defs]: "PatternOrderCreated = ''order.created''"

definition PatternAccountCreated :: string where
  [pattern_defs]: "PatternAccountCreated = ''account.created''"

definition PatternTransferCreated :: string where
  [pattern_defs]: "PatternTransferCreated = ''transfer.created''"

definition PatternStockList :: string where
  [pattern_defs]: "PatternStockList = ''stock.list''"

definition PatternAdminBalanceAdjust :: string where
  [pattern_defs]: "PatternAdminBalanceAdjust = ''admin.account.balance.adjust''"

definition PatternAdminStockBalanceAdjust :: string where
  [pattern_defs]: "PatternAdminStockBalanceAdjust = ''admin.stock.balance.adjust''"

definition PatternTradeExecuted :: string where
  [pattern_defs]: "PatternTradeExecuted = ''trade.executed''"

definition PatternOrderOpen :: string where
  [pattern_defs]: "PatternOrderOpen = ''order.open''"

definition PatternOrderFilled :: string where
  [pattern_defs]: "PatternOrderFilled = ''order.filled''"

definition PatternOrderCanceled :: string where
  [pattern_defs]: "PatternOrderCanceled = ''order.canceled''"

definition PatternOrderReplaced :: string where
  [pattern_defs]: "PatternOrderReplaced = ''order.replaced''"

definition PatternOrderCompleted :: string where
  [pattern_defs]: "PatternOrderCompleted = ''order.completed''"

definition PatternOrderRejected :: string where
  [pattern_defs]: "PatternOrderRejected = ''order.rejected''"

definition PatternAccountUpdated :: string where
  [pattern_defs]: "PatternAccountUpdated = ''account.updated''"

definition PatternAccountActivated :: string where
  [pattern_defs]: "PatternAccountActivated = ''account.activated''"

definition PatternHoldingUpdated :: string where
  [pattern_defs]: "PatternHoldingUpdated = ''holding.updated''"

definition PatternStockListed :: string where
  [pattern_defs]: "PatternStockListed = ''stock.listed''"

definition PatternStockUpdated :: string where
  [pattern_defs]: "PatternStockUpdated = ''stock.updated''"

definition PatternOrderBookUpdated :: string where
  [pattern_defs]: "PatternOrderBookUpdated = ''orderbook.updated''"

definition PatternTransferCompleted :: string where
  [pattern_defs]: "PatternTransferCompleted = ''transfer.completed''"

definition PatternTransferRejected :: string where
  [pattern_defs]: "PatternTransferRejected = ''transfer.rejected''"

definition PatternAdminRequestCompleted :: string where
  [pattern_defs]: "PatternAdminRequestCompleted = ''admin.request.completed''"

definition PatternAdminRequestRejected :: string where
  [pattern_defs]: "PatternAdminRequestRejected = ''admin.request.rejected''"

abbreviation dedupWindow :: int where
  "dedupWindow \<equiv> 8192"

section \<open>Events\<close>

text \<open>The payload of an event, which the source holds as \<^verbatim>\<open>any\<close>: one constructor per struct used.\<close>

datatype evdata =
    EvTrade Trade
  | EvOrder OrderEvent
  | EvRejected OrderRejected
  | EvAccount Account
  | EvHolding StockBalance
  | EvStock Stock
  | EvBook OrderBookUpdated
  | EvTransferCompleted TransferCompleted
  | EvTransferRejected TransferRejected
  | EvAdminCompleted AdminRequestCompleted
  | EvAdminRejected AdminRequestRejected

record outEvent =
  pattern :: string
  data :: evdata

abbreviation ev :: "string \<Rightarrow> evdata \<Rightarrow> outEvent" where
  "ev p d \<equiv> \<lparr>pattern = p, data = d\<rparr>"

fun evdata_Marshal :: "evdata \<Rightarrow> json option" where
  "evdata_Marshal (EvTrade t) = Trade_Marshal t"
| "evdata_Marshal (EvOrder e) = OrderEvent_Marshal e"
| "evdata_Marshal (EvRejected r) = Some (OrderRejected_Marshal r)"
| "evdata_Marshal (EvAccount a) = Some (Account_Marshal a)"
| "evdata_Marshal (EvHolding h) = Some (StockBalance_Marshal h)"
| "evdata_Marshal (EvStock s) = Some (Stock_Marshal s)"
| "evdata_Marshal (EvBook u) = Some (OrderBookUpdated_Marshal u)"
| "evdata_Marshal (EvTransferCompleted t) = Some (TransferCompleted_Marshal t)"
| "evdata_Marshal (EvTransferRejected t) = Some (TransferRejected_Marshal t)"
| "evdata_Marshal (EvAdminCompleted a) = Some (AdminRequestCompleted_Marshal a)"
| "evdata_Marshal (EvAdminRejected a) = Some (AdminRequestRejected_Marshal a)"

record OutputEvent =
  outPattern :: string
  outData :: bytes  \<comment> \<open>\<^verbatim>\<open>json.RawMessage\<close>; \<open>NotJson\<close> when it is empty\<close>

record OutputEnvelope =
  envInputSeq :: uint64
  envOutputSeq :: uint64
  envCreatedAt :: time
  envEvents :: "OutputEvent list"

definition OutputEvent_Marshal :: "OutputEvent \<Rightarrow> json" where
  "OutputEvent_Marshal e =
     JObj [(''pattern'', JStr (outPattern e)), (''data'', case outData e of Text j \<Rightarrow> j | NotJson \<Rightarrow> JNull)]"

definition OutputEnvelope_Marshal :: "OutputEnvelope \<Rightarrow> json" where
  "OutputEnvelope_Marshal env =
     JObj [(''inputSeq'', JNum (uint (envInputSeq env))), (''outputSeq'', JNum (uint (envOutputSeq env))),
       (''createdAt'', JTime (envCreatedAt env)),
       (''events'', JArr (map OutputEvent_Marshal (envEvents env)))]"

text \<open>Reading envelopes back: a number in its range, and a list of events.\<close>

definition decNumU64 :: "(string \<times> json) list \<Rightarrow> string \<Rightarrow> uint64 option" where
  "decNumU64 kvs name =
     (case field kvs name of
        None \<Rightarrow> Some 0
      | Some JNull \<Rightarrow> Some 0
      | Some (JNum n) \<Rightarrow> if 0 \<le> n \<and> n < 2 ^ 64 then Some (word_of_int n) else None
      | Some _ \<Rightarrow> None)"

definition OutputEvent_Unmarshal :: "json \<Rightarrow> OutputEvent option" where
  "OutputEvent_Unmarshal j = do {
     kvs \<leftarrow> objectOf j;
     p \<leftarrow> decStr kvs ''pattern'';
     Some \<lparr>outPattern = p, outData = (case field kvs ''data'' of None \<Rightarrow> NotJson | Some d \<Rightarrow> Text d)\<rparr>
   }"

fun decAll :: "(json \<Rightarrow> 'a option) \<Rightarrow> json list \<Rightarrow> 'a list option" where
  "decAll f [] = Some []"
| "decAll f (j # js) = do { x \<leftarrow> f j; xs \<leftarrow> decAll f js; Some (x # xs) }"

definition decEvents :: "(string \<times> json) list \<Rightarrow> string \<Rightarrow> OutputEvent list option" where
  "decEvents kvs name =
     (case field kvs name of
        None \<Rightarrow> Some []
      | Some JNull \<Rightarrow> Some []
      | Some (JArr js) \<Rightarrow> decAll OutputEvent_Unmarshal js
      | Some _ \<Rightarrow> None)"

definition OutputEnvelope_Unmarshal :: "json \<Rightarrow> OutputEnvelope option" where
  "OutputEnvelope_Unmarshal j = do {
     kvs \<leftarrow> objectOf j;
     i \<leftarrow> decNumU64 kvs ''inputSeq'';
     q \<leftarrow> decNumU64 kvs ''outputSeq'';
     t \<leftarrow> decTime kvs ''createdAt'';
     es \<leftarrow> decEvents kvs ''events'';
     Some \<lparr>envInputSeq = i, envOutputSeq = q, envCreatedAt = t, envEvents = es\<rparr>
   }"

fun marshalEvents :: "outEvent list \<Rightarrow> OutputEvent list option" where
  "marshalEvents [] = Some []"
| "marshalEvents (e # es) =
     (case evdata_Marshal (data e) of
        None \<Rightarrow> None
      | Some raw \<Rightarrow>
          (case marshalEvents es of
             None \<Rightarrow> None
           | Some out \<Rightarrow> Some (\<lparr>outPattern = pattern e, outData = Text raw\<rparr> # out)))"

text \<open>Marshalling fails only on an order or trading type without a name.\<close>

definition marshals :: "outEvent \<Rightarrow> bool" where
  "marshals e \<longleftrightarrow> evdata_Marshal (data e) \<noteq> None"

lemma marshalEvents_None: "marshalEvents es = None \<longleftrightarrow> \<not> list_all marshals es"
  by (induction es) (auto simp: marshals_def split: option.splits)

lemma marshals_simps [simp]:
  "marshals (ev p (EvAccount a))" "marshals (ev p (EvHolding h))" "marshals (ev p (EvStock s))"
  "marshals (ev p (EvBook u))" "marshals (ev p (EvRejected r))" "marshals (ev p (EvTransferCompleted tc))"
  "marshals (ev p (EvTransferRejected tj))" "marshals (ev p (EvAdminCompleted ac))"
  "marshals (ev p (EvAdminRejected aj))"
  "marshals (ev p (EvTrade t)) \<longleftrightarrow> TradingType_MarshalJSON (trTradingType t) \<noteq> None"
  "marshals (ev p (EvOrder oe)) \<longleftrightarrow>
     TradingType_MarshalJSON (oeTradingType oe) \<noteq> None \<and> OrderType_MarshalJSON (oeOrderType oe) \<noteq> None"
  by (auto simp: marshals_def Trade_Marshal_def OrderEvent_Marshal_def bind_eq_None_conv)

section \<open>The engine\<close>

record 'l Engine =
  inputLog :: 'l
  outputLog :: 'l
  state :: State
  inputSeq :: uint64
  outputAppliedSeq :: uint64
  lastTradeID :: int64
  dedup :: dedup
  outputSignal :: bool  \<comment> \<open>whether the channel of capacity one holds a signal\<close>
  ticks :: nat          \<comment> \<open>readings of the clock so far\<close>

type_synonym clock = "nat \<Rightarrow> time"
type_synonym ('l, 'a) result = "'l Engine \<times> 'a outcome"

definition andThen :: "('l, 'a) result \<Rightarrow> ('l Engine \<Rightarrow> 'a \<Rightarrow> ('l, 'b) result) \<Rightarrow> ('l, 'b) result" where
  "andThen r f =
     (case snd r of
        Ret a \<Rightarrow> f (fst r) a
      | Err x \<Rightarrow> (fst r, Err x)
      | Panic x \<Rightarrow> (fst r, Panic x))"

lemma andThen_simps [simp]:
  "andThen (e, Ret a) f = f e a" "andThen (e, Err x) f = (e, Err x)"
  "andThen (e, Panic x) f = (e, Panic x)"
  by (simp_all add: andThen_def)

definition now :: "clock \<Rightarrow> 'l Engine \<Rightarrow> time \<times> 'l Engine" where
  "now clk e = (clk (ticks e), e\<lparr>ticks := ticks e + 1\<rparr>)"

definition nextTradeID :: "'l Engine \<Rightarrow> ('l, int64) result" where
  "nextTradeID e =
     (if lastTradeID e = int64_max then (e, Err TradeIDExhausted)
      else (e\<lparr>lastTradeID := lastTradeID e + 1\<rparr>, Ret (lastTradeID e + 1)))"

definition notifyPublisher :: "'l Engine \<Rightarrow> 'l Engine" where
  "notifyPublisher e = e\<lparr>outputSignal := True\<rparr>"

definition appendOutput :: "'l twal \<Rightarrow> clock \<Rightarrow> 'l Engine \<Rightarrow> outEvent list \<Rightarrow> ('l, unit) result" where
  "appendOutput ops clk e events =
     (if events = [] then (e, Ret ())
      else if 0 < outputAppliedSeq e \<and> inputSeq e \<le> outputAppliedSeq e then (e, Ret ())
      else case marshalEvents events of
             None \<Rightarrow> (e, Err MarshalFailed)
           | Some out \<Rightarrow>
               (let (createdAt, e1) = now clk e
                in case AppendWithIndex ops (outputLog e1)
                     (\<lambda>outputSeq. Some (Text (OutputEnvelope_Marshal
                        \<lparr>envInputSeq = inputSeq e1, envOutputSeq = outputSeq,
                         envCreatedAt = createdAt, envEvents = out\<rparr>))) of
                     Ret (l, _) \<Rightarrow> (notifyPublisher (e1\<lparr>outputLog := l\<rparr>), Ret ())
                   | Err x \<Rightarrow> (e1, Err x)
                   | Panic x \<Rightarrow> (e1, Panic x)))"

text \<open>An error of \<^verbatim>\<open>appendOutput\<close> that the caller turns into a panic.\<close>

definition orPanic :: "('l, 'a) result \<Rightarrow> ('l, 'a) result" where
  "orPanic r = (case snd r of Err x \<Rightarrow> (fst r, Panic x) | _ \<Rightarrow> r)"

section \<open>What appending output does\<close>

definition suppressed :: "'l Engine \<Rightarrow> bool" where
  "suppressed e \<longleftrightarrow> 0 < outputAppliedSeq e \<and> inputSeq e \<le> outputAppliedSeq e"

lemma appendOutput_frame:
  assumes "appendOutput ops clk e evs = (e', r)"
  shows "state e' = state e" "inputLog e' = inputLog e" "inputSeq e' = inputSeq e" "dedup e' = dedup e"
    "outputAppliedSeq e' = outputAppliedSeq e" "lastTradeID e' = lastTradeID e"
    "r = Ret () \<or> (\<exists>x. r = Err x)"
  using assms
  by (auto simp: appendOutput_def now_def notifyPublisher_def AppendWithIndex_def Let_def
      split: if_splits option.splits outcome.splits)

lemma appendOutput_suppressed: "suppressed e \<Longrightarrow> appendOutput ops clk e evs = (e, Ret ())"
  by (simp add: appendOutput_def suppressed_def)

text \<open>Otherwise a success leaves exactly one new record: the envelope of the events.\<close>

definition envelopeAt :: "clock \<Rightarrow> 'l Engine \<Rightarrow> OutputEvent list \<Rightarrow> uint64 \<Rightarrow> bytes" where
  "envelopeAt clk e out i = Text (OutputEnvelope_Marshal
     \<lparr>envInputSeq = inputSeq e, envOutputSeq = i, envCreatedAt = clk (ticks e), envEvents = out\<rparr>)"

lemma appendOutput_write:
  assumes "evs \<noteq> []" "\<not> suppressed e" "marshalEvents evs = Some out"
  shows "appendOutput ops clk e evs =
    (case AppendWithIndex ops (outputLog e) (\<lambda>i. Some (envelopeAt clk e out i)) of
       Ret (l, _) \<Rightarrow> (notifyPublisher (e\<lparr>ticks := Suc (ticks e), outputLog := l\<rparr>), Ret ())
     | Err x \<Rightarrow> (e\<lparr>ticks := Suc (ticks e)\<rparr>, Err x)
     | Panic x \<Rightarrow> (e\<lparr>ticks := Suc (ticks e)\<rparr>, Panic x))"
  using assms unfolding appendOutput_def suppressed_def [symmetric] by (simp add: now_def envelopeAt_def)

lemma appendOutput_record:
  assumes laws: "twal_laws ops base recs" and "evs \<noteq> []" "\<not> suppressed e"
    and res: "appendOutput ops clk e evs = (e', Ret ())"
  obtains out where "marshalEvents evs = Some out" "outputSignal e'" "base (outputLog e') = base (outputLog e)"
    "recs (outputLog e') = recs (outputLog e) @
       [envelopeAt clk e out (word_of_nat (base (outputLog e) + length (recs (outputLog e)) + 1))]"
proof -
  obtain out where out: "marshalEvents evs = Some out"
    using assms(2-4) unfolding appendOutput_def suppressed_def [symmetric] by (auto split: option.splits)
  obtain l i where l: "AppendWithIndex ops (outputLog e) (\<lambda>i. Some (envelopeAt clk e out i)) = Ret (l, i)"
    "e' = notifyPublisher (e\<lparr>ticks := Suc (ticks e), outputLog := l\<rparr>)"
    using res unfolding appendOutput_write [OF assms(2,3) out] by (auto split: outcome.splits prod.splits)
  obtain d where "Some (envelopeAt clk e out i) = Some d" "recs l = recs (outputLog e) @ [d]"
    "base l = base (outputLog e)" "i = word_of_nat (base (outputLog e) + length (recs (outputLog e)) + 1)"
    by (rule AppendWithIndex_Ret [OF laws l(1)])
  with l(2) out show thesis by (intro that [of out]) (simp_all add: notifyPublisher_def)
qed

lemma appendOutput_reliable:
  assumes "twal_laws ops base recs" "twal_reliable ops base recs" "list_all marshals evs"
    and "base (outputLog e) + length (recs (outputLog e)) + 1 < 2 ^ 64"
  shows "\<exists>e'. appendOutput ops clk e evs = (e', Ret ())"
proof (cases "evs = [] \<or> suppressed e")
  case True
  then show ?thesis by (auto simp: appendOutput_def suppressed_def)
next
  case False
  then have ne: "evs \<noteq> []" "\<not> suppressed e" by simp_all
  obtain out where out: "marshalEvents evs = Some out"
    using assms(3) marshalEvents_None [of evs] by fastforce
  obtain l' i where "AppendWithIndex ops (outputLog e) (\<lambda>i. Some (envelopeAt clk e out i)) = Ret (l', i)"
    using AppendWithIndex_reliable [OF assms(1,2,4), of "\<lambda>i. Some (envelopeAt clk e out i)"] by blast
  then show ?thesis unfolding appendOutput_write [OF ne out] by simp
qed

lemma orPanic_simps [simp]:
  "orPanic (e, Ret a) = (e, Ret a)" "orPanic (e, Err x) = (e, Panic x)" "orPanic (e, Panic x) = (e, Panic x)"
  by (simp_all add: orPanic_def)

section \<open>Envelopes are read back\<close>

definition rawEvents :: "OutputEvent list \<Rightarrow> bool" where
  "rawEvents es \<longleftrightarrow> (\<forall>e\<in>set es. outData e \<noteq> NotJson)"

lemma decAll_map: "(\<And>x. x \<in> set xs \<Longrightarrow> f (g x) = Some x) \<Longrightarrow> decAll f (map g xs) = Some xs"
  by (induction xs) simp_all

lemma OutputEvent_roundtrip: "outData e \<noteq> NotJson \<Longrightarrow> OutputEvent_Unmarshal (OutputEvent_Marshal e) = Some e"
  by (cases e; cases "outData e") (simp_all add: OutputEvent_Unmarshal_def OutputEvent_Marshal_def dec_defs)

lemma OutputEnvelope_roundtrip:
  assumes "rawEvents (envEvents env)"
  shows "OutputEnvelope_Unmarshal (OutputEnvelope_Marshal env) = Some env"
proof -
  have "decAll OutputEvent_Unmarshal (map OutputEvent_Marshal (envEvents env)) = Some (envEvents env)"
    using assms by (intro decAll_map OutputEvent_roundtrip) (simp add: rawEvents_def)
  moreover have "uint w < 2 ^ 64" for w :: uint64 using uint_lt2p [of w] by simp
  ultimately show ?thesis
    by (simp add: OutputEnvelope_Unmarshal_def OutputEnvelope_Marshal_def decNumU64_def decEvents_def dec_defs)
qed

lemma marshalEvents_raw: "marshalEvents evs = Some out \<Longrightarrow> rawEvents out"
  by (induction evs arbitrary: out) (auto simp: rawEvents_def split: option.splits)

end
