(* ===== verification/Matching.thy ===== *)
theory Matching
  imports Engine
begin

text \<open>
  The matching of one order (\<^verbatim>\<open>matchEvents\<close> in \<^verbatim>\<open>internal/core/order.go\<close>): lock the assets of
  the incoming order, trade with the best counter order until the order is filled or nothing
  acceptable is left, put the rest of a limit order into the book or release the rest of a
  market order, refund a buyer the difference to what was locked, and report.

  The method is one function in Go with closures and a loop over its local variables. Here
  the local variables are the record \<open>matchVars\<close>, one iteration of the loop is \<open>matchIter\<close>,
  and the loop is a recursion that ends because every iteration fills a positive part of what
  is left of the order. The two \<^verbatim>\<open>seen\<close> maps hold the same elements as the slices beside
  them, so membership in the slice replaces them.
\<close>

section \<open>Event helpers\<close>

definition orderEvent :: "Order \<Rightarrow> OrderEvent" where
  "orderEvent order = \<lparr>oeId = oId order, oeTargetId = oTargetId order,
     oeAccountId = oAccountId order, oeStockId = oStockId order, oePrice = oPrice order,
     oeTradingType = oTradingType order, oeOrderType = oOrderType order,
     oeQuantity = oQuantity order, oeFilledQuantity = oFilledQuantity order,
     oeCreatedAt = (if oCreatedAt order = 0 then None else Some (oCreatedAt order)),
     oeFullyFilledAt = None\<rparr>"

definition orderBookSide :: "TradingType \<Rightarrow> string" where
  "orderBookSide side = (if side = TRADING_SELL then ''SELL'' else ''BUY'')"

definition orderStatusPattern :: "Order \<Rightarrow> string" where
  "orderStatusPattern order =
     (if oFilledQuantity order = oQuantity order then PatternOrderFilled
      else if oOrderType order = ORDER_MARKET then PatternOrderCanceled
      else PatternOrderOpen)"

section \<open>Ledger updates\<close>

definition setAccount :: "State \<Rightarrow> Account \<Rightarrow> State" where
  "setAccount s acc = s\<lparr>Accounts := Accounts_Upsert (Accounts s) acc\<rparr>"

definition setHolding :: "State \<Rightarrow> StockBalance \<Rightarrow> State" where
  "setHolding s h = s\<lparr>StockBalances := StockBalances_Upsert (StockBalances s) h\<rparr>"

definition setStock :: "State \<Rightarrow> Stock \<Rightarrow> State" where
  "setStock s st = s\<lparr>Stocks := Stocks_Upsert (Stocks s) st\<rparr>"

definition getAccount :: "State \<Rightarrow> int32 \<Rightarrow> Account option" where
  "getAccount s i = Accounts_Get (Accounts s) i"

definition getHolding :: "State \<Rightarrow> int32 \<Rightarrow> int32 \<Rightarrow> StockBalance option" where
  "getHolding s a st = StockBalances_Get (StockBalances s) (StockKey a st)"

definition getStock :: "State \<Rightarrow> int32 \<Rightarrow> Stock option" where
  "getStock s i = Stocks_Get (Stocks s) i"

text \<open>Locking and releasing, the first for the whole order, the second for a given quantity.\<close>

definition lockAssets :: "State \<Rightarrow> Order \<Rightarrow> uint64 \<Rightarrow> State" where
  "lockAssets s order rest =
     (case oTradingType order of
        TRADING_BUY \<Rightarrow>
          (case getAccount s (oAccountId order) of
             None \<Rightarrow> s
           | Some acc \<Rightarrow> setAccount s
               (acc\<lparr>aAvailableBalance := aAvailableBalance acc - oPrice order * rest\<rparr>))
      | TRADING_SELL \<Rightarrow>
          (case getHolding s (oAccountId order) (oStockId order) of
             None \<Rightarrow> s
           | Some h \<Rightarrow> setHolding s
               (h\<lparr>hAvailableQuantity := hAvailableQuantity h - rest\<rparr>))
      | _ \<Rightarrow> s)"

definition releaseAssets :: "State \<Rightarrow> Order \<Rightarrow> uint64 \<Rightarrow> State" where
  "releaseAssets s order unfilled =
     (case oTradingType order of
        TRADING_BUY \<Rightarrow>
          (case getAccount s (oAccountId order) of
             None \<Rightarrow> s
           | Some acc \<Rightarrow> setAccount s
               (acc\<lparr>aAvailableBalance := aAvailableBalance acc + oPrice order * unfilled\<rparr>))
      | TRADING_SELL \<Rightarrow>
          (case getHolding s (oAccountId order) (oStockId order) of
             None \<Rightarrow> s
           | Some h \<Rightarrow> setHolding s
               (h\<lparr>hAvailableQuantity := hAvailableQuantity h + unfilled\<rparr>))
      | _ \<Rightarrow> s)"

definition zeroHolding :: "int32 \<Rightarrow> int32 \<Rightarrow> StockBalance" where
  "zeroHolding a st = \<lparr>hAccountId = a, hStockId = st, hQuantity = 0, hAvailableQuantity = 0,
     hAverage = 0, hTotalBuyAmount = 0\<rparr>"

definition payBuyer :: "State \<Rightarrow> int32 \<Rightarrow> uint64 \<Rightarrow> State" where
  "payBuyer s buyerID cash =
     (case getAccount s buyerID of
        None \<Rightarrow> s
      | Some buyer \<Rightarrow> setAccount s (buyer\<lparr>aBalance := aBalance buyer - cash\<rparr>))"

definition deliverBuyer :: "State \<Rightarrow> int32 \<Rightarrow> int32 \<Rightarrow> uint64 \<Rightarrow> uint64 \<Rightarrow> State outcome" where
  "deliverBuyer s stock buyerID filled cash =
     (let hold = (case getHolding s buyerID stock of
                    None \<Rightarrow> zeroHolding buyerID stock
                  | Some h \<Rightarrow> h);
          quantity = hQuantity hold + filled;
          total = hTotalBuyAmount hold + cash
      in if quantity = 0 then Panic DivideByZero
         else Ret (setHolding s
                (hold\<lparr>hQuantity := quantity, hAvailableQuantity := hAvailableQuantity hold + filled,
                      hTotalBuyAmount := total, hAverage := total div quantity\<rparr>)))"

definition paySeller :: "State \<Rightarrow> int32 \<Rightarrow> uint64 \<Rightarrow> State" where
  "paySeller s sellerID cash =
     (case getAccount s sellerID of
        None \<Rightarrow> s
      | Some seller \<Rightarrow> setAccount s
          (seller\<lparr>aBalance := aBalance seller + cash,
                  aAvailableBalance := aAvailableBalance seller + cash\<rparr>))"

definition takeSeller :: "State \<Rightarrow> int32 \<Rightarrow> int32 \<Rightarrow> uint64 \<Rightarrow> State" where
  "takeSeller s stock sellerID filled =
     (case getHolding s sellerID stock of
        None \<Rightarrow> s
      | Some hold \<Rightarrow>
          (let quantity = hQuantity hold - filled;
               total = hTotalBuyAmount hold - filled * hAverage hold
           in setHolding s
                (if quantity = 0
                 then hold\<lparr>hQuantity := quantity, hTotalBuyAmount := 0, hAverage := 0\<rparr>
                 else hold\<lparr>hQuantity := quantity, hTotalBuyAmount := total\<rparr>)))"

definition settle :: "State \<Rightarrow> int32 \<Rightarrow> int32 \<Rightarrow> int32 \<Rightarrow> uint64 \<Rightarrow> uint64 \<Rightarrow> State outcome" where
  "settle s stock buyerID sellerID filled cash =
     (case deliverBuyer (payBuyer s buyerID cash) stock buyerID filled cash of
        Ret s1 \<Rightarrow> Ret (takeSeller (paySeller s1 sellerID cash) stock sellerID filled)
      | Err x \<Rightarrow> Err x
      | Panic x \<Rightarrow> Panic x)"

section \<open>The loop\<close>

record matchVars =
  mOrder :: Order
  mAffected :: "(TradingType \<times> uint64) list"
  mFilledCash :: uint64
  mLastTradePrice :: uint64
  mEvents :: "outEvent list"
  mAccountIDs :: "int32 list"

datatype 'v iteration = Break | Continue 'v

definition track :: "'a \<Rightarrow> 'a list \<Rightarrow> 'a list" where
  "track x xs = (if x \<in> set xs then xs else xs @ [x])"

definition counterSide :: "TradingType \<Rightarrow> TradingType" where
  "counterSide t = (if t = TRADING_BUY then TRADING_SELL else TRADING_BUY)"

definition bestCounter :: "OrderBook \<Rightarrow> TradingType \<Rightarrow> uint64 option" where
  "bestCounter ob t =
     (case t of TRADING_BUY \<Rightarrow> BestAsk ob | TRADING_SELL \<Rightarrow> BestBid ob | _ \<Rightarrow> None)"

definition priceRefused :: "Order \<Rightarrow> uint64 \<Rightarrow> bool" where
  "priceRefused order best \<longleftrightarrow> oOrderType order = ORDER_LIMIT \<and>
     (oTradingType order = TRADING_BUY \<and> best > oPrice order \<or>
      oTradingType order = TRADING_SELL \<and> best < oPrice order)"

definition tradeIDFor :: "'l Engine \<Rightarrow> ('l, int64) result" where
  "tradeIDFor e =
     (if outputAppliedSeq e = 0 \<or> inputSeq e > outputAppliedSeq e then nextTradeID e
      else (e, Ret 0))"

definition makerEvent :: "clock \<Rightarrow> 'l Engine \<Rightarrow> Order \<Rightarrow> uint64 \<Rightarrow> outEvent \<times> 'l Engine" where
  "makerEvent clk e counter filled =
     (let makerFilled = oFilledQuantity counter + filled;
          event = (orderEvent counter)\<lparr>oeFilledQuantity := makerFilled\<rparr>
      in if makerFilled = oQuantity counter
         then (let (t, e') = now clk e
               in (ev PatternOrderFilled (EvOrder (event\<lparr>oeFullyFilledAt := Some t\<rparr>)), e'))
         else (ev PatternOrderOpen (EvOrder event), e))"

definition executeTrade ::
  "clock \<Rightarrow> 'l Engine \<Rightarrow> matchVars \<Rightarrow> Order \<Rightarrow> uint64 \<Rightarrow> uint64 \<Rightarrow> ('l, matchVars iteration) result" where
  "executeTrade clk e m counter best filled =
     (let order = (mOrder m)\<lparr>oFilledQuantity := oFilledQuantity (mOrder m) + filled\<rparr>;
          stock = oStockId order;
          cash = best * filled;
          (buyerID, sellerID) =
            (if oTradingType order = TRADING_SELL then (oAccountId counter, oAccountId order)
             else (oAccountId order, oAccountId counter))
      in case settle (state e) stock buyerID sellerID filled cash of
           Err x \<Rightarrow> (e, Err x)
         | Panic x \<Rightarrow> (e, Panic x)
         | Ret s \<Rightarrow>
             andThen (tradeIDFor (e\<lparr>state := s\<rparr>)) (\<lambda>e1 tradeID.
               (let (executedAt, e2) = now clk e1;
                    trade = ev PatternTradeExecuted (EvTrade
                      \<lparr>trId = tradeID, trStockId = stock, trPrice = best, trQuantity = filled,
                       trMakerOrderId = oId counter, trTakerOrderId = oId order,
                       trTradingType = oTradingType order, trExecutedAt = executedAt\<rparr>);
                    (maker, e3) = makerEvent clk e2 counter filled
                in (e3, Ret (Continue
                     \<lparr>mOrder = order,
                      mAffected = track (counterSide (oTradingType order), best) (mAffected m),
                      mFilledCash = mFilledCash m + cash, mLastTradePrice = best,
                      mEvents = mEvents m @ [trade, maker],
                      mAccountIDs = track (oAccountId counter) (mAccountIDs m)\<rparr>)))))"

definition matchIter :: "clock \<Rightarrow> 'l Engine \<Rightarrow> matchVars \<Rightarrow> ('l, matchVars iteration) result" where
  "matchIter clk e m =
     (let order = mOrder m;
          ob = bookOf (state e) (oStockId order)
      in case bestCounter ob (oTradingType order) of
           None \<Rightarrow> (e, Ret Break)
         | Some best \<Rightarrow>
             if priceRefused order best then (e, Ret Break)
             else case Front ob (counterSide (oTradingType order)) best of
                    None \<Rightarrow> (e, Ret Break)
                  | Some counter \<Rightarrow>
                      (case Fill ob (oId counter) (oQuantity order - oFilledQuantity order) of
                         None \<Rightarrow> (e, Panic NilDereference)
                       | Some (filled, ob') \<Rightarrow>
                           (let e' = e\<lparr>state := putBook (state e) (oStockId order) ob'\<rparr>
                            in if filled = 0 then (e', Ret Break)
                               else executeTrade clk e' m counter best filled)))"

text \<open>Every continued iteration fills a positive part of what was left.\<close>

lemma executeTrade_Continue:
  assumes "executeTrade clk e m counter best filled = (e', Ret (Continue m'))"
  shows "mOrder m' = (mOrder m)\<lparr>oFilledQuantity := oFilledQuantity (mOrder m) + filled\<rparr>"
  using assms
  by (auto simp: executeTrade_def Let_def andThen_def split: outcome.splits prod.splits)

lemma matchIter_Continue:
  assumes "matchIter clk e m = (e', Ret (Continue m'))"
  obtains filled where "filled \<noteq> 0" "filled \<le> oQuantity (mOrder m) - oFilledQuantity (mOrder m)"
    "mOrder m' = (mOrder m)\<lparr>oFilledQuantity := oFilledQuantity (mOrder m) + filled\<rparr>"
  using assms
  by (auto simp: matchIter_def Let_def dest: executeTrade_Continue Fill_le_want
      split: option.splits if_splits prod.splits)

function matchLoop :: "clock \<Rightarrow> 'l Engine \<Rightarrow> matchVars \<Rightarrow> ('l, matchVars) result" where
  "matchLoop clk e m =
     (if oFilledQuantity (mOrder m) < oQuantity (mOrder m)
      then (case matchIter clk e m of
              (e', Ret Break) \<Rightarrow> (e', Ret m)
            | (e', Ret (Continue m')) \<Rightarrow> matchLoop clk e' m'
            | (e', Err x) \<Rightarrow> (e', Err x)
            | (e', Panic x) \<Rightarrow> (e', Panic x))
      else (e, Ret m))"
  by pat_completeness auto
termination
proof (relation "measure (\<lambda>(clk, e, m). unat (oQuantity (mOrder m) - oFilledQuantity (mOrder m)))")
  fix clk :: clock and e e' :: "'l Engine" and m m' r i
  assume less: "oFilledQuantity (mOrder m) < oQuantity (mOrder m)"
    and step: "(e', r) = matchIter clk e m" "r = Ret i" "i = Continue m'"
  obtain f where f: "f \<noteq> 0" "f \<le> oQuantity (mOrder m) - oFilledQuantity (mOrder m)"
    "mOrder m' = (mOrder m)\<lparr>oFilledQuantity := oFilledQuantity (mOrder m) + f\<rparr>"
    using step by (metis matchIter_Continue)
  let ?r = "oQuantity (mOrder m) - oFilledQuantity (mOrder m)"
  have "unat (?r - f) < unat ?r"
    using f(2) f(1) [folded unat_gt_0_uint64] unfolding unat_sub_le [OF f(2)]
    by (simp add: word_le_nat_alt)
  then show "((clk, e', m'), clk, e, m) \<in>
      measure (\<lambda>(clk, e, m). unat (oQuantity (mOrder m) - oFilledQuantity (mOrder m)))"
    by (simp add: f(3) diff_diff_eq)
qed simp

declare matchLoop.simps [simp del]

section \<open>After the loop\<close>

definition restOrder :: "State \<Rightarrow> matchVars \<Rightarrow> State \<times> matchVars" where
  "restOrder s m =
     (let order = mOrder m
      in if oFilledQuantity order < oQuantity order \<and> oOrderType order = ORDER_LIMIT
         then (putBook s (oStockId order) (Add (bookOf s (oStockId order)) order),
               m\<lparr>mAffected := track (oTradingType order, oPrice order) (mAffected m)\<rparr>)
         else (s, m))"

definition releaseMarket :: "State \<Rightarrow> Order \<Rightarrow> State" where
  "releaseMarket s order =
     (if oFilledQuantity order < oQuantity order \<and> oOrderType order = ORDER_MARKET
      then releaseAssets s order (oQuantity order - oFilledQuantity order)
      else s)"

definition refundBuyer :: "State \<Rightarrow> Order \<Rightarrow> uint64 \<Rightarrow> uint64 \<Rightarrow> State" where
  "refundBuyer s order initialFilled filledCash =
     (if oTradingType order = TRADING_BUY
      then (let newlyFilled = oFilledQuantity order - initialFilled;
                locked = oPrice order * newlyFilled;
                refund = locked - filledCash
            in if refund > 0
               then (case getAccount s (oAccountId order) of
                       None \<Rightarrow> s
                     | Some acc \<Rightarrow> setAccount s
                         (acc\<lparr>aAvailableBalance := aAvailableBalance acc + refund\<rparr>))
               else s)
      else s)"

definition updateStockPrice :: "State \<Rightarrow> int32 \<Rightarrow> uint64 \<Rightarrow> State \<times> Stock option" where
  "updateStockPrice s stock lastPrice =
     (if lastPrice > 0
      then (case getStock s stock of
              None \<Rightarrow> (s, None)
            | Some st \<Rightarrow> (let st' = st\<lparr>sPrice := lastPrice\<rparr> in (setStock s st', Some st')))
      else (s, None))"

definition takerEvent :: "clock \<Rightarrow> 'l Engine \<Rightarrow> Order \<Rightarrow> outEvent \<times> 'l Engine" where
  "takerEvent clk e order =
     (let p = orderStatusPattern order
      in if p = PatternOrderFilled
         then (let (t, e') = now clk e
               in (ev p (EvOrder ((orderEvent order)\<lparr>oeFullyFilledAt := Some t\<rparr>)), e'))
         else (ev p (EvOrder (orderEvent order)), e))"

definition levelEvents :: "State \<Rightarrow> int32 \<Rightarrow> (TradingType \<times> uint64) list \<Rightarrow> outEvent list" where
  "levelEvents s stock affected =
     (if affected = [] then []
      else [ev PatternOrderBookUpdated (EvBook
              \<lparr>obuStockId = stock,
               obuLevels = map (\<lambda>(side, price).
                 \<lparr>lvSide = orderBookSide side, lvPrice = price,
                  lvQuantity = LevelQuantity (bookOf s stock) side price\<rparr>) affected\<rparr>)])"

definition accountEvents :: "State \<Rightarrow> int32 \<Rightarrow> int32 \<Rightarrow> outEvent list" where
  "accountEvents s stock i =
     (case getAccount s i of None \<Rightarrow> [] | Some acc \<Rightarrow> [ev PatternAccountUpdated (EvAccount acc)]) @
     (case getHolding s i stock of None \<Rightarrow> [] | Some h \<Rightarrow> [ev PatternHoldingUpdated (EvHolding h)])"

definition finishState :: "State \<Rightarrow> matchVars \<Rightarrow> uint64 \<Rightarrow> State \<times> matchVars \<times> Stock option" where
  "finishState s m initialFilled =
     (let (s1, m1) = restOrder s m;
          s2 = releaseMarket s1 (mOrder m1);
          s3 = refundBuyer s2 (mOrder m1) initialFilled (mFilledCash m1);
          (s4, updated) = updateStockPrice s3 (oStockId (mOrder m1)) (mLastTradePrice m1)
      in (s4, m1, updated))"

definition matchEvents :: "clock \<Rightarrow> 'l Engine \<Rightarrow> Order \<Rightarrow> ('l, outEvent list) result" where
  "matchEvents clk e order =
     (let stock = oStockId order;
          initialFilled = oFilledQuantity order;
          rest = oQuantity order - initialFilled;
          s0 = lockAssets (openBook (state e) stock) order rest;
          m0 = \<lparr>mOrder = order, mAffected = [], mFilledCash = 0, mLastTradePrice = 0,
                mEvents = [], mAccountIDs = track (oAccountId order) []\<rparr>
      in andThen (matchLoop clk (e\<lparr>state := s0\<rparr>) m0) (\<lambda>e1 m.
           (let (s, m1, updated) = finishState (state e1) m initialFilled;
                (taker, e2) = takerEvent clk (e1\<lparr>state := s\<rparr>) (mOrder m1)
            in (e2, Ret (mEvents m1 @ [taker] @ levelEvents s stock (mAffected m1) @
                  concat (map (accountEvents s stock) (mAccountIDs m1)) @
                  (case updated of None \<Rightarrow> [] | Some st \<Rightarrow> [ev PatternStockUpdated (EvStock st)]))))))"

end
