(* ===== verification/Settle.thy ===== *)
theory Settle
  imports Matching
begin

text \<open>
  What the ledger updates of \<open>Matching\<close> do to the amounts of \<open>LedgerInv\<close>: storing an account
  or a holding row, the four halves of a settlement, and the settlement as a whole. A
  settlement moves the cash from buyer to seller and the shares from seller to buyer, and
  nothing else; no column wraps when the amounts are covered.
\<close>

section \<open>Storing a row\<close>

lemma getAccount_colv:
  "getAccount s a = Some r \<Longrightarrow> bal s a = unat (aBalance r)"
  "getAccount s a = Some r \<Longrightarrow> avl s a = unat (aAvailableBalance r)"
  by (simp_all add: getAccount_def bal_def avl_def)

lemma getHolding_colv:
  "getHolding s a st = Some h \<Longrightarrow> qty s a st = unat (hQuantity h)"
  "getHolding s a st = Some h \<Longrightarrow> avq s a st = unat (hAvailableQuantity h)"
  "getHolding s a st = None \<Longrightarrow> qty s a st = 0"
  "getHolding s a st = None \<Longrightarrow> avq s a st = 0"
  by (simp_all add: getHolding_def qty_def avq_def)

lemma set_frame [simp]:
  "OrderBooks (setAccount s acc) = OrderBooks s" "OrderBooks (setHolding s h) = OrderBooks s"
  "Stocks (setAccount s acc) = Stocks s" "Stocks (setHolding s h) = Stocks s"
  "Accounts (setHolding s h) = Accounts s" "StockBalances (setAccount s acc) = StockBalances s"
  "bookOf (setAccount s acc) i = bookOf s i" "bookOf (setHolding s h) i = bookOf s i"
  "bookOf (setStock s t) i = bookOf s i" "OrderBooks (setStock s t) = OrderBooks s"
  "qty (setAccount s acc) = qty s" "avq (setAccount s acc) = avq s"
  "bal (setHolding s h) = bal s" "avl (setHolding s h) = avl s"
  "total_shares (setAccount s acc) = total_shares s" "total_cash (setHolding s h) = total_cash s"
  "reserved c (setAccount s acc) = reserved c s" "reserved c (setHolding s h) = reserved c s"
  "bal (setStock s t) = bal s" "avl (setStock s t) = avl s" "qty (setStock s t) = qty s"
  "avq (setStock s t) = avq s" "total_cash (setStock s t) = total_cash s"
  "total_shares (setStock s t) = total_shares s" "reserved c (setStock s t) = reserved c s"
  by (simp_all add: setAccount_def setHolding_def setStock_def)

lemma get_set [simp]:
  "getAccount (setAccount s acc) a = (if a = aId acc then Some acc else getAccount s a)"
  "getAccount (setHolding s h) a = getAccount s a"
  "getAccount (setStock s t) a = getAccount s a"
  "getHolding (setHolding s h) a st =
     (if a = hAccountId h \<and> st = hStockId h then Some h else getHolding s a st)"
  "getHolding (setAccount s acc) a st = getHolding s a st"
  "getHolding (setStock s t) a st = getHolding s a st"
  "getStock (setAccount s acc) i = getStock s i" "getStock (setHolding s h) i = getStock s i"
  "getStock (setStock s t) i = (if i = sId t then Some t else getStock s i)"
  "getAccount (putBook s j b) a = getAccount s a" "getHolding (putBook s j b) a st = getHolding s a st"
  "getStock (putBook s j b) i = getStock s i"
  "getAccount (openBook s j) a = getAccount s a" "getHolding (openBook s j) a st = getHolding s a st"
  "getStock (openBook s j) i = getStock s i"
  by (simp_all add: getAccount_def getHolding_def getStock_def setAccount_def setHolding_def
      setStock_def accounts.get_upsert holdings.get_upsert stocks.get_upsert)

lemma amounts_setAccount [simp]:
  "bal (setAccount s acc) a = (if a = aId acc then unat (aBalance acc) else bal s a)"
  "avl (setAccount s acc) a = (if a = aId acc then unat (aAvailableBalance acc) else avl s a)"
  by (simp_all add: bal_def avl_def setAccount_def)

lemma amounts_setHolding [simp]:
  "qty (setHolding s h) a st =
     (if a = hAccountId h \<and> st = hStockId h then unat (hQuantity h) else qty s a st)"
  "avq (setHolding s h) a st =
     (if a = hAccountId h \<and> st = hStockId h then unat (hAvailableQuantity h) else avq s a st)"
  by (simp_all add: qty_def avq_def setHolding_def)

lemma total_cash_setAccount:
  "total_cash (setAccount s acc) + bal s (aId acc) = total_cash s + unat (aBalance acc)"
  using accounts.osum_upsert [of "Accounts s" acc "\<lambda>r. unat (aBalance r)"]
  by (simp add: total_cash_def setAccount_def bal_def)

lemma total_shares_setHolding:
  assumes "keys_ok s"
  shows "total_shares (setHolding s h) st + (if st = hStockId h then qty s (hAccountId h) st else 0) =
    total_shares s st + (if st = hStockId h then unat (hQuantity h) else 0)"
proof -
  have "colv (StockBalances_Get (StockBalances s)) (sharesOf st) (holdingKey h) =
      (if st = hStockId h then qty s (hAccountId h) st else 0)"
    using sharesOf_eq_qty [OF assms, of st "hAccountId h"] keysD(2) [OF assms, of "holdingKey h"]
    by (cases "StockBalances_Get (StockBalances s) (holdingKey h)") (auto simp: sharesOf_def)
  then show ?thesis
    using holdings.osum_upsert [of "StockBalances s" h "sharesOf st"]
    by (simp add: total_shares_def setHolding_def sharesOf_def)
qed

lemma keys_ok_set [simp]:
  "keys_ok s \<Longrightarrow> keys_ok (setAccount s acc)" "keys_ok s \<Longrightarrow> keys_ok (setHolding s h)"
  "keys_ok s \<Longrightarrow> keys_ok (setStock s t)" "keys_ok (putBook s i b) = keys_ok s"
  "keys_ok (openBook s i) = keys_ok s"
  by (simp_all add: keys_ok_def setAccount_def setHolding_def setStock_def accounts.keyed_upsert
      holdings.keyed_upsert stocks.keyed_upsert)

lemma keys_getD:
  assumes "keys_ok s"
  shows "getAccount s a = Some r \<Longrightarrow> aId r = a"
    and "getHolding s a st = Some h \<Longrightarrow> hAccountId h = a \<and> hStockId h = st"
    and "getStock s i = Some t \<Longrightarrow> sId t = i"
  using keysD [OF assms] by (auto simp: getAccount_def getHolding_def getStock_def)

lemma holders_ok_iff:
  "holders_ok s \<longleftrightarrow> (\<forall>a st. getHolding s a st \<noteq> None \<longrightarrow> getAccount s a \<noteq> None)"
  by (auto simp: holders_ok_def getHolding_def getAccount_def)

lemma holders_ok_set [simp]:
  "holders_ok s \<Longrightarrow> holders_ok (setAccount s acc)"
  "holders_ok s \<Longrightarrow> getAccount s (hAccountId h) \<noteq> None \<Longrightarrow> holders_ok (setHolding s h)"
  "holders_ok (setStock s t) = holders_ok s" "holders_ok (putBook s i b) = holders_ok s"
  "holders_ok (openBook s i) = holders_ok s"
  by (auto simp: holders_ok_iff)

section \<open>The four halves of a settlement\<close>

text \<open>
  \<open>at k n\<close> is \<open>n\<close> at the point \<open>k\<close> and zero elsewhere: each half changes the amounts at one
  point.
\<close>

definition at :: "'k \<Rightarrow> nat \<Rightarrow> 'k \<Rightarrow> nat" where
  "at k n j = (if j = k then n else 0)"

lemma payBuyer_effect:
  assumes "keys_ok s" "getAccount s b \<noteq> None" "unat cash \<le> bal s b"
  defines "s' \<equiv> payBuyer s b cash"
  shows "bal s' a + at b (unat cash) a = bal s a" "avl s' = avl s" "qty s' = qty s" "avq s' = avq s"
    "total_cash s' + unat cash = total_cash s" "total_shares s' = total_shares s"
    "keys_ok s'" "OrderBooks s' = OrderBooks s" "Stocks s' = Stocks s"
    "holders_ok s \<Longrightarrow> holders_ok s'" "getHolding s' = getHolding s"
    "(getAccount s' a = None) = (getAccount s a = None)"
proof -
  obtain acc where acc: "getAccount s b = Some acc" using assms(2) by blast
  note i = keys_getD(1) [OF assms(1) acc]
  have le: "cash \<le> aBalance acc" using assms(3) getAccount_colv(1) [OF acc] by (simp add: word_le_nat_alt)
  have s': "s' = setAccount s (acc\<lparr>aBalance := aBalance acc - cash\<rparr>)"
    using acc by (simp add: s'_def payBuyer_def)
  note d = unat_sub_le [OF le] getAccount_colv [OF acc] assms(3)
  show "bal s' a + at b (unat cash) a = bal s a" using d i by (simp add: s' at_def)
  show "avl s' = avl s" using d i by (auto simp: s' fun_eq_iff)
  show "total_cash s' + unat cash = total_cash s"
    using total_cash_setAccount [of s "acc\<lparr>aBalance := aBalance acc - cash\<rparr>"] d i by (simp add: s')
  show "(getAccount s' a = None) = (getAccount s a = None)" using acc i by (simp add: s')
qed (use assms(1) in \<open>simp_all add: s'_def payBuyer_def fun_eq_iff split: option.split\<close>)

lemma paySeller_effect:
  assumes "keys_ok s" "getAccount s sl \<noteq> None" "bal s sl + unat cash < 2 ^ 64" "avl s sl \<le> bal s sl"
  defines "s' \<equiv> paySeller s sl cash"
  shows "bal s' a = bal s a + at sl (unat cash) a" "avl s' a = avl s a + at sl (unat cash) a"
    "qty s' = qty s" "avq s' = avq s"
    "total_cash s' = total_cash s + unat cash" "total_shares s' = total_shares s"
    "keys_ok s'" "OrderBooks s' = OrderBooks s" "Stocks s' = Stocks s"
    "holders_ok s \<Longrightarrow> holders_ok s'" "getHolding s' = getHolding s"
    "(getAccount s' a = None) = (getAccount s a = None)"
proof -
  obtain acc where acc: "getAccount s sl = Some acc" using assms(2) by blast
  note i = keys_getD(1) [OF assms(1) acc]
  let ?acc = "acc\<lparr>aBalance := aBalance acc + cash, aAvailableBalance := aAvailableBalance acc + cash\<rparr>"
  have s': "s' = setAccount s ?acc" using acc by (simp add: s'_def paySeller_def)
  note c = getAccount_colv [OF acc]
  have d: "unat (aBalance acc + cash) = unat (aBalance acc) + unat cash"
    "unat (aAvailableBalance acc + cash) = unat (aAvailableBalance acc) + unat cash"
    using assms(3,4) c by (simp_all add: unat_add_less)
  show "bal s' a = bal s a + at sl (unat cash) a" using c d i by (simp add: s' at_def)
  show "avl s' a = avl s a + at sl (unat cash) a" using c d i by (simp add: s' at_def)
  show "total_cash s' = total_cash s + unat cash"
    using total_cash_setAccount [of s ?acc] c d i by (simp add: s')
  show "(getAccount s' a = None) = (getAccount s a = None)" using acc i by (simp add: s')
qed (use assms(1) in \<open>simp_all add: s'_def paySeller_def fun_eq_iff split: option.split\<close>)

lemma deliverBuyer_effect:
  assumes "keys_ok s" "holders_ok s" "getAccount s b \<noteq> None"
    and "qty s b st + unat f < 2 ^ 64" "avq s b st \<le> qty s b st" "f \<noteq> 0"
  obtains s' where "deliverBuyer s st b f cash = Ret s'"
    "\<And>a t. qty s' a t = qty s a t + at (b, st) (unat f) (a, t)"
    "\<And>a t. avq s' a t = avq s a t + at (b, st) (unat f) (a, t)"
    "bal s' = bal s" "avl s' = avl s" "total_cash s' = total_cash s"
    "\<And>t. total_shares s' t = total_shares s t + at st (unat f) t"
    "keys_ok s'" "OrderBooks s' = OrderBooks s" "Stocks s' = Stocks s"
    "holders_ok s'" "getAccount s' = getAccount s"
proof -
  define h where "h = (case getHolding s b st of None \<Rightarrow> zeroHolding b st | Some h \<Rightarrow> h)"
  have h: "hAccountId h = b" "hStockId h = st" "unat (hQuantity h) = qty s b st"
    "unat (hAvailableQuantity h) = avq s b st"
    using keys_getD(2) [OF assms(1), of b st] getHolding_colv [of s b st]
    by (auto simp: h_def zeroHolding_def split: option.split)
  have d: "unat (hQuantity h + f) = qty s b st + unat f"
    "unat (hAvailableQuantity h + f) = avq s b st + unat f"
    using assms(4,5) h by (simp_all add: unat_add_less)
  then have nz: "hQuantity h + f \<noteq> 0"
    using assms(6) by (metis add_is_0 unat_0 unat_eq_zero)
  let ?h = "h\<lparr>hQuantity := hQuantity h + f, hAvailableQuantity := hAvailableQuantity h + f,
    hTotalBuyAmount := hTotalBuyAmount h + cash,
    hAverage := (hTotalBuyAmount h + cash) div (hQuantity h + f)\<rparr>"
  have r: "deliverBuyer s st b f cash = Ret (setHolding s ?h)"
    using nz by (simp add: deliverBuyer_def Let_def h_def)
  show thesis
  proof (rule that [OF r])
    fix t show "total_shares (setHolding s ?h) t = total_shares s t + at st (unat f) t"
      using total_shares_setHolding [OF assms(1), of ?h t] h d by (auto simp: at_def split: if_splits)
  qed (use h d assms(1-3) in \<open>auto simp: at_def fun_eq_iff\<close>)
qed

lemma takeSeller_effect:
  assumes "keys_ok s" "holders_ok s" "unat f \<le> qty s sl st" "f \<noteq> 0"
  defines "s' \<equiv> takeSeller s st sl f"
  shows "qty s' a t + at (sl, st) (unat f) (a, t) = qty s a t" "avq s' = avq s"
    "bal s' = bal s" "avl s' = avl s" "total_cash s' = total_cash s"
    "total_shares s' t + at st (unat f) t = total_shares s t"
    "keys_ok s'" "OrderBooks s' = OrderBooks s" "Stocks s' = Stocks s"
    "holders_ok s'" "getAccount s' = getAccount s"
proof -
  have "qty s sl st \<noteq> 0" using assms(3) assms(4) [folded unat_gt_0_uint64] by linarith
  then obtain h where get: "getHolding s sl st = Some h"
    using holding_exists [of s sl st] by (auto simp: getHolding_def)
  note i = keys_getD(2) [OF assms(1) get] and c = getHolding_colv(1,2) [OF get]
  have le: "f \<le> hQuantity h" using assms(3) c by (simp add: word_le_nat_alt)
  define h' where "h' = (if hQuantity h - f = 0
    then h\<lparr>hQuantity := hQuantity h - f, hTotalBuyAmount := 0, hAverage := 0\<rparr>
    else h\<lparr>hQuantity := hQuantity h - f, hTotalBuyAmount := hTotalBuyAmount h - f * hAverage h\<rparr>)"
  have h': "hAccountId h' = sl" "hStockId h' = st" "unat (hQuantity h') + unat f = qty s sl st"
    "unat (hAvailableQuantity h') = avq s sl st"
    using i c assms(3) unat_sub_le [OF le] by (auto simp: h'_def)
  have s': "s' = setHolding s h'" using get by (simp add: s'_def takeSeller_def Let_def h'_def)
  have acc: "getAccount s sl \<noteq> None" using assms(2) get by (auto simp: holders_ok_iff)
  show "qty s' a t + at (sl, st) (unat f) (a, t) = qty s a t" using h' by (auto simp: s' at_def)
  show "avq s' = avq s" using h' by (auto simp: s' fun_eq_iff)
  show "total_shares s' t + at st (unat f) t = total_shares s t"
    using total_shares_setHolding [OF assms(1), of h' t] h' by (auto simp: s' at_def split: if_splits)
  show "holders_ok s'" using assms(2) acc h'(1) by (simp add: s')
qed (use assms(1) in \<open>simp_all add: s'_def takeSeller_def fun_eq_iff Let_def split: option.split\<close>)

section \<open>The settlement\<close>

text \<open>
  The cover a settlement needs: the buyer's cash beyond the available balance, the seller's
  shares beyond the available quantity, and rows for both.
\<close>

definition covered :: "State \<Rightarrow> int32 \<Rightarrow> int32 \<Rightarrow> int32 \<Rightarrow> uint64 \<Rightarrow> uint64 \<Rightarrow> bool" where
  "covered s st b sl f cash \<longleftrightarrow>
     getAccount s b \<noteq> None \<and> avl s b + unat cash \<le> bal s b \<and> avl s sl \<le> bal s sl \<and>
     avq s sl st + unat f \<le> qty s sl st \<and> avq s b st \<le> qty s b st \<and> f \<noteq> 0"

lemma settle_effect:
  assumes keys: "keys_ok s" and hold: "holders_ok s" and bnd: "bounded s"
    and cov: "covered s st b sl f cash"
  obtains s' where "settle s st b sl f cash = Ret s'"
    "\<And>a. bal s' a + at b (unat cash) a = bal s a + at sl (unat cash) a"
    "\<And>a. avl s' a = avl s a + at sl (unat cash) a"
    "\<And>a t. qty s' a t + at (sl, st) (unat f) (a, t) = qty s a t + at (b, st) (unat f) (a, t)"
    "\<And>a t. avq s' a t = avq s a t + at (b, st) (unat f) (a, t)"
    "total_cash s' = total_cash s" "total_shares s' = total_shares s"
    "keys_ok s'" "OrderBooks s' = OrderBooks s" "Stocks s' = Stocks s" "holders_ok s'"
    "\<And>a. (getAccount s' a = None) = (getAccount s a = None)"
proof -
  note cov' = cov [unfolded covered_def]
  have "qty s sl st \<noteq> 0" using cov' unat_gt_0_uint64 [of f] by simp
  then have "getHolding s sl st \<noteq> None" by (metis getHolding_colv(3))
  then have accs: "getAccount s b \<noteq> None" "getAccount s sl \<noteq> None"
    using cov' hold by (auto simp: holders_ok_iff)
  define s1 where "s1 = payBuyer s b cash"
  have "unat cash \<le> bal s b" using cov' by simp
  note p1 = payBuyer_effect [OF keys accs(1) this, folded s1_def]
  have q: "qty s b st + unat f < 2 ^ 64"
  proof (cases "b = sl")
    case True
    with cov' qty_less [OF keys bnd, of sl st] show ?thesis by simp
  next
    case False
    have "total_shares s st < 2 ^ 63" using bnd by (simp add: bounded_def)
    then show ?thesis using qty_two_le_total [OF keys False, of st] cov' by simp
  qed
  obtain s2 where s2: "deliverBuyer s1 st b f cash = Ret s2"
    "\<And>a t. qty s2 a t = qty s1 a t + at (b, st) (unat f) (a, t)"
    "\<And>a t. avq s2 a t = avq s1 a t + at (b, st) (unat f) (a, t)"
    "bal s2 = bal s1" "avl s2 = avl s1" "total_cash s2 = total_cash s1"
    "\<And>t. total_shares s2 t = total_shares s1 t + at st (unat f) t"
    "keys_ok s2" "OrderBooks s2 = OrderBooks s1" "Stocks s2 = Stocks s1"
    "holders_ok s2" "getAccount s2 = getAccount s1"
    by (rule deliverBuyer_effect [of s1 b st f cash]) (use p1 hold accs q cov' in auto)
  define s3 where "s3 = paySeller s2 sl cash"
  have b3: "bal s2 sl + unat cash < 2 ^ 64"
    using bal_le_total [of s2 sl] p1(5) bnd s2(6) unfolding bounded_def by linarith
  have a3: "avl s2 sl \<le> bal s2 sl" using p1(1) [of sl] cov' s2(4,5) p1(2) by (auto simp: at_def split: if_splits)
  have "getAccount s2 sl \<noteq> None" using s2(12) p1(12) accs by simp
  note p3 = paySeller_effect [OF s2(8) this b3 a3, folded s3_def]
  have "unat f \<le> qty s3 sl st" using cov' p3(3) s2(2) p1(3) by simp
  note p4 = takeSeller_effect [OF p3(7) p3(10) [OF s2(11)] this]
  define s4 where "s4 = takeSeller s3 st sl f"
  have f: "f \<noteq> 0" using cov' by simp
  show thesis
  proof (rule that [of s4])
    show "settle s st b sl f cash = Ret s4"
      by (simp add: settle_def s1_def [symmetric] s2(1) s3_def [symmetric] s4_def)
    fix a t
    show "bal s4 a + at b (unat cash) a = bal s a + at sl (unat cash) a"
      using p1(1) [of a] p3(1) [of a] s2(4) p4(3) [OF f] by (simp add: s4_def)
    show "avl s4 a = avl s a + at sl (unat cash) a"
      using p1(2) p3(2) [of a] s2(5) p4(4) [OF f] by (simp add: s4_def)
    show "qty s4 a t + at (sl, st) (unat f) (a, t) = qty s a t + at (b, st) (unat f) (a, t)"
      using p1(3) s2(2) [of a t] p3(3) p4(1) [OF f, of a t] by (simp add: s4_def)
    show "avq s4 a t = avq s a t + at (b, st) (unat f) (a, t)"
      using p1(4) s2(3) [of a t] p3(4) p4(2) [OF f] by (simp add: s4_def)
    show "total_cash s4 = total_cash s" using p1(5) s2(6) p3(5) p4(5) [OF f] by (simp add: s4_def)
    show "total_shares s4 = total_shares s"
    proof
      fix t show "total_shares s4 t = total_shares s t"
        using p1(6) s2(7) [of t] p3(6) p4(6) [OF f, of t] by (simp add: s4_def)
    qed
  qed (use p1 s2 p3 p4(7-11) [OF f] in \<open>simp_all add: s4_def\<close>)
qed

text \<open>
  The settlement on the whole invariant: what leaves the slack or the book in cash leaves the
  buyer's balance, and what leaves in shares leaves the seller's holding.
\<close>

lemma settle_inv:
  assumes "keys_ok s" "holders_ok s" "bounded s" "books_ok s" "getAccount s b \<noteq> None" "f \<noteq> 0"
    and cash: "\<And>a. bal s a = avl s a + reserved (cashW a) s + x a + at b (unat cash) a"
    and shares: "\<And>a t. qty s a t = avq s a t + reserved (shareW a t) s + y a t + at (sl, st) (unat f) (a, t)"
  obtains s' where "settle s st b sl f cash = Ret s'" "ledger_inv s' x y"
    "OrderBooks s' = OrderBooks s" "Stocks s' = Stocks s" "total_cash s' = total_cash s"
    "total_shares s' = total_shares s" "\<And>a. (getAccount s' a = None) = (getAccount s a = None)"
proof -
  have "covered s st b sl f cash"
    unfolding covered_def using assms(5,6) cash [of b] cash [of sl] shares [of b st] shares [of sl st]
    by (simp add: at_def)
  then obtain s' where s': "settle s st b sl f cash = Ret s'"
    "\<And>a. bal s' a + at b (unat cash) a = bal s a + at sl (unat cash) a"
    "\<And>a. avl s' a = avl s a + at sl (unat cash) a"
    "\<And>a t. qty s' a t + at (sl, st) (unat f) (a, t) = qty s a t + at (b, st) (unat f) (a, t)"
    "\<And>a t. avq s' a t = avq s a t + at (b, st) (unat f) (a, t)"
    "total_cash s' = total_cash s" "total_shares s' = total_shares s"
    "keys_ok s'" "OrderBooks s' = OrderBooks s" "Stocks s' = Stocks s" "holders_ok s'"
    "\<And>a. (getAccount s' a = None) = (getAccount s a = None)"
    by (rule settle_effect [OF assms(1-3)]) blast
  have res: "reserved c s' = reserved c s" for c using s'(9) by (simp add: reserved_def)
  have book: "bookOf s' i = bookOf s i" for i using s'(9) by (simp add: bookOf_def)
  have "backed s' x y"
    unfolding backed_def
  proof (intro conjI allI)
    fix a show "bal s' a = avl s' a + reserved (cashW a) s' + x a"
      using s'(2,3) [of a] cash [of a] by (simp add: res)
  next
    fix a t show "qty s' a t = avq s' a t + reserved (shareW a t) s' + y a t"
      using s'(4,5) [of a t] shares [of a t] by (simp add: res)
  qed
  with s' assms(3,4) show thesis
    by (intro that [of s']) (simp_all add: ledger_inv_def bounded_def books_ok_def book)
qed

end
