(* ===== verification/MatchLoop.thy ===== *)
theory MatchLoop
  imports Settle
begin

text \<open>
  The matching loop. First one trade on the ledger: filling a resting order and settling keeps
  the invariant, with the traded amount taken out of the taker's slack. Then one iteration,
  read off the head of the counter queue, and the loop, which is a greedy walk along that
  queue: it ends, it never panics, and it keeps the invariant.
\<close>

section \<open>One trade\<close>

lemma Get_is_side: "wf_book b \<Longrightarrow> Get b i = Some x \<Longrightarrow> is_side (oTradingType x)"
  by (erule (1) Get_Some_elim)

lemma Get_id: "wf_book b \<Longrightarrow> Get b i = Some x \<Longrightarrow> oId x = i"
  by (erule (1) Get_Some_elim)

lemma Fill_keeps_book_ok:
  assumes "book_ok st b" "Get b j = Some c" "want \<noteq> 0" "Fill b j want = Some (f, b')"
  shows "book_ok st b'"
proof -
  have "wf_book b" using assms(1) by (simp add: book_ok_def)
  then obtain b'' g where g: "Fill b j want = Some (g, b'')" "wf_book b''"
    "Get b'' = (Get b)(j := (if want < remaining c then Some (fill_order want c) else None))"
    using book.held_fill [OF _ assms(2,3)] by metis
  then have "b'' = b'" using assms(4) by simp
  moreover have "oStockId x = st \<and> oPrice x \<noteq> 0 \<and> oOrderType x = ORDER_LIMIT"
    if "Get b'' i = Some x" for i x
    using that assms(1,2) unfolding g(3) book_ok_def by (auto split: if_splits)
  ultimately show ?thesis using g(2) by (auto simp: book_ok_def)
qed

lemma reserved_Fill:
  assumes "book_ok st (bookOf s st)" "Get (bookOf s st) j = Some c" "want \<noteq> 0"
    and "Fill (bookOf s st) j want = Some (f, b')" "fill_stable w"
  shows "reserved w (putBook s st b') + w c * unat f = reserved w s"
proof -
  have "wf_book (bookOf s st)" using assms(1) by (simp add: book_ok_def)
  then obtain b'' g where "Fill (bookOf s st) j want = Some (g, b'')"
    "osum (Get b'') (held w) + w c * unat g = osum (Get (bookOf s st)) (held w)"
    using book.held_fill [OF _ assms(2,3)] assms(5) by metis
  then show ?thesis using reserved_putBook [of w s st b'] assms(4) by simp
qed

lemma trade_step:
  assumes inv: "ledger_inv s x y" and c: "Get (bookOf s st) j = Some c" and want: "want \<noteq> 0"
    and fill: "Fill (bookOf s st) j want = Some (f, b')" and f: "f \<noteq> 0"
    and buys: "oTradingType c = TRADING_SELL \<Longrightarrow> b = A \<and> sl = oAccountId c \<and> y' = y \<and>
      getAccount s A \<noteq> None \<and> unat (oPrice c) * unat f < 2 ^ 64 \<and>
      (\<forall>a. x a = x' a + at A (unat (oPrice c) * unat f) a)"
    and sells: "oTradingType c = TRADING_BUY \<Longrightarrow> b = oAccountId c \<and> sl = A \<and> x' = x \<and>
      (\<forall>a t. y a t = y' a t + at (A, st) (unat f) (a, t))"
  obtains s' where "settle (putBook s st b') st b sl f (oPrice c * f) = Ret s'" "ledger_inv s' x' y'"
    "\<And>i. bookOf s' i = (if i = st then b' else bookOf s i)" "Stocks s' = Stocks s"
    "total_cash s' = total_cash s" "total_shares s' = total_shares s"
    "\<And>a. (getAccount s' a = None) = (getAccount s a = None)"
proof -
  let ?s = "putBook s st b'" and ?C = "unat (oPrice c) * unat f"
  have I: "keys_ok s" "books_ok s" "holders_ok s" "bounded s"
    "\<And>a. bal s a = avl s a + reserved (cashW a) s + x a"
    "\<And>a t. qty s a t = avq s a t + reserved (shareW a t) s + y a t"
    using inv by (auto simp: ledger_inv_def backed_def)
  have bk: "book_ok st (bookOf s st)" using I(2) by (simp add: books_ok_def)
  then have cp: "oStockId c = st" "oPrice c \<noteq> 0" "is_side (oTradingType c)"
    using c Get_is_side by (auto simp: book_ok_def)
  note R = reserved_Fill [OF bk c want fill]
  have books': "books_ok ?s"
    using I(2) Fill_keeps_book_ok [OF bk c want fill] by (simp add: books_ok_def)
  have C: "unat (oPrice c * f) = ?C"
  proof (cases "oTradingType c = TRADING_SELL")
    case True
    then show ?thesis using buys by (simp add: unat_mult_less)
  next
    case False
    then have "?C \<le> reserved (cashW (oAccountId c)) s"
      using R [OF fill_stable_weights(1), of "oAccountId c"] cp(3) by (simp add: cashW_def is_side_def)
    also have "\<dots> \<le> bal s (oAccountId c)" using I(5) [of "oAccountId c"] by simp
    also have "\<dots> < 2 ^ 64" using bal_less [OF I(4)] .
    finally show ?thesis by (simp add: unat_mult_less)
  qed
  have cash: "bal ?s a = avl ?s a + reserved (cashW a) ?s + x' a + at b (unat (oPrice c * f)) a" for a
    using I(5) [of a] R [OF fill_stable_weights(1), of a] buys sells cp(3)
    by (auto simp: cashW_def at_def is_side_def C split: if_splits)
  have shares: "qty ?s a t = avq ?s a t + reserved (shareW a t) ?s + y' a t + at (sl, st) (unat f) (a, t)" for a t
    using I(6) [of a t] R [OF fill_stable_weights(2), of a t] buys sells cp(1,3)
    by (auto simp: shareW_def at_def is_side_def split: if_splits)
  have "getAccount ?s b \<noteq> None"
  proof (cases "oTradingType c = TRADING_SELL")
    case False
    have "?C \<noteq> 0" using cp(2) f unat_gt_0_uint64 [of "oPrice c"] unat_gt_0_uint64 [of f] by simp
    then have "bal s b \<noteq> 0" using cash [of b] C by (simp add: at_def)
    then show ?thesis using account_exists [of s b] by (auto simp: getAccount_def)
  qed (use buys in simp)
  then obtain s' where "settle ?s st b sl f (oPrice c * f) = Ret s'" "ledger_inv s' x' y'"
    "OrderBooks s' = OrderBooks ?s" "Stocks s' = Stocks ?s" "total_cash s' = total_cash ?s"
    "total_shares s' = total_shares ?s" "\<And>a. (getAccount s' a = None) = (getAccount ?s a = None)"
    by (rule settle_inv [OF _ _ _ books' _ f cash shares, rotated 3])
      (use I(1,3,4) in \<open>simp_all add: bounded_def\<close>)
  moreover from this(3) have "bookOf s' i = bookOf ?s i" for i by (simp add: bookOf_def)
  ultimately show thesis using that by simp
qed

section \<open>The greedy walk\<close>

text \<open>
  The specification of matching: walk along the counter queue, best order first, and fill as
  much as possible with each, until the order is filled, the queue is empty, or the price of
  the next order is not acceptable. The result lists the fills and what is left of the queue
  and of the order.
\<close>

fun greedy :: "Order \<Rightarrow> Order list \<Rightarrow> (Order \<times> uint64) list \<times> Order list \<times> Order" where
  "greedy x [] = ([], [], x)"
| "greedy x (c # cs) =
     (if remaining x = 0 \<or> priceRefused x (oPrice c) then ([], c # cs, x)
      else if remaining x < remaining c
      then ([(c, remaining x)], fill_order (remaining x) c # cs, fill_order (remaining x) x)
      else (let (ts, q, x') = greedy (fill_order (remaining c) x) cs
            in ((c, remaining c) # ts, q, x')))"

definition tradesOf :: "outEvent list \<Rightarrow> (int64 \<times> uint64 \<times> uint64) list" where
  "tradesOf es = concat (map (\<lambda>e. case data e of
     EvTrade t \<Rightarrow> [(trMakerOrderId t, trPrice t, trQuantity t)] | _ \<Rightarrow> []) es)"

lemma tradesOf_append [simp]: "tradesOf (xs @ ys) = tradesOf xs @ tradesOf ys"
  by (simp add: tradesOf_def)

lemma tradesOf_Nil [simp]: "tradesOf [] = []"
  by (simp add: tradesOf_def)

lemma priceRefused_fill [simp]: "priceRefused (fill_order f x) = priceRefused x"
  by (simp add: priceRefused_def fun_eq_iff)

lemma greedy_remaining0: "remaining x = 0 \<Longrightarrow> greedy x q = ([], q, x)"
  by (cases q) simp_all

section \<open>One iteration\<close>

definition frame :: "'l Engine \<Rightarrow> 'l Engine \<Rightarrow> bool" where
  "frame e e' \<longleftrightarrow> inputLog e' = inputLog e \<and> outputLog e' = outputLog e \<and> inputSeq e' = inputSeq e \<and>
     outputAppliedSeq e' = outputAppliedSeq e \<and> dedup e' = dedup e \<and> outputSignal e' = outputSignal e"

lemma frame_refl [simp]: "frame e e"
  by (simp add: frame_def)

lemma frame_trans: "frame e e' \<Longrightarrow> frame e' e'' \<Longrightarrow> frame e e''"
  by (simp add: frame_def)

lemma frame_upd [simp]: "frame e (e'\<lparr>state := s\<rparr>) = frame e e'" "frame (e\<lparr>state := s\<rparr>) e' = frame e e'"
  by (simp_all add: frame_def)

lemma marshals_orderEvent:
  assumes "is_side (oTradingType r)" "oOrderType r = ORDER_LIMIT \<or> oOrderType r = ORDER_MARKET"
    and "oeTradingType oe = oTradingType r" "oeOrderType oe = oOrderType r"
  shows "marshals (ev p (EvOrder oe))"
  using assms by (auto simp: is_side_def)

lemma orderEvent_types [simp]:
  "oeTradingType (orderEvent r) = oTradingType r" "oeOrderType (orderEvent r) = oOrderType r"
  by (simp_all add: orderEvent_def)

lemma bestCounter_bestPrice: "is_side t \<Longrightarrow> bestCounter b t = bestPrice b (counterSide t)"
  by (auto simp: is_side_def bestCounter_def bestPrice_def counterSide_def)

lemma counterSide_side [simp]: "is_side (counterSide t)" "is_side t \<Longrightarrow> counterSide t \<noteq> t"
  by (auto simp: counterSide_def is_side_def)

text \<open>An iteration looks at the head of the counter queue only.\<close>

lemma matchIter_stop:
  assumes "wf_book (bookOf (state e) (oStockId (mOrder m)))" "is_side (oTradingType (mOrder m))"
    and "prio (bookOf (state e) (oStockId (mOrder m))) (counterSide (oTradingType (mOrder m))) = q"
    and "q = [] \<or> priceRefused (mOrder m) (oPrice (hd q))"
  shows "matchIter clk e m = (e, Ret Break)"
proof (cases q)
  case Nil
  then show ?thesis
    using prio_Nil_iff [OF assms(1) counterSide_side(1), of "oTradingType (mOrder m)"] assms(3)
    by (simp add: matchIter_def bestCounter_bestPrice [OF assms(2)])
next
  case (Cons c cs)
  with assms(4) prio_Cons(1) [OF assms(1) counterSide_side(1) assms(3) [unfolded Cons]]
  show ?thesis by (simp add: matchIter_def bestCounter_bestPrice [OF assms(2)] Let_def)
qed

lemma matchIter_trade:
  assumes "wf_book (bookOf (state e) (oStockId (mOrder m)))" "is_side (oTradingType (mOrder m))"
    and "prio (bookOf (state e) (oStockId (mOrder m))) (counterSide (oTradingType (mOrder m))) = c # cs"
    and "\<not> priceRefused (mOrder m) (oPrice c)"
    and "Fill (bookOf (state e) (oStockId (mOrder m))) (oId c) (remaining (mOrder m)) = Some (f, b')"
    and "f \<noteq> 0"
  shows "matchIter clk e m =
    executeTrade clk (e\<lparr>state := putBook (state e) (oStockId (mOrder m)) b'\<rparr>) m c (oPrice c) f"
  using assms(4-6) prio_Cons(1,2) [OF assms(1) counterSide_side(1) assms(3)]
  by (simp add: matchIter_def bestCounter_bestPrice [OF assms(2)] Let_def)

text \<open>A trade that settles reports one trade and moves the local variables on.\<close>

lemma executeTrade_settled:
  assumes "settle (state e) (oStockId (mOrder m))
      (if oTradingType (mOrder m) = TRADING_SELL then oAccountId c else oAccountId (mOrder m))
      (if oTradingType (mOrder m) = TRADING_SELL then oAccountId (mOrder m) else oAccountId c)
      f (best * f) = Ret s"
    and "lastTradeID e < int64_max" "is_side (oTradingType (mOrder m))" "is_side (oTradingType c)"
    and "oOrderType c = ORDER_LIMIT"
  obtains e' m' where "executeTrade clk e m c best f = (e', Ret (Continue m'))"
    "state e' = s" "frame e e'" "lastTradeID e' \<le> lastTradeID e + 1"
    "mOrder m' = fill_order f (mOrder m)" "mFilledCash m' = mFilledCash m + best * f"
    "mLastTradePrice m' = best"
    "mAffected m' = track (counterSide (oTradingType (mOrder m)), best) (mAffected m)"
    "mAccountIDs m' = track (oAccountId c) (mAccountIDs m)"
    "tradesOf (mEvents m') = tradesOf (mEvents m) @ [(oId c, best, f)]"
    "list_all marshals (mEvents m') = list_all marshals (mEvents m)"
proof -
  define e1 where "e1 = fst (tradeIDFor (e\<lparr>state := s\<rparr>))"
  have "\<exists>i. tradeIDFor (e\<lparr>state := s\<rparr>) = (e1, Ret i)"
    using assms(2) by (cases "outputAppliedSeq e = 0 \<or> inputSeq e > outputAppliedSeq e")
      (simp_all add: e1_def tradeIDFor_def nextTradeID_def)
  then obtain i where i: "tradeIDFor (e\<lparr>state := s\<rparr>) = (e1, Ret i)" by blast
  have e1: "state e1 = s" "frame e e1" "lastTradeID e1 \<le> lastTradeID e + 1"
    by (auto simp: e1_def tradeIDFor_def nextTradeID_def frame_def)
  obtain mk e3 where mk: "makerEvent clk (snd (now clk e1)) c f = (mk, e3)" by fastforce
  then have e3: "state e3 = s" "frame e e3" "lastTradeID e3 \<le> lastTradeID e + 1" "tradesOf [mk] = []"
    using e1 by (auto simp: makerEvent_def now_def Let_def frame_def tradesOf_def split: if_splits)
  have mm: "marshals mk"
    using mk assms(4,5) by (auto simp: makerEvent_def now_def Let_def is_side_def split: if_splits)
  have tt: "TradingType_MarshalJSON (oTradingType (mOrder m)) \<noteq> None"
    using assms(3) by (auto simp: is_side_def)
  let ?trade = "ev PatternTradeExecuted (EvTrade \<lparr>trId = i, trStockId = oStockId (mOrder m), trPrice = best,
    trQuantity = f, trMakerOrderId = oId c, trTakerOrderId = oId (mOrder m),
    trTradingType = oTradingType (mOrder m), trExecutedAt = clk (ticks e1)\<rparr>)"
  let ?m' = "\<lparr>mOrder = fill_order f (mOrder m),
    mAffected = track (counterSide (oTradingType (mOrder m)), best) (mAffected m),
    mFilledCash = mFilledCash m + best * f, mLastTradePrice = best, mEvents = mEvents m @ [?trade, mk],
    mAccountIDs = track (oAccountId c) (mAccountIDs m)\<rparr>"
  have "executeTrade clk e m c best f = (e3, Ret (Continue ?m'))"
    using assms(1) i mk by (auto simp: executeTrade_def Let_def now_def fill_order_def split: if_splits)
  then show thesis
    using that [of e3 ?m'] e3 mm tt by (simp add: tradesOf_def)
qed

section \<open>The loop\<close>

text \<open>
  The invariant of the loop for the taker order \<open>x\<close>. What a buyer locked and has not spent
  yet, respectively what a seller has not delivered yet, is slack of the ledger invariant. A
  market buy needs that no resting ask is dearer than the price its assets were locked at.
\<close>

definition locked :: "Order \<Rightarrow> nat" where
  "locked x = unat (oPrice x) * unat (remaining x)"

definition cashSlack :: "Order \<Rightarrow> matchVars \<Rightarrow> int32 \<Rightarrow> nat" where
  "cashSlack x m = at (oAccountId x)
     (if oTradingType x = TRADING_BUY then locked x - unat (mFilledCash m) else 0)"

definition shareSlack :: "Order \<Rightarrow> matchVars \<Rightarrow> int32 \<Rightarrow> int32 \<Rightarrow> nat" where
  "shareSlack x m a st = at (oAccountId x, oStockId x)
     (if oTradingType x = TRADING_SELL then unat (remaining (mOrder m)) else 0) (a, st)"

definition askCap :: "Order \<Rightarrow> OrderBook \<Rightarrow> bool" where
  "askCap x b \<longleftrightarrow> oTradingType x = TRADING_BUY \<and> oOrderType x \<noteq> ORDER_LIMIT \<longrightarrow>
     (\<forall>i y. Get b i = Some y \<and> oTradingType y = TRADING_SELL \<longrightarrow> oPrice y \<le> oPrice x)"

definition spent_ok :: "Order \<Rightarrow> matchVars \<Rightarrow> bool" where
  "spent_ok x m \<longleftrightarrow> (oTradingType x = TRADING_BUY \<longrightarrow> locked x < 2 ^ 64 \<and>
     unat (mFilledCash m) + unat (oPrice x) * unat (remaining (mOrder m)) \<le> locked x)"

definition loop_inv :: "Order \<Rightarrow> 'l Engine \<Rightarrow> matchVars \<Rightarrow> bool" where
  "loop_inv x e m \<longleftrightarrow>
     (\<exists>f. mOrder m = x\<lparr>oFilledQuantity := f\<rparr>) \<and> oFilledQuantity (mOrder m) \<le> oQuantity x \<and>
     is_side (oTradingType x) \<and> getAccount (state e) (oAccountId x) \<noteq> None \<and>
     ledger_inv (state e) (cashSlack x m) (shareSlack x m) \<and> spent_ok x m \<and>
     Get (bookOf (state e) (oStockId x)) (oId x) = None \<and>
     askCap x (bookOf (state e) (oStockId x)) \<and>
     lastTradeID e + int (unat (remaining (mOrder m))) \<le> int64_max"

lemma loop_invD:
  assumes "loop_inv x e m"
  shows "oTradingType (mOrder m) = oTradingType x" "oAccountId (mOrder m) = oAccountId x"
    "oStockId (mOrder m) = oStockId x" "oPrice (mOrder m) = oPrice x" "oId (mOrder m) = oId x"
    "oQuantity (mOrder m) = oQuantity x" "oOrderType (mOrder m) = oOrderType x"
    "oFilledQuantity (mOrder m) \<le> oQuantity x" "is_side (oTradingType x)"
    "book_ok i (bookOf (state e) i)" "wf_book (bookOf (state e) i)"
  using assms by (auto simp: loop_inv_def ledger_inv_def books_ok_def book_ok_def)

text \<open>The price of an accepted trade is within what a buyer locked.\<close>

lemma accepted_price:
  assumes "askCap x b" "\<not> priceRefused x (oPrice c)" "Get b i = Some c"
    "oTradingType x = TRADING_BUY" "oTradingType c = TRADING_SELL"
  shows "oPrice c \<le> oPrice x"
  using assms by (cases "oOrderType x = ORDER_LIMIT") (auto simp: askCap_def priceRefused_def)

lemma priceRefused_cong:
  "oTradingType x = oTradingType y \<Longrightarrow> oOrderType x = oOrderType y \<Longrightarrow> oPrice x = oPrice y \<Longrightarrow>
   priceRefused x = priceRefused y"
  by (auto simp: priceRefused_def fun_eq_iff)

lemma unat_remaining_fill:
  "f \<le> remaining x \<Longrightarrow> unat (remaining (fill_order f x)) + unat f = unat (remaining x)"
  by (simp add: diff_diff_eq [symmetric] unat_sub_le word_le_nat_alt)

lemma fill_order_le:
  assumes "oFilledQuantity x \<le> oQuantity x" "f \<le> remaining x"
  shows "oFilledQuantity (fill_order f x) \<le> oQuantity x"
proof -
  have "unat (oFilledQuantity x) + unat f \<le> unat (oQuantity x)"
    using assms by (simp add: word_le_nat_alt unat_sub_le)
  then show ?thesis
    using unat_64_less [of "oQuantity x"] by (simp add: word_le_nat_alt unat_add_less)
qed

text \<open>The slack one trade takes.\<close>

lemma buy_slack:
  assumes "spent_ok x m" "oTradingType x = TRADING_BUY" "f \<le> remaining (mOrder m)" "p \<le> oPrice x"
    and "mFilledCash m' = mFilledCash m + p * f" "mOrder m' = fill_order f (mOrder m)"
  shows "unat p * unat f < 2 ^ 64" "spent_ok x m'"
    "cashSlack x m a = cashSlack x m' a + at (oAccountId x) (unat p * unat f) a"
proof -
  let ?P = "unat (oPrice x)" and ?r = "unat (remaining (mOrder m))" and ?C = "unat p * unat f"
  have s: "unat (mFilledCash m) + ?P * ?r \<le> locked x" "locked x < 2 ^ 64"
    using assms(1,2) by (auto simp: spent_ok_def)
  have r: "unat (remaining (mOrder m')) + unat f = ?r"
    using unat_remaining_fill [OF assms(3)] assms(6) by simp
  have le: "?C \<le> ?P * unat f" using assms(4) by (simp add: word_le_nat_alt)
  have split: "?P * ?r = ?P * unat (remaining (mOrder m')) + ?P * unat f"
    by (simp add: r [symmetric] distrib_left)
  show c: "?C < 2 ^ 64" using s le split by linarith
  have "unat (p * f) = ?C" using c by (simp add: unat_mult_less)
  moreover have "unat (mFilledCash m) + ?C < 2 ^ 64" using s le split by linarith
  ultimately have m': "unat (mFilledCash m') = unat (mFilledCash m) + ?C"
    by (simp add: assms(5) unat_add_less)
  have sp: "unat (mFilledCash m') + ?P * unat (remaining (mOrder m')) \<le> locked x"
    using s le split m' by linarith
  then show "spent_ok x m'" using s(2) by (simp add: spent_ok_def)
  have "locked x - unat (mFilledCash m) = locked x - unat (mFilledCash m') + ?C"
    using sp m' by linarith
  then show "cashSlack x m a = cashSlack x m' a + at (oAccountId x) ?C a"
    using assms(2) by (simp add: cashSlack_def at_def)
qed

lemma sell_slack:
  assumes "oTradingType x = TRADING_SELL" "f \<le> remaining (mOrder m)" "mOrder m' = fill_order f (mOrder m)"
  shows "shareSlack x m a t = shareSlack x m' a t + at (oAccountId x, oStockId x) (unat f) (a, t)"
  using unat_remaining_fill [OF assms(2)] assms(1,3) by (simp add: shareSlack_def at_def)

lemma slack_cong:
  assumes "mOrder m' = mOrder m''" "mFilledCash m' = mFilledCash m''"
  shows "cashSlack x m' = cashSlack x m''" "shareSlack x m' = shareSlack x m''"
    "spent_ok x m' = spent_ok x m''"
  using assms by (simp_all add: cashSlack_def shareSlack_def spent_ok_def fun_eq_iff)

lemma Get_fill_side:
  assumes "Get b' = (Get b)(i := (if w < remaining c then Some (fill_order w c) else None))"
    and "Get b i = Some c" "Get b' j = Some y"
  shows "\<exists>z. Get b j = Some z \<and> oPrice z = oPrice y \<and> oTradingType z = oTradingType y"
  using assms by (auto split: if_splits)

text \<open>The ledger side of an iteration: fill the head of the counter queue and settle.\<close>

lemma iter_settle:
  assumes inv: "loop_inv x e m"
    and q: "prio (bookOf (state e) (oStockId x)) (counterSide (oTradingType x)) = c # cs"
    and less: "oFilledQuantity (mOrder m) < oQuantity (mOrder m)"
    and ok: "\<not> priceRefused (mOrder m) (oPrice c)"
    and fill: "Fill (bookOf (state e) (oStockId x)) (oId c) (remaining (mOrder m)) = Some (f, b')"
    and f: "f = min (remaining (mOrder m)) (remaining c)" "f \<noteq> 0"
    and mm: "mOrder mm = fill_order f (mOrder m)" "mFilledCash mm = mFilledCash m + oPrice c * f"
  obtains s' where "settle (putBook (state e) (oStockId x) b') (oStockId x)
      (if oTradingType x = TRADING_SELL then oAccountId c else oAccountId x)
      (if oTradingType x = TRADING_SELL then oAccountId x else oAccountId c) f (oPrice c * f) = Ret s'"
    "ledger_inv s' (cashSlack x mm) (shareSlack x mm)" "spent_ok x mm"
    "\<And>i. bookOf s' i = (if i = oStockId x then b' else bookOf (state e) i)" "Stocks s' = Stocks (state e)"
    "total_cash s' = total_cash (state e)" "total_shares s' = total_shares (state e)"
    "\<And>a. (getAccount s' a = None) = (getAccount (state e) a = None)"
proof -
  note D = loop_invD [OF inv]
  note c = prio_Cons(3,4) [OF D(11) counterSide_side(1) q]
  have fm: "f \<le> remaining (mOrder m)" by (simp add: f)
  have L: "ledger_inv (state e) (cashSlack x m) (shareSlack x m)" "spent_ok x m"
    "getAccount (state e) (oAccountId x) \<noteq> None" "askCap x (bookOf (state e) (oStockId x))"
    using inv by (auto simp: loop_inv_def)
  have ok': "\<not> priceRefused x (oPrice c)" using ok D by (simp add: priceRefused_def)
  note side = D(9) [unfolded is_side_def]
  have buys: "unat (oPrice c) * unat f < 2 ^ 64" "spent_ok x mm"
    "cashSlack x m a = cashSlack x mm a + at (oAccountId x) (unat (oPrice c) * unat f) a"
    if "oTradingType x = TRADING_BUY" for a
    using buy_slack [OF L(2) that fm accepted_price [OF L(4) ok' c(1) that] mm(2,1)] c(2) that
    by (simp_all add: counterSide_def)
  have want: "remaining (mOrder m) \<noteq> 0" using less by simp
  obtain s' where "settle (putBook (state e) (oStockId x) b') (oStockId x)
      (if oTradingType x = TRADING_SELL then oAccountId c else oAccountId x)
      (if oTradingType x = TRADING_SELL then oAccountId x else oAccountId c) f (oPrice c * f) = Ret s'"
    "ledger_inv s' (cashSlack x mm) (shareSlack x mm)"
    "\<And>i. bookOf s' i = (if i = oStockId x then b' else bookOf (state e) i)" "Stocks s' = Stocks (state e)"
    "total_cash s' = total_cash (state e)" "total_shares s' = total_shares (state e)"
    "\<And>a. (getAccount s' a = None) = (getAccount (state e) a = None)"
  proof (rule trade_step [OF L(1) c(1) want fill f(2)])
    assume "oTradingType c = TRADING_SELL"
    then have b: "oTradingType x = TRADING_BUY" using c(2) side by (auto simp: counterSide_def)
    then show "(if oTradingType x = TRADING_SELL then oAccountId c else oAccountId x) = oAccountId x \<and>
      (if oTradingType x = TRADING_SELL then oAccountId x else oAccountId c) = oAccountId c \<and>
      shareSlack x mm = shareSlack x m \<and> getAccount (state e) (oAccountId x) \<noteq> None \<and>
      unat (oPrice c) * unat f < 2 ^ 64 \<and>
      (\<forall>a. cashSlack x m a = cashSlack x mm a + at (oAccountId x) (unat (oPrice c) * unat f) a)"
      using buys L(3) by (simp add: shareSlack_def fun_eq_iff)
  next
    assume "oTradingType c = TRADING_BUY"
    then have b: "oTradingType x = TRADING_SELL" using c(2) side by (auto simp: counterSide_def)
    then show "(if oTradingType x = TRADING_SELL then oAccountId c else oAccountId x) = oAccountId c \<and>
      (if oTradingType x = TRADING_SELL then oAccountId x else oAccountId c) = oAccountId x \<and>
      cashSlack x mm = cashSlack x m \<and>
      (\<forall>a t. shareSlack x m a t = shareSlack x mm a t + at (oAccountId x, oStockId x) (unat f) (a, t))"
      using sell_slack [OF b fm mm(1)] by (simp add: cashSlack_def)
  qed blast
  moreover have "spent_ok x mm" using buys(2) side by (auto simp: spent_ok_def)
  ultimately show thesis using that by blast
qed

text \<open>
  What one iteration, and by induction the loop, does: \<open>step_rel x ts e m e' m'\<close> says that
  going from \<open>(e, m)\<close> to \<open>(e', m')\<close> made the fills \<open>ts\<close> and kept everything else.
\<close>

definition step_rel ::
  "Order \<Rightarrow> (Order \<times> uint64) list \<Rightarrow> 'l Engine \<Rightarrow> matchVars \<Rightarrow> 'l Engine \<Rightarrow> matchVars \<Rightarrow> bool" where
  "step_rel x ts e m e' m' \<longleftrightarrow>
     frame e e' \<and> Stocks (state e') = Stocks (state e) \<and>
     total_cash (state e') = total_cash (state e) \<and>
     total_shares (state e') = total_shares (state e) \<and>
     (\<forall>i. i \<noteq> oStockId x \<longrightarrow> bookOf (state e') i = bookOf (state e) i) \<and>
     prio (bookOf (state e') (oStockId x)) (oTradingType x) =
       prio (bookOf (state e) (oStockId x)) (oTradingType x) \<and>
     tradesOf (mEvents m') = tradesOf (mEvents m) @ map (\<lambda>(c, f). (oId c, oPrice c, f)) ts \<and>
     list_all marshals (mEvents m') = list_all marshals (mEvents m) \<and>
     mAffected m' = foldl (\<lambda>l (c, f). track (counterSide (oTradingType x), oPrice c) l) (mAffected m) ts \<and>
     mAccountIDs m' = foldl (\<lambda>l (c, f). track (oAccountId c) l) (mAccountIDs m) ts \<and>
     mLastTradePrice m' = (if ts = [] then mLastTradePrice m else oPrice (fst (last ts)))"

lemma step_rel_refl: "step_rel x [] e m e m"
  by (simp add: step_rel_def)

lemma step_rel_trans:
  "step_rel x ts e m e' m' \<Longrightarrow> step_rel x us e' m' e'' m'' \<Longrightarrow> step_rel x (ts @ us) e m e'' m''"
  by (auto simp: step_rel_def intro: frame_trans)

lemma iter_step:
  assumes inv: "loop_inv x e m"
    and q: "prio (bookOf (state e) (oStockId x)) (counterSide (oTradingType x)) = c # cs"
    and less: "oFilledQuantity (mOrder m) < oQuantity (mOrder m)"
    and ok: "\<not> priceRefused (mOrder m) (oPrice c)"
  defines "f \<equiv> min (remaining (mOrder m)) (remaining c)"
  obtains e' m' where "matchIter clk e m = (e', Ret (Continue m'))" "loop_inv x e' m'"
    "step_rel x [(c, f)] e m e' m'" "mOrder m' = fill_order f (mOrder m)"
    "prio (bookOf (state e') (oStockId x)) (counterSide (oTradingType x)) =
       (if remaining (mOrder m) < remaining c then fill_order (remaining (mOrder m)) c # cs else cs)"
proof -
  note D = loop_invD [OF inv]
  note c = prio_Cons(3,4) [OF D(11) counterSide_side(1) q]
  have lim: "oOrderType c = ORDER_LIMIT" using D(10) [of "oStockId x"] c(1) by (simp add: book_ok_def)
  have want: "remaining (mOrder m) \<noteq> 0" using less by simp
  obtain b' where b': "Fill (bookOf (state e) (oStockId x)) (oId c) (remaining (mOrder m)) = Some (f, b')"
    "wf_book b'"
    "prio b' (counterSide (oTradingType x)) =
       (if remaining (mOrder m) < remaining c then fill_order (remaining (mOrder m)) c # cs else cs)"
    "\<And>t'. is_side t' \<Longrightarrow> t' \<noteq> counterSide (oTradingType x) \<Longrightarrow>
       prio b' t' = prio (bookOf (state e) (oStockId x)) t'"
    "Get b' = (Get (bookOf (state e) (oStockId x)))(oId c :=
       (if remaining (mOrder m) < remaining c then Some (fill_order (remaining (mOrder m)) c) else None))"
    unfolding f_def by (rule prio_Fill_front [OF D(11) counterSide_side(1) q want]) blast
  have "remaining c \<noteq> 0" using book.get_unfilled [OF D(11) c(1)] by simp
  then have f0: "f \<noteq> 0" using want by (simp add: f_def min_def)
  have fm: "f \<le> remaining (mOrder m)" by (simp add: f_def)
  let ?mm = "m\<lparr>mOrder := fill_order f (mOrder m), mFilledCash := mFilledCash m + oPrice c * f\<rparr>"
  obtain s' where s': "settle (putBook (state e) (oStockId x) b') (oStockId x)
      (if oTradingType x = TRADING_SELL then oAccountId c else oAccountId x)
      (if oTradingType x = TRADING_SELL then oAccountId x else oAccountId c) f (oPrice c * f) = Ret s'"
    "ledger_inv s' (cashSlack x ?mm) (shareSlack x ?mm)" "spent_ok x ?mm"
    "\<And>i. bookOf s' i = (if i = oStockId x then b' else bookOf (state e) i)" "Stocks s' = Stocks (state e)"
    "total_cash s' = total_cash (state e)" "total_shares s' = total_shares (state e)"
    "\<And>a. (getAccount s' a = None) = (getAccount (state e) a = None)"
    by (rule iter_settle [OF inv q less ok b'(1) f_def [THEN meta_eq_to_obj_eq] f0, of ?mm]) auto
  have r: "unat (remaining (fill_order f (mOrder m))) + unat f = unat (remaining (mOrder m))"
    by (rule unat_remaining_fill [OF fm])
  have id: "lastTradeID e + int (unat (remaining (mOrder m))) \<le> int64_max"
    using inv by (simp add: loop_inv_def)
  then have "lastTradeID e < int64_max" using r f0 [folded unat_gt_0_uint64] by linarith
  moreover let ?e = "e\<lparr>state := putBook (state e) (oStockId x) b'\<rparr>"
  have "settle (state ?e) (oStockId (mOrder m))
      (if oTradingType (mOrder m) = TRADING_SELL then oAccountId c else oAccountId (mOrder m))
      (if oTradingType (mOrder m) = TRADING_SELL then oAccountId (mOrder m) else oAccountId c)
      f (oPrice c * f) = Ret s'"
    unfolding D(1-3) using s'(1) by simp
  ultimately obtain e' m' where e': "executeTrade clk (e\<lparr>state := putBook (state e) (oStockId x) b'\<rparr>) m c (oPrice c) f =
      (e', Ret (Continue m'))"
    "state e' = s'" "frame e e'" "lastTradeID e' \<le> lastTradeID e + 1"
    "mOrder m' = fill_order f (mOrder m)" "mFilledCash m' = mFilledCash m + oPrice c * f"
    "mLastTradePrice m' = oPrice c"
    "mAffected m' = track (counterSide (oTradingType x), oPrice c) (mAffected m)"
    "mAccountIDs m' = track (oAccountId c) (mAccountIDs m)"
    "tradesOf (mEvents m') = tradesOf (mEvents m) @ [(oId c, oPrice c, f)]"
    "list_all marshals (mEvents m') = list_all marshals (mEvents m)"
    using executeTrade_settled [of ?e m c f "oPrice c" s' clk] D(9) c(2) lim unfolding D(1) by auto
  have iter: "matchIter clk e m = (e', Ret (Continue m'))"
    using matchIter_trade [of e m c cs f b' clk] D q ok b'(1) f0 e'(1) by simp
  have cap: "askCap x b'"
    using inv Get_fill_side [OF b'(5) c(1)] by (fastforce simp: loop_inv_def askCap_def)
  have "Get b' (oId x) = None"
    using inv c(1) unfolding b'(5) by (auto simp: loop_inv_def)
  moreover have "oFilledQuantity (fill_order f (mOrder m)) \<le> oQuantity x"
    using fill_order_le [OF _ fm] D by simp
  moreover have "\<exists>g. fill_order f (mOrder m) = x\<lparr>oFilledQuantity := g\<rparr>"
    using inv by (auto simp: loop_inv_def fill_order_def)
  moreover have "lastTradeID e' + int (unat (remaining (fill_order f (mOrder m)))) \<le> int64_max"
    using id e'(4) r f0 [folded unat_gt_0_uint64] by linarith
  ultimately have "loop_inv x e' m'"
    using inv s'(2,3,4,8) cap slack_cong [of m' ?mm x] e'(2,5,6) by (simp add: loop_inv_def)
  moreover have "step_rel x [(c, f)] e m e' m'"
    using e' s' b'(4) [OF D(9)] counterSide_side(2) [OF D(9)] by (simp add: step_rel_def)
  moreover have "bookOf (state e') (oStockId x) = b'" using e'(2) s'(4) by simp
  ultimately show thesis using that [OF iter] e'(5) b'(3) by (simp only:)
qed

lemma matchLoop_simps:
  "oFilledQuantity (mOrder m) < oQuantity (mOrder m) \<Longrightarrow> matchIter clk e m = (e', Ret Break) \<Longrightarrow>
     matchLoop clk e m = (e', Ret m)"
  "oFilledQuantity (mOrder m) < oQuantity (mOrder m) \<Longrightarrow> matchIter clk e m = (e', Ret (Continue m')) \<Longrightarrow>
     matchLoop clk e m = matchLoop clk e' m'"
  "\<not> oFilledQuantity (mOrder m) < oQuantity (mOrder m) \<Longrightarrow> matchLoop clk e m = (e, Ret m)"
  by (subst matchLoop.simps, simp)+

lemma greedy_step:
  assumes "remaining x \<noteq> 0" "\<not> priceRefused x (oPrice c)" "f = min (remaining x) (remaining c)"
    and "greedy (fill_order f x) (if remaining x < remaining c then fill_order (remaining x) c # cs else cs) =
      (ts, q, x')"
  shows "greedy x (c # cs) = ((c, f) # ts, q, x')"
proof (cases "remaining x < remaining c")
  case True
  then have "f = remaining x" using assms(3) by (simp add: min_absorb1 less_imp_le)
  moreover have "remaining (fill_order (remaining x) x) = 0" by simp
  ultimately show ?thesis
    using assms True greedy_remaining0 [of "fill_order (remaining x) x" "fill_order (remaining x) c # cs"]
    by simp
next
  case False
  then have "f = remaining c" using assms(3) by (simp add: min_absorb2)
  with False assms show ?thesis by simp
qed

lemma matchLoop_spec:
  assumes "loop_inv x e m"
  shows "\<exists>e' m' ts. matchLoop clk e m = (e', Ret m') \<and> loop_inv x e' m' \<and> step_rel x ts e m e' m' \<and>
    greedy (mOrder m) (prio (bookOf (state e) (oStockId x)) (counterSide (oTradingType x))) =
      (ts, prio (bookOf (state e') (oStockId x)) (counterSide (oTradingType x)), mOrder m')"
  using assms
proof (induction clk e m rule: matchLoop.induct)
  case (1 clk e m)
  let ?q = "\<lambda>e. prio (bookOf (state e) (oStockId x)) (counterSide (oTradingType x))"
  note D = loop_invD [OF 1(2)]
  show ?case
  proof (cases "oFilledQuantity (mOrder m) < oQuantity (mOrder m)")
    case False
    then have "remaining (mOrder m) = 0" using D(6,8) by simp
    then show ?thesis
      using matchLoop_simps(3) [OF False] 1(2) step_rel_refl greedy_remaining0 by blast
  next
    case less: True
    show ?thesis
    proof (cases "?q e = [] \<or> priceRefused (mOrder m) (oPrice (hd (?q e)))")
      case True
      have "matchIter clk e m = (e, Ret Break)"
        using matchIter_stop [of e m "?q e" clk] D True by simp
      moreover have "greedy (mOrder m) (?q e) = ([], ?q e, mOrder m)"
        using True by (cases "?q e") auto
      ultimately show ?thesis
        using matchLoop_simps(1) [OF less] 1(2) step_rel_refl by blast
    next
      case False
      then obtain c cs where q: "?q e = c # cs" "\<not> priceRefused (mOrder m) (oPrice c)"
        by (cases "?q e") auto
      let ?f = "min (remaining (mOrder m)) (remaining c)"
      obtain e' m' where e': "matchIter clk e m = (e', Ret (Continue m'))" "loop_inv x e' m'"
        "step_rel x [(c, ?f)] e m e' m'" "mOrder m' = fill_order ?f (mOrder m)"
        "?q e' = (if remaining (mOrder m) < remaining c then fill_order (remaining (mOrder m)) c # cs else cs)"
        by (rule iter_step [OF 1(2) q(1) less q(2)]) blast
      obtain e'' m'' ts where e'': "matchLoop clk e' m' = (e'', Ret m'')" "loop_inv x e'' m''"
        "step_rel x ts e' m' e'' m''" "greedy (mOrder m') (?q e') = (ts, ?q e'', mOrder m'')"
        using "1.IH" [OF less e'(1) [symmetric] refl refl e'(2)] by blast
      have "remaining (mOrder m) \<noteq> 0" using less by simp
      then have "greedy (mOrder m) (?q e) = ((c, ?f) # ts, ?q e'', mOrder m'')"
        unfolding q(1) using greedy_step [OF _ q(2) refl] e''(4) [unfolded e'(4,5)] by blast
      moreover have "step_rel x ((c, ?f) # ts) e m e'' m''"
        using step_rel_trans [OF e'(3) e''(3)] by simp
      ultimately show ?thesis
        using matchLoop_simps(2) [OF less e'(1)] e''(1,2) by (intro exI conjI) simp_all
    qed
  qed
qed

text \<open>The walk stops for one of three reasons.\<close>

lemma greedy_stops:
  "greedy x q = (ts, q', x') \<Longrightarrow>
   remaining x' = 0 \<or> q' = [] \<or> priceRefused x (oPrice (hd q'))"
proof (induction x q arbitrary: ts q' x' rule: greedy.induct)
  case (2 x c cs)
  then show ?case by (auto split: if_splits prod.splits simp: Let_def)
qed simp

end
