(* ===== verification/MatchSpec.thy ===== *)
theory MatchSpec
  imports MatchLoop
begin

text \<open>
  Matching an order as a whole. Locking the assets opens the slack the loop works on; putting
  the rest into the book, releasing the rest of a market order and refunding the buyer close
  it again. A matchable order is one whose assets are there: what the validation of a new
  order, respectively of an edit, establishes.
\<close>

section \<open>Changing what is available\<close>

text \<open>Steps that move nothing between owners.\<close>

definition conserves :: "State \<Rightarrow> State \<Rightarrow> bool" where
  "conserves s s' \<longleftrightarrow> total_cash s' = total_cash s \<and> total_shares s' = total_shares s \<and>
     Stocks s' = Stocks s \<and> (\<forall>a. (getAccount s' a = None) = (getAccount s a = None))"

lemma conserves_refl [simp]: "conserves s s"
  by (simp add: conserves_def)

lemma conserves_trans [trans]: "conserves s s' \<Longrightarrow> conserves s' s'' \<Longrightarrow> conserves s s''"
  by (simp add: conserves_def)

lemma conserves_books [simp]: "conserves s (putBook s i b)" "conserves s (openBook s i)"
  by (simp_all add: conserves_def)

lemma reavail_cash:
  assumes inv: "ledger_inv s x y" and acc: "getAccount s A = Some acc"
    and v: "\<And>a. x' a + at A (unat v) a = x a + at A (unat (aAvailableBalance acc)) a"
  shows "ledger_inv (setAccount s (acc\<lparr>aAvailableBalance := v\<rparr>)) x' y"
    and "conserves s (setAccount s (acc\<lparr>aAvailableBalance := v\<rparr>))"
proof -
  let ?s = "setAccount s (acc\<lparr>aAvailableBalance := v\<rparr>)"
  have I: "keys_ok s" "books_ok s" "holders_ok s" "bounded s" "backed s x y"
    using inv by (auto simp: ledger_inv_def)
  note i = keys_getD(1) [OF I(1) acc] and c = getAccount_colv [OF acc]
  have t: "total_cash ?s = total_cash s"
    using total_cash_setAccount [of s "acc\<lparr>aAvailableBalance := v\<rparr>"] i c by simp
  then show "conserves s ?s" using acc i by (simp add: conserves_def)
  have "bal ?s a = avl ?s a + reserved (cashW a) ?s + x' a" for a
    using I(5) v [of a] i c by (auto simp: backed_def at_def split: if_splits)
  then show "ledger_inv ?s x' y"
    using I t by (simp add: ledger_inv_def backed_def bounded_def books_ok_def)
qed

lemma reavail_shares:
  assumes inv: "ledger_inv s x y" and h: "getHolding s A st = Some h"
    and v: "\<And>a t. y' a t + at (A, st) (unat v) (a, t) = y a t + at (A, st) (unat (hAvailableQuantity h)) (a, t)"
  shows "ledger_inv (setHolding s (h\<lparr>hAvailableQuantity := v\<rparr>)) x y'"
    and "conserves s (setHolding s (h\<lparr>hAvailableQuantity := v\<rparr>))"
proof -
  let ?s = "setHolding s (h\<lparr>hAvailableQuantity := v\<rparr>)"
  have I: "keys_ok s" "books_ok s" "holders_ok s" "bounded s" "backed s x y"
    using inv by (auto simp: ledger_inv_def)
  note i = keys_getD(2) [OF I(1) h] and c = getHolding_colv(1,2) [OF h]
  have t: "total_shares ?s = total_shares s"
  proof
    fix t show "total_shares ?s t = total_shares s t"
      using total_shares_setHolding [OF I(1), of "h\<lparr>hAvailableQuantity := v\<rparr>" t] i c
      by (auto split: if_splits)
  qed
  then show "conserves s ?s" by (simp add: conserves_def)
  have "qty ?s a t = avq ?s a t + reserved (shareW a t) ?s + y' a t" for a t
    using I(5) v [of a t] i c by (auto simp: backed_def at_def split: if_splits)
  moreover have "getAccount s (hAccountId h) \<noteq> None" using I(3) h i by (auto simp: holders_ok_iff)
  ultimately show "ledger_inv ?s x y'"
    using I t by (simp add: ledger_inv_def backed_def bounded_def books_ok_def)
qed

lemma avail_le:
  assumes "ledger_inv s x y"
  shows "avl s a + x a \<le> bal s a" "avq s a t + y a t \<le> qty s a t" "bal s a < 2 ^ 64" "qty s a t < 2 ^ 63"
  using assms bal_less [of s a] qty_less [of s a t] by (auto simp: ledger_inv_def backed_def)

text \<open>Storing the rest of an order moves its reservation from the slack into the book.\<close>

lemma rest_inv:
  assumes inv: "ledger_inv s x y"
    and o: "is_side (oTradingType r)" "oFilledQuantity r < oQuantity r" "oPrice r \<noteq> 0"
      "oOrderType r = ORDER_LIMIT" "Get (bookOf s (oStockId r)) (oId r) = None"
    and x: "\<And>a. x a = x' a + held (cashW a) r" and y: "\<And>a t. y a t = y' a t + held (shareW a t) r"
  shows "ledger_inv (putBook s (oStockId r) (Add (bookOf s (oStockId r)) r)) x' y'"
proof -
  let ?b = "bookOf s (oStockId r)"
  let ?s = "putBook s (oStockId r) (Add ?b r)"
  have I: "keys_ok s" "books_ok s" "holders_ok s" "bounded s" "backed s x y"
    using inv by (auto simp: ledger_inv_def)
  have b: "book_ok (oStockId r) ?b" "wf_book ?b" using I(2) by (auto simp: books_ok_def book_ok_def)
  have res: "reserved c ?s = reserved c s + held c r" for c
    using reserved_putBook [of c s "oStockId r" "Add ?b r"] book.held_add [OF b(2) o(1,5), of c] by simp
  have "book_ok (oStockId r) (Add ?b r)"
    using b wf_book_Add [OF b(2) o(1,5,2)] o by (auto simp: book_ok_def Get_Add)
  then have "books_ok ?s" using I(2) by (simp add: books_ok_def)
  moreover have "backed ?s x' y'"
    unfolding backed_def
  proof (intro conjI allI)
    fix a show "bal ?s a = avl ?s a + reserved (cashW a) ?s + x' a"
      using I(5) x [of a] by (simp add: backed_def res)
  next
    fix a t show "qty ?s a t = avq ?s a t + reserved (shareW a t) ?s + y' a t"
      using I(5) y [of a t] by (simp add: backed_def res)
  qed
  ultimately show ?thesis using I by (simp add: ledger_inv_def bounded_def)
qed

section \<open>Locking\<close>

definition matchable :: "State \<Rightarrow> Order \<Rightarrow> bool" where
  "matchable s x \<longleftrightarrow>
     oFilledQuantity x < oQuantity x \<and> oPrice x \<noteq> 0 \<and>
     (oOrderType x = ORDER_LIMIT \<or> oOrderType x = ORDER_MARKET) \<and>
     Get (bookOf s (oStockId x)) (oId x) = None \<and> askCap x (bookOf s (oStockId x)) \<and>
     (oTradingType x = TRADING_BUY \<and> getAccount s (oAccountId x) \<noteq> None \<and>
        locked x \<le> avl s (oAccountId x) \<or>
      oTradingType x = TRADING_SELL \<and> unat (remaining x) \<le> avq s (oAccountId x) (oStockId x))"

definition startVars :: "Order \<Rightarrow> matchVars" where
  "startVars x = \<lparr>mOrder = x, mAffected = [], mFilledCash = 0, mLastTradePrice = 0, mEvents = [],
     mAccountIDs = track (oAccountId x) []\<rparr>"

lemma openBook_inv [simp]: "ledger_inv (openBook s i) x y = ledger_inv s x y"
  by (simp add: ledger_inv_def backed_def bounded_def books_ok_def)

lemma lock_buy:
  assumes inv: "ledger_inv s no_slack no_slack2" and buy: "oTradingType x = TRADING_BUY"
    and acc: "getAccount s (oAccountId x) = Some acc" and le: "locked x \<le> avl s (oAccountId x)"
  shows "ledger_inv (lockAssets s x (remaining x)) (cashSlack x (startVars x)) (shareSlack x (startVars x))"
    "conserves s (lockAssets s x (remaining x))" "spent_ok x (startVars x)"
proof -
  let ?A = "oAccountId x" and ?m = "startVars x" and ?w = "oPrice x * remaining x"
  have lk: "locked x < 2 ^ 64" using le avail_le(1,3) [OF inv, of ?A] by simp
  then have w: "unat ?w = locked x" by (simp add: locked_def unat_mult_less)
  have eq: "lockAssets s x (remaining x) = setAccount s (acc\<lparr>aAvailableBalance := aAvailableBalance acc - ?w\<rparr>)"
    using buy acc by (simp add: lockAssets_def)
  have v: "unat (aAvailableBalance acc - ?w) + locked x = unat (aAvailableBalance acc)"
    using le getAccount_colv(2) [OF acc] w by (subst unat_sub_le) (simp_all add: word_le_nat_alt)
  have sh: "shareSlack x ?m = no_slack2" using buy by (simp add: shareSlack_def at_def fun_eq_iff)
  have "cashSlack x ?m a + at ?A (unat (aAvailableBalance acc - ?w)) a =
      0 + at ?A (unat (aAvailableBalance acc)) a" for a
    using buy v by (simp add: cashSlack_def at_def startVars_def)
  from reavail_cash [OF inv acc this]
  show "ledger_inv (lockAssets s x (remaining x)) (cashSlack x ?m) (shareSlack x ?m)"
    "conserves s (lockAssets s x (remaining x))" unfolding eq sh by simp_all
  show "spent_ok x ?m" using lk by (simp add: spent_ok_def startVars_def locked_def)
qed

lemma lock_sell:
  assumes inv: "ledger_inv s no_slack no_slack2" and sell: "oTradingType x = TRADING_SELL"
    and h: "getHolding s (oAccountId x) (oStockId x) = Some h"
    and le: "unat (remaining x) \<le> avq s (oAccountId x) (oStockId x)"
  shows "ledger_inv (lockAssets s x (remaining x)) (cashSlack x (startVars x)) (shareSlack x (startVars x))"
    "conserves s (lockAssets s x (remaining x))" "spent_ok x (startVars x)"
proof -
  let ?k = "(oAccountId x, oStockId x)" and ?m = "startVars x" and ?r = "remaining x"
  have eq: "lockAssets s x ?r = setHolding s (h\<lparr>hAvailableQuantity := hAvailableQuantity h - ?r\<rparr>)"
    using sell h by (simp add: lockAssets_def)
  have v: "unat (hAvailableQuantity h - ?r) + unat ?r = unat (hAvailableQuantity h)"
    using le getHolding_colv(2) [OF h] by (subst unat_sub_le) (simp_all add: word_le_nat_alt)
  have ca: "cashSlack x ?m = no_slack" using sell by (simp add: cashSlack_def at_def fun_eq_iff)
  have "shareSlack x ?m a t + at ?k (unat (hAvailableQuantity h - ?r)) (a, t) =
      0 + at ?k (unat (hAvailableQuantity h)) (a, t)" for a t
    using sell v by (simp add: shareSlack_def at_def startVars_def)
  from reavail_shares [OF inv h this]
  show "ledger_inv (lockAssets s x ?r) (cashSlack x ?m) (shareSlack x ?m)"
    "conserves s (lockAssets s x ?r)" unfolding eq ca by simp_all
  show "spent_ok x ?m" using sell by (simp add: spent_ok_def)
qed

lemma lockAssets_frame:
  "OrderBooks (lockAssets s x n) = OrderBooks s" "OrderBooks (releaseAssets s x n) = OrderBooks s"
  by (simp_all add: lockAssets_def releaseAssets_def split: TradingType.split option.split)

lemma holding_from_available:
  "unat (n::uint64) \<le> avq s a st \<Longrightarrow> n \<noteq> 0 \<Longrightarrow> \<exists>h. getHolding s a st = Some h"
  using getHolding_colv(4) [of s a st] unat_gt_0_uint64 [of n] by fastforce

lemma lock_inv:
  assumes inv: "ledger_inv s no_slack no_slack2" and ok: "matchable s x"
  shows "ledger_inv (lockAssets s x (remaining x)) (cashSlack x (startVars x)) (shareSlack x (startVars x))"
    "conserves s (lockAssets s x (remaining x))" "spent_ok x (startVars x)"
    "getAccount s (oAccountId x) \<noteq> None"
proof -
  have ne: "remaining x \<noteq> 0" using ok by (auto simp: matchable_def)
  consider (buy) acc where "oTradingType x = TRADING_BUY" "getAccount s (oAccountId x) = Some acc"
      "locked x \<le> avl s (oAccountId x)"
    | (sell) h where "oTradingType x = TRADING_SELL" "getHolding s (oAccountId x) (oStockId x) = Some h"
      "unat (remaining x) \<le> avq s (oAccountId x) (oStockId x)"
    using ok holding_from_available [OF _ ne, of s "oAccountId x" "oStockId x"]
    unfolding matchable_def by blast
  then have "ledger_inv (lockAssets s x (remaining x)) (cashSlack x (startVars x)) (shareSlack x (startVars x)) \<and>
    conserves s (lockAssets s x (remaining x)) \<and> spent_ok x (startVars x) \<and> getAccount s (oAccountId x) \<noteq> None"
  proof cases
    case buy
    with lock_buy [OF inv this] show ?thesis by simp
  next
    case sell
    moreover have "getAccount s (oAccountId x) \<noteq> None"
      using inv sell(2) by (auto simp: ledger_inv_def holders_ok_iff)
    ultimately show ?thesis using lock_sell [OF inv sell] by simp
  qed
  then show "ledger_inv (lockAssets s x (remaining x)) (cashSlack x (startVars x)) (shareSlack x (startVars x))"
    "conserves s (lockAssets s x (remaining x))" "spent_ok x (startVars x)"
    "getAccount s (oAccountId x) \<noteq> None" by blast+
qed

lemma matchable_openBook [simp]: "matchable (openBook s i) x = matchable s x"
  by (simp add: matchable_def)

lemma start_loop_inv:
  assumes "ledger_inv (state e) no_slack no_slack2" "matchable (state e) x"
    and "lastTradeID e + int (unat (remaining x)) \<le> int64_max"
  defines "s \<equiv> lockAssets (openBook (state e) (oStockId x)) x (remaining x)"
  shows "loop_inv x (e\<lparr>state := s\<rparr>) (startVars x)" "conserves (state e) s"
    "bookOf s i = bookOf (state e) i"
proof -
  let ?s = "openBook (state e) (oStockId x)"
  have "ledger_inv ?s no_slack no_slack2" "matchable ?s x" using assms by simp_all
  note l = lock_inv [OF this]
  have b: "bookOf s i = bookOf (state e) i" for i
    using bookOf_simps(2) [of "state e" "oStockId x" i] by (simp add: s_def bookOf_def lockAssets_frame)
  then show "bookOf s i = bookOf (state e) i" .
  show c: "conserves (state e) s"
    unfolding s_def using conserves_trans [OF conserves_books(2) l(2)] .
  have "\<exists>f. x = x\<lparr>oFilledQuantity := f\<rparr>" by (rule exI [of _ "oFilledQuantity x"]) simp
  moreover have "getAccount s (oAccountId x) \<noteq> None" using c l(4) by (simp add: conserves_def)
  ultimately show "loop_inv x (e\<lparr>state := s\<rparr>) (startVars x)"
    using l(1,3) assms(2,3) b
    by (auto simp: loop_inv_def startVars_def matchable_def s_def)
qed

section \<open>Closing the slack\<close>

definition refundSlack :: "Order \<Rightarrow> matchVars \<Rightarrow> int32 \<Rightarrow> nat" where
  "refundSlack x m = at (oAccountId x)
     (if oTradingType x = TRADING_BUY
      then locked x - unat (mFilledCash m) - unat (oPrice x) * unat (remaining (mOrder m)) else 0)"

lemma held_weights:
  "held (cashW a) r = at (oAccountId r)
     (if oTradingType r = TRADING_BUY then unat (oPrice r) * unat (remaining r) else 0) a"
  "held (shareW a t) r = at (oAccountId r, oStockId r)
     (if oTradingType r = TRADING_SELL then unat (remaining r) else 0) (a, t)"
  by (auto simp: held_def cashW_def shareW_def at_def)

lemma slack_split:
  assumes "loop_inv x e m"
  shows "cashSlack x m a = refundSlack x m a + held (cashW a) (mOrder m)"
    "shareSlack x m a t = 0 + held (shareW a t) (mOrder m)"
  using assms loop_invD [OF assms]
  by (auto simp: cashSlack_def refundSlack_def held_weights shareSlack_def at_def loop_inv_def spent_ok_def)

lemma release_buy:
  assumes inv: "ledger_inv s x y" and r: "oTradingType r = TRADING_BUY" "getAccount s (oAccountId r) \<noteq> None"
    and x: "\<And>a. x a = x' a + held (cashW a) r" and y: "\<And>a t. y a t = y' a t + held (shareW a t) r"
  shows "ledger_inv (releaseAssets s r (remaining r)) x' y'" "conserves s (releaseAssets s r (remaining r))"
proof -
  let ?A = "oAccountId r" and ?c = "unat (oPrice r) * unat (remaining r)"
  obtain acc where acc: "getAccount s ?A = Some acc" using r(2) by blast
  have "x ?A = x' ?A + ?c" using x [of ?A] r(1) by (simp add: held_weights at_def)
  then have "unat (aAvailableBalance acc) + ?c < 2 ^ 64"
    using avail_le(1,3) [OF inv, of ?A] getAccount_colv(2) [OF acc] by simp
  then have v: "unat (aAvailableBalance acc + oPrice r * remaining r) = unat (aAvailableBalance acc) + ?c"
    by (simp add: unat_add_less unat_mult_less)
  have "x' a + at ?A (unat (aAvailableBalance acc + oPrice r * remaining r)) a =
      x a + at ?A (unat (aAvailableBalance acc)) a" for a
    using x [of a] r(1) v by (simp add: held_weights at_def)
  note w = reavail_cash [OF inv acc this]
  have "y' = y" using y r(1) by (simp add: fun_eq_iff held_weights at_def)
  with w r(1) acc show "ledger_inv (releaseAssets s r (remaining r)) x' y'"
    "conserves s (releaseAssets s r (remaining r))" by (simp_all add: releaseAssets_def)
qed

lemma release_sell:
  assumes inv: "ledger_inv s x y" and r: "oTradingType r = TRADING_SELL" "remaining r \<noteq> 0"
    and x: "\<And>a. x a = x' a + held (cashW a) r" and y: "\<And>a t. y a t = y' a t + held (shareW a t) r"
  shows "ledger_inv (releaseAssets s r (remaining r)) x' y'" "conserves s (releaseAssets s r (remaining r))"
proof -
  let ?A = "oAccountId r" and ?st = "oStockId r"
  have y': "y ?A ?st = y' ?A ?st + unat (remaining r)" using y [of ?A ?st] r(1) by (simp add: held_weights at_def)
  then have "qty s ?A ?st \<noteq> 0"
    using avail_le(2) [OF inv, of ?A ?st] r(2) unat_gt_0_uint64 [of "remaining r"] by linarith
  then obtain h where h: "getHolding s ?A ?st = Some h"
    using holding_exists [of s ?A ?st] by (auto simp: getHolding_def)
  have "unat (hAvailableQuantity h) + unat (remaining r) < 2 ^ 63"
    using avail_le(2,4) [OF inv, of ?A ?st] getHolding_colv(2) [OF h] y' by simp
  then have v: "unat (hAvailableQuantity h + remaining r) = unat (hAvailableQuantity h) + unat (remaining r)"
    by (simp add: unat_add_less)
  have "y' a t + at (?A, ?st) (unat (hAvailableQuantity h + remaining r)) (a, t) =
      y a t + at (?A, ?st) (unat (hAvailableQuantity h)) (a, t)" for a t
    using y [of a t] r(1) v by (simp add: held_weights at_def)
  note w = reavail_shares [OF inv h this]
  have "x' = x" using x r(1) by (simp add: fun_eq_iff held_weights at_def)
  with w r(1) h show "ledger_inv (releaseAssets s r (remaining r)) x' y'"
    "conserves s (releaseAssets s r (remaining r))" by (simp_all add: releaseAssets_def)
qed

lemma release_inv:
  assumes "ledger_inv s x y" "is_side (oTradingType r)" "getAccount s (oAccountId r) \<noteq> None"
    "oFilledQuantity r < oQuantity r"
    and "\<And>a. x a = x' a + held (cashW a) r" "\<And>a t. y a t = y' a t + held (shareW a t) r"
  shows "ledger_inv (releaseAssets s r (remaining r)) x' y' \<and> conserves s (releaseAssets s r (remaining r))"
proof (cases "oTradingType r = TRADING_BUY")
  case True
  then show ?thesis using release_buy [OF assms(1) True assms(3,5,6)] by simp
next
  case False
  then have "oTradingType r = TRADING_SELL" using assms(2) by (auto simp: is_side_def)
  moreover have "remaining r \<noteq> 0" using assms(4) by simp
  ultimately show ?thesis using release_sell [OF assms(1) _ _ assms(5,6)] by simp
qed

definition rests :: "Order \<Rightarrow> bool" where
  "rests r \<longleftrightarrow> oFilledQuantity r < oQuantity r \<and> oOrderType r = ORDER_LIMIT"

lemma restOrder_simps [simp]:
  "fst (restOrder s m) = (if rests (mOrder m)
     then putBook s (oStockId (mOrder m)) (Add (bookOf s (oStockId (mOrder m))) (mOrder m)) else s)"
  "snd (restOrder s m) = (if rests (mOrder m)
     then m\<lparr>mAffected := track (oTradingType (mOrder m), oPrice (mOrder m)) (mAffected m)\<rparr> else m)"
  by (simp_all add: restOrder_def rests_def Let_def)

lemma close_rest:
  assumes inv: "loop_inv x e m" and x: "oPrice x \<noteq> 0" "oOrderType x = ORDER_LIMIT \<or> oOrderType x = ORDER_MARKET"
  defines "s' \<equiv> releaseMarket (fst (restOrder (state e) m)) (mOrder m)"
  shows "ledger_inv s' (refundSlack x m) no_slack2 \<and> conserves (state e) s'"
proof -
  note D = loop_invD [OF inv] and sp = slack_split [OF inv]
  have L: "ledger_inv (state e) (cashSlack x m) (shareSlack x m)"
    "getAccount (state e) (oAccountId x) \<noteq> None" "Get (bookOf (state e) (oStockId x)) (oId x) = None"
    using inv by (auto simp: loop_inv_def)
  consider (filled) "\<not> oFilledQuantity (mOrder m) < oQuantity (mOrder m)"
    | (limit) "oFilledQuantity (mOrder m) < oQuantity (mOrder m)" "oOrderType x = ORDER_LIMIT"
    | (market) "oFilledQuantity (mOrder m) < oQuantity (mOrder m)" "oOrderType x = ORDER_MARKET"
    using x(2) by blast
  then show ?thesis
  proof cases
    case filled
    then have "remaining (mOrder m) = 0" using D(6,8) by simp
    then have "cashSlack x m = refundSlack x m" "shareSlack x m = no_slack2"
      using sp by (simp_all add: fun_eq_iff held_def)
    with filled L show ?thesis by (simp add: s'_def rests_def releaseMarket_def)
  next
    case limit
    have "ledger_inv (putBook (state e) (oStockId (mOrder m))
        (Add (bookOf (state e) (oStockId (mOrder m))) (mOrder m))) (refundSlack x m) no_slack2"
      by (rule rest_inv [OF L(1) _ limit(1) _ _ _ sp]) (use D x L(3) limit in simp_all)
    with limit D show ?thesis by (simp add: s'_def rests_def releaseMarket_def)
  next
    case market
    have "ledger_inv (releaseAssets (state e) (mOrder m) (remaining (mOrder m))) (refundSlack x m) no_slack2 \<and>
        conserves (state e) (releaseAssets (state e) (mOrder m) (remaining (mOrder m)))"
      by (rule release_inv [OF L(1) _ _ market(1) sp]) (use D L(2) in simp_all)
    with market D show ?thesis by (simp add: s'_def rests_def releaseMarket_def)
  qed
qed

text \<open>The refund is exactly the slack that is left.\<close>

lemma refund_amount:
  assumes inv: "loop_inv x e m" and "oPrice x \<noteq> 0" "oTradingType x = TRADING_BUY"
    and "oFilledQuantity x \<le> oQuantity x"
  shows "unat (oPrice x * (oFilledQuantity (mOrder m) - oFilledQuantity x) - mFilledCash m) =
    locked x - unat (mFilledCash m) - unat (oPrice x) * unat (remaining (mOrder m))"
proof -
  let ?P = "unat (oPrice x)" and ?F = "unat (oFilledQuantity x)" and ?F' = "unat (oFilledQuantity (mOrder m))"
  let ?Q = "unat (oQuantity x)" and ?fc = "unat (mFilledCash m)"
  note D = loop_invD [OF inv]
  have sp: "locked x < 2 ^ 64" "?fc + ?P * unat (remaining (mOrder m)) \<le> locked x"
    using inv assms(3) by (auto simp: loop_inv_def spent_ok_def)
  have r: "unat (remaining x) = ?Q - ?F" "unat (remaining (mOrder m)) = ?Q - ?F'" "?F \<le> ?Q" "?F' \<le> ?Q"
    using assms(4) D(6,8) by (simp_all add: unat_sub_le word_le_nat_alt)
  have "?P * (?Q - ?F') \<le> ?P * (?Q - ?F)" using sp(2) unfolding locked_def r by linarith
  moreover have "0 < ?P" using assms(2) by (simp add: unat_gt_0_uint64)
  ultimately have le: "?F \<le> ?F'" using r(3,4) by simp
  then have n: "unat (oFilledQuantity (mOrder m) - oFilledQuantity x) = ?F' - ?F"
    by (simp add: unat_sub_le word_le_nat_alt)
  have split: "locked x = ?P * (?F' - ?F) + ?P * unat (remaining (mOrder m))"
    using r le by (simp add: locked_def flip: distrib_left)
  then have p: "unat (oPrice x * (oFilledQuantity (mOrder m) - oFilledQuantity x)) = ?P * (?F' - ?F)"
    using sp(1) n by (simp add: unat_mult_less)
  have "?fc \<le> ?P * (?F' - ?F)" using sp(2) split by linarith
  then show ?thesis
    using p split by (subst unat_sub_le) (simp_all add: word_le_nat_alt)
qed

lemma refund_inv:
  assumes inv: "loop_inv x e m" and x: "oPrice x \<noteq> 0" "oFilledQuantity x \<le> oQuantity x"
    and s: "ledger_inv s (refundSlack x m) no_slack2" "getAccount s (oAccountId x) \<noteq> None"
  defines "s' \<equiv> refundBuyer s (mOrder m) (oFilledQuantity x) (mFilledCash m)"
  shows "ledger_inv s' no_slack no_slack2 \<and> conserves s s'"
proof -
  note D = loop_invD [OF inv]
  let ?w = "oPrice x * (oFilledQuantity (mOrder m) - oFilledQuantity x) - mFilledCash m"
  obtain acc where acc: "getAccount s (oAccountId x) = Some acc" using s(2) by blast
  have sl: "refundSlack x m = (if oTradingType x = TRADING_BUY then at (oAccountId x) (unat ?w) else no_slack)"
    using refund_amount [OF inv x(1) _ x(2)] by (auto simp: refundSlack_def at_def fun_eq_iff)
  show ?thesis
  proof (cases "oTradingType x = TRADING_BUY \<and> ?w > 0")
    case True
    then have s': "s' = setAccount s (acc\<lparr>aAvailableBalance := aAvailableBalance acc + ?w\<rparr>)"
      using acc D by (simp add: s'_def refundBuyer_def Let_def)
    have "unat (aAvailableBalance acc) + unat ?w < 2 ^ 64"
      using avail_le(1,3) [OF s(1), of "oAccountId x"] getAccount_colv(2) [OF acc] sl True by (simp add: at_def)
    then have v: "unat (aAvailableBalance acc + ?w) = unat (aAvailableBalance acc) + unat ?w"
      by (simp add: unat_add_less)
    have "0 + at (oAccountId x) (unat (aAvailableBalance acc + ?w)) a =
        refundSlack x m a + at (oAccountId x) (unat (aAvailableBalance acc)) a" for a
      using sl True v by (simp add: at_def)
    from reavail_cash [OF s(1) acc this] show ?thesis by (simp add: s')
  next
    case False
    then have "s' = s" using D by (auto simp: s'_def refundBuyer_def Let_def)
    moreover have "refundSlack x m = no_slack"
      using sl False by (auto simp: at_def fun_eq_iff word_gt_0)
    ultimately show ?thesis using s(1) by simp
  qed
qed

section \<open>The whole match\<close>

lemma setStock_inv [simp]: "ledger_inv s x y \<Longrightarrow> ledger_inv (setStock s t) x y"
  by (simp add: ledger_inv_def backed_def bounded_def books_ok_def)

lemma updateStockPrice_frame:
  assumes "updateStockPrice s st p = (s', u)"
  shows "ledger_inv s x y \<Longrightarrow> ledger_inv s' x y" "total_cash s' = total_cash s"
    "total_shares s' = total_shares s" "bookOf s' i = bookOf s i"
    "getAccount s' a = getAccount s a" "getHolding s' a st' = getHolding s a st'"
  using assms by (auto simp: updateStockPrice_def Let_def split: if_splits option.splits)

lemma finish_frame:
  "bookOf (releaseMarket s r) i = bookOf s i" "bookOf (refundBuyer s r f c) i = bookOf s i"
proof -
  show "bookOf (releaseMarket s r) i = bookOf s i"
    by (simp add: releaseMarket_def bookOf_def lockAssets_frame)
  show "bookOf (refundBuyer s r f c) i = bookOf s i"
    by (simp add: refundBuyer_def Let_def split: option.split)
qed

lemma finish_inv:
  assumes inv: "loop_inv x e m"
    and x: "oPrice x \<noteq> 0" "oOrderType x = ORDER_LIMIT \<or> oOrderType x = ORDER_MARKET"
      "oFilledQuantity x \<le> oQuantity x"
    and fin: "finishState (state e) m (oFilledQuantity x) = (s', m', u)"
  shows "ledger_inv s' no_slack no_slack2" "total_cash s' = total_cash (state e)"
    "total_shares s' = total_shares (state e)" "bookOf s' i = bookOf (fst (restOrder (state e) m)) i"
    "m' = snd (restOrder (state e) m)"
proof -
  define s1 where "s1 = releaseMarket (fst (restOrder (state e) m)) (mOrder m)"
  define s2 where "s2 = refundBuyer s1 (mOrder m) (oFilledQuantity x) (mFilledCash m)"
  have c1: "ledger_inv s1 (refundSlack x m) no_slack2" "conserves (state e) s1"
    using close_rest [OF inv x(1,2)] by (simp_all add: s1_def)
  have "getAccount s1 (oAccountId x) \<noteq> None"
    using c1(2) inv by (simp add: conserves_def loop_inv_def)
  then have c2: "ledger_inv s2 no_slack no_slack2" "conserves s1 s2"
    using refund_inv [OF inv x(1,3) c1(1)] by (simp_all add: s2_def)
  have vars: "mOrder (snd (restOrder (state e) m)) = mOrder m"
    "mFilledCash (snd (restOrder (state e) m)) = mFilledCash m" by simp_all
  obtain s1' m1' where r: "restOrder (state e) m = (s1', m1')" by fastforce
  have up: "updateStockPrice s2 (oStockId (mOrder m1')) (mLastTradePrice m1') = (s', u)" and m': "m' = m1'"
    using fin vars unfolding finishState_def r by (auto simp: Let_def s2_def s1_def r split: prod.splits)
  note f = updateStockPrice_frame [OF up]
  show "ledger_inv s' no_slack no_slack2" using f(1) [OF c2(1)] .
  have "conserves (state e) s2" by (rule conserves_trans [OF c1(2) c2(2)])
  then show "total_cash s' = total_cash (state e)" "total_shares s' = total_shares (state e)"
    using f(2,3) by (simp_all add: conserves_def)
  show "bookOf s' i = bookOf (fst (restOrder (state e) m)) i"
    using f(4) [of i] finish_frame unfolding s2_def s1_def by (simp only:)
  show "m' = snd (restOrder (state e) m)" using m' r by simp
qed

lemma tradesOf_reports:
  "tradesOf [fst (takerEvent clk e r)] = []" "tradesOf (levelEvents s st l) = []"
  "tradesOf (accountEvents s st i) = []" "tradesOf (concat (map (accountEvents s st) is)) = []"
  "tradesOf (case u of None \<Rightarrow> [] | Some t \<Rightarrow> [ev PatternStockUpdated (EvStock t)]) = []"
proof -
  show a: "tradesOf (accountEvents s st i) = []" for i
    by (auto simp: accountEvents_def tradesOf_def split: option.split)
  show "tradesOf (concat (map (accountEvents s st) is)) = []"
    by (induction "is") (simp_all add: a)
qed (auto simp: takerEvent_def levelEvents_def tradesOf_def now_def Let_def split: option.split)

lemma marshals_reports:
  assumes "is_side (oTradingType r)" "oOrderType r = ORDER_LIMIT \<or> oOrderType r = ORDER_MARKET"
  shows "marshals (fst (takerEvent clk e r))" "list_all marshals (levelEvents s st l)"
    "list_all marshals (concat (map (accountEvents s st) is))"
    "list_all marshals (case u of None \<Rightarrow> [] | Some t \<Rightarrow> [ev PatternStockUpdated (EvStock t)])"
proof -
  show "marshals (fst (takerEvent clk e r))"
    using assms by (auto simp: takerEvent_def now_def Let_def is_side_def)
  have "list_all marshals (accountEvents s st i)" for i
    by (auto simp: accountEvents_def split: option.split)
  then show "list_all marshals (concat (map (accountEvents s st) is))"
    by (induction "is") simp_all
qed (auto simp: levelEvents_def split: option.split)

lemma frame_takerEvent: "frame e (snd (takerEvent clk e r))" "state (snd (takerEvent clk e r)) = state e"
  by (simp_all add: takerEvent_def now_def Let_def frame_def)

text \<open>
  The specification of a match: the fills are the greedy walk along the counter queue, what is
  left of a limit order is inserted into the queue of its own side, and the ledger invariant
  and the totals are kept.
\<close>

definition match_spec :: "Order \<Rightarrow> 'l Engine \<Rightarrow> 'l Engine \<Rightarrow> outEvent list \<Rightarrow> bool" where
  "match_spec x e e' evs \<longleftrightarrow>
     (let st = oStockId x; t = oTradingType x;
          b = bookOf (state e) st; b' = bookOf (state e') st;
          (ts, q, x') = greedy x (prio b (counterSide t))
      in tradesOf evs = map (\<lambda>(c, f). (oId c, oPrice c, f)) ts \<and>
         prio b' (counterSide t) = q \<and>
         prio b' t = (if rests x' then insertPrio t x' (prio b t) else prio b t) \<and>
         (\<forall>i. i \<noteq> st \<longrightarrow> bookOf (state e') i = bookOf (state e) i))"

lemma matchEvents_spec:
  assumes inv: "ledger_inv (state e) no_slack no_slack2" and ok: "matchable (state e) x"
    and ids: "lastTradeID e + int (unat (remaining x)) \<le> int64_max"
  obtains e' evs where "matchEvents clk e x = (e', Ret evs)" "ledger_inv (state e') no_slack no_slack2"
    "total_cash (state e') = total_cash (state e)" "total_shares (state e') = total_shares (state e)"
    "frame e e'" "match_spec x e e' evs" "list_all marshals evs" "evs \<noteq> []"
proof -
  let ?st = "oStockId x" and ?t = "oTradingType x"
  define s0 where "s0 = lockAssets (openBook (state e) ?st) x (remaining x)"
  note start = start_loop_inv [OF inv ok ids, folded s0_def]
  obtain e1 m ts where l: "matchLoop clk (e\<lparr>state := s0\<rparr>) (startVars x) = (e1, Ret m)" "loop_inv x e1 m"
    "step_rel x ts (e\<lparr>state := s0\<rparr>) (startVars x) e1 m"
    "greedy x (prio (bookOf (state e) ?st) (counterSide ?t)) = (ts, prio (bookOf (state e1) ?st) (counterSide ?t), mOrder m)"
    using matchLoop_spec [OF start(1), of clk] start(3) by (auto simp: startVars_def)
  obtain s m' u where fin: "finishState (state e1) m (oFilledQuantity x) = (s, m', u)" by (metis prod_cases3)
  have x: "oPrice x \<noteq> 0" "oOrderType x = ORDER_LIMIT \<or> oOrderType x = ORDER_MARKET" "oFilledQuantity x \<le> oQuantity x"
    using ok by (auto simp: matchable_def)
  note F = finish_inv [OF l(2) x fin] and D = loop_invD [OF l(2)]
  define e' where "e' = snd (takerEvent clk (e1\<lparr>state := s\<rparr>) (mOrder m'))"
  define evs where "evs = mEvents m' @ [fst (takerEvent clk (e1\<lparr>state := s\<rparr>) (mOrder m'))] @
    levelEvents s ?st (mAffected m') @ concat (map (accountEvents s ?st) (mAccountIDs m')) @
    (case u of None \<Rightarrow> [] | Some t \<Rightarrow> [ev PatternStockUpdated (EvStock t)])"
  have res: "matchEvents clk e x = (e', Ret evs)"
    using l(1) fin by (simp add: matchEvents_def s0_def [symmetric] startVars_def [symmetric] Let_def
        e'_def evs_def split: prod.split)
  have st: "state e' = s" "frame e1 e'"
    using frame_takerEvent [where clk=clk and e="e1\<lparr>state := s\<rparr>" and r="mOrder m'"] by (simp_all add: e'_def)
  have "frame e e'" using l(3) st(2) by (auto simp: step_rel_def intro: frame_trans)
  moreover have "total_cash (state e') = total_cash (state e)" "total_shares (state e') = total_shares (state e)"
    using F(2,3) l(3) start(2) st(1) by (simp_all add: step_rel_def conserves_def)
  moreover have "match_spec x e e' evs"
  proof -
    have "tradesOf evs = tradesOf (mEvents m')"
      unfolding evs_def tradesOf_append tradesOf_reports by simp
    then have tr: "tradesOf evs = map (\<lambda>(c, f). (oId c, oPrice c, f)) ts"
      using l(3) F(5) by (simp add: step_rel_def startVars_def)
    have b: "bookOf (state e') i = (if i = ?st \<and> rests (mOrder m) then Add (bookOf (state e1) ?st) (mOrder m)
        else bookOf (state e1) i)" for i
      using F(4) [of i] D(3) st(1) by simp
    have other: "bookOf (state e1) i = bookOf (state e) i" if "i \<noteq> ?st" for i
      using l(3) start(3) that by (simp add: step_rel_def)
    have own: "prio (bookOf (state e1) ?st) ?t = prio (bookOf (state e) ?st) ?t"
      using l(3) start(3) by (simp add: step_rel_def)
    have add: "prio (Add (bookOf (state e1) ?st) (mOrder m)) t =
        (if t = ?t then insertPrio t (mOrder m) (prio (bookOf (state e1) ?st) t) else prio (bookOf (state e1) ?st) t)"
      if "rests (mOrder m)" "is_side t" for t
      using prio_Add [OF D(11) _ _ _ that(2), of "mOrder m" ?st] D that(1) l(2)
      by (simp add: rests_def loop_inv_def)
    show ?thesis
      using tr b other own add D(9) l(4) by (simp add: match_spec_def Let_def)
  qed
  moreover have "list_all marshals evs"
  proof -
    have m': "mOrder m' = mOrder m" "mEvents m' = mEvents m" using F(5) by simp_all
    have "list_all marshals (mEvents m)" using l(3) by (simp add: step_rel_def startVars_def)
    moreover have "is_side (oTradingType (mOrder m))"
      "oOrderType (mOrder m) = ORDER_LIMIT \<or> oOrderType (mOrder m) = ORDER_MARKET" using D x(2) by simp_all
    ultimately show ?thesis unfolding evs_def m' by (simp add: marshals_reports)
  qed
  moreover have "evs \<noteq> []" by (simp add: evs_def)
  ultimately show thesis using that [OF res] F(1) st(1) by simp
qed

end
