(* ===== verification/MatchProps.thy ===== *)
theory MatchProps
  imports MatchSpec
begin

text \<open>
  The properties of matching: the ledger stays backed and nothing is created or lost, trades
  follow price-time priority and respect the limit price, and the book never crosses. A small
  exchange with one resting ask is the state they are evaluated on.
\<close>

section \<open>The greedy walk\<close>

lemma greedy_accepted:
  "greedy x q = (ts, q', x') \<Longrightarrow> (c, f) \<in> set ts \<Longrightarrow>
   \<not> priceRefused x (oPrice c) \<and> oPrice c \<in> oPrice ` set q"
proof (induction x q arbitrary: ts q' x' rule: greedy.induct)
  case (2 x c' cs)
  show ?case
  proof (cases "remaining x = 0 \<or> priceRefused x (oPrice c') \<or> remaining x < remaining c'")
    case True
    with 2 show ?thesis by (auto split: if_splits)
  next
    case False
    then obtain us where g: "greedy (fill_order (remaining c') x) cs = (us, q', x')" "ts = (c', remaining c') # us"
      using "2.prems"(1) by (auto simp: Let_def split: prod.splits if_splits)
    then show ?thesis using "2.IH" [OF _ _ g(1)] "2.prems"(2) False by auto
  qed
qed simp

lemma greedy_fills:
  assumes "oFilledQuantity x \<le> oQuantity x" "\<forall>c\<in>set q. remaining c \<noteq> 0" "greedy x q = (ts, q', x')"
  shows "(\<forall>(c, f)\<in>set ts. f \<noteq> 0) \<and> (\<Sum>(c, f)\<leftarrow>ts. unat f) + unat (remaining x') = unat (remaining x)"
  using assms
proof (induction x q arbitrary: ts q' x' rule: greedy.induct)
  case (2 x c cs)
  consider (stop) "remaining x = 0 \<or> priceRefused x (oPrice c)"
    | (last) "remaining x \<noteq> 0" "\<not> priceRefused x (oPrice c)" "remaining x < remaining c"
    | (step) "remaining x \<noteq> 0" "\<not> priceRefused x (oPrice c)" "remaining c \<le> remaining x"
    by (metis not_less)
  then show ?case
  proof cases
    case stop
    then show ?thesis using "2.prems"(3) by auto
  next
    case last
    then show ?thesis using "2.prems"(3) unat_remaining_fill [of "remaining x" x] by auto
  next
    case step
    then obtain us where g: "greedy (fill_order (remaining c) x) cs = (us, q', x')" "ts = (c, remaining c) # us"
      using "2.prems"(3) by (auto simp: Let_def split: prod.splits if_splits)
    have "oFilledQuantity (fill_order (remaining c) x) \<le> oQuantity (fill_order (remaining c) x)"
      using fill_order_le [OF "2.prems"(1) step(3)] by simp
    then have "(\<forall>(c, f)\<in>set us. f \<noteq> 0) \<and>
        (\<Sum>(c, f)\<leftarrow>us. unat f) + unat (remaining x') = unat (remaining (fill_order (remaining c) x))"
      using "2.IH" [OF _ _ _ _ g(1)] step "2.prems"(2) by simp
    then show ?thesis
      using g(2) "2.prems"(2) unat_remaining_fill [OF step(3)] by simp
  qed
qed simp

lemma fill_order_self: "\<exists>f. x = fill_order f x"
  by (rule exI [of _ 0]) (simp add: fill_order_def)

lemma greedy_rest:
  "greedy x q = (ts, q', x') \<Longrightarrow> oPrice ` set q' \<subseteq> oPrice ` set q \<and> (\<exists>f. x' = fill_order f x)"
proof (induction x q arbitrary: ts q' x' rule: greedy.induct)
  case (1 x)
  then show ?case using fill_order_self by auto
next
  case (2 x c cs)
  show ?case
  proof (cases "remaining x = 0 \<or> priceRefused x (oPrice c) \<or> remaining x < remaining c")
    case True
    with 2 fill_order_self [of x] show ?thesis by (auto split: if_splits)
  next
    case False
    then obtain us where g: "greedy (fill_order (remaining c) x) cs = (us, q', x')"
      using "2.prems" by (auto simp: Let_def split: prod.splits if_splits)
    then obtain f where "x' = fill_order f (fill_order (remaining c) x)" "oPrice ` set q' \<subseteq> oPrice ` set cs"
      using "2.IH" [OF _ _ g] False by auto
    moreover have "fill_order f (fill_order (remaining c) x) = fill_order (remaining c + f) x"
      by (simp add: fill_order_def ac_simps)
    ultimately show ?thesis by auto
  qed
qed

section \<open>Uncrossed books\<close>

lemma uncrossed_prio:
  assumes "wf_book b"
  shows "uncrossed b \<longleftrightarrow> (\<forall>x\<in>set (prio b TRADING_BUY). \<forall>y\<in>set (prio b TRADING_SELL). oPrice x < oPrice y)"
proof -
  have "Get b i = Some x \<Longrightarrow> Get b (oId x) = Some x" for i x
    using Get_id [OF assms] by blast
  then show ?thesis
    unfolding uncrossed_def using set_prio [OF assms, of TRADING_BUY] set_prio [OF assms, of TRADING_SELL] by simp blast
qed

lemma set_insertPrio: "set (insertPrio t x xs) = insert x (set xs)"
proof -
  have "set (takeWhile P xs) \<union> set (dropWhile P xs) = set xs" for P
    by (metis set_append takeWhile_dropWhile_id)
  then show ?thesis by (auto simp: insertPrio_def Let_def)
qed

lemma match_uncrossed:
  assumes wf: "wf_book (bookOf (state e) (oStockId x))" "wf_book (bookOf (state e') (oStockId x))"
    and spec: "match_spec x e e' evs" and side: "is_side (oTradingType x)"
    and unc: "uncrossed (bookOf (state e) (oStockId x))"
  shows "uncrossed (bookOf (state e') (oStockId x))"
proof -
  let ?b = "bookOf (state e) (oStockId x)" and ?b' = "bookOf (state e') (oStockId x)"
  let ?t = "oTradingType x" and ?c = "counterSide (oTradingType x)"
  obtain ts q x' where g: "greedy x (prio ?b ?c) = (ts, q, x')" by (metis prod_cases3)
  have b': "prio ?b' ?c = q" "prio ?b' ?t = (if rests x' then insertPrio ?t x' (prio ?b ?t) else prio ?b ?t)"
    using spec g by (auto simp: match_spec_def Let_def)
  obtain f where sub: "oPrice ` set q \<subseteq> oPrice ` set (prio ?b ?c)" and x': "x' = fill_order f x"
    using greedy_rest [OF g] by blast
  have refused: "priceRefused x (oPrice y)" if rest: "rests x'" and y: "y \<in> set q" for y
  proof -
    have "remaining x' \<noteq> 0" using rest by (auto simp: rests_def)
    then obtain c cs where q: "q = c # cs" "priceRefused x (oPrice c)"
      using greedy_stops [OF g] y by (cases q) auto
    then have "y = c \<or> \<not> priceBetter ?c (oPrice y) (oPrice c)"
      using prio_sorted [OF wf(2), of ?c] b'(1) y by auto
    then show ?thesis using q(2) side
      by (auto simp: priceRefused_def priceBetter_def counterSide_def is_side_def split: if_splits)
  qed
  have old: "p < p'" if "is_side ?t" "p \<in> oPrice ` set (prio ?b TRADING_BUY)" "p' \<in> oPrice ` set (prio ?b TRADING_SELL)" for p p'
    using unc that uncrossed_prio [OF wf(1)] by auto
  show ?thesis
    unfolding uncrossed_prio [OF wf(2)]
  proof (intro ballI)
    fix u v assume u: "u \<in> set (prio ?b' TRADING_BUY)" and v: "v \<in> set (prio ?b' TRADING_SELL)"
    show "oPrice u < oPrice v"
    proof (cases "?t = TRADING_BUY")
      case True
      then have "oPrice v \<in> oPrice ` set (prio ?b TRADING_SELL)" using v b'(1) sub by (auto simp: counterSide_def)
      moreover have "v \<in> set q" using v b'(1) True by (simp add: counterSide_def)
      moreover have "u \<in> set (prio ?b TRADING_BUY) \<or> rests x' \<and> u = x'"
        using u b'(2) True by (auto simp: set_insertPrio split: if_splits)
      ultimately show ?thesis
        using old [OF side] refused [of v] True x' by (auto simp: priceRefused_def)
    next
      case False
      then have t: "?t = TRADING_SELL" using side by (auto simp: is_side_def)
      then have "oPrice u \<in> oPrice ` set (prio ?b TRADING_BUY)" using u b'(1) sub by (auto simp: counterSide_def)
      moreover have "u \<in> set q" using u b'(1) t by (simp add: counterSide_def)
      moreover have "v \<in> set (prio ?b TRADING_SELL) \<or> rests x' \<and> v = x'"
        using v b'(2) t by (auto simp: set_insertPrio split: if_splits)
      ultimately show ?thesis
        using old [OF side] refused [of u] t x' by (auto simp: priceRefused_def)
    qed
  qed
qed

section \<open>A small exchange\<close>

text \<open>Account 7 holds ten shares of stock 1 and offers five at 100; account 9 has 1000 in cash.\<close>

definition restingAsk :: Order where
  "restingAsk = sampleOrder 1 7 TRADING_SELL 100 5"

definition sampleState :: State where
  "sampleState = \<lparr>
     Accounts = fmupd 7 \<lparr>aId = 7, aBalance = 1000, aAvailableBalance = 1000\<rparr>
       (fmupd 9 \<lparr>aId = 9, aBalance = 1000, aAvailableBalance = 1000\<rparr> fmempty),
     StockBalances = fmupd (StockKey 7 1) \<lparr>hAccountId = 7, hStockId = 1, hQuantity = 10,
       hAvailableQuantity = 5, hAverage = 50, hTotalBuyAmount = 500\<rparr> fmempty,
     Stocks = fmupd 1 \<lparr>sId = 1, sPrice = 90, sStatus = LISTED\<rparr> fmempty,
     OrderBooks = fmupd 1 (Add NewOrderBook restingAsk) fmempty\<rparr>"

definition sampleEngine :: "memLog Engine" where
  "sampleEngine = \<lparr>inputLog = memEmpty, outputLog = memEmpty, state = sampleState, inputSeq = 0,
     outputAppliedSeq = 0, lastTradeID = 0, dedup = newDedup dedupWindow, outputSignal = False,
     ticks = 0\<rparr>"

definition sampleClock :: clock where
  "sampleClock n = int n + 1"

definition sampleBuy :: Order where
  "sampleBuy = sampleOrder 2 9 TRADING_BUY 110 8"

lemma bookOf_sample: "bookOf sampleState i = (if i = 1 then Add NewOrderBook restingAsk else NewOrderBook)"
  by (simp add: bookOf_def sampleState_def OrderBooks_Get_def)

lemma restingAsk_simps [simp]:
  "oId restingAsk = 1" "oAccountId restingAsk = 7" "oStockId restingAsk = 1" "oPrice restingAsk = 100"
  "oQuantity restingAsk = 5" "oFilledQuantity restingAsk = 0" "oTradingType restingAsk = TRADING_SELL"
  "oOrderType restingAsk = ORDER_LIMIT"
  by (simp_all add: restingAsk_def)

lemma sampleBuy_simps [simp]:
  "oId sampleBuy = 2" "oAccountId sampleBuy = 9" "oStockId sampleBuy = 1" "oPrice sampleBuy = 110"
  "oQuantity sampleBuy = 8" "oFilledQuantity sampleBuy = 0" "oTradingType sampleBuy = TRADING_BUY"
  "oOrderType sampleBuy = ORDER_LIMIT"
  by (simp_all add: sampleBuy_def)

lemma Get_sample: "Get (Add NewOrderBook restingAsk) i = (if i = 1 then Some restingAsk else None)"
  by (simp add: Get_Add wf_book_New)

lemma wf_sample: "wf_book (Add NewOrderBook restingAsk)"
  by (rule wf_book_Add) (simp_all add: wf_book_New)

lemma prio_sample:
  "prio (Add NewOrderBook restingAsk) TRADING_SELL = [restingAsk]"
  "prio (Add NewOrderBook restingAsk) TRADING_BUY = []"
  by (simp_all add: prio_Add wf_book_New insertPrio_def)

lemma reserved_sample: "reserved c sampleState = held c restingAsk"
proof -
  have "osum (Get (Add NewOrderBook restingAsk)) (held c) = held c restingAsk"
    using book.held_add [OF wf_book_New, of restingAsk c] by simp
  then show ?thesis
    by (simp add: reserved_def sampleState_def osum_upd_fmap osum_none)
qed

lemma sample_rows:
  "getAccount sampleState a = (if a = 7 then Some \<lparr>aId = 7, aBalance = 1000, aAvailableBalance = 1000\<rparr>
     else if a = 9 then Some \<lparr>aId = 9, aBalance = 1000, aAvailableBalance = 1000\<rparr> else None)"
  "getHolding sampleState a st = (if a = 7 \<and> st = 1 then Some \<lparr>hAccountId = 7, hStockId = 1,
     hQuantity = 10, hAvailableQuantity = 5, hAverage = 50, hTotalBuyAmount = 500\<rparr> else None)"
  "getStock sampleState i = (if i = 1 then Some \<lparr>sId = 1, sPrice = 90, sStatus = LISTED\<rparr> else None)"
  by (simp_all add: getAccount_def getHolding_def getStock_def sampleState_def table_defs)

lemma sample_amounts:
  "bal sampleState a = (if a = 7 \<or> a = 9 then 1000 else 0)"
  "avl sampleState a = (if a = 7 \<or> a = 9 then 1000 else 0)"
  "qty sampleState a st = (if a = 7 \<and> st = 1 then 10 else 0)"
  "avq sampleState a st = (if a = 7 \<and> st = 1 then 5 else 0)"
  by (simp_all add: bal_def avl_def qty_def avq_def sampleState_def table_defs colv_def)

lemma sample_totals: "total_cash sampleState = 2000" "total_shares sampleState st = (if st = 1 then 10 else 0)"
  by (simp_all add: total_cash_def total_shares_def sampleState_def Get_fmlookup osum_upd_fmap fmdrop_fmupd
      sharesOf_def osum_none)

lemma sample_keys: "keys_ok sampleState"
  by (auto simp: keys_ok_def accounts.keyed_def holdings.keyed_def stocks.keyed_def sampleState_def
      table_defs split: if_splits)

lemma sample_inv: "ledger_inv sampleState no_slack no_slack2"
proof -
  have "books_ok sampleState"
    by (auto simp: books_ok_def bookOf_sample book_ok_def wf_sample wf_book_New Get_sample split: if_splits)
  moreover have "backed sampleState no_slack no_slack2"
    by (auto simp: backed_def sample_amounts reserved_sample held_weights at_def)
  ultimately show ?thesis
    by (simp add: ledger_inv_def sample_keys holders_ok_iff sample_rows bounded_def sample_totals)
qed

lemma sampleBuy_matchable: "matchable sampleState sampleBuy"
  by (simp add: matchable_def bookOf_sample Get_sample askCap_def sample_rows sample_amounts locked_def)

lemma sampleEngine_simps [simp]:
  "state sampleEngine = sampleState" "lastTradeID sampleEngine = 0"
  by (simp_all add: sampleEngine_def)

lemma sample_hyps:
  "ledger_inv (state sampleEngine) no_slack no_slack2" "matchable (state sampleEngine) sampleBuy"
  "lastTradeID sampleEngine + int (unat (remaining sampleBuy)) \<le> int64_max"
  by (simp_all add: sample_inv sampleBuy_matchable)

text \<open>The trades of a match and the walk behind them.\<close>

lemma match_walk:
  assumes "ledger_inv (state e) no_slack no_slack2" "matchable (state e) x" "match_spec x e e' evs"
  obtains ts q x' where "greedy x (prio (bookOf (state e) (oStockId x)) (counterSide (oTradingType x))) = (ts, q, x')"
    "tradesOf evs = map (\<lambda>(c, f). (oId c, oPrice c, f)) ts" "\<forall>(c, f)\<in>set ts. f \<noteq> 0"
    "(\<Sum>(c, f)\<leftarrow>ts. unat f) + unat (remaining x') = unat (remaining x)"
proof -
  let ?b = "bookOf (state e) (oStockId x)" and ?c = "counterSide (oTradingType x)"
  obtain ts q x' where g: "greedy x (prio ?b ?c) = (ts, q, x')"
    and t: "tradesOf evs = map (\<lambda>(c, f). (oId c, oPrice c, f)) ts"
    using assms(3) by (auto simp: match_spec_def Let_def split: prod.splits)
  have wf: "wf_book ?b" using assms(1) by (simp add: ledger_inv_def books_ok_def book_ok_def)
  have "remaining c \<noteq> 0" if "c \<in> set (prio ?b ?c)" for c
    using that set_prio [OF wf counterSide_side(1)] book.get_unfilled [OF wf, of "oId c" c] by auto
  moreover have "oFilledQuantity x \<le> oQuantity x" using assms(2) by (auto simp: matchable_def)
  ultimately show thesis using that [OF g t] greedy_fills [OF _ _ g] by auto
qed



section \<open>Properties\<close>

text \<open>
  C1: Matching keeps the ledger sound. On a ledger whose balances are backed (every balance is
  the available balance plus what resting orders hold back, every holding likewise, books
  well-formed, totals within 64 bits), matching an order ends without error or panic and leaves a
  ledger that is backed again with nothing held outside the books; the total cash and, for every
  stock, the total number of shares are conserved. This holds for an order to buy or sell that has a
  price and a quantity left, whose cash or shares are available, whose id is not that of a resting
  order, and for which enough trade ids are left; a market buy must in addition find no ask above its
  price in the book. Validation ensures neither the fresh id nor the last condition, without which
  the conclusion fails: see the finding on \<^verbatim>\<open>order.go:263\<close>.
\<close>

theorem matchEvents_keeps_ledger:
  assumes "ledger_inv (state e) no_slack no_slack2" "matchable (state e) x"
    and "lastTradeID e + int (unat (remaining x)) \<le> int64_max"
  shows "\<exists>e' evs. matchEvents clk e x = (e', Ret evs) \<and> ledger_inv (state e') no_slack no_slack2 \<and>
    total_cash (state e') = total_cash (state e) \<and> total_shares (state e') = total_shares (state e)"
  by (rule matchEvents_spec [OF assms]) blast

theorem matchEvents_keeps_ledger_witness:
  "\<exists>e' evs. matchEvents sampleClock sampleEngine sampleBuy = (e', Ret evs) \<and>
     ledger_inv (state e') no_slack no_slack2 \<and> total_cash (state e') = 2000"
  using matchEvents_keeps_ledger [of sampleEngine sampleBuy sampleClock]
  by (auto simp: sample_inv sampleBuy_matchable sample_totals)

text \<open>
  C3: Matching is price-time priority. The trades an order makes are the greedy walk along the
  counter side's queue, best price first and first come first served within a price; that
  queue afterwards is what the walk leaves, the unfilled rest of a limit order is inserted in
  its own side's queue behind all orders at least as good, and no other book changes.
\<close>

theorem matchEvents_price_time_priority:
  assumes "ledger_inv (state e) no_slack no_slack2" "matchable (state e) x"
    and "lastTradeID e + int (unat (remaining x)) \<le> int64_max"
    and "matchEvents clk e x = (e', Ret evs)"
  shows "match_spec x e e' evs"
  by (rule matchEvents_spec [OF assms(1-3), of clk]) (use assms(4) in simp)

lemma greedy_sample:
  "greedy sampleBuy [restingAsk] = ([(restingAsk, 5)], [], fill_order 5 sampleBuy)"
  by (simp add: priceRefused_def)

theorem matchEvents_price_time_priority_witness:
  "\<exists>e' evs. matchEvents sampleClock sampleEngine sampleBuy = (e', Ret evs) \<and> tradesOf evs = [(1, 100, 5)] \<and>
     prio (bookOf (state e') 1) TRADING_SELL = [] \<and>
     prio (bookOf (state e') 1) TRADING_BUY = [fill_order 5 sampleBuy]"
proof -
  obtain e' evs where r: "matchEvents sampleClock sampleEngine sampleBuy = (e', Ret evs)"
    by (rule matchEvents_spec [OF sample_hyps])
  have "match_spec sampleBuy sampleEngine e' evs"
    by (rule matchEvents_price_time_priority [OF sample_hyps r])
  then show ?thesis
    using r by (simp add: match_spec_def counterSide_def bookOf_sample prio_sample greedy_sample rests_def
        insertPrio_def Let_def del: greedy.simps)
qed

text \<open>
  C15: Limit prices are respected and orders are never overfilled. Every trade of a limit buy is
  at most at its price, every trade of a limit sell at least at its price, every trade has a
  positive quantity, and the traded quantities add up to at most what was left of the order.
\<close>

theorem trades_within_limit:
  assumes "ledger_inv (state e) no_slack no_slack2" "matchable (state e) x"
    and "lastTradeID e + int (unat (remaining x)) \<le> int64_max"
    and "matchEvents clk e x = (e', Ret evs)" "oOrderType x = ORDER_LIMIT"
  shows "(\<forall>(i, p, n)\<in>set (tradesOf evs). n \<noteq> 0 \<and>
      (if oTradingType x = TRADING_BUY then p \<le> oPrice x else oPrice x \<le> p)) \<and>
    (\<Sum>(i, p, n)\<leftarrow>tradesOf evs. unat n) \<le> unat (remaining x)"
proof -
  have "match_spec x e e' evs" by (rule matchEvents_spec [OF assms(1-3), of clk]) (use assms(4) in simp)
  then obtain ts q x' where g: "greedy x (prio (bookOf (state e) (oStockId x)) (counterSide (oTradingType x))) = (ts, q, x')"
    and t: "tradesOf evs = map (\<lambda>(c, f). (oId c, oPrice c, f)) ts" and f: "\<forall>(c, f)\<in>set ts. f \<noteq> 0"
      "(\<Sum>(c, f)\<leftarrow>ts. unat f) + unat (remaining x') = unat (remaining x)"
    by (rule match_walk [OF assms(1,2)])
  have side: "oTradingType x = TRADING_BUY \<or> oTradingType x = TRADING_SELL"
    using assms(2) by (auto simp: matchable_def)
  have "\<not> priceRefused x (oPrice c)" if "(c, f) \<in> set ts" for c f using greedy_accepted [OF g that] by blast
  then have "\<forall>(i, p, n)\<in>set (tradesOf evs). n \<noteq> 0 \<and>
      (if oTradingType x = TRADING_BUY then p \<le> oPrice x else oPrice x \<le> p)"
    using f(1) side assms(5) by (fastforce simp: t priceRefused_def)
  moreover have "(\<Sum>(i, p, n)\<leftarrow>tradesOf evs. unat n) = (\<Sum>(c, f)\<leftarrow>ts. unat f)"
    by (simp add: t comp_def case_prod_unfold)
  ultimately show ?thesis using f(2) by simp
qed

theorem trades_within_limit_witness:
  "\<exists>e' evs. matchEvents sampleClock sampleEngine sampleBuy = (e', Ret evs) \<and>
     (\<forall>(i, p, n)\<in>set (tradesOf evs). n \<noteq> 0 \<and> p \<le> 110)"
proof -
  obtain e' evs where r: "matchEvents sampleClock sampleEngine sampleBuy = (e', Ret evs)"
    by (rule matchEvents_spec [OF sample_hyps])
  show ?thesis using trades_within_limit [OF sample_hyps r] r by auto
qed



text \<open>
  C14: The book never crosses. If no resting bid reaches a resting ask before an order is
  matched, then none does afterwards.
\<close>

theorem book_stays_uncrossed:
  assumes "ledger_inv (state e) no_slack no_slack2" "matchable (state e) x"
    and "lastTradeID e + int (unat (remaining x)) \<le> int64_max"
    and "matchEvents clk e x = (e', Ret evs)" "uncrossed (bookOf (state e) i)"
  shows "uncrossed (bookOf (state e') i)"
proof (rule matchEvents_spec [OF assms(1-3), of clk])
  fix e'' evs'
  assume r: "matchEvents clk e x = (e'', Ret evs')" "ledger_inv (state e'') no_slack no_slack2"
    "match_spec x e e'' evs'"
  then have "e'' = e'" using assms(4) by simp
  show ?thesis
  proof (cases "i = oStockId x")
    case True
    have "is_side (oTradingType x)" using assms(2) by (auto simp: matchable_def)
    then show ?thesis
      using match_uncrossed [of e x e' evs'] r(2,3) assms(1,5) True \<open>e'' = e'\<close>
      by (simp add: ledger_inv_def books_ok_def book_ok_def)
  next
    case False
    then show ?thesis using r(3) assms(5) \<open>e'' = e'\<close> by (auto simp: match_spec_def Let_def split: prod.splits)
  qed
qed

theorem book_stays_uncrossed_witness:
  "\<exists>e' evs. matchEvents sampleClock sampleEngine sampleBuy = (e', Ret evs) \<and> uncrossed (bookOf (state e') 1)"
proof -
  obtain e' evs where r: "matchEvents sampleClock sampleEngine sampleBuy = (e', Ret evs)"
    by (rule matchEvents_spec [OF sample_hyps])
  have "uncrossed (bookOf (state sampleEngine) 1)" by (simp add: uncrossed_def bookOf_sample Get_sample)
  then show ?thesis using book_stays_uncrossed [OF sample_hyps r] r by blast
qed

end
