(* ===== verification/Validation.thy ===== *)
theory Validation
  imports MatchProps
begin

text \<open>
  The validation of orders (\<^verbatim>\<open>internal/core/order_validation.go\<close>) and its rejection reasons.
  A validation returns the reason of the rejection or nothing; the texts that go only to the
  log are left out. Looking up an order book creates it, so the validation of an edit or a
  cancellation also returns the state.
\<close>

section \<open>Reasons\<close>

definition RejectInvalidOrder :: string where "RejectInvalidOrder = ''INVALID_ORDER''"
definition RejectInsufficientBalance :: string where "RejectInsufficientBalance = ''INSUFFICIENT_BALANCE''"
definition RejectInsufficientStock :: string where "RejectInsufficientStock = ''INSUFFICIENT_STOCK''"
definition RejectStockNotTradable :: string where "RejectStockNotTradable = ''STOCK_NOT_TRADABLE''"
definition RejectOrderNotActive :: string where "RejectOrderNotActive = ''ORDER_NOT_ACTIVE''"

section \<open>The checks\<close>

definition validateStock :: "State \<Rightarrow> Order \<Rightarrow> string option" where
  "validateStock s order =
     (case getStock s (oStockId order) of
        None \<Rightarrow> Some RejectInvalidOrder
      | Some stock \<Rightarrow>
          if sStatus stock \<noteq> LISTED \<and> oTradingType order \<noteq> TRADING_CANCEL
          then Some RejectStockNotTradable else None)"

definition validateTrade :: "Order \<Rightarrow> string option" where
  "validateTrade order =
     (if oQuantity order = 0 \<or> oFilledQuantity order \<noteq> 0 then Some RejectInvalidOrder
      else if oOrderType order \<noteq> ORDER_LIMIT \<and> oOrderType order \<noteq> ORDER_MARKET
      then Some RejectInvalidOrder
      else if oPrice order = 0 then Some RejectInvalidOrder
      else None)"

definition validateBuy :: "State \<Rightarrow> Order \<Rightarrow> string option" where
  "validateBuy s order =
     (case validateTrade order of
        Some r \<Rightarrow> Some r
      | None \<Rightarrow>
          (case getAccount s (oAccountId order) of
             None \<Rightarrow> Some RejectInvalidOrder
           | Some account \<Rightarrow>
               (let (hi, cost) = Mul64 (oPrice order) (oQuantity order)
                in if hi \<noteq> 0 then Some RejectInvalidOrder
                   else if aAvailableBalance account < cost then Some RejectInsufficientBalance
                   else None)))"

definition validateSell :: "State \<Rightarrow> Order \<Rightarrow> string option" where
  "validateSell s order =
     (case validateTrade order of
        Some r \<Rightarrow> Some r
      | None \<Rightarrow>
          (case getHolding s (oAccountId order) (oStockId order) of
             None \<Rightarrow> Some RejectInsufficientStock
           | Some holding \<Rightarrow>
               if hAvailableQuantity holding < oQuantity order then Some RejectInsufficientStock
               else None))"

definition validateTargetRequest :: "State \<Rightarrow> Order \<Rightarrow> State \<times> (string + Order)" where
  "validateTargetRequest s order =
     (if oTargetId order \<le> 0 then (s, Inl RejectInvalidOrder)
      else let s' = openBook s (oStockId order)
           in case Get (bookOf s' (oStockId order)) (oTargetId order) of
                None \<Rightarrow> (s', Inl RejectOrderNotActive)
              | Some target \<Rightarrow>
                  if oAccountId target \<noteq> oAccountId order then (s', Inl RejectOrderNotActive)
                  else (s', Inr target))"

definition validateEditAssets :: "State \<Rightarrow> Order \<Rightarrow> Order \<Rightarrow> string option" where
  "validateEditAssets s order target =
     (let rest = oQuantity target - oFilledQuantity target
      in case oTradingType target of
           TRADING_BUY \<Rightarrow>
             (case getAccount s (oAccountId target) of
                None \<Rightarrow> Some RejectInvalidOrder
              | Some account \<Rightarrow>
                  (let (oldHi, oldReserved) = Mul64 (oPrice target) rest;
                       (newHi, newRequired) = Mul64 (oPrice order) rest
                   in if oldHi \<noteq> 0 \<or> newHi \<noteq> 0 then Some RejectInvalidOrder
                      else let (effective, carry) = Add64 (aAvailableBalance account) oldReserved
                           in if carry \<noteq> 0 then Some RejectInvalidOrder
                              else if effective < newRequired then Some RejectInsufficientBalance
                              else None))
         | TRADING_SELL \<Rightarrow>
             (case getHolding s (oAccountId target) (oStockId target) of
                None \<Rightarrow> Some RejectInsufficientStock
              | Some _ \<Rightarrow> None)
         | _ \<Rightarrow> None)"

definition validateEdit :: "State \<Rightarrow> Order \<Rightarrow> State \<times> string option" where
  "validateEdit s order =
     (case validateTargetRequest s order of
        (s', Inl r) \<Rightarrow> (s', Some r)
      | (s', Inr target) \<Rightarrow>
          (s', if oId order = oTargetId order then Some RejectInvalidOrder
               else if oPrice order = 0 \<or> oPrice order = oPrice target then Some RejectInvalidOrder
               else validateEditAssets s' order target))"

definition validateCancel :: "State \<Rightarrow> Order \<Rightarrow> State \<times> string option" where
  "validateCancel s order =
     (case validateTargetRequest s order of
        (s', Inl r) \<Rightarrow> (s', Some r)
      | (s', Inr _) \<Rightarrow> (s', None))"

definition validateOrder :: "State \<Rightarrow> Order \<Rightarrow> State \<times> string option" where
  "validateOrder s order =
     (if oId order \<le> 0 then (s, Some RejectInvalidOrder)
      else case validateStock s order of
             Some r \<Rightarrow> (s, Some r)
           | None \<Rightarrow>
               (case oTradingType order of
                  TRADING_BUY \<Rightarrow> (s, validateBuy s order)
                | TRADING_SELL \<Rightarrow> (s, validateSell s order)
                | TRADING_EDIT \<Rightarrow> validateEdit s order
                | TRADING_CANCEL \<Rightarrow> validateCancel s order
                | TradingType_other _ \<Rightarrow> (s, Some RejectInvalidOrder)))"

section \<open>What acceptance means\<close>

lemma validateTrade_None:
  "validateTrade x = None \<longleftrightarrow>
     oQuantity x \<noteq> 0 \<and> oFilledQuantity x = 0 \<and> oPrice x \<noteq> 0 \<and>
     (oOrderType x = ORDER_LIMIT \<or> oOrderType x = ORDER_MARKET)"
  by (auto simp: validateTrade_def)

lemma Mul64_cost:
  assumes "Mul64 p n = (hi, cost)"
  shows "hi = 0 \<longleftrightarrow> unat p * unat n < 2 ^ 64" "hi = 0 \<Longrightarrow> unat cost = unat p * unat n"
proof -
  show h: "hi = 0 \<longleftrightarrow> unat p * unat n < 2 ^ 64" using Mul64_hi_0 [of p n] assms by simp
  assume "hi = 0"
  with h assms show "unat cost = unat p * unat n" by (auto simp: Mul64_def unat_mult_less)
qed

lemma Add64_sum:
  assumes "Add64 a b = (res, carry)"
  shows "carry = 0 \<longleftrightarrow> unat a + unat b < 2 ^ 64" "carry = 0 \<Longrightarrow> unat res = unat a + unat b"
proof -
  show h: "carry = 0 \<longleftrightarrow> unat a + unat b < 2 ^ 64" using Add64_carry_0 [of a b] assms by simp
  assume "carry = 0"
  with h assms show "unat res = unat a + unat b" by (auto simp: Add64_def unat_add_less)
qed

lemma validateBuy_None:
  "validateBuy s x = None \<longleftrightarrow> validateTrade x = None \<and> getAccount s (oAccountId x) \<noteq> None \<and>
     unat (oPrice x) * unat (oQuantity x) < 2 ^ 64 \<and>
     unat (oPrice x) * unat (oQuantity x) \<le> avl s (oAccountId x)"
proof (cases "validateTrade x = None \<and> getAccount s (oAccountId x) \<noteq> None")
  case True
  then obtain acc where acc: "getAccount s (oAccountId x) = Some acc" by blast
  obtain hi cost where m: "Mul64 (oPrice x) (oQuantity x) = (hi, cost)" by fastforce
  note c = Mul64_cost [OF m]
  have "validateBuy s x = None \<longleftrightarrow> hi = 0 \<and> \<not> aAvailableBalance acc < cost"
    using True acc m by (simp add: validateBuy_def)
  also have "\<dots> \<longleftrightarrow> unat (oPrice x) * unat (oQuantity x) < 2 ^ 64 \<and>
      unat (oPrice x) * unat (oQuantity x) \<le> avl s (oAccountId x)"
    using c getAccount_colv(2) [OF acc] by (auto simp: word_less_nat_alt not_less)
  finally show ?thesis using True by simp
next
  case False
  then show ?thesis by (auto simp: validateBuy_def split: option.splits)
qed

lemma validateSell_None:
  "validateSell s x = None \<longleftrightarrow> validateTrade x = None \<and>
     getHolding s (oAccountId x) (oStockId x) \<noteq> None \<and>
     unat (oQuantity x) \<le> avq s (oAccountId x) (oStockId x)"
  using getHolding_colv(2) [of s "oAccountId x" "oStockId x"]
  by (auto simp: validateSell_def word_less_nat_alt not_less split: option.splits)

lemma validateStock_None:
  "validateStock s x = None \<longleftrightarrow>
     (\<exists>st. getStock s (oStockId x) = Some st \<and> (sStatus st = LISTED \<or> oTradingType x = TRADING_CANCEL))"
  by (auto simp: validateStock_def split: option.splits)

lemma validateTargetRequest_Inr:
  "validateTargetRequest s x = (s', Inr target) \<longleftrightarrow>
     0 < oTargetId x \<and> s' = openBook s (oStockId x) \<and>
     Get (bookOf s (oStockId x)) (oTargetId x) = Some target \<and> oAccountId target = oAccountId x"
  by (auto simp: validateTargetRequest_def Let_def split: option.splits if_splits)

lemma validateOrder_frame:
  assumes "validateOrder s x = (s', r)"
  shows "s' = s \<or> s' = openBook s (oStockId x)"
  using assms
  by (auto simp: validateOrder_def validateEdit_def validateCancel_def validateTargetRequest_def Let_def
      split: option.splits if_splits TradingType.splits prod.splits sum.splits)

lemma validateOrder_keeps:
  assumes "validateOrder s x = (s', r)"
  shows "bookOf s' i = bookOf s i" "getAccount s' a = getAccount s a" "getHolding s' a t = getHolding s a t"
    "getStock s' i = getStock s i" "ledger_inv s' u v = ledger_inv s u v" "avl s' = avl s" "avq s' = avq s"
    "total_cash s' = total_cash s" "total_shares s' = total_shares s"
  using validateOrder_frame [OF assms] by auto

text \<open>An accepted buy or sell order can be matched, given the two things validation leaves open.\<close>

lemma validated_matchable:
  assumes "validateOrder s x = (s', None)" "is_side (oTradingType x)"
    and "Get (bookOf s (oStockId x)) (oId x) = None" "askCap x (bookOf s (oStockId x))"
  shows "matchable s' x"
proof -
  note k = validateOrder_keeps [OF assms(1)]
  have v: "(if oTradingType x = TRADING_BUY then validateBuy s x else validateSell s x) = None"
    using assms(1,2) by (auto simp: validateOrder_def is_side_def split: if_splits option.splits)
  then have t: "validateTrade x = None" by (auto simp: validateBuy_None validateSell_None split: if_splits)
  then have r: "remaining x = oQuantity x" "oFilledQuantity x < oQuantity x"
    by (auto simp: validateTrade_None word_gt_0)
  have "locked x = unat (oPrice x) * unat (oQuantity x)" by (simp add: locked_def r)
  with v t r assms(2-4) k show ?thesis
    by (auto simp: matchable_def validateTrade_None validateBuy_None validateSell_None is_side_def split: if_splits)
qed

end
