(* ===== verification/Orders.thy ===== *)
theory Orders
  imports Validation
begin

text \<open>
  Cancelling, editing and routing of orders (\<^verbatim>\<open>internal/core/order.go\<close>). An edit removes the
  target from the book, gives back what it held, and matches a replacement with the new price
  and what was left of the target; a cancellation stops after giving back.
\<close>

section \<open>Operations\<close>

definition match :: "'l twal \<Rightarrow> clock \<Rightarrow> 'l Engine \<Rightarrow> Order \<Rightarrow> ('l, unit) result" where
  "match ops clk e order =
     andThen (matchEvents clk e order) (\<lambda>e1 events. orPanic (appendOutput ops clk e1 events))"

text \<open>\<open>None\<close> is the nil dereference of \<^verbatim>\<open>OrderBook.Cancel\<close>.\<close>

definition removeAndRelease :: "State \<Rightarrow> Order \<Rightarrow> (bool \<times> State) option" where
  "removeAndRelease s target =
     (let s0 = openBook s (oStockId target)
      in case Cancel (bookOf s0 (oStockId target)) (oId target) of
           None \<Rightarrow> None
         | Some (ok, ob) \<Rightarrow>
             (let s1 = putBook s0 (oStockId target) ob
              in if \<not> ok then Some (False, s1)
                 else Some (True, releaseAssets s1 target (oQuantity target - oFilledQuantity target))))"

definition targetOf :: "State \<Rightarrow> Order \<Rightarrow> Order" where
  "targetOf s order =
     (case Get (bookOf s (oStockId order)) (oTargetId order) of None \<Rightarrow> zeroOrder | Some t \<Rightarrow> t)"

definition replacementOf :: "Order \<Rightarrow> Order \<Rightarrow> Order" where
  "replacementOf order target =
     order\<lparr>oQuantity := oQuantity target, oFilledQuantity := oFilledQuantity target,
       oOrderType := oOrderType target, oTradingType := oTradingType target\<rparr>"

fun mergeOrderBookLevel :: "outEvent list \<Rightarrow> OrderBookLevel \<Rightarrow> int32 \<Rightarrow> outEvent list" where
  "mergeOrderBookLevel [] lvl stock =
     [ev PatternOrderBookUpdated (EvBook \<lparr>obuStockId = stock, obuLevels = [lvl]\<rparr>)]"
| "mergeOrderBookLevel (e # es) lvl stock =
     (case data e of
        EvBook update \<Rightarrow>
          if pattern e = PatternOrderBookUpdated
          then e\<lparr>data := EvBook (update\<lparr>obuLevels := obuLevels update @ [lvl]\<rparr>)\<rparr> # es
          else e # mergeOrderBookLevel es lvl stock
      | _ \<Rightarrow> e # mergeOrderBookLevel es lvl stock)"

definition levelOf :: "State \<Rightarrow> int32 \<Rightarrow> Order \<Rightarrow> OrderBookLevel" where
  "levelOf s stock target =
     \<lparr>lvSide = orderBookSide (oTradingType target), lvPrice = oPrice target,
      lvQuantity = LevelQuantity (bookOf s stock) (oTradingType target) (oPrice target)\<rparr>"

definition edit :: "'l twal \<Rightarrow> clock \<Rightarrow> 'l Engine \<Rightarrow> Order \<Rightarrow> ('l, unit) result" where
  "edit ops clk e order =
     (let s0 = openBook (state e) (oStockId order);
          target = targetOf s0 order
      in case removeAndRelease s0 target of
           None \<Rightarrow> (e\<lparr>state := s0\<rparr>, Panic NilDereference)
         | Some (False, s1) \<Rightarrow> (e\<lparr>state := s1\<rparr>, Err (TargetNotRemoved (oTargetId order)))
         | Some (True, s1) \<Rightarrow>
             andThen (matchEvents clk (e\<lparr>state := s1\<rparr>) (replacementOf order target)) (\<lambda>e1 events.
               orPanic (appendOutput ops clk e1
                 (ev PatternOrderReplaced (EvOrder (orderEvent target)) #
                  mergeOrderBookLevel events (levelOf (state e1) (oStockId order) target)
                    (oStockId target)))))"

definition cancelEvents :: "State \<Rightarrow> Order \<Rightarrow> Order \<Rightarrow> outEvent list" where
  "cancelEvents s order target =
     [ev PatternOrderCanceled (EvOrder (orderEvent target)),
      ev PatternOrderCompleted (EvOrder (orderEvent order)),
      ev PatternOrderBookUpdated (EvBook \<lparr>obuStockId = oStockId target,
        obuLevels = [levelOf s (oStockId order) target]\<rparr>)] @
     (case oTradingType target of
        TRADING_BUY \<Rightarrow>
          (case getAccount s (oAccountId target) of
             None \<Rightarrow> [] | Some acc \<Rightarrow> [ev PatternAccountUpdated (EvAccount acc)])
      | TRADING_SELL \<Rightarrow>
          (case getHolding s (oAccountId target) (oStockId target) of
             None \<Rightarrow> [] | Some h \<Rightarrow> [ev PatternHoldingUpdated (EvHolding h)])
      | _ \<Rightarrow> [])"

definition cancel :: "'l twal \<Rightarrow> clock \<Rightarrow> 'l Engine \<Rightarrow> Order \<Rightarrow> ('l, unit) result" where
  "cancel ops clk e order =
     (let s0 = openBook (state e) (oStockId order)
      in case Get (bookOf s0 (oStockId order)) (oTargetId order) of
           None \<Rightarrow> (e\<lparr>state := s0\<rparr>, Err (TargetNotActive (oTargetId order)))
         | Some target \<Rightarrow>
             (case removeAndRelease s0 target of
                None \<Rightarrow> (e\<lparr>state := s0\<rparr>, Panic NilDereference)
              | Some (False, s1) \<Rightarrow> (e\<lparr>state := s1\<rparr>, Err (TargetNotRemoved (oTargetId order)))
              | Some (True, s1) \<Rightarrow>
                  orPanic (appendOutput ops clk (e\<lparr>state := s1\<rparr>) (cancelEvents s1 order target))))"

definition route :: "'l twal \<Rightarrow> clock \<Rightarrow> 'l Engine \<Rightarrow> Order \<Rightarrow> ('l, unit) result" where
  "route ops clk e order =
     (case oTradingType order of
        TRADING_BUY \<Rightarrow> match ops clk e order
      | TRADING_SELL \<Rightarrow> match ops clk e order
      | TRADING_EDIT \<Rightarrow> edit ops clk e order
      | TRADING_CANCEL \<Rightarrow> cancel ops clk e order
      | TradingType_other _ \<Rightarrow> (e, Err UnknownTradingType))"

section \<open>Giving back what a resting order holds\<close>

lemma resting_facts:
  assumes "ledger_inv s x y" "Get (bookOf s st) i = Some c"
  shows "oId c = i" "oStockId c = st" "oPrice c \<noteq> 0" "oOrderType c = ORDER_LIMIT"
    "is_side (oTradingType c)" "oFilledQuantity c < oQuantity c" "wf_book (bookOf s st)"
    "getAccount s (oAccountId c) \<noteq> None"
proof -
  have I: "book_ok st (bookOf s st)" "holders_ok s" "backed s x y"
    using assms(1) by (auto simp: ledger_inv_def books_ok_def)
  show wf: "wf_book (bookOf s st)" using I(1) by (simp add: book_ok_def)
  show c: "oId c = i" "oStockId c = st" "oPrice c \<noteq> 0" "oOrderType c = ORDER_LIMIT"
    "is_side (oTradingType c)" "oFilledQuantity c < oQuantity c"
    using I(1) assms(2) Get_id [OF wf] Get_is_side [OF wf] book.get_unfilled [OF wf] by (auto simp: book_ok_def)
  have r: "0 < unat (remaining c)" "0 < unat (oPrice c)" using c(3,6) by (auto simp: unat_gt_0_uint64)
  show "getAccount s (oAccountId c) \<noteq> None"
  proof (cases "oTradingType c = TRADING_BUY")
    case True
    have "0 < held (cashW (oAccountId c)) c" using r True by (simp add: held_weights at_def)
    then have "0 < bal s (oAccountId c)"
      using held_le_reserved [OF assms(2), of "cashW (oAccountId c)"] I(3) by (simp add: backed_def)
    then show ?thesis using account_exists [of s "oAccountId c"] by (auto simp: getAccount_def)
  next
    case False
    then have "0 < held (shareW (oAccountId c) st) c"
      using r c(2,5) by (auto simp: held_weights at_def is_side_def)
    then have "0 < qty s (oAccountId c) st"
      using held_le_reserved [OF assms(2), of "shareW (oAccountId c) st"] I(3) by (simp add: backed_def)
    then show ?thesis
      using holding_exists [of s "oAccountId c" st] I(2) by (auto simp: holders_ok_iff getHolding_def)
  qed
qed

lemma release_balances:
  assumes "keys_ok s"
  shows "bal (releaseAssets s r n) = bal s" "qty (releaseAssets s r n) = qty s"
  using keys_getD [OF assms] getAccount_colv(1) [of s] getHolding_colv(1) [of s]
  by (auto simp: releaseAssets_def fun_eq_iff split: TradingType.split option.split)

lemma removeAndRelease_spec:
  assumes inv: "ledger_inv s no_slack no_slack2" and c: "Get (bookOf s st) i = Some c"
  obtains s' where "removeAndRelease s c = Some (True, s')" "ledger_inv s' no_slack no_slack2"
    "conserves s s'" "Get (bookOf s' st) = (Get (bookOf s st))(i := None)"
    "\<And>t. is_side t \<Longrightarrow> prio (bookOf s' st) t = filter (\<lambda>y. oId y \<noteq> i) (prio (bookOf s st) t)"
    "\<And>j. j \<noteq> st \<Longrightarrow> bookOf s' j = bookOf s j"
    "\<And>a. avl s' a = avl s a + held (cashW a) c"
    "\<And>a t. avq s' a t = avq s a t + held (shareW a t) c"
proof -
  note F = resting_facts [OF inv c]
  have I: "keys_ok s" "books_ok s" "holders_ok s" "bounded s" "backed s no_slack no_slack2"
    using inv by (auto simp: ledger_inv_def)
  obtain b' where b': "Cancel (bookOf s st) i = Some (True, b')" "wf_book b'"
    "Get b' = (Get (bookOf s st))(i := None)"
    "\<And>t. is_side t \<Longrightarrow> prio b' t = filter (\<lambda>y. oId y \<noteq> i) (prio (bookOf s st) t)"
    by (rule prio_Cancel [OF F(7) c]) blast
  define s1 where "s1 = putBook (openBook s st) st b'"
  define s' where "s' = releaseAssets s1 c (remaining c)"
  have run: "removeAndRelease s c = Some (True, s')"
    using b'(1) F(1,2) by (simp add: removeAndRelease_def s'_def s1_def)
  have res: "reserved w s1 + held w c = reserved w s" for w
    using reserved_putBook [of w "openBook s st" st b'] osum_remove [OF finite_Get c, of "held w"]
    by (simp add: s1_def b'(3))
  have "book_ok st b'" using I(2) b'(2) by (auto simp: books_ok_def book_ok_def b'(3) split: if_splits)
  then have "books_ok s1" using I(2) by (simp add: books_ok_def s1_def)
  then have inv1: "ledger_inv s1 (\<lambda>a. 0 + held (cashW a) c) (\<lambda>a t. 0 + held (shareW a t) c)"
    using I res by (simp add: ledger_inv_def backed_def bounded_def s1_def flip: add.assoc)
  have "getAccount s1 (oAccountId c) \<noteq> None" using F(8) by (simp add: s1_def)
  from release_inv [OF inv1 F(5) this F(6) refl refl]
  have rel: "ledger_inv s' no_slack no_slack2" "conserves s1 s'" by (simp_all add: s'_def)
  have cons: "conserves s s'"
    using rel(2) by (simp add: conserves_def s1_def)
  have bk: "bookOf s' j = (if j = st then b' else bookOf s j)" for j
    by (simp add: s'_def bookOf_def lockAssets_frame) (simp add: bookOf_def [symmetric] s1_def)
  have k1: "keys_ok s1" using I(1) by (simp add: s1_def)
  have eqs: "bal s' = bal s" "qty s' = qty s" "\<And>w. reserved w s' = reserved w s1"
    using release_balances [OF k1] by (simp_all add: s'_def s1_def reserved_def lockAssets_frame)
  have B: "bal s a = avl s a + reserved (cashW a) s" "bal s' a = avl s' a + reserved (cashW a) s'"
    "qty s a t = avq s a t + reserved (shareW a t) s" "qty s' a t = avq s' a t + reserved (shareW a t) s'" for a t
    using rel(1) I(5) by (simp_all add: ledger_inv_def backed_def)
  have "avl s' a = avl s a + held (cashW a) c" for a
    using B(1,2) [of a] res [of "cashW a"] eqs by simp
  moreover have "avq s' a t = avq s a t + held (shareW a t) c" for a t
    using B(3,4) [of a t] res [of "shareW a t"] eqs by simp
  ultimately show thesis using that [OF run rel(1) cons] b'(3,4) bk by simp
qed

section \<open>Accepted requests keep the ledger\<close>

text \<open>
  A request that changes the ledger soundly and ends by reporting it: what all handlers have
  in common. \<open>e1\<close> is the engine when the events \<open>evs\<close> are handed to the output log.
\<close>

definition sound_step :: "'l Engine \<Rightarrow> 'l Engine \<Rightarrow> outEvent list \<Rightarrow> bool" where
  "sound_step e e1 evs \<longleftrightarrow> ledger_inv (state e1) no_slack no_slack2 \<and>
     total_cash (state e1) = total_cash (state e) \<and> total_shares (state e1) = total_shares (state e) \<and>
     frame e e1 \<and> list_all marshals evs \<and> evs \<noteq> []"

lemma match_sound:
  assumes "ledger_inv (state e) no_slack no_slack2" "matchable (state e) x"
    and "lastTradeID e + int (unat (remaining x)) \<le> int64_max"
  obtains e1 evs where "match ops clk e x = orPanic (appendOutput ops clk e1 evs)" "sound_step e e1 evs"
    "match_spec x e e1 evs"
  by (rule matchEvents_spec [OF assms, of clk]) (rule that, auto simp: match_def sound_step_def)

lemma validateEditAssets_openBook [simp]: "validateEditAssets (openBook s i) x c = validateEditAssets s x c"
  by (simp only: validateEditAssets_def get_set)

lemma validateEdit_assets:
  assumes "validateEditAssets s x c = None" "is_side (oTradingType c)" "oFilledQuantity c < oQuantity c"
  shows "oTradingType c = TRADING_BUY \<Longrightarrow> unat (oPrice x) * unat (remaining c) < 2 ^ 64 \<and>
      unat (oPrice x) * unat (remaining c) \<le> avl s (oAccountId c) + unat (oPrice c) * unat (remaining c)"
proof -
  assume buy: "oTradingType c = TRADING_BUY"
  obtain oh oc nh nc where m: "Mul64 (oPrice c) (remaining c) = (oh, oc)" "Mul64 (oPrice x) (remaining c) = (nh, nc)"
    by fastforce
  obtain acc where acc: "getAccount s (oAccountId c) = Some acc"
    using assms(1) buy by (auto simp: validateEditAssets_def Let_def split: option.splits)
  obtain ef ca where a: "Add64 (aAvailableBalance acc) oc = (ef, ca)" by fastforce
  have ok: "oh = 0" "nh = 0" "ca = 0" "\<not> ef < nc"
    using assms(1) buy m acc a by (auto simp: validateEditAssets_def Let_def split: if_splits)
  have "unat nc \<le> unat ef" using ok(4) by (simp add: word_less_nat_alt)
  then show ?thesis
    using Mul64_cost [OF m(1)] Mul64_cost [OF m(2)] Add64_sum [OF a] ok getAccount_colv(2) [OF acc] by simp
qed

lemma validateEdit_target:
  assumes "validateEdit s x = (s', None)"
  obtains c where "Get (bookOf s (oStockId x)) (oTargetId x) = Some c" "oAccountId c = oAccountId x"
    "oId x \<noteq> oTargetId x" "oPrice x \<noteq> 0" "oPrice x \<noteq> oPrice c"
    "validateEditAssets (openBook s (oStockId x)) x c = None" "s' = openBook s (oStockId x)"
proof -
  obtain s1 r where v: "validateTargetRequest s x = (s1, r)" by fastforce
  with assms obtain c where "r = Inr c" by (cases r) (auto simp: validateEdit_def)
  with v have t: "Get (bookOf s (oStockId x)) (oTargetId x) = Some c" "oAccountId c = oAccountId x"
    "s1 = openBook s (oStockId x)" using validateTargetRequest_Inr [of s x s1 c] by auto
  with v \<open>r = Inr c\<close> assms show thesis
    by (intro that [of c]) (auto simp: validateEdit_def split: if_splits)
qed

text \<open>After the target gave back its assets, the replacement can be matched.\<close>

lemma edit_matchable:
  assumes inv: "ledger_inv s no_slack no_slack2"
    and c: "Get (bookOf s (oStockId x)) (oTargetId x) = Some c" "oAccountId c = oAccountId x"
      "oPrice x \<noteq> 0" "validateEditAssets s x c = None" "Get (bookOf s (oStockId x)) (oId x) = None"
    and s': "Get (bookOf s' (oStockId x)) = (Get (bookOf s (oStockId x)))(oTargetId x := None)"
      "\<And>a. avl s' a = avl s a + held (cashW a) c" "\<And>a t. avq s' a t = avq s a t + held (shareW a t) c"
      "conserves s s'"
  shows "matchable s' (replacementOf x c)"
proof -
  note F = resting_facts [OF inv c(1)]
  let ?r = "replacementOf x c"
  have r: "remaining ?r = remaining c" "oAccountId ?r = oAccountId c" "oStockId ?r = oStockId c"
    "oTradingType ?r = oTradingType c" "oOrderType ?r = ORDER_LIMIT" "oPrice ?r = oPrice x" "oId ?r = oId x"
    "oFilledQuantity ?r < oQuantity ?r"
    using F c(2) by (simp_all add: replacementOf_def)
  have acc: "getAccount s' (oAccountId c) \<noteq> None" using F(8) s'(4) by (simp add: conserves_def)
  have "locked ?r \<le> avl s' (oAccountId c)" if "oTradingType c = TRADING_BUY"
    using validateEdit_assets [OF c(4) F(5,6) that] s'(2) [of "oAccountId c"] that
    by (simp add: locked_def r held_weights at_def)
  moreover have "unat (remaining ?r) \<le> avq s' (oAccountId c) (oStockId c)" if "oTradingType c = TRADING_SELL"
    using s'(3) [of "oAccountId c" "oStockId c"] that by (simp add: r held_weights at_def)
  ultimately show ?thesis
    using r F(2,5) acc c(3,5) s'(1) unfolding matchable_def askCap_def
    by (auto simp: is_side_def)
qed

lemma mergeOrderBookLevel_props:
  "list_all marshals es \<Longrightarrow> list_all marshals (mergeOrderBookLevel es l st)"
  "tradesOf (mergeOrderBookLevel es l st) = tradesOf es"
proof (induction es)
  case (Cons e es)
  {
    case 1
    then show ?case using Cons(1) by (cases "data e") (auto simp: marshals_def)
  next
    case 2
    then show ?case using Cons(2) by (cases "data e") (auto simp: tradesOf_def)
  }
qed (simp_all add: tradesOf_def)

lemma edit_sound:
  assumes inv: "ledger_inv (state e) no_slack no_slack2"
    and c: "Get (bookOf (state e) (oStockId x)) (oTargetId x) = Some c" "oAccountId c = oAccountId x"
      "oPrice x \<noteq> 0" "validateEditAssets (state e) x c = None" "Get (bookOf (state e) (oStockId x)) (oId x) = None"
    and ids: "lastTradeID e + int (unat (remaining c)) \<le> int64_max"
  obtains e0 e1 evs where
    "edit ops clk e x = orPanic (appendOutput ops clk e1
       (ev PatternOrderReplaced (EvOrder (orderEvent c)) #
        mergeOrderBookLevel evs (levelOf (state e1) (oStockId x) c) (oStockId c)))"
    "sound_step e e1 (ev PatternOrderReplaced (EvOrder (orderEvent c)) #
        mergeOrderBookLevel evs (levelOf (state e1) (oStockId x) c) (oStockId c))"
    "match_spec (replacementOf x c) e0 e1 evs"
    "\<And>t. is_side t \<Longrightarrow> prio (bookOf (state e0) (oStockId x)) t =
       filter (\<lambda>y. oId y \<noteq> oTargetId x) (prio (bookOf (state e) (oStockId x)) t)"
    "\<And>i. i \<noteq> oStockId x \<Longrightarrow> bookOf (state e0) i = bookOf (state e) i"
proof -
  let ?st = "oStockId x" and ?r = "replacementOf x c"
  define s0 where "s0 = openBook (state e) ?st"
  have inv0: "ledger_inv s0 no_slack no_slack2" and c0: "Get (bookOf s0 ?st) (oTargetId x) = Some c"
    and v0: "validateEditAssets s0 x c = None" and new0: "Get (bookOf s0 ?st) (oId x) = None"
    using inv c by (simp_all add: s0_def)
  note F = resting_facts [OF inv0 c0]
  obtain s1 where s1: "removeAndRelease s0 c = Some (True, s1)" "ledger_inv s1 no_slack no_slack2"
    "conserves s0 s1" "Get (bookOf s1 ?st) = (Get (bookOf s0 ?st))(oTargetId x := None)"
    "\<And>t. is_side t \<Longrightarrow> prio (bookOf s1 ?st) t = filter (\<lambda>y. oId y \<noteq> oTargetId x) (prio (bookOf s0 ?st) t)"
    "\<And>j. j \<noteq> ?st \<Longrightarrow> bookOf s1 j = bookOf s0 j"
    "\<And>a. avl s1 a = avl s0 a + held (cashW a) c" "\<And>a t. avq s1 a t = avq s0 a t + held (shareW a t) c"
    by (rule removeAndRelease_spec [OF inv0 c0]) blast
  have m: "matchable s1 ?r"
    by (rule edit_matchable [OF inv0 c0 c(2,3) v0 new0 s1(4,7,8,3)])
  have ids': "lastTradeID (e\<lparr>state := s1\<rparr>) + int (unat (remaining ?r)) \<le> int64_max"
    using ids by (simp add: replacementOf_def)
  obtain e1 evs where e1: "matchEvents clk (e\<lparr>state := s1\<rparr>) ?r = (e1, Ret evs)" "ledger_inv (state e1) no_slack no_slack2"
    "total_cash (state e1) = total_cash s1" "total_shares (state e1) = total_shares s1"
    "frame (e\<lparr>state := s1\<rparr>) e1" "match_spec ?r (e\<lparr>state := s1\<rparr>) e1 evs" "list_all marshals evs" "evs \<noteq> []"
    using matchEvents_spec [of "e\<lparr>state := s1\<rparr>" ?r clk] m ids' s1(2) by auto
  have tgt: "targetOf s0 x = c" using c0 by (simp add: targetOf_def)
  show thesis
  proof (rule that [of e1 evs "e\<lparr>state := s1\<rparr>"])
    show "edit ops clk e x = orPanic (appendOutput ops clk e1
       (ev PatternOrderReplaced (EvOrder (orderEvent c)) #
        mergeOrderBookLevel evs (levelOf (state e1) ?st c) (oStockId c)))"
      by (simp add: edit_def Let_def s0_def [symmetric] tgt s1(1) e1(1))
    have "marshals (ev PatternOrderReplaced (EvOrder (orderEvent c)))"
      using F(4,5) by (auto simp: is_side_def)
    then show "sound_step e e1 (ev PatternOrderReplaced (EvOrder (orderEvent c)) #
        mergeOrderBookLevel evs (levelOf (state e1) ?st c) (oStockId c))"
      using e1 s1(3) mergeOrderBookLevel_props(1) [OF e1(7)]
      by (simp add: sound_step_def conserves_def s0_def)
  qed (use e1(6) s1(5,6) in \<open>simp_all add: s0_def\<close>)
qed

lemma cancel_sound:
  assumes inv: "ledger_inv (state e) no_slack no_slack2"
    and c: "Get (bookOf (state e) (oStockId x)) (oTargetId x) = Some c"
    and x: "TradingType_MarshalJSON (oTradingType x) \<noteq> None" "OrderType_MarshalJSON (oOrderType x) \<noteq> None"
  obtains s1 where
    "cancel ops clk e x = orPanic (appendOutput ops clk (e\<lparr>state := s1\<rparr>) (cancelEvents s1 x c))"
    "sound_step e (e\<lparr>state := s1\<rparr>) (cancelEvents s1 x c)"
    "\<And>t. is_side t \<Longrightarrow> prio (bookOf s1 (oStockId x)) t =
       filter (\<lambda>y. oId y \<noteq> oTargetId x) (prio (bookOf (state e) (oStockId x)) t)"
    "\<And>a. avl s1 a = avl (state e) a + held (cashW a) c"
    "\<And>a t. avq s1 a t = avq (state e) a t + held (shareW a t) c"
    "\<And>i. i \<noteq> oStockId x \<Longrightarrow> bookOf s1 i = bookOf (state e) i"
proof -
  let ?st = "oStockId x"
  define s0 where "s0 = openBook (state e) ?st"
  have inv0: "ledger_inv s0 no_slack no_slack2" and c0: "Get (bookOf s0 ?st) (oTargetId x) = Some c"
    using inv c by (simp_all add: s0_def)
  note F = resting_facts [OF inv0 c0]
  obtain s1 where s1: "removeAndRelease s0 c = Some (True, s1)" "ledger_inv s1 no_slack no_slack2"
    "conserves s0 s1" "Get (bookOf s1 ?st) = (Get (bookOf s0 ?st))(oTargetId x := None)"
    "\<And>t. is_side t \<Longrightarrow> prio (bookOf s1 ?st) t = filter (\<lambda>y. oId y \<noteq> oTargetId x) (prio (bookOf s0 ?st) t)"
    "\<And>j. j \<noteq> ?st \<Longrightarrow> bookOf s1 j = bookOf s0 j"
    "\<And>a. avl s1 a = avl s0 a + held (cashW a) c" "\<And>a t. avq s1 a t = avq s0 a t + held (shareW a t) c"
    by (rule removeAndRelease_spec [OF inv0 c0]) blast
  have ms: "list_all marshals (cancelEvents s1 x c)"
    using x F(4,5) by (auto simp: cancelEvents_def is_side_def split: option.split)
  show thesis
  proof (rule that [of s1])
    show "cancel ops clk e x = orPanic (appendOutput ops clk (e\<lparr>state := s1\<rparr>) (cancelEvents s1 x c))"
      using c0 s1(1) by (simp add: cancel_def Let_def s0_def)
    show "sound_step e (e\<lparr>state := s1\<rparr>) (cancelEvents s1 x c)"
      using s1(2,3) ms by (simp add: sound_step_def conserves_def s0_def cancelEvents_def)
  qed (use s1(5-8) in \<open>simp_all add: s0_def\<close>)
qed

end
