(* ===== verification/Requests.thy ===== *)
theory Requests
  imports Orders
begin

text \<open>
  Transfers and the administrator's adjustments (\<^verbatim>\<open>internal/core/transfer.go\<close>,
  \<^verbatim>\<open>internal/core/handle_admin.go\<close>). A rejected request leaves the ledger alone and is
  reported with its reason.
\<close>

section \<open>Transfers\<close>

definition TransferRejectInsufficientBalance :: string where
  "TransferRejectInsufficientBalance = ''INSUFFICIENT_BALANCE''"
definition TransferRejectInvalidSender :: string where
  "TransferRejectInvalidSender = ''INVALID_SENDER''"
definition TransferRejectInvalidRecipient :: string where
  "TransferRejectInvalidRecipient = ''INVALID_RECIPIENT''"
definition TransferRejectSelfTransfer :: string where
  "TransferRejectSelfTransfer = ''SELF_TRANSFER''"
definition TransferRejectInvalidRequest :: string where
  "TransferRejectInvalidRequest = ''INVALID_REQUEST''"

definition validateTransfer :: "State \<Rightarrow> Transfer \<Rightarrow> string + (Account \<times> Account)" where
  "validateTransfer s t =
     (if tId t \<le> 0 then Inl TransferRejectInvalidRequest
      else if tAmount t = 0 then Inl TransferRejectInvalidRequest
      else if tSenderAccountId t = tRecipientAccountId t then Inl TransferRejectSelfTransfer
      else if tSenderAccountId t \<le> 0 then Inl TransferRejectInvalidSender
      else case getAccount s (tSenderAccountId t) of
             None \<Rightarrow> Inl TransferRejectInvalidSender
           | Some sender \<Rightarrow>
               if tRecipientAccountId t \<le> 0 then Inl TransferRejectInvalidRecipient
               else case getAccount s (tRecipientAccountId t) of
                      None \<Rightarrow> Inl TransferRejectInvalidRecipient
                    | Some recipient \<Rightarrow>
                        if aAvailableBalance sender < tAmount t
                        then Inl TransferRejectInsufficientBalance
                        else Inr (sender, recipient))"

definition transferRejected :: "Transfer \<Rightarrow> string \<Rightarrow> time \<Rightarrow> outEvent" where
  "transferRejected t reason completedAt =
     ev PatternTransferRejected (EvTransferRejected
       \<lparr>tjId = tId t, tjSenderAccountId = tSenderAccountId t,
        tjRecipientAccountId = tRecipientAccountId t, tjAmount = tAmount t, tjReason = reason,
        tjCompletedAt = completedAt\<rparr>)"

definition transferCompleted :: "Transfer \<Rightarrow> time \<Rightarrow> outEvent" where
  "transferCompleted t completedAt =
     ev PatternTransferCompleted (EvTransferCompleted
       \<lparr>tcId = tId t, tcSenderAccountId = tSenderAccountId t,
        tcRecipientAccountId = tRecipientAccountId t, tcAmount = tAmount t,
        tcCompletedAt = completedAt\<rparr>)"

definition moveCash :: "State \<Rightarrow> Account \<Rightarrow> Account \<Rightarrow> uint64 \<Rightarrow> State \<times> Account \<times> Account" where
  "moveCash s sender recipient amount =
     (let sender' = sender\<lparr>aBalance := aBalance sender - amount,
                           aAvailableBalance := aAvailableBalance sender - amount\<rparr>;
          recipient' = recipient\<lparr>aBalance := aBalance recipient + amount,
                                 aAvailableBalance := aAvailableBalance recipient + amount\<rparr>
      in (setAccount (setAccount s sender') recipient', sender', recipient'))"

definition applyTransfer :: "'l twal \<Rightarrow> clock \<Rightarrow> 'l Engine \<Rightarrow> Transfer \<Rightarrow> ('l, unit) result" where
  "applyTransfer ops clk e t =
     (let (completedAt, e0) = now clk e
      in case validateTransfer (state e0) t of
           Inl reason \<Rightarrow> appendOutput ops clk e0 [transferRejected t reason completedAt]
         | Inr (sender, recipient) \<Rightarrow>
             (let (s, sender', recipient') = moveCash (state e0) sender recipient (tAmount t)
              in appendOutput ops clk (e0\<lparr>state := s\<rparr>)
                   [ev PatternAccountUpdated (EvAccount sender'),
                    ev PatternAccountUpdated (EvAccount recipient'),
                    transferCompleted t completedAt]))"

section \<open>Administrator's adjustments\<close>

definition AdminRejectTargetNotFound :: string where
  "AdminRejectTargetNotFound = ''TARGET_NOT_FOUND''"
definition AdminRejectInvalidState :: string where
  "AdminRejectInvalidState = ''INVALID_STATE''"
definition AdminRejectInsufficientBalance :: string where
  "AdminRejectInsufficientBalance = ''INSUFFICIENT_BALANCE''"
definition AdminRejectInsufficientStock :: string where
  "AdminRejectInsufficientStock = ''INSUFFICIENT_STOCK''"
definition AdminRejectInvalidRequest :: string where
  "AdminRejectInvalidRequest = ''INVALID_REQUEST''"

definition adminRequestCompleted :: "clock \<Rightarrow> 'l Engine \<Rightarrow> int64 \<Rightarrow> outEvent \<times> 'l Engine" where
  "adminRequestCompleted clk e i =
     (let (t, e') = now clk e
      in (ev PatternAdminRequestCompleted (EvAdminCompleted \<lparr>acId = i, acCompletedAt = t\<rparr>), e'))"

definition adminRequestRejected :: "clock \<Rightarrow> 'l Engine \<Rightarrow> int64 \<Rightarrow> string \<Rightarrow> outEvent \<times> 'l Engine" where
  "adminRequestRejected clk e i reason =
     (let (t, e') = now clk e
      in (ev PatternAdminRequestRejected
            (EvAdminRejected \<lparr>ajId = i, ajReason = reason, ajCompletedAt = t\<rparr>), e'))"

text \<open>
  \<^verbatim>\<open>uint64(req.Delta)\<close> and \<^verbatim>\<open>uint64(-req.Delta)\<close>: two's complement, so that also the negation of
  the least \<^verbatim>\<open>int64\<close> has the right magnitude.
\<close>

definition uint64_of :: "int64 \<Rightarrow> uint64" where
  "uint64_of i = word_of_int i"

definition validateBalanceAdjust :: "State \<Rightarrow> BalanceAdjust \<Rightarrow> string option" where
  "validateBalanceAdjust s req =
     (if baDelta req = 0 then Some AdminRejectInvalidRequest
      else case getAccount s (baAccountId req) of
             None \<Rightarrow> Some AdminRejectTargetNotFound
           | Some acc \<Rightarrow>
               if baDelta req < 0
               then (let decrease = uint64_of (- baDelta req)
                     in if aBalance acc < decrease \<or> aAvailableBalance acc < decrease
                        then Some AdminRejectInsufficientBalance else None)
               else None)"

definition adjustedAccount :: "Account \<Rightarrow> int64 \<Rightarrow> Account" where
  "adjustedAccount acc delta =
     (if delta < 0
      then (let decrease = uint64_of (- delta)
            in acc\<lparr>aBalance := aBalance acc - decrease,
                   aAvailableBalance := aAvailableBalance acc - decrease\<rparr>)
      else acc\<lparr>aBalance := aBalance acc + uint64_of delta,
               aAvailableBalance := aAvailableBalance acc + uint64_of delta\<rparr>)"

definition zeroAccount :: Account where
  "zeroAccount = \<lparr>aId = 0, aBalance = 0, aAvailableBalance = 0\<rparr>"

definition applyBalanceAdjust :: "'l twal \<Rightarrow> clock \<Rightarrow> 'l Engine \<Rightarrow> BalanceAdjust \<Rightarrow> ('l, unit) result" where
  "applyBalanceAdjust ops clk e req =
     (case validateBalanceAdjust (state e) req of
        Some reason \<Rightarrow>
          (let (event, e1) = adminRequestRejected clk e (baId req) reason
           in orPanic (appendOutput ops clk e1 [event]))
      | None \<Rightarrow>
          (let acc = (case getAccount (state e) (baAccountId req) of None \<Rightarrow> zeroAccount | Some a \<Rightarrow> a);
               acc' = adjustedAccount acc (baDelta req);
               (event, e1) = adminRequestCompleted clk (e\<lparr>state := setAccount (state e) acc'\<rparr>) (baId req)
           in orPanic (appendOutput ops clk e1 [ev PatternAccountUpdated (EvAccount acc'), event])))"

definition validateStockBalanceAdjust :: "State \<Rightarrow> StockBalanceAdjust \<Rightarrow> string option" where
  "validateStockBalanceAdjust s req =
     (if sbaDelta req = 0 then Some AdminRejectInvalidRequest
      else if getAccount s (sbaAccountId req) = None then Some AdminRejectTargetNotFound
      else if getStock s (sbaStockId req) = None then Some AdminRejectTargetNotFound
      else case getHolding s (sbaAccountId req) (sbaStockId req) of
             None \<Rightarrow>
               if sbaDelta req < 0 then Some AdminRejectInsufficientStock
               else if sbaAverage req = 0 then Some AdminRejectInvalidRequest
               else None
           | Some holding \<Rightarrow>
               if sbaDelta req < 0
               then (let decrease = uint64_of (- sbaDelta req)
                     in if hQuantity holding < decrease \<or> hAvailableQuantity holding < decrease
                        then Some AdminRejectInsufficientStock else None)
               else None)"

definition adjustedHolding :: "State \<Rightarrow> StockBalanceAdjust \<Rightarrow> StockBalance" where
  "adjustedHolding s req =
     (case getHolding s (sbaAccountId req) (sbaStockId req) of
        None \<Rightarrow>
          (let increase = uint64_of (sbaDelta req)
           in \<lparr>hAccountId = sbaAccountId req, hStockId = sbaStockId req, hQuantity = increase,
               hAvailableQuantity = increase, hAverage = sbaAverage req,
               hTotalBuyAmount = increase * sbaAverage req\<rparr>)
      | Some h \<Rightarrow>
          if sbaDelta req < 0
          then (let decrease = uint64_of (- sbaDelta req);
                    h' = h\<lparr>hQuantity := hQuantity h - decrease,
                           hAvailableQuantity := hAvailableQuantity h - decrease,
                           hTotalBuyAmount := hTotalBuyAmount h - decrease * hAverage h\<rparr>
                in if hQuantity h' = 0 then h'\<lparr>hAverage := 0, hTotalBuyAmount := 0\<rparr> else h')
          else (let increase = uint64_of (sbaDelta req)
                in h\<lparr>hQuantity := hQuantity h + increase,
                     hAvailableQuantity := hAvailableQuantity h + increase,
                     hTotalBuyAmount := hTotalBuyAmount h + increase * hAverage h\<rparr>))"

definition applyStockBalanceAdjust ::
  "'l twal \<Rightarrow> clock \<Rightarrow> 'l Engine \<Rightarrow> StockBalanceAdjust \<Rightarrow> ('l, unit) result" where
  "applyStockBalanceAdjust ops clk e req =
     (case validateStockBalanceAdjust (state e) req of
        Some reason \<Rightarrow>
          (let (event, e1) = adminRequestRejected clk e (sbaId req) reason
           in orPanic (appendOutput ops clk e1 [event]))
      | None \<Rightarrow>
          (let h = adjustedHolding (state e) req;
               (event, e1) = adminRequestCompleted clk (e\<lparr>state := setHolding (state e) h\<rparr>) (sbaId req)
           in orPanic (appendOutput ops clk e1 [ev PatternHoldingUpdated (EvHolding h), event])))"

section \<open>Transfers move cash\<close>

lemma validateTransfer_Inr:
  "validateTransfer s t = Inr (sd, rc) \<longleftrightarrow>
     0 < tId t \<and> tAmount t \<noteq> 0 \<and> tSenderAccountId t \<noteq> tRecipientAccountId t \<and>
     0 < tSenderAccountId t \<and> 0 < tRecipientAccountId t \<and>
     getAccount s (tSenderAccountId t) = Some sd \<and> getAccount s (tRecipientAccountId t) = Some rc \<and>
     tAmount t \<le> aAvailableBalance sd"
  by (auto simp: validateTransfer_def not_less split: option.splits if_splits)

lemma moveCash_sound:
  assumes inv: "ledger_inv s no_slack no_slack2" and v: "validateTransfer s t = Inr (sd, rc)"
    and m: "moveCash s sd rc (tAmount t) = (s', sd', rc')"
  shows "ledger_inv s' no_slack no_slack2" "conserves s s'"
    "bal s' a + at (tSenderAccountId t) (unat (tAmount t)) a = bal s a + at (tRecipientAccountId t) (unat (tAmount t)) a"
    "avl s' a + at (tSenderAccountId t) (unat (tAmount t)) a = avl s a + at (tRecipientAccountId t) (unat (tAmount t)) a"
    "qty s' = qty s" "avq s' = avq s" "OrderBooks s' = OrderBooks s"
proof -
  let ?n = "tAmount t" and ?S = "tSenderAccountId t" and ?R = "tRecipientAccountId t"
  have V: "?S \<noteq> ?R" "getAccount s ?S = Some sd" "getAccount s ?R = Some rc" "?n \<le> aAvailableBalance sd"
    using v by (auto simp: validateTransfer_Inr)
  have I: "keys_ok s" "books_ok s" "holders_ok s" "bounded s" "backed s no_slack no_slack2"
    using inv by (auto simp: ledger_inv_def)
  note k = keys_getD(1) [OF I(1) V(2)] keys_getD(1) [OF I(1) V(3)]
  note cs = getAccount_colv [OF V(2)] and cr = getAccount_colv [OF V(3)]
  have le: "unat ?n \<le> unat (aAvailableBalance sd)" using V(4) by (simp add: word_le_nat_alt)
  have leb: "unat (aAvailableBalance sd) \<le> unat (aBalance sd)" "unat (aAvailableBalance rc) \<le> unat (aBalance rc)"
    using avail_le(1) [OF inv, of ?S] avail_le(1) [OF inv, of ?R] cs cr by simp_all
  have two: "bal s ?S + bal s ?R \<le> total_cash s"
    using osum_ge_two [OF accounts.finite_rows V(2,3) [unfolded getAccount_def] V(1), of "\<lambda>r. unat (aBalance r)"] cs cr
    by (simp add: total_cash_def)
  then have "unat (aBalance rc) + unat ?n < 2 ^ 64"
    using I(4) cs(1) cr(1) le leb(1) by (simp add: bounded_def)
  then have w: "unat (aBalance sd - ?n) + unat ?n = unat (aBalance sd)"
    "unat (aAvailableBalance sd - ?n) + unat ?n = unat (aAvailableBalance sd)"
    "unat (aBalance rc + ?n) = unat (aBalance rc) + unat ?n"
    "unat (aAvailableBalance rc + ?n) = unat (aAvailableBalance rc) + unat ?n"
    using le leb by (simp_all add: unat_sub_le word_le_nat_alt unat_add_less)
  have s': "s' = setAccount (setAccount s (sd\<lparr>aBalance := aBalance sd - ?n, aAvailableBalance := aAvailableBalance sd - ?n\<rparr>))
      (rc\<lparr>aBalance := aBalance rc + ?n, aAvailableBalance := aAvailableBalance rc + ?n\<rparr>)"
    using m by (auto simp: moveCash_def Let_def)
  show b: "bal s' a + at ?S (unat ?n) a = bal s a + at ?R (unat ?n) a" for a
    using k V(1) cs cr w by (auto simp: s' at_def)
  show v': "avl s' a + at ?S (unat ?n) a = avl s a + at ?R (unat ?n) a" for a
    using k V(1) cs cr w by (auto simp: s' at_def)
  show q: "qty s' = qty s" "avq s' = avq s" "OrderBooks s' = OrderBooks s" by (simp_all add: s')
  have tot: "total_cash s' = total_cash s"
    unfolding s' using total_cash_setAccount [of s "sd\<lparr>aBalance := aBalance sd - ?n, aAvailableBalance := aAvailableBalance sd - ?n\<rparr>"]
      total_cash_setAccount [of "setAccount s (sd\<lparr>aBalance := aBalance sd - ?n, aAvailableBalance := aAvailableBalance sd - ?n\<rparr>)"
        "rc\<lparr>aBalance := aBalance rc + ?n, aAvailableBalance := aAvailableBalance rc + ?n\<rparr>"]
    using k V(1) cs cr w by simp
  then show c: "conserves s s'" using k V(2,3) by (auto simp: conserves_def s')
  have res: "reserved w s' = reserved w s" "bookOf s' i = bookOf s i" for w i by (simp_all add: s')
  have "bal s' a = avl s' a + reserved (cashW a) s'" for a
    using b [of a] v' [of a] I(5) by (simp add: backed_def res)
  then show "ledger_inv s' no_slack no_slack2"
    using I tot q by (simp add: ledger_inv_def backed_def bounded_def books_ok_def res) (simp add: s')
qed

section \<open>Adjustments change one row by the requested amount\<close>

lemma uint64_of_nat: "0 \<le> d \<Longrightarrow> d < 2 ^ 64 \<Longrightarrow> unat (uint64_of d) = nat d"
  by (simp add: uint64_of_def unsigned_of_int take_bit_int_eq_self)

definition adjusts :: "nat \<Rightarrow> int \<Rightarrow> nat \<Rightarrow> bool" where
  "adjusts old d new \<longleftrightarrow> int new = int old + d"

lemma adjusts_shift: "adjusts (n + k) d m \<Longrightarrow> adjusts n d n' \<Longrightarrow> m = n' + k"
  unfolding adjusts_def by linarith

lemma adjusts_replace: "t' + n = t + m \<Longrightarrow> adjusts n d m \<Longrightarrow> adjusts t d t'"
  unfolding adjusts_def by linarith

lemma adjusts_less: "adjusts t d t' \<Longrightarrow> int t + d < 2 ^ b \<Longrightarrow> t' < 2 ^ b"
  unfolding adjusts_def by (metis of_nat_less_numeral_power_cancel_iff)

lemma adjusted_word:
  assumes "int64_min \<le> d" "d \<le> int64_max"
    and "d < 0 \<Longrightarrow> uint64_of (- d) \<le> w" "0 \<le> d \<Longrightarrow> unat w + nat d < 2 ^ 64"
  shows "adjusts (unat w) d (unat (if d < 0 then w - uint64_of (- d) else w + uint64_of d))"
proof (cases "d < 0")
  case True
  then have u: "unat (uint64_of (- d)) = nat (- d)" using assms(1) by (intro uint64_of_nat) simp_all
  have "unat (w - uint64_of (- d)) = unat w - nat (- d)" "nat (- d) \<le> unat w"
    using unat_sub_le [OF assms(3) [OF True]] assms(3) [OF True] u by (simp_all add: word_le_nat_alt)
  with True show ?thesis by (simp add: adjusts_def)
next
  case False
  then have u: "unat (uint64_of d) = nat d" using assms(2) by (intro uint64_of_nat) simp_all
  with False assms(4) have "unat (w + uint64_of d) = unat w + nat d" by (simp add: unat_add_less)
  with False show ?thesis by (simp add: adjusts_def)
qed

lemma fits_below: "int n + d < 2 ^ 64 \<Longrightarrow> k \<le> n \<Longrightarrow> 0 \<le> d \<Longrightarrow> k + nat d < 2 ^ 64"
proof -
  assume a: "int n + d < 2 ^ 64" "k \<le> n" "0 \<le> d"
  then have "int (k + nat d) < int (2 ^ 64)" by simp
  then show "k + nat d < 2 ^ 64" by (simp only: of_nat_less_iff)
qed

lemma balanceAdjust_sound:
  assumes inv: "ledger_inv s no_slack no_slack2" and v: "validateBalanceAdjust s req = None"
    and d: "int64_min \<le> baDelta req" "baDelta req \<le> int64_max"
    and fits: "int (total_cash s) + baDelta req < 2 ^ 64"
  obtains acc where "getAccount s (baAccountId req) = Some acc"
    "ledger_inv (setAccount s (adjustedAccount acc (baDelta req))) no_slack no_slack2"
    "adjusts (total_cash s) (baDelta req) (total_cash (setAccount s (adjustedAccount acc (baDelta req))))"
    "adjusts (bal s (baAccountId req)) (baDelta req)
       (bal (setAccount s (adjustedAccount acc (baDelta req))) (baAccountId req))"
    "adjusts (avl s (baAccountId req)) (baDelta req)
       (avl (setAccount s (adjustedAccount acc (baDelta req))) (baAccountId req))"
proof -
  let ?A = "baAccountId req" and ?d = "baDelta req"
  have I: "keys_ok s" "books_ok s" "holders_ok s" "bounded s" "backed s no_slack no_slack2"
    using inv by (auto simp: ledger_inv_def)
  obtain acc where acc: "getAccount s ?A = Some acc"
    and dec: "?d < 0 \<Longrightarrow> uint64_of (- ?d) \<le> aBalance acc \<and> uint64_of (- ?d) \<le> aAvailableBalance acc"
    using v by (auto simp: validateBalanceAdjust_def Let_def not_less split: option.splits if_splits)
  note k = keys_getD(1) [OF I(1) acc] and c = getAccount_colv [OF acc]
  define acc' where "acc' = adjustedAccount acc ?d"
  have acc'_fields: "aId acc' = ?A"
    "aBalance acc' = (if ?d < 0 then aBalance acc - uint64_of (- ?d) else aBalance acc + uint64_of ?d)"
    "aAvailableBalance acc' = (if ?d < 0 then aAvailableBalance acc - uint64_of (- ?d)
       else aAvailableBalance acc + uint64_of ?d)"
    using k by (simp_all add: acc'_def adjustedAccount_def Let_def)
  have le: "unat (aAvailableBalance acc) \<le> unat (aBalance acc)" "unat (aBalance acc) \<le> total_cash s"
    using avail_le(1) [OF inv, of ?A] bal_le_total [of s ?A] c by simp_all
  have "unat (aBalance acc) + nat ?d < 2 ^ 64" if "0 \<le> ?d" using fits_below [OF fits] le that by simp
  then have b: "adjusts (bal s ?A) ?d (unat (aBalance acc'))"
    unfolding acc'_fields c using d dec by (intro adjusted_word) auto
  have "unat (aAvailableBalance acc) + nat ?d < 2 ^ 64" if "0 \<le> ?d"
    using fits_below [OF fits _ that, of "unat (aAvailableBalance acc)"] le by simp
  then have a: "adjusts (avl s ?A) ?d (unat (aAvailableBalance acc'))"
    unfolding acc'_fields c using d dec by (intro adjusted_word) auto
  let ?s = "setAccount s acc'"
  have t: "adjusts (total_cash s) ?d (total_cash ?s)"
    by (rule adjusts_replace [OF _ b]) (use total_cash_setAccount [of s acc'] in \<open>simp add: acc'_fields(1)\<close>)
  have bs: "bal s i = avl s i + reserved (cashW i) s" for i using I(5) by (simp add: backed_def)
  have "bal ?s i = avl ?s i + reserved (cashW i) ?s" for i
    using adjusts_shift [OF b [unfolded bs] a] bs [of i] acc'_fields(1) by simp
  then have "ledger_inv ?s no_slack no_slack2"
    using I adjusts_less [OF t fits] by (simp add: ledger_inv_def backed_def bounded_def books_ok_def)
  with acc t a b acc'_fields(1) show thesis
    by (intro that [of acc]) (simp_all add: acc'_def)
qed

lemma stockAdjust_sound:
  assumes inv: "ledger_inv s no_slack no_slack2" and v: "validateStockBalanceAdjust s req = None"
    and d: "int64_min \<le> sbaDelta req" "sbaDelta req \<le> int64_max"
    and fits: "int (total_shares s (sbaStockId req)) + sbaDelta req < 2 ^ 63"
  defines "s' \<equiv> setHolding s (adjustedHolding s req)"
  shows "ledger_inv s' no_slack no_slack2"
    "adjusts (total_shares s (sbaStockId req)) (sbaDelta req) (total_shares s' (sbaStockId req))"
    "adjusts (qty s (sbaAccountId req) (sbaStockId req)) (sbaDelta req) (qty s' (sbaAccountId req) (sbaStockId req))"
    "adjusts (avq s (sbaAccountId req) (sbaStockId req)) (sbaDelta req) (avq s' (sbaAccountId req) (sbaStockId req))"
proof -
  let ?A = "sbaAccountId req" and ?st = "sbaStockId req" and ?d = "sbaDelta req"
  have I: "keys_ok s" "books_ok s" "holders_ok s" "bounded s" "backed s no_slack no_slack2"
    using inv by (auto simp: ledger_inv_def)
  define h where "h = (case getHolding s ?A ?st of None \<Rightarrow> zeroHolding ?A ?st | Some h \<Rightarrow> h)"
  have h: "hAccountId h = ?A" "hStockId h = ?st" "unat (hQuantity h) = qty s ?A ?st"
    "unat (hAvailableQuantity h) = avq s ?A ?st"
    using keys_getD(2) [OF I(1), of ?A ?st] getHolding_colv [of s ?A ?st]
    by (auto simp: h_def zeroHolding_def split: option.split)
  have dec: "?d < 0 \<Longrightarrow> uint64_of (- ?d) \<le> hQuantity h \<and> uint64_of (- ?d) \<le> hAvailableQuantity h"
    and acc: "getAccount s ?A \<noteq> None"
    using v by (auto simp: validateStockBalanceAdjust_def Let_def not_less h_def split: option.splits if_splits)
  define h' where "h' = adjustedHolding s req"
  have s': "s' = setHolding s h'" by (simp add: s'_def h'_def)
  have f: "hAccountId h' = ?A" "hStockId h' = ?st"
    "hQuantity h' = (if ?d < 0 then hQuantity h - uint64_of (- ?d) else hQuantity h + uint64_of ?d)"
    "hAvailableQuantity h' = (if ?d < 0 then hAvailableQuantity h - uint64_of (- ?d)
       else hAvailableQuantity h + uint64_of ?d)"
    using h v unfolding h'_def adjustedHolding_def h_def
    by (auto simp: zeroHolding_def Let_def validateStockBalanceAdjust_def split: option.splits if_splits)
  have le: "avq s ?A ?st \<le> qty s ?A ?st" "qty s ?A ?st \<le> total_shares s ?st"
    using avail_le(2) [OF inv, of ?A ?st] qty_le_total [OF I(1)] by simp_all
  have "int (total_shares s ?st) + ?d < 2 ^ 64" using fits by simp
  then have "qty s ?A ?st + nat ?d < 2 ^ 64" "avq s ?A ?st + nat ?d < 2 ^ 64" if "0 \<le> ?d"
    using fits_below [OF _ _ that] le by (blast, meson le_trans)
  then have q: "adjusts (qty s ?A ?st) ?d (unat (hQuantity h'))" "adjusts (avq s ?A ?st) ?d (unat (hAvailableQuantity h'))"
    unfolding f(3,4) h(3,4) [symmetric] using d dec adjusted_word [of ?d "hQuantity h"] adjusted_word [of ?d "hAvailableQuantity h"]
    by simp_all
  show "adjusts (qty s ?A ?st) ?d (qty s' ?A ?st)" "adjusts (avq s ?A ?st) ?d (avq s' ?A ?st)"
    using q f by (simp_all add: s')
  have t: "total_shares s' t + (if t = ?st then qty s ?A ?st else 0) =
      total_shares s t + (if t = ?st then unat (hQuantity h') else 0)" for t
    using total_shares_setHolding [OF I(1), of h' t] by (simp add: s' f(1,2) split: if_splits)
  show ts: "adjusts (total_shares s ?st) ?d (total_shares s' ?st)"
    by (rule adjusts_replace [OF _ q(1)]) (use t [of ?st] in simp)
  have "total_shares s' t < 2 ^ 63" for t
    using t [of t] adjusts_less [OF ts fits] I(4) by (cases "t = ?st") (auto simp: bounded_def)
  moreover have "qty s a t = avq s a t + reserved (shareW a t) s" for a t using I(5) by (simp add: backed_def)
  note qs = this
  have "qty s' a t = avq s' a t + reserved (shareW a t) s'" for a t
    using adjusts_shift [OF q(1) [unfolded qs] q(2)] qs [of a t] f(1,2) by (simp add: s')
  moreover have "holders_ok s'" using I(3) acc f(1) by (simp add: s')
  ultimately show "ledger_inv s' no_slack no_slack2"
    using I by (simp add: ledger_inv_def backed_def bounded_def books_ok_def) (simp add: s')
qed

end
