(* ===== verification/Handle.thy ===== *)
theory Handle
  imports Requests
begin

text \<open>
  The message handlers (\<^verbatim>\<open>internal/core/handle.go\<close>, \<^verbatim>\<open>internal/core/handle_admin.go\<close>). A message is
  an envelope with a pattern and the document of a request. A request that decodes and was not
  seen lately is written to the input log first, then applied; the answer to the broker comes
  last. Each handler ends in \<^verbatim>\<open>return d.Ack()\<close> or \<^verbatim>\<open>return d.Nack(false)\<close>: \<open>Ret Ack\<close> and
  \<open>Ret (Nack False)\<close> stand for these calls, and \<open>serve\<close> makes them.
\<close>

section \<open>Messages\<close>

record envelope =
  inPattern :: string
  inData :: bytes

text \<open>\<^verbatim>\<open>json.Unmarshal\<close> of bytes; an absent \<^verbatim>\<open>data\<close> field leaves an empty raw message.\<close>

definition unmarshal :: "(json \<Rightarrow> 'a option) \<Rightarrow> bytes \<Rightarrow> 'a option" where
  "unmarshal f b = (case b of NotJson \<Rightarrow> None | Text j \<Rightarrow> f j)"

definition envelope_Unmarshal :: "json \<Rightarrow> envelope option" where
  "envelope_Unmarshal j = do {
     kvs \<leftarrow> objectOf j;
     p \<leftarrow> decStr kvs ''pattern'';
     Some \<lparr>inPattern = p, inData = (case field kvs ''data'' of None \<Rightarrow> NotJson | Some d \<Rightarrow> Text d)\<rparr>
   }"

datatype reply = Ack | Nack bool

text \<open>A delivery carries the broker's functions that answer it; their results are the broker's.\<close>

record Delivery =
  routingKey :: string
  payload :: bytes
  dAck :: "unit outcome"
  dNack :: "bool \<Rightarrow> unit outcome"

section \<open>Applying a request\<close>

definition appendReject :: "'l twal \<Rightarrow> clock \<Rightarrow> 'l Engine \<Rightarrow> Order \<Rightarrow> string \<Rightarrow> ('l, unit) result" where
  "appendReject ops clk e order reason =
     appendOutput ops clk e
       [ev PatternOrderRejected (EvRejected \<lparr>orOrderId = oId order, orReason = reason\<rparr>)]"

definition setStockStatus ::
  "'l twal \<Rightarrow> clock \<Rightarrow> 'l Engine \<Rightarrow> Stock \<Rightarrow> StockStatus \<Rightarrow> string \<Rightarrow> ('l, unit) result" where
  "setStockStatus ops clk e stock status p =
     (let stock' = stock\<lparr>sStatus := status\<rparr>
      in orPanic (appendOutput ops clk (e\<lparr>state := setStock (state e) stock'\<rparr>) [ev p (EvStock stock')]))"

definition activateAccount :: "'l twal \<Rightarrow> clock \<Rightarrow> 'l Engine \<Rightarrow> Account \<Rightarrow> ('l, unit) result" where
  "activateAccount ops clk e acc =
     orPanic (appendOutput ops clk (e\<lparr>state := setAccount (state e) acc\<rparr>)
       [ev PatternAccountActivated (EvAccount acc)])"

section \<open>Handlers\<close>

text \<open>
  What the handlers share: a request of a known id is acknowledged and dropped; a new one is
  appended to the input log and remembered before \<open>next\<close> goes on. A failing log is a panic.
\<close>

definition admit ::
  "'l twal \<Rightarrow> 'l Engine \<Rightarrow> string \<Rightarrow> int64 \<Rightarrow> bytes \<Rightarrow> ('l Engine \<Rightarrow> ('l, reply) result) \<Rightarrow> ('l, reply) result"
where
  "admit ops e kind i msg go =
     (if dedup_has (dedup e) kind i then (e, Ret Ack)
      else case Append ops (inputLog e) msg of
             Ret (l, idx) \<Rightarrow>
               go (e\<lparr>inputLog := l, inputSeq := idx, dedup := dedup_add (dedup e) kind i\<rparr>)
           | Err x \<Rightarrow> (e, Panic x)
           | Panic x \<Rightarrow> (e, Panic x))"

definition acked :: "('l, unit) result \<Rightarrow> ('l, reply) result" where
  "acked r = andThen r (\<lambda>e _. (e, Ret Ack))"

definition handleOrder ::
  "'l twal \<Rightarrow> clock \<Rightarrow> 'l Engine \<Rightarrow> bytes \<Rightarrow> bytes \<Rightarrow> ('l, reply) result" where
  "handleOrder ops clk e msg raw =
     (case unmarshal Order_Unmarshal raw of
        None \<Rightarrow> (e, Ret (Nack False))
      | Some order \<Rightarrow>
          admit ops e PatternOrderCreated (oId order) msg (\<lambda>e1.
            (let (s, invalid) = validateOrder (state e1) order;
                 e2 = e1\<lparr>state := s\<rparr>
             in case invalid of
                  Some reason \<Rightarrow> acked (orPanic (appendReject ops clk e2 order reason))
                | None \<Rightarrow> acked (route ops clk e2 order))))"

definition handleAccountCreated ::
  "'l twal \<Rightarrow> clock \<Rightarrow> 'l Engine \<Rightarrow> bytes \<Rightarrow> bytes \<Rightarrow> ('l, reply) result" where
  "handleAccountCreated ops clk e msg raw =
     (case unmarshal Account_Unmarshal raw of
        None \<Rightarrow> (e, Ret (Nack False))
      | Some acc \<Rightarrow>
          if aId acc \<le> 0 then (e, Ret (Nack False))
          else admit ops e PatternAccountCreated (aId acc) msg
                 (\<lambda>e1. acked (activateAccount ops clk e1 acc)))"

definition handleTransferCreated ::
  "'l twal \<Rightarrow> clock \<Rightarrow> 'l Engine \<Rightarrow> bytes \<Rightarrow> bytes \<Rightarrow> ('l, reply) result" where
  "handleTransferCreated ops clk e msg raw =
     (case unmarshal Transfer_Unmarshal raw of
        None \<Rightarrow> (e, Ret (Nack False))
      | Some transfer \<Rightarrow>
          admit ops e PatternTransferCreated (tId transfer) msg
            (\<lambda>e1. acked (applyTransfer ops clk e1 transfer)))"

definition handleStockListed ::
  "'l twal \<Rightarrow> clock \<Rightarrow> 'l Engine \<Rightarrow> bytes \<Rightarrow> bytes \<Rightarrow> ('l, reply) result" where
  "handleStockListed ops clk e msg raw =
     (case unmarshal Stock_Unmarshal raw of
        None \<Rightarrow> (e, Ret (Nack False))
      | Some stock \<Rightarrow>
          if sId stock \<le> 0 then (e, Ret (Nack False))
          else admit ops e PatternStockList (sId stock) msg
                 (\<lambda>e1. acked (setStockStatus ops clk e1 stock LISTED PatternStockListed)))"

definition handleAdminBalanceAdjust ::
  "'l twal \<Rightarrow> clock \<Rightarrow> 'l Engine \<Rightarrow> bytes \<Rightarrow> bytes \<Rightarrow> ('l, reply) result" where
  "handleAdminBalanceAdjust ops clk e msg raw =
     (case unmarshal BalanceAdjust_Unmarshal raw of
        None \<Rightarrow> (e, Ret (Nack False))
      | Some req \<Rightarrow>
          admit ops e PatternAdminBalanceAdjust (baId req) msg
            (\<lambda>e1. acked (applyBalanceAdjust ops clk e1 req)))"

definition handleAdminStockBalanceAdjust ::
  "'l twal \<Rightarrow> clock \<Rightarrow> 'l Engine \<Rightarrow> bytes \<Rightarrow> bytes \<Rightarrow> ('l, reply) result" where
  "handleAdminStockBalanceAdjust ops clk e msg raw =
     (case unmarshal StockBalanceAdjust_Unmarshal raw of
        None \<Rightarrow> (e, Ret (Nack False))
      | Some req \<Rightarrow>
          admit ops e PatternAdminStockBalanceAdjust (sbaId req) msg
            (\<lambda>e1. acked (applyStockBalanceAdjust ops clk e1 req)))"

definition handle :: "'l twal \<Rightarrow> clock \<Rightarrow> 'l Engine \<Rightarrow> bytes \<Rightarrow> ('l, reply) result" where
  "handle ops clk e msg =
     (case unmarshal envelope_Unmarshal msg of
        None \<Rightarrow> (e, Ret (Nack False))
      | Some env \<Rightarrow>
          if inPattern env = PatternOrderCreated then handleOrder ops clk e msg (inData env)
          else if inPattern env = PatternAccountCreated then handleAccountCreated ops clk e msg (inData env)
          else if inPattern env = PatternTransferCreated then handleTransferCreated ops clk e msg (inData env)
          else if inPattern env = PatternStockList then handleStockListed ops clk e msg (inData env)
          else if inPattern env = PatternAdminBalanceAdjust
          then handleAdminBalanceAdjust ops clk e msg (inData env)
          else if inPattern env = PatternAdminStockBalanceAdjust
          then handleAdminStockBalanceAdjust ops clk e msg (inData env)
          else (e, Ret (Nack False)))"

text \<open>A handler with the broker's answer, as the loop of \<^verbatim>\<open>Run\<close> sees it.\<close>

definition serve :: "'l twal \<Rightarrow> clock \<Rightarrow> 'l Engine \<Rightarrow> Delivery \<Rightarrow> ('l, unit) result" where
  "serve ops clk e d =
     andThen (handle ops clk e (payload d)) (\<lambda>e1 r.
       (e1, case r of Ack \<Rightarrow> dAck d | Nack requeue \<Rightarrow> dNack d requeue))"

section \<open>One view of the six requests\<close>

text \<open>
  A specification of the handlers: every message is a request of a kind with an id, or none;
  an admissible new request is logged and applied.
\<close>

datatype request =
    RqOrder Order
  | RqAccount Account
  | RqTransfer Transfer
  | RqStock Stock
  | RqBalance BalanceAdjust
  | RqShares StockBalanceAdjust

fun requestKind :: "request \<Rightarrow> string" where
  "requestKind (RqOrder _) = PatternOrderCreated"
| "requestKind (RqAccount _) = PatternAccountCreated"
| "requestKind (RqTransfer _) = PatternTransferCreated"
| "requestKind (RqStock _) = PatternStockList"
| "requestKind (RqBalance _) = PatternAdminBalanceAdjust"
| "requestKind (RqShares _) = PatternAdminStockBalanceAdjust"

fun requestId :: "request \<Rightarrow> int64" where
  "requestId (RqOrder x) = oId x"
| "requestId (RqAccount a) = aId a"
| "requestId (RqTransfer t) = tId t"
| "requestId (RqStock s) = sId s"
| "requestId (RqBalance r) = baId r"
| "requestId (RqShares r) = sbaId r"

fun admissible :: "request \<Rightarrow> bool" where
  "admissible (RqAccount a) \<longleftrightarrow> 0 < aId a"
| "admissible (RqStock s) \<longleftrightarrow> 0 < sId s"
| "admissible _ \<longleftrightarrow> True"

definition decodeRequest :: "envelope \<Rightarrow> request option" where
  "decodeRequest env =
     (if inPattern env = PatternOrderCreated then map_option RqOrder (unmarshal Order_Unmarshal (inData env))
      else if inPattern env = PatternAccountCreated
      then map_option RqAccount (unmarshal Account_Unmarshal (inData env))
         else if inPattern env = PatternTransferCreated
         then map_option RqTransfer (unmarshal Transfer_Unmarshal (inData env))
         else if inPattern env = PatternStockList then map_option RqStock (unmarshal Stock_Unmarshal (inData env))
         else if inPattern env = PatternAdminBalanceAdjust
         then map_option RqBalance (unmarshal BalanceAdjust_Unmarshal (inData env))
         else if inPattern env = PatternAdminStockBalanceAdjust
         then map_option RqShares (unmarshal StockBalanceAdjust_Unmarshal (inData env))
         else None)"

definition requestOf :: "bytes \<Rightarrow> request option" where
  "requestOf msg = Option.bind (unmarshal envelope_Unmarshal msg) decodeRequest"

fun applyRequest :: "'l twal \<Rightarrow> clock \<Rightarrow> 'l Engine \<Rightarrow> request \<Rightarrow> ('l, unit) result" where
  "applyRequest ops clk e (RqOrder order) =
     (case validateOrder (state e) order of
        (s, Some reason) \<Rightarrow> orPanic (appendReject ops clk (e\<lparr>state := s\<rparr>) order reason)
      | (s, None) \<Rightarrow> route ops clk (e\<lparr>state := s\<rparr>) order)"
| "applyRequest ops clk e (RqAccount acc) = activateAccount ops clk e acc"
| "applyRequest ops clk e (RqTransfer t) = applyTransfer ops clk e t"
| "applyRequest ops clk e (RqStock stock) = setStockStatus ops clk e stock LISTED PatternStockListed"
| "applyRequest ops clk e (RqBalance req) = applyBalanceAdjust ops clk e req"
| "applyRequest ops clk e (RqShares req) = applyStockBalanceAdjust ops clk e req"

lemma pattern_distinct [simp]:
  "PatternAccountCreated \<noteq> PatternOrderCreated" "PatternTransferCreated \<noteq> PatternOrderCreated"
  "PatternTransferCreated \<noteq> PatternAccountCreated" "PatternStockList \<noteq> PatternOrderCreated"
  "PatternStockList \<noteq> PatternAccountCreated" "PatternStockList \<noteq> PatternTransferCreated"
  "PatternAdminBalanceAdjust \<noteq> PatternOrderCreated" "PatternAdminBalanceAdjust \<noteq> PatternAccountCreated"
  "PatternAdminBalanceAdjust \<noteq> PatternTransferCreated" "PatternAdminBalanceAdjust \<noteq> PatternStockList"
  "PatternAdminStockBalanceAdjust \<noteq> PatternOrderCreated" "PatternAdminStockBalanceAdjust \<noteq> PatternAccountCreated"
  "PatternAdminStockBalanceAdjust \<noteq> PatternTransferCreated" "PatternAdminStockBalanceAdjust \<noteq> PatternStockList"
  "PatternAdminStockBalanceAdjust \<noteq> PatternAdminBalanceAdjust"
  by (simp_all add: pattern_defs)

lemma decodeRequest_kind: "decodeRequest env = Some rq \<Longrightarrow> inPattern env = requestKind rq"
  by (auto simp: decodeRequest_def split: if_splits)

definition handleRequest ::
  "'l twal \<Rightarrow> clock \<Rightarrow> 'l Engine \<Rightarrow> bytes \<Rightarrow> request option \<Rightarrow> ('l, reply) result" where
  "handleRequest ops clk e msg rq =
     (case rq of
        Some rq \<Rightarrow>
          if admissible rq
          then admit ops e (requestKind rq) (requestId rq) msg (\<lambda>e1. acked (applyRequest ops clk e1 rq))
          else (e, Ret (Nack False))
      | None \<Rightarrow> (e, Ret (Nack False)))"

lemma handler_requests:
  "handleOrder ops clk e msg raw = handleRequest ops clk e msg (map_option RqOrder (unmarshal Order_Unmarshal raw))"
  "handleAccountCreated ops clk e msg raw =
     handleRequest ops clk e msg (map_option RqAccount (unmarshal Account_Unmarshal raw))"
  "handleTransferCreated ops clk e msg raw =
     handleRequest ops clk e msg (map_option RqTransfer (unmarshal Transfer_Unmarshal raw))"
  "handleStockListed ops clk e msg raw =
     handleRequest ops clk e msg (map_option RqStock (unmarshal Stock_Unmarshal raw))"
  "handleAdminBalanceAdjust ops clk e msg raw =
     handleRequest ops clk e msg (map_option RqBalance (unmarshal BalanceAdjust_Unmarshal raw))"
  "handleAdminStockBalanceAdjust ops clk e msg raw =
     handleRequest ops clk e msg (map_option RqShares (unmarshal StockBalanceAdjust_Unmarshal raw))"
proof -
  have acked: "(case x of (s, None) \<Rightarrow> acked (f s) | (s, Some r) \<Rightarrow> acked (g s r)) =
      acked (case x of (s, None) \<Rightarrow> f s | (s, Some r) \<Rightarrow> g s r)" for x f g
    by (auto split: prod.split option.split)
  show "handleOrder ops clk e msg raw =
      handleRequest ops clk e msg (map_option RqOrder (unmarshal Order_Unmarshal raw))"
    by (simp add: handleOrder_def handleRequest_def Let_def acked split: option.split)
qed (simp_all add: handleAccountCreated_def handleTransferCreated_def handleStockListed_def
    handleAdminBalanceAdjust_def handleAdminStockBalanceAdjust_def handleRequest_def split: option.split)

lemma handle_request: "handle ops clk e msg = handleRequest ops clk e msg (requestOf msg)"
  by (cases "unmarshal envelope_Unmarshal msg")
    (simp_all add: handle_def requestOf_def decodeRequest_def handler_requests, simp_all add: handleRequest_def)

end
