(* ===== verification/Determinism.thy ===== *)
theory Determinism
  imports Handle
begin

text \<open>
  The ledger an engine ends with depends on the ledger it started with and on the request,
  not on the clock, on the trade ids, or on the output log. This is what recovery rests on:
  a second engine that replays the requests of a first one ends with the same ledger. When
  the requests are below the recovery watermark of the second engine, its run cannot fail.
\<close>

section \<open>Runs that agree\<close>

text \<open>
  \<open>agrees R mark p q\<close>: of two runs, when the first one succeeds, the second one ends with the
  same ledger and a related value; it fails only when it is not suppressed. \<open>mark\<close> is what a
  run keeps of the second engine: the input log, the position in it, the watermark and the
  duplicate filter, and when it is suppressed also the output.
\<close>

type_synonym 'l mark = "uint64 \<times> uint64 \<times> 'l \<times> dedup \<times> ('l \<times> bool) option"

definition recoveryMark :: "'l Engine \<Rightarrow> 'l mark" where
  "recoveryMark e = (inputSeq e, outputAppliedSeq e, inputLog e, dedup e,
     if suppressed e then Some (outputLog e, outputSignal e) else None)"

definition quiet :: "'l mark \<Rightarrow> bool" where
  "quiet k \<longleftrightarrow> 0 < fst (snd k) \<and> fst k \<le> fst (snd k)"

lemma suppressed_quiet: "suppressed e = quiet (recoveryMark e)"
  by (simp add: suppressed_def quiet_def recoveryMark_def)

lemma frame_mark: "frame e e' \<Longrightarrow> recoveryMark e' = recoveryMark e"
  by (simp add: frame_def recoveryMark_def suppressed_def)

definition agrees ::
  "('a \<Rightarrow> 'b \<Rightarrow> bool) \<Rightarrow> 'k mark \<Rightarrow> ('l, 'a) result \<Rightarrow> ('k, 'b) result \<Rightarrow> bool" where
  "agrees R k p q \<longleftrightarrow> recoveryMark (fst q) = k \<and>
     (case snd p of
        Ret a \<Rightarrow> (case snd q of Ret b \<Rightarrow> state (fst q) = state (fst p) \<and> R a b | _ \<Rightarrow> \<not> quiet k)
      | _ \<Rightarrow> True)"

lemma agrees_Ret [simp]:
  "agrees R k (e, Ret a) (f, Ret b) \<longleftrightarrow> recoveryMark f = k \<and> state f = state e \<and> R a b"
  by (simp add: agrees_def)

lemma agrees_fail [simp]:
  "agrees R k (e, Err x) q \<longleftrightarrow> recoveryMark (fst q) = k" "agrees R k (e, Panic x) q \<longleftrightarrow> recoveryMark (fst q) = k"
  by (simp_all add: agrees_def)

lemma recoveryMark_upd [simp]:
  "recoveryMark (f\<lparr>state := s\<rparr>) = recoveryMark f" "recoveryMark (f\<lparr>ticks := n\<rparr>) = recoveryMark f"
  by (simp_all add: recoveryMark_def suppressed_def)

lemma agrees_failR:
  "\<not> quiet k \<Longrightarrow> recoveryMark f = k \<Longrightarrow> agrees R k p (f, Err x)"
  "\<not> quiet k \<Longrightarrow> recoveryMark f = k \<Longrightarrow> agrees R k p (f, Panic x)"
  by (simp_all add: agrees_def split: outcome.split)

lemma agreesE:
  assumes "agrees R k p (f, r)"
  obtains e a b where "p = (e, Ret a)" "r = Ret b" "state f = state e" "R a b" "recoveryMark f = k"
  | e x where "p = (e, Err x) \<or> p = (e, Panic x)" "recoveryMark f = k"
  | x where "r = Err x \<or> r = Panic x" "\<not> quiet k" "recoveryMark f = k"
  using assms by (cases p; cases "snd p"; cases r) (auto simp: agrees_def)

lemma agrees_andThen:
  assumes "agrees R k p q" "\<And>b f. recoveryMark (fst (h f b)) = recoveryMark f"
    and "\<And>e a f b. R a b \<Longrightarrow> state f = state e \<Longrightarrow> recoveryMark f = k \<Longrightarrow> agrees S k (g e a) (h f b)"
  shows "agrees S k (andThen p g) (andThen q h)"
proof -
  obtain f r where q: "q = (f, r)" by fastforce
  from assms(1) [unfolded q] show ?thesis
  proof (cases rule: agreesE)
    case 2
    then show ?thesis using assms(2) q by (cases r) auto
  qed (use assms(3) q in \<open>auto intro: agrees_failR\<close>)
qed

lemma agrees_orPanic: "agrees R k p q \<Longrightarrow> agrees R k (orPanic p) (orPanic q)"
  by (auto simp: agrees_def orPanic_def split: outcome.splits)

lemma agrees_orPanicL: "agrees R k p q \<Longrightarrow> agrees R k (orPanic p) q"
  by (auto simp: agrees_def orPanic_def split: outcome.splits)

lemma appendOutput_mark [simp]: "recoveryMark (fst (appendOutput ops clk e evs)) = recoveryMark e"
proof (cases "suppressed e")
  case False
  obtain e' r where ap: "appendOutput ops clk e evs = (e', r)" by fastforce
  show ?thesis
    using appendOutput_frame(2-5) [OF ap] ap False by (auto simp: recoveryMark_def suppressed_def)
qed (simp add: appendOutput_suppressed)

lemma orPanic_fst [simp]: "fst (orPanic r) = fst r"
  by (simp add: orPanic_def split: outcome.splits)

lemma agrees_appendOutput:
  assumes "state f = state e" "recoveryMark f = k"
  shows "agrees (\<lambda>_ _. True) k (appendOutput ops clk e evs) (appendOutput ops' clk' f evs')"
proof -
  obtain e' r f' r' where ap: "appendOutput ops clk e evs = (e', r)" "appendOutput ops' clk' f evs' = (f', r')"
    by fastforce
  have "r' = Ret ()" if "quiet k"
    using that ap(2) assms(2) appendOutput_suppressed [of f ops' clk' evs'] by (simp add: suppressed_quiet)
  moreover have "recoveryMark f' = k" using appendOutput_mark [of ops' clk' f evs'] ap(2) assms(2) by simp
  ultimately show ?thesis
    using assms(1) ap appendOutput_frame(1,7) [OF ap(1)] appendOutput_frame(1,7) [OF ap(2)]
    by (auto simp: agrees_def)
qed

section \<open>Matching\<close>

definition sameVars :: "matchVars \<Rightarrow> matchVars \<Rightarrow> bool" where
  "sameVars m n \<longleftrightarrow> m\<lparr>mEvents := []\<rparr> = n\<lparr>mEvents := []\<rparr>"

definition sameIter :: "matchVars iteration \<Rightarrow> matchVars iteration \<Rightarrow> bool" where
  "sameIter i j \<longleftrightarrow> rel_iteration sameVars i j"

lemma sameVarsD:
  assumes "sameVars m n"
  shows "mOrder n = mOrder m" "mAffected n = mAffected m" "mFilledCash n = mFilledCash m"
    "mLastTradePrice n = mLastTradePrice m" "mAccountIDs n = mAccountIDs m"
  using assms unfolding sameVars_def by (cases m, cases n, simp)+

lemma frame_fields [simp]:
  "frame e (e'\<lparr>ticks := n\<rparr>) = frame e e'" "frame e (e'\<lparr>lastTradeID := i\<rparr>) = frame e e'"
  by (simp_all add: frame_def)

lemma tradeIDFor_frame [simp]: "frame e (fst (tradeIDFor e))" "state (fst (tradeIDFor e)) = state e"
  by (simp_all add: tradeIDFor_def nextTradeID_def)

lemma tradeIDFor_quiet: "quiet (recoveryMark f) \<Longrightarrow> tradeIDFor f = (f, Ret 0)"
  by (auto simp: tradeIDFor_def quiet_def recoveryMark_def)

lemma agrees_tradeIDFor:
  assumes "state f = state e" "recoveryMark f = k"
  shows "agrees (\<lambda>_ _. True) k (tradeIDFor e) (tradeIDFor f)"
  using assms tradeIDFor_frame(2) [of e] tradeIDFor_frame [of f] tradeIDFor_quiet [of f]
  by (auto simp: agrees_def frame_mark split: outcome.split)

lemma makerEvent_mark [simp]: "recoveryMark (snd (makerEvent clk e c q)) = recoveryMark e"
  by (simp add: makerEvent_def now_def Let_def)

lemma makerEvent_frame [simp]:
  "frame e (snd (makerEvent clk e c q))" "state (snd (makerEvent clk e c q)) = state e"
  by (simp_all add: makerEvent_def now_def Let_def)

text \<open>The trade and the report of it, once a trade id was drawn.\<close>

definition reportTrade ::
  "clock \<Rightarrow> matchVars \<Rightarrow> Order \<Rightarrow> uint64 \<Rightarrow> uint64 \<Rightarrow> 'l Engine \<Rightarrow> int64 \<Rightarrow> ('l, matchVars iteration) result" where
  "reportTrade clk m counter best filled e1 tradeID =
     (let order = (mOrder m)\<lparr>oFilledQuantity := oFilledQuantity (mOrder m) + filled\<rparr>;
          (executedAt, e2) = now clk e1;
          trade = ev PatternTradeExecuted (EvTrade
            \<lparr>trId = tradeID, trStockId = oStockId order, trPrice = best, trQuantity = filled,
             trMakerOrderId = oId counter, trTakerOrderId = oId order,
             trTradingType = oTradingType order, trExecutedAt = executedAt\<rparr>);
          (maker, e3) = makerEvent clk e2 counter filled
      in (e3, Ret (Continue
           \<lparr>mOrder = order,
            mAffected = track (counterSide (oTradingType order), best) (mAffected m),
            mFilledCash = mFilledCash m + best * filled, mLastTradePrice = best,
            mEvents = mEvents m @ [trade, maker],
            mAccountIDs = track (oAccountId counter) (mAccountIDs m)\<rparr>)))"

definition settleTrade :: "State \<Rightarrow> Order \<Rightarrow> Order \<Rightarrow> uint64 \<Rightarrow> uint64 \<Rightarrow> State outcome" where
  "settleTrade s order counter best filled =
     (if oTradingType order = TRADING_SELL
      then settle s (oStockId order) (oAccountId counter) (oAccountId order) filled (best * filled)
      else settle s (oStockId order) (oAccountId order) (oAccountId counter) filled (best * filled))"

lemma executeTrade_eq:
  "executeTrade clk e m c best q =
     (case settleTrade (state e) (mOrder m) c best q of
        Err x \<Rightarrow> (e, Err x)
      | Panic x \<Rightarrow> (e, Panic x)
      | Ret s \<Rightarrow> andThen (tradeIDFor (e\<lparr>state := s\<rparr>)) (reportTrade clk m c best q))"
  by (simp add: executeTrade_def settleTrade_def reportTrade_def [abs_def] Let_def split: outcome.split)

lemma reportTrade_frame [simp]:
  "frame e (fst (reportTrade clk m c best q e i))" "state (fst (reportTrade clk m c best q e i)) = state e"
  using makerEvent_frame [where clk = clk and e = "snd (now clk e)" and c = c and q = q]
  by (simp_all add: reportTrade_def now_def Let_def case_prod_beta frame_def)

lemma reportTrade_mark [simp]: "recoveryMark (fst (reportTrade clk m c best q e i)) = recoveryMark e"
  by (rule frame_mark) simp

lemma agrees_reportTrade:
  assumes "state f = state e" "recoveryMark f = k" "sameVars m n"
  shows "agrees sameIter k (reportTrade clk m c best q e i) (reportTrade clk' n c best q f j)"
  using assms(1,2) sameVarsD [OF assms(3)]
  by (simp add: reportTrade_def now_def Let_def case_prod_beta sameIter_def sameVars_def)

lemma andThen_frame:
  "frame e (fst r) \<Longrightarrow> (\<And>e' a. frame e' (fst (g e' a))) \<Longrightarrow> frame e (fst (andThen r g))"
  by (cases r; cases "snd r") (auto intro: frame_trans)

lemma agrees_executeTrade:
  assumes "state f = state e" "recoveryMark f = k" "sameVars m n"
  shows "agrees sameIter k (executeTrade clk e m c best q) (executeTrade clk' f n c best q)"
  unfolding executeTrade_eq assms(1) sameVarsD(1) [OF assms(3)]
proof (cases "settleTrade (state e) (mOrder m) c best q")
  case (Ret s)
  have "agrees (\<lambda>_ _. True) k (tradeIDFor (e\<lparr>state := s\<rparr>)) (tradeIDFor (f\<lparr>state := s\<rparr>))"
    using assms(2) by (intro agrees_tradeIDFor) simp_all
  then have "agrees sameIter k (andThen (tradeIDFor (e\<lparr>state := s\<rparr>)) (reportTrade clk m c best q))
      (andThen (tradeIDFor (f\<lparr>state := s\<rparr>)) (reportTrade clk' n c best q))"
    by (rule agrees_andThen) (simp_all add: agrees_reportTrade assms(3))
  with Ret show "agrees sameIter k
      (case settleTrade (state e) (mOrder m) c best q of
         Ret s \<Rightarrow> andThen (tradeIDFor (e\<lparr>state := s\<rparr>)) (reportTrade clk m c best q)
       | Err x \<Rightarrow> (e, Err x) | Panic x \<Rightarrow> (e, Panic x))
      (case settleTrade (state e) (mOrder m) c best q of
         Ret s \<Rightarrow> andThen (tradeIDFor (f\<lparr>state := s\<rparr>)) (reportTrade clk' n c best q)
       | Err x \<Rightarrow> (f, Err x) | Panic x \<Rightarrow> (f, Panic x))" by simp
qed (use assms(2) in simp_all)

lemma executeTrade_frame [simp]: "frame e (fst (executeTrade clk e m c best q))"
proof (cases "settleTrade (state e) (mOrder m) c best q")
  case (Ret s)
  have "frame e (fst (tradeIDFor (e\<lparr>state := s\<rparr>)))"
    using tradeIDFor_frame(1) [of "e\<lparr>state := s\<rparr>"] by (simp del: tradeIDFor_frame(1))
  then show ?thesis using Ret by (simp add: executeTrade_eq andThen_frame)
qed (simp_all add: executeTrade_eq)

lemma matchIter_frame [simp]: "frame e (fst (matchIter clk e m))"
proof -
  have "frame e (fst (executeTrade clk (e\<lparr>state := s\<rparr>) m c best q))" for s c best q
    using executeTrade_frame [of "e\<lparr>state := s\<rparr>"] by (simp del: executeTrade_frame)
  then show ?thesis by (simp add: matchIter_def Let_def split: option.split prod.split)
qed

lemma agrees_matchIter:
  assumes "state f = state e" "recoveryMark f = k" "sameVars m n"
  shows "agrees sameIter k (matchIter clk e m) (matchIter clk' f n)"
  using assms sameVarsD [OF assms(3)]
  by (auto simp: matchIter_def Let_def sameIter_def intro!: agrees_executeTrade
      split: option.split prod.split)

lemma matchLoop_frame [simp]: "frame e (fst (matchLoop clk e m))"
proof (induction clk e m rule: matchLoop.induct)
  case (1 clk e m)
  obtain e' r where r: "matchIter clk e m = (e', r)" by fastforce
  have "frame e e'" using matchIter_frame [of e clk m] r by simp
  with 1 r show ?case
    by (subst matchLoop.simps) (auto intro: frame_trans split: outcome.split iteration.split)
qed

lemma matchLoop_mark [simp]: "recoveryMark (fst (matchLoop clk e m)) = recoveryMark e"
  by (rule frame_mark) simp

lemma agrees_matchLoop:
  "state f = state e \<Longrightarrow> recoveryMark f = k \<Longrightarrow> sameVars m n \<Longrightarrow>
   agrees sameVars k (matchLoop clk e m) (matchLoop clk' f n)"
proof (induction clk e m arbitrary: f n rule: matchLoop.induct)
  case (1 clk e m)
  obtain e' r where e': "matchIter clk e m = (e', r)" by fastforce
  obtain f' r' where f': "matchIter clk' f n = (f', r')" by fastforce
  have m: "mOrder n = mOrder m" using sameVarsD [OF "1.prems"(3)] by simp
  show ?case
  proof (cases "oFilledQuantity (mOrder m) < oQuantity (mOrder m)")
    case True
    from agrees_matchIter [OF "1.prems", of clk clk', unfolded e' f'] show ?thesis
    proof (cases rule: agreesE)
      case (1 e0 i j)
      then show ?thesis
        using True m e' f' "1.prems" "1.IH" [OF True e' [symmetric]]
        by (cases i; cases j) (simp_all add: sameIter_def matchLoop.simps [of _ e] matchLoop.simps [of _ f])
    next
      case (2 e0 x)
      have "recoveryMark (fst (matchLoop clk' f n)) = k" using "1.prems"(2) by simp
      then show ?thesis using 2 True e' by (auto simp: matchLoop.simps [of _ e])
    next
      case (3 x)
      then show ?thesis using True m f' by (auto simp: matchLoop.simps [of _ f] intro: agrees_failR)
    qed
  next
    case False
    with "1.prems" m show ?thesis by (simp add: matchLoop.simps [of _ e] matchLoop.simps [of _ f])
  qed
qed

lemma takerEvent_mark [simp]:
  "recoveryMark (snd (takerEvent clk e x)) = recoveryMark e" "frame e (snd (takerEvent clk e x))" "state (snd (takerEvent clk e x)) = state e"
  by (simp_all add: takerEvent_def now_def Let_def)

lemma restOrder_same:
  assumes "sameVars m n"
  shows "fst (restOrder s n) = fst (restOrder s m)" "sameVars (snd (restOrder s m)) (snd (restOrder s n))"
  using assms sameVarsD [OF assms] by (simp_all add: restOrder_def Let_def sameVars_def)

lemma finishState_same:
  assumes "sameVars m n"
  shows "fst (finishState s n q) = fst (finishState s m q)"
    "sameVars (fst (snd (finishState s m q))) (fst (snd (finishState s n q)))"
    "snd (snd (finishState s n q)) = snd (snd (finishState s m q))"
  using restOrder_same [OF assms, of s] sameVarsD [OF restOrder_same(2) [OF assms], of s]
  by (simp_all add: finishState_def Let_def case_prod_beta)

definition closeMatch :: "clock \<Rightarrow> Order \<Rightarrow> 'l Engine \<Rightarrow> matchVars \<Rightarrow> ('l, outEvent list) result" where
  "closeMatch clk x e m =
     (let (s, m1, updated) = finishState (state e) m (oFilledQuantity x);
          (taker, e') = takerEvent clk (e\<lparr>state := s\<rparr>) (mOrder m1)
      in (e', Ret (mEvents m1 @ [taker] @ levelEvents s (oStockId x) (mAffected m1) @
            concat (map (accountEvents s (oStockId x)) (mAccountIDs m1)) @
            (case updated of None \<Rightarrow> [] | Some st \<Rightarrow> [ev PatternStockUpdated (EvStock st)]))))"

lemma matchEvents_eq:
  "matchEvents clk e x =
     andThen (matchLoop clk (e\<lparr>state := lockAssets (openBook (state e) (oStockId x)) x (remaining x)\<rparr>)
       (startVars x)) (closeMatch clk x)"
  by (simp add: matchEvents_def closeMatch_def [abs_def] startVars_def Let_def)

lemma closeMatch_frame [simp]: "frame e (fst (closeMatch clk x e m))"
proof -
  have "frame e (snd (takerEvent clk (e\<lparr>state := s\<rparr>) y))" for s y
    using takerEvent_mark(2) [of "e\<lparr>state := s\<rparr>"] by (simp del: takerEvent_mark(2))
  then show ?thesis by (simp add: closeMatch_def Let_def case_prod_beta)
qed

lemma closeMatch_mark [simp]: "recoveryMark (fst (closeMatch clk x e m)) = recoveryMark e"
  by (rule frame_mark) simp

lemma agrees_closeMatch:
  assumes "sameVars m n" "state f = state e" "recoveryMark f = k"
  shows "agrees (\<lambda>_ _. True) k (closeMatch clk x e m) (closeMatch clk' x f n)"
  using assms finishState_same(1) [OF assms(1), of "state e" "oFilledQuantity x"]
  by (simp add: closeMatch_def Let_def case_prod_beta)

lemma agrees_matchEvents:
  assumes "state f = state e" "recoveryMark f = k"
  shows "agrees (\<lambda>_ _. True) k (matchEvents clk e x) (matchEvents clk' f x)"
  unfolding matchEvents_eq assms(1)
  by (rule agrees_andThen [OF agrees_matchLoop [where k = k]])
    (use assms(2) in \<open>simp_all add: sameVars_def agrees_closeMatch\<close>)

lemma matchEvents_frame [simp]: "frame e (fst (matchEvents clk e x))"
proof -
  have "frame e (fst (matchLoop clk (e\<lparr>state := s\<rparr>) m))" for s m
    using matchLoop_frame [of "e\<lparr>state := s\<rparr>"] by (simp del: matchLoop_frame)
  then show ?thesis by (simp add: matchEvents_eq andThen_frame)
qed

lemma matchEvents_mark [simp]: "recoveryMark (fst (matchEvents clk e x)) = recoveryMark e"
  by (rule frame_mark) simp

section \<open>Requests\<close>

lemma agrees_report:
  "state f = state e \<Longrightarrow> recoveryMark f = k \<Longrightarrow>
   agrees (\<lambda>_ _. True) k (orPanic (appendOutput ops clk e evs)) (orPanic (appendOutput ops' clk' f evs'))"
  by (intro agrees_orPanic agrees_appendOutput)

lemma agrees_match:
  assumes "state f = state e" "recoveryMark f = k"
  shows "agrees (\<lambda>_ _. True) k (match ops clk e x) (match ops' clk' f x)"
  unfolding match_def by (rule agrees_andThen [OF agrees_matchEvents [OF assms]]) (simp_all add: agrees_report)

lemma agrees_edit:
  assumes "state f = state e" "recoveryMark f = k"
  shows "agrees (\<lambda>_ _. True) k (edit ops clk e x) (edit ops' clk' f x)"
proof -
  let ?s = "openBook (state e) (oStockId x)"
  show ?thesis
  proof (cases "removeAndRelease ?s (targetOf ?s x)")
    case (Some r)
    obtain ok s1 where r: "r = (ok, s1)" by fastforce
    have "agrees (\<lambda>_ _. True) k (matchEvents clk (e\<lparr>state := s1\<rparr>) y) (matchEvents clk' (f\<lparr>state := s1\<rparr>) y)" for y
      using assms(2) by (intro agrees_matchEvents) simp_all
    note m = agrees_andThen [OF this]
    show ?thesis
      using Some r assms
      by (cases ok) (simp_all add: edit_def Let_def, rule m, simp_all add: agrees_report)
  qed (use assms in \<open>simp add: edit_def Let_def\<close>)
qed

lemma agrees_cancel:
  assumes "state f = state e" "recoveryMark f = k"
  shows "agrees (\<lambda>_ _. True) k (cancel ops clk e x) (cancel ops' clk' f x)"
  using assms by (simp add: cancel_def Let_def agrees_report split: option.split prod.split bool.split)

lemma agrees_route:
  assumes "state f = state e" "recoveryMark f = k"
  shows "agrees (\<lambda>_ _. True) k (route ops clk e x) (route ops' clk' f x)"
  using assms by (simp add: route_def agrees_match agrees_edit agrees_cancel split: TradingType.split)

lemma agrees_applyTransfer:
  assumes "state f = state e" "recoveryMark f = k"
  shows "agrees (\<lambda>_ _. True) k (applyTransfer ops clk e t) (applyTransfer ops' clk' f t)"
  using assms by (auto simp: applyTransfer_def now_def Let_def agrees_appendOutput split: sum.split prod.split)

lemma agrees_adjustments:
  assumes "state f = state e" "recoveryMark f = k"
  shows "agrees (\<lambda>_ _. True) k (applyBalanceAdjust ops clk e b) (applyBalanceAdjust ops' clk' f b)"
    "agrees (\<lambda>_ _. True) k (applyStockBalanceAdjust ops clk e r) (applyStockBalanceAdjust ops' clk' f r)"
  using assms
  by (auto simp: applyBalanceAdjust_def applyStockBalanceAdjust_def adminRequestCompleted_def
      adminRequestRejected_def now_def Let_def agrees_report split: option.split)

theorem agrees_applyRequest:
  assumes "state f = state e" "recoveryMark f = k"
  shows "agrees (\<lambda>_ _. True) k (applyRequest ops clk e rq) (applyRequest ops' clk' f rq)"
proof (cases rq)
  case (RqOrder x)
  then show ?thesis using assms
    by (auto simp: appendReject_def intro: agrees_report agrees_route split: prod.split option.split)
qed (use assms in \<open>simp_all add: activateAccount_def setStockStatus_def Let_def agrees_report
    agrees_applyTransfer agrees_adjustments\<close>)

section \<open>One report per request\<close>

text \<open>
  A request that succeeds hands its events to the output log exactly once, as one batch. One
  that fails before has written nothing.
\<close>

definition reportsOnce :: "'l twal \<Rightarrow> clock \<Rightarrow> 'l Engine \<Rightarrow> ('l, unit) result \<Rightarrow> bool" where
  "reportsOnce ops clk e p \<longleftrightarrow>
     (\<exists>e1 evs. frame e e1 \<and> evs \<noteq> [] \<and>
        (p = appendOutput ops clk e1 evs \<or> p = orPanic (appendOutput ops clk e1 evs))) \<or>
     frame e (fst p) \<and> (\<forall>u. snd p \<noteq> Ret u)"

lemma reportsOnceI:
  "frame e e1 \<Longrightarrow> evs \<noteq> [] \<Longrightarrow> reportsOnce ops clk e (appendOutput ops clk e1 evs)"
  "frame e e1 \<Longrightarrow> evs \<noteq> [] \<Longrightarrow> reportsOnce ops clk e (orPanic (appendOutput ops clk e1 evs))"
  "frame e e' \<Longrightarrow> reportsOnce ops clk e (e', Err x)" "frame e e' \<Longrightarrow> reportsOnce ops clk e (e', Panic x)"
  by (auto simp: reportsOnce_def)

lemma reportsOnce_matchEvents:
  assumes "frame e e0" "\<And>e1 evs. evs \<noteq> [] \<Longrightarrow> f e1 evs \<noteq> []"
  shows "reportsOnce ops clk e (andThen (matchEvents clk e0 x) (\<lambda>e1 evs. orPanic (appendOutput ops clk e1 (f e1 evs))))"
proof -
  obtain e1 r where m: "matchEvents clk e0 x = (e1, r)" by fastforce
  have fr: "frame e e1" using frame_trans [OF assms(1), of e1] matchEvents_frame [of e0 clk x] m by simp
  have "evs \<noteq> []" if "r = Ret evs" for evs
  proof -
    obtain e2 r2 where l: "matchLoop clk (e0\<lparr>state := lockAssets (openBook (state e0) (oStockId x)) x (remaining x)\<rparr>)
        (startVars x) = (e2, r2)" by fastforce
    show ?thesis
      using m that l unfolding matchEvents_eq
      by (cases r2) (auto simp: closeMatch_def Let_def split: prod.splits)
  qed
  with m fr assms(2) show ?thesis by (cases r) (simp_all add: reportsOnceI)
qed

lemma reportsOnce_edit: "reportsOnce ops clk e (edit ops clk e x)"
  using reportsOnce_matchEvents [where e = e and f = "\<lambda>e1 events. ev p d # g e1 events" for p d g]
  by (simp add: edit_def Let_def reportsOnceI split: option.split prod.split bool.split)

lemma reportsOnce_cancel: "reportsOnce ops clk e (cancel ops clk e x)"
  by (simp add: cancel_def cancelEvents_def Let_def reportsOnceI split: option.split prod.split bool.split)

lemma reportsOnce_route: "reportsOnce ops clk e (route ops clk e x)"
  by (simp add: route_def match_def reportsOnce_matchEvents reportsOnce_edit reportsOnce_cancel reportsOnceI
      split: TradingType.split)

lemma reportsOnce_frame: "reportsOnce ops clk (e\<lparr>state := s\<rparr>) p = reportsOnce ops clk e p"
  by (simp add: reportsOnce_def)

theorem reportsOnce_applyRequest: "reportsOnce ops clk e (applyRequest ops clk e rq)"
proof (cases rq)
  case (RqOrder x)
  then show ?thesis
    using reportsOnce_route [of ops clk "e\<lparr>state := s\<rparr>" x for s]
    by (auto simp: appendReject_def reportsOnce_frame reportsOnceI split: prod.split option.split)
qed (auto simp: activateAccount_def setStockStatus_def applyTransfer_def applyBalanceAdjust_def
    applyStockBalanceAdjust_def adminRequestCompleted_def adminRequestRejected_def now_def Let_def
    reportsOnceI split: sum.split option.split prod.split)

end
