(* ===== verification/Retrace.thy ===== *)
theory Retrace
  imports Determinism
begin

text \<open>
  Requests that are carried out a second time. A crash may come after an input was logged and
  before its answer was: the next engine carries the request out again, with its own clock, on an
  output log that takes records, from the ledger the first engine had, and with a last trade id
  that is not above the first engine's. When the first run returned, the second one returns.
\<close>

section \<open>Runs that return together\<close>

text \<open>
  \<open>retraces T p q\<close>: when the first run returns, the second one does, and their results are
  related. \<open>shadows l e f\<close> relates two engines on the way: the second one has not touched its
  output log yet.
\<close>

definition retraces ::
  "('l Engine \<Rightarrow> 'a \<Rightarrow> 'k Engine \<Rightarrow> 'b \<Rightarrow> bool) \<Rightarrow> ('l, 'a) result \<Rightarrow> ('k, 'b) result \<Rightarrow> bool" where
  "retraces T p q \<longleftrightarrow> (\<forall>e a. p = (e, Ret a) \<longrightarrow> (\<exists>f b. q = (f, Ret b) \<and> T e a f b))"

definition shadows :: "'k \<Rightarrow> 'l Engine \<Rightarrow> 'k Engine \<Rightarrow> bool" where
  "shadows l e f \<longleftrightarrow> state f = state e \<and> lastTradeID f \<le> lastTradeID e \<and> lastTradeID e \<le> int64_max \<and>
     \<not> suppressed e \<and> outputLog f = l"

definition shadowsVars :: "'k \<Rightarrow> 'l Engine \<Rightarrow> matchVars \<Rightarrow> 'k Engine \<Rightarrow> matchVars \<Rightarrow> bool" where
  "shadowsVars l e m f n \<longleftrightarrow> shadows l e f \<and> sameVars m n \<and>
     (list_all marshals (mEvents m) \<longrightarrow> list_all marshals (mEvents n))"

definition shadowsIter :: "'k \<Rightarrow> 'l Engine \<Rightarrow> matchVars iteration \<Rightarrow> 'k Engine \<Rightarrow> matchVars iteration \<Rightarrow> bool" where
  "shadowsIter l e i f j \<longleftrightarrow> shadows l e f \<and> rel_iteration (\<lambda>m n. shadowsVars l e m f n) i j"

definition shadowsEvents :: "'k \<Rightarrow> 'l Engine \<Rightarrow> outEvent list \<Rightarrow> 'k Engine \<Rightarrow> outEvent list \<Rightarrow> bool" where
  "shadowsEvents l e evs f evs' \<longleftrightarrow> shadows l e f \<and> (list_all marshals evs \<longrightarrow> list_all marshals evs')"

abbreviation returns :: "('l, 'a) result \<Rightarrow> ('k, 'b) result \<Rightarrow> bool" where
  "returns \<equiv> retraces (\<lambda>_ _ _ _. True)"

lemma retraces_Ret [simp]: "retraces T (e, Ret a) (f, Ret b) \<longleftrightarrow> T e a f b"
  by (simp add: retraces_def)

lemma retraces_fail [simp]: "retraces T (e, Err x) q" "retraces T (e, Panic x) q"
  by (simp_all add: retraces_def)

lemma retraces_andThen:
  assumes "retraces T p q" "\<And>e a f b. T e a f b \<Longrightarrow> retraces S (g e a) (h f b)"
  shows "retraces S (andThen p g) (andThen q h)"
  using assms by (cases p; cases "snd p") (auto simp: retraces_def)

lemma retraces_orPanic: "retraces T p q \<Longrightarrow> retraces T (orPanic p) q"
  "retraces T p q \<Longrightarrow> retraces T (orPanic p) (orPanic q)"
  by (cases p; cases "snd p"; auto simp: retraces_def)+

lemma shadowsD: "shadows l e f \<Longrightarrow> state f = state e" "shadows l e f \<Longrightarrow> shadows l (e\<lparr>state := s\<rparr>) (f\<lparr>state := s\<rparr>)"
  by (simp_all add: shadows_def suppressed_def)

section \<open>Matching\<close>

lemma retraces_tradeIDFor:
  assumes "shadows l e f"
  shows "retraces (\<lambda>e _ f _. shadows l e f) (tradeIDFor e) (tradeIDFor f)"
  using assms by (auto simp: tradeIDFor_def nextTradeID_def shadows_def suppressed_def not_less word_gt_0)

lemma shadows_now: "shadows l e f \<Longrightarrow> shadows l (e\<lparr>ticks := i\<rparr>) (f\<lparr>ticks := j\<rparr>)"
  by (simp add: shadows_def suppressed_def)

lemma makerEvent_shadows:
  assumes "shadows l e f"
  shows "shadows l (snd (makerEvent clk e c q)) (snd (makerEvent clk' f c q))"
    "marshals (fst (makerEvent clk e c q)) = marshals (fst (makerEvent clk' f c q))"
  using shadows_now [OF assms] assms by (simp_all add: makerEvent_def now_def Let_def)

lemma takerEvent_shadows:
  assumes "shadows l e f"
  shows "shadows l (snd (takerEvent clk e x)) (snd (takerEvent clk' f x))"
    "marshals (fst (takerEvent clk e x)) = marshals (fst (takerEvent clk' f x))"
  using shadows_now [OF assms] assms by (simp_all add: takerEvent_def now_def Let_def)

lemma retraces_reportTrade:
  assumes "shadows l e f" "shadowsVars l e0 m f0 n"
  shows "retraces (shadowsIter l) (reportTrade clk m c best q e i) (reportTrade clk' n c best q f j)"
proof -
  let ?e = "e\<lparr>ticks := Suc (ticks e)\<rparr>" and ?f = "f\<lparr>ticks := Suc (ticks f)\<rparr>"
  have v: "sameVars m n" "list_all marshals (mEvents m) \<longrightarrow> list_all marshals (mEvents n)"
    using assms(2) by (simp_all add: shadowsVars_def)
  note M = makerEvent_shadows [OF shadows_now [OF assms(1)], where clk = clk and clk' = clk' and c = c and q = q]
  show ?thesis
    using v sameVarsD [OF v(1)] M
    by (auto simp: reportTrade_def now_def Let_def case_prod_beta shadowsIter_def shadowsVars_def sameVars_def)
qed

lemma retraces_executeTrade:
  assumes "shadowsVars l e m f n"
  shows "retraces (shadowsIter l) (executeTrade clk e m c best q) (executeTrade clk' f n c best q)"
proof -
  have t: "shadows l e f" "mOrder n = mOrder m" using assms sameVarsD by (auto simp: shadowsVars_def)
  show ?thesis
  proof (cases "settleTrade (state e) (mOrder m) c best q")
    case (Ret s)
    have "retraces (\<lambda>e _ f _. shadows l e f) (tradeIDFor (e\<lparr>state := s\<rparr>)) (tradeIDFor (f\<lparr>state := s\<rparr>))"
      by (rule retraces_tradeIDFor [OF shadowsD(2) [OF t(1)]])
    then have "retraces (shadowsIter l) (andThen (tradeIDFor (e\<lparr>state := s\<rparr>)) (reportTrade clk m c best q))
        (andThen (tradeIDFor (f\<lparr>state := s\<rparr>)) (reportTrade clk' n c best q))"
      by (rule retraces_andThen) (rule retraces_reportTrade [OF _ assms])
    then show ?thesis using Ret t shadowsD(1) [OF t(1)] by (simp add: executeTrade_eq)
  qed (simp_all add: executeTrade_eq)
qed

lemma retraces_matchIter:
  assumes "shadowsVars l e m f n"
  shows "retraces (shadowsIter l) (matchIter clk e m) (matchIter clk' f n)"
proof -
  have t: "shadows l e f" "mOrder n = mOrder m" "state f = state e" using assms sameVarsD shadowsD by (auto simp: shadowsVars_def)
  have u: "shadowsVars l (e\<lparr>state := s\<rparr>) m (f\<lparr>state := s\<rparr>) n" for s
    using assms shadowsD(2) [OF t(1)] by (simp add: shadowsVars_def)
  show ?thesis
    using t shadowsD(2) [OF t(1)]
    by (auto simp: matchIter_def Let_def shadowsIter_def [of _ _ Break] intro!: retraces_executeTrade u split: option.split prod.split)
qed

lemma retraces_matchLoop:
  "shadowsVars l e m f n \<Longrightarrow> retraces (shadowsVars l) (matchLoop clk e m) (matchLoop clk' f n)"
proof (induction clk e m arbitrary: f n rule: matchLoop.induct)
  case (1 clk e m)
  have m: "mOrder n = mOrder m" using sameVarsD "1.prems" by (auto simp: shadowsVars_def)
  show ?case
  proof (cases "oFilledQuantity (mOrder m) < oQuantity (mOrder m)")
    case True
    obtain e' r where e': "matchIter clk e m = (e', r)" by fastforce
    have R: "retraces (shadowsIter l) (e', r) (matchIter clk' f n)" using retraces_matchIter [OF "1.prems"] e' by metis
    show ?thesis
    proof (cases r)
      case (Ret i)
      then obtain f' j where f': "matchIter clk' f n = (f', Ret j)" "shadowsIter l e' i f' j"
        using R by (auto simp: retraces_def)
      then show ?thesis
        using True m e' Ret "1.prems" "1.IH" [OF True e' [symmetric]]
        by (cases i; cases j) (simp_all add: shadowsIter_def shadowsVars_def matchLoop.simps [of _ e] matchLoop.simps [of _ f])
    qed (use True e' in \<open>simp_all add: matchLoop.simps [of _ e]\<close>)
  next
    case False
    with "1.prems" m show ?thesis by (simp add: matchLoop.simps [of _ e] matchLoop.simps [of _ f])
  qed
qed

lemma retraces_closeMatch:
  assumes "shadowsVars l e m f n"
  shows "retraces (shadowsEvents l) (closeMatch clk x e m) (closeMatch clk' x f n)"
proof -
  have t: "shadows l e f" "state f = state e" "sameVars m n" "list_all marshals (mEvents m) \<longrightarrow> list_all marshals (mEvents n)"
    using assms shadowsD by (auto simp: shadowsVars_def)
  obtain s m1 u where p: "finishState (state e) m (oFilledQuantity x) = (s, m1, u)" by (metis prod_cases3)
  obtain n1 where q: "finishState (state e) n (oFilledQuantity x) = (s, n1, u)" "sameVars m1 n1"
    using finishState_same [OF t(3), of "state e" "oFilledQuantity x"] p by (metis fst_conv snd_conv prod.collapse)
  have E: "mEvents m1 = mEvents m" "mEvents n1 = mEvents n"
    using p q by (auto simp: finishState_def restOrder_def Let_def split: prod.splits if_splits)
  note K = takerEvent_shadows [OF shadowsD(2) [OF t(1), of s], where clk = clk and clk' = clk' and x = "mOrder m1"]
  show ?thesis
    using K t(4) E p q(1) sameVarsD [OF q(2)] unfolding closeMatch_def t(2)
    by (auto simp: shadowsEvents_def case_prod_beta split: option.split)
qed

lemma retraces_matchEvents:
  assumes "shadows l e f"
  shows "retraces (shadowsEvents l) (matchEvents clk e x) (matchEvents clk' f x)"
  unfolding matchEvents_eq shadowsD(1) [OF assms]
  by (rule retraces_andThen [OF retraces_matchLoop [where l = l]])
    (use shadowsD(2) [OF assms] retraces_closeMatch in \<open>simp_all add: shadowsVars_def sameVars_def\<close>)

section \<open>Requests\<close>

text \<open>The record is written when the events of the first run could be marshalled.\<close>

definition takesRecord :: "('k \<Rightarrow> nat) \<Rightarrow> ('k \<Rightarrow> bytes list) \<Rightarrow> 'k \<Rightarrow> bool" where
  "takesRecord base recs l \<longleftrightarrow> base l + length (recs l) + 1 < 2 ^ 64"

lemma returns_appendOutput:
  assumes "twal_laws ops' base recs" "twal_reliable ops' base recs" "takesRecord base recs l" "shadowsEvents l e evs f evs'"
  shows "returns (appendOutput ops clk e evs) (appendOutput ops' clk' f evs')"
  unfolding retraces_def
proof (intro allI impI)
  fix e1 a assume r: "appendOutput ops clk e evs = (e1, Ret a)"
  have t: "\<not> suppressed e" "outputLog f = l" using assms(4) by (simp_all add: shadowsEvents_def shadows_def)
  have "list_all marshals evs"
    using r t(1) marshalEvents_None [of evs] by (auto simp: appendOutput_def suppressed_def split: if_splits option.splits)
  then have "list_all marshals evs'" using assms(4) by (simp add: shadowsEvents_def)
  then show "\<exists>f1 b. appendOutput ops' clk' f evs' = (f1, Ret b) \<and> True"
    using appendOutput_reliable [OF assms(1,2), of evs' f clk'] assms(3) t(2) by (simp add: takesRecord_def)
qed

lemma mergeOrderBookLevel_marshals [simp]:
  "list_all marshals (mergeOrderBookLevel evs l st) \<longleftrightarrow> list_all marshals evs"
  by (induction evs l st rule: mergeOrderBookLevel.induct) (auto simp: marshals_def split: evdata.splits)

text \<open>The second engine replays the request; a refused order is reported by the same notice.\<close>

definition replayRequest :: "'l twal \<Rightarrow> clock \<Rightarrow> 'l Engine \<Rightarrow> request \<Rightarrow> ('l, unit) result" where
  "replayRequest ops clk e rq =
     (case rq of
        RqOrder order \<Rightarrow>
          (case validateOrder (state e) order of
             (s, Some reason) \<Rightarrow> appendReject ops clk (e\<lparr>state := s\<rparr>) order reason
           | (s, None) \<Rightarrow> route ops clk (e\<lparr>state := s\<rparr>) order)
      | _ \<Rightarrow> applyRequest ops clk e rq)"

lemma returns_replayRequest:
  assumes log: "twal_laws ops' base recs" "twal_reliable ops' base recs" "takesRecord base recs l" and t: "shadows l e f"
  shows "returns (applyRequest ops clk e rq) (replayRequest ops' clk' f rq)"
proof -
  note A = returns_appendOutput [OF log]
  have S: "shadows l (e\<lparr>state := s\<rparr>) (f\<lparr>state := s\<rparr>)" for s by (rule shadowsD(2) [OF t])
  have T: "shadows l (e\<lparr>state := s, ticks := i\<rparr>) (f\<lparr>state := s, ticks := j\<rparr>)" "shadows l (e\<lparr>ticks := i\<rparr>) (f\<lparr>ticks := j\<rparr>)"
    "shadows l (e\<lparr>ticks := i, state := s\<rparr>) (f\<lparr>ticks := j, state := s\<rparr>)" for s i j
    using shadows_now [OF S] shadows_now [OF t] shadowsD(2) [OF shadows_now [OF t]] by simp_all
  have M: "returns (andThen (matchEvents clk (e\<lparr>state := s\<rparr>) y) (\<lambda>e1 evs. orPanic (appendOutput ops clk e1 (g (state e1) evs))))
      (andThen (matchEvents clk' (f\<lparr>state := s\<rparr>) y) (\<lambda>e1 evs. orPanic (appendOutput ops' clk' e1 (g (state e1) evs))))"
    if "\<And>s evs evs'. (list_all marshals evs \<longrightarrow> list_all marshals evs') \<Longrightarrow> list_all marshals (g s evs) \<longrightarrow> list_all marshals (g s evs')" for s y g
  proof (rule retraces_andThen [OF retraces_matchEvents [OF S]], intro retraces_orPanic(2) A)
    fix e1 f1 evs evs' assume "shadowsEvents l (e1 :: 'b Engine) evs f1 evs'"
    then show "shadowsEvents l e1 (g (state e1) evs) f1 (g (state f1) evs')"
      using that [of evs evs' "state e1"] shadowsD(1) [of l e1 f1] by (simp add: shadowsEvents_def)
  qed
  show ?thesis
  proof (cases rq)
    case (RqOrder x)
    obtain s r where v: "validateOrder (state e) x = (s, r)" by fastforce
    have "returns (match ops clk (e\<lparr>state := s\<rparr>) x) (match ops' clk' (f\<lparr>state := s\<rparr>) x)"
      unfolding match_def by (rule M [where g = "\<lambda>_ evs. evs"]) simp
    moreover have "returns (edit ops clk (e\<lparr>state := s\<rparr>) x) (edit ops' clk' (f\<lparr>state := s\<rparr>) x)"
      using M [where g = "\<lambda>s1 evs. ev PatternOrderReplaced (EvOrder (orderEvent c)) #
          mergeOrderBookLevel evs (levelOf s1 (oStockId x) c) (oStockId c)" for c]
      by (auto simp: edit_def Let_def split: option.split bool.split)
    moreover have "returns (cancel ops clk (e\<lparr>state := s\<rparr>) x) (cancel ops' clk' (f\<lparr>state := s\<rparr>) x)"
      using S by (auto simp: cancel_def Let_def shadowsEvents_def intro!: retraces_orPanic(2) A split: option.split bool.split)
    ultimately have "returns (route ops clk (e\<lparr>state := s\<rparr>) x) (route ops' clk' (f\<lparr>state := s\<rparr>) x)"
      by (simp add: route_def split: TradingType.split)
    moreover have "returns (orPanic (appendReject ops clk (e\<lparr>state := s\<rparr>) x reason)) (appendReject ops' clk' (f\<lparr>state := s\<rparr>) x reason)" for reason
      unfolding appendReject_def by (intro retraces_orPanic(1) A) (simp add: shadowsEvents_def S)
    ultimately show ?thesis using RqOrder v shadowsD(1) [OF t] by (cases r) (simp_all add: replayRequest_def)
  qed (use shadowsD(1) [OF t] in \<open>auto simp: replayRequest_def activateAccount_def setStockStatus_def applyTransfer_def applyBalanceAdjust_def
      applyStockBalanceAdjust_def adminRequestCompleted_def adminRequestRejected_def transferCompleted_def transferRejected_def
      moveCash_def now_def Let_def shadowsEvents_def S T t intro!: retraces_orPanic(2) A split: sum.split option.split\<close>)
qed

section \<open>The last trade id\<close>

text \<open>
  Whatever the outcome, a run leaves the last trade id in range, and when it is suppressed it
  does not draw an id at all: the ids of the first run are not drawn again.
\<close>

definition idKept :: "'l Engine \<Rightarrow> 'l Engine \<Rightarrow> bool" where
  "idKept e e' \<longleftrightarrow> suppressed e' = suppressed e \<and> (suppressed e \<longrightarrow> lastTradeID e' = lastTradeID e) \<and>
     (lastTradeID e \<le> int64_max \<longrightarrow> lastTradeID e' \<le> int64_max)"

lemma idKept_refl [simp]: "idKept e e"
  by (simp add: idKept_def)

lemma idKept_trans: "idKept e e1 \<Longrightarrow> idKept e1 e2 \<Longrightarrow> idKept e e2"
  by (simp add: idKept_def)

lemma idKept_upd [simp]:
  "idKept (e\<lparr>state := s\<rparr>) e' = idKept e e'" "idKept e (e'\<lparr>state := s\<rparr>) = idKept e e'" "idKept e (e'\<lparr>ticks := n\<rparr>) = idKept e e'"
  by (simp_all add: idKept_def suppressed_def)

lemma suppressed_frame: "frame e e' \<Longrightarrow> suppressed e' = suppressed e"
  by (simp add: frame_def suppressed_def)

lemma idKept_andThen:
  "idKept e (fst r) \<Longrightarrow> (\<And>e1 a. idKept e1 (fst (g e1 a))) \<Longrightarrow> idKept e (fst (andThen r g))"
  by (cases r; cases "snd r") (auto intro: idKept_trans)

lemma idKept_tradeIDFor [simp]: "idKept e (fst (tradeIDFor e))"
  by (auto simp: idKept_def tradeIDFor_def nextTradeID_def suppressed_def word_gt_0 not_less)

lemma idKept_executeTrade [simp]: "idKept e (fst (executeTrade clk e m c best q))"
proof (cases "settleTrade (state e) (mOrder m) c best q")
  case (Ret s)
  have "idKept e1 (fst (reportTrade clk m c best q e1 i))" for e1 :: "'a Engine" and i
    by (simp add: reportTrade_def makerEvent_def now_def Let_def)
  moreover have "idKept e (fst (tradeIDFor (e\<lparr>state := s\<rparr>)))"
    using idKept_tradeIDFor [of "e\<lparr>state := s\<rparr>"] by (simp del: idKept_tradeIDFor)
  ultimately show ?thesis using Ret by (simp add: executeTrade_eq idKept_andThen)
qed (simp_all add: executeTrade_eq)

lemma idKept_matchIter [simp]: "idKept e (fst (matchIter clk e m))"
proof -
  have "idKept e (fst (executeTrade clk (e\<lparr>state := s\<rparr>) m c best q))" for s c best q
    using idKept_executeTrade [of "e\<lparr>state := s\<rparr>"] by (simp del: idKept_executeTrade)
  then show ?thesis by (simp add: matchIter_def Let_def split: option.split prod.split)
qed

lemma idKept_matchLoop [simp]: "idKept e (fst (matchLoop clk e m))"
proof (induction clk e m rule: matchLoop.induct)
  case (1 clk e m)
  obtain e' r where r: "matchIter clk e m = (e', r)" by fastforce
  have "idKept e e'" using idKept_matchIter [of e clk m] r by simp
  with 1 r show ?case by (subst matchLoop.simps) (auto intro: idKept_trans split: outcome.split iteration.split)
qed

lemma idKept_matchEvents [simp]: "idKept e (fst (matchEvents clk e x))"
proof -
  have "idKept e1 (fst (closeMatch clk x e1 m))" for e1 :: "'a Engine" and m
    by (simp add: closeMatch_def takerEvent_def now_def Let_def case_prod_beta)
  moreover have "idKept e (fst (matchLoop clk (e\<lparr>state := s\<rparr>) m))" for s m
    using idKept_matchLoop [of "e\<lparr>state := s\<rparr>"] by (simp del: idKept_matchLoop)
  ultimately show ?thesis unfolding matchEvents_eq by (intro idKept_andThen)
qed

lemma idKept_appendOutput [simp]: "idKept e (fst (appendOutput ops clk e evs))"
proof -
  note A = appendOutput_frame [OF surjective_pairing, of ops clk e evs]
  show ?thesis by (simp add: idKept_def suppressed_def A(3,5,6))
qed

lemma idKept_route: "idKept e (fst (route ops clk e x))"
proof -
  have M: "idKept e (fst (matchEvents clk (e\<lparr>state := s\<rparr>) y))" for s y
    using idKept_matchEvents [of "e\<lparr>state := s\<rparr>"] by (simp del: idKept_matchEvents)
  have A: "idKept e (fst (appendOutput ops clk (e\<lparr>state := s\<rparr>) evs))" for s evs
    using idKept_appendOutput [of "e\<lparr>state := s\<rparr>"] by (simp del: idKept_appendOutput)
  show ?thesis
    by (auto simp: route_def match_def edit_def cancel_def Let_def M A intro!: idKept_andThen
        split: TradingType.split option.split prod.split bool.split)
qed

lemma idKept_requests: "idKept e (fst (applyRequest ops clk e rq))" "idKept e (fst (replayRequest ops clk e rq))"
proof -
  have A: "idKept e (fst (appendOutput ops clk (e\<lparr>state := s\<rparr>) evs))" "idKept e (fst (appendOutput ops clk (e\<lparr>state := s, ticks := n\<rparr>) evs))"
    "idKept e (fst (appendOutput ops clk (e\<lparr>ticks := n, state := s\<rparr>) evs))" "idKept e (fst (appendOutput ops clk (e\<lparr>ticks := n\<rparr>) evs))"
    "idKept e (fst (route ops clk (e\<lparr>state := s\<rparr>) x))" for s evs n x
    by (metis idKept_appendOutput idKept_route idKept_upd idKept_trans idKept_refl)+
  show R: "idKept e (fst (applyRequest ops clk e rq))"
    by (cases rq) (auto simp: appendReject_def activateAccount_def setStockStatus_def
        applyTransfer_def applyBalanceAdjust_def applyStockBalanceAdjust_def adminRequestCompleted_def adminRequestRejected_def
        transferCompleted_def transferRejected_def moveCash_def now_def Let_def A split: sum.split option.split prod.split)
  show "idKept e (fst (replayRequest ops clk e rq))"
    using R A by (cases rq) (auto simp: replayRequest_def appendReject_def split: prod.split option.split)
qed

end
