(* ===== verification/Snapshot.thy ===== *)
theory Snapshot
  imports MatchProps "HOL-Library.Multiset"
begin

text \<open>
  The snapshot of the ledger (\<^verbatim>\<open>State.Serialize\<close> and \<^verbatim>\<open>State.Restore\<close> with the \<^verbatim>\<open>toProto\<close> and
  \<^verbatim>\<open>fromProto\<close> methods of \<^verbatim>\<open>internal/ledger\<close>): rows in the order of their keys, books as lists of
  orders which \<^verbatim>\<open>Add\<close> puts back one by one. The protobuf library, which turns the message into
  bytes and back, is a parameter: \<open>enc\<close> and \<open>dec\<close>, with \<open>proto_laws\<close> saying that decoding
  undoes encoding.
\<close>

section \<open>Messages\<close>

record AccountPb =
  paId :: int32
  paBalance :: uint64
  paAvailableBalance :: uint64

record StockBalancePb =
  phAccountId :: int32
  phStockId :: int32
  phQuantity :: uint64
  phAvailableQuantity :: uint64
  phAverage :: uint64
  phTotalBuyAmount :: uint64

record StockPb =
  psId :: int32
  psPrice :: uint64
  psStatus :: "32 word"

record OrderPb =
  poId :: int64
  poTargetId :: int64
  poAccountId :: int32
  poStockId :: int32
  poPrice :: uint64
  poQuantity :: uint64
  poFilledQuantity :: uint64
  poOrderType :: "32 word"
  poTradingType :: "32 word"

record OrderBookPb =
  pbStockId :: int32
  pbOrders :: "OrderPb list"

record LedgerSnapshot =
  snapVersion :: "32 word"
  snapAccounts :: "AccountPb list"
  snapStockBalances :: "StockBalancePb list"
  snapStocks :: "StockPb list"
  snapOrderBooks :: "OrderBookPb list"

section \<open>Tables\<close>

text \<open>The rows of a table by ascending key, which every \<^verbatim>\<open>toProto\<close> starts with.\<close>

definition rows :: "('k::linorder, 'v) fmap \<Rightarrow> 'v list" where
  "rows m = List.map_filter (fmlookup m) (sorted_list_of_fset (fmdom m))"

definition AccountPb_of :: "Account \<Rightarrow> AccountPb" where
  "AccountPb_of acc = \<lparr>paId = aId acc, paBalance = aBalance acc, paAvailableBalance = aAvailableBalance acc\<rparr>"

definition Account_ofPb :: "AccountPb \<Rightarrow> Account" where
  "Account_ofPb pb = \<lparr>aId = paId pb, aBalance = paBalance pb, aAvailableBalance = paAvailableBalance pb\<rparr>"

definition Accounts_toProto :: "AccountTable \<Rightarrow> AccountPb list" where
  "Accounts_toProto m = map AccountPb_of (rows m)"

definition Accounts_fromProto :: "AccountPb list \<Rightarrow> AccountTable" where
  "Accounts_fromProto items = foldl (\<lambda>m pb. fmupd (paId pb) (Account_ofPb pb) m) fmempty items"

definition StockBalancePb_of :: "StockBalance \<Rightarrow> StockBalancePb" where
  "StockBalancePb_of sb =
     \<lparr>phAccountId = hAccountId sb, phStockId = hStockId sb, phQuantity = hQuantity sb,
      phAvailableQuantity = hAvailableQuantity sb, phAverage = hAverage sb,
      phTotalBuyAmount = hTotalBuyAmount sb\<rparr>"

definition StockBalance_ofPb :: "StockBalancePb \<Rightarrow> StockBalance" where
  "StockBalance_ofPb pb =
     \<lparr>hAccountId = phAccountId pb, hStockId = phStockId pb, hQuantity = phQuantity pb,
      hAvailableQuantity = phAvailableQuantity pb, hAverage = phAverage pb,
      hTotalBuyAmount = phTotalBuyAmount pb\<rparr>"

definition StockBalances_toProto :: "HoldingTable \<Rightarrow> StockBalancePb list" where
  "StockBalances_toProto m = map StockBalancePb_of (rows m)"

definition StockBalances_fromProto :: "StockBalancePb list \<Rightarrow> HoldingTable" where
  "StockBalances_fromProto items =
     foldl (\<lambda>m pb. fmupd (StockKey (phAccountId pb) (phStockId pb)) (StockBalance_ofPb pb) m) fmempty items"

definition StockPb_of :: "Stock \<Rightarrow> StockPb" where
  "StockPb_of st = \<lparr>psId = sId st, psPrice = sPrice st, psStatus = ucast (StockStatus_uint8 (sStatus st))\<rparr>"

definition Stock_ofPb :: "StockPb \<Rightarrow> Stock" where
  "Stock_ofPb pb = \<lparr>sId = psId pb, sPrice = psPrice pb, sStatus = StockStatus_of (ucast (psStatus pb))\<rparr>"

definition Stocks_toProto :: "StockTable \<Rightarrow> StockPb list" where
  "Stocks_toProto m = map StockPb_of (rows m)"

definition Stocks_fromProto :: "StockPb list \<Rightarrow> StockTable" where
  "Stocks_fromProto items = foldl (\<lambda>m pb. fmupd (psId pb) (Stock_ofPb pb) m) fmempty items"

section \<open>Order books\<close>

definition OrderPb_of :: "Order \<Rightarrow> OrderPb" where
  "OrderPb_of x =
     \<lparr>poId = oId x, poTargetId = oTargetId x, poAccountId = oAccountId x, poStockId = oStockId x,
      poPrice = oPrice x, poQuantity = oQuantity x, poFilledQuantity = oFilledQuantity x,
      poOrderType = ucast (OrderType_uint8 (oOrderType x)),
      poTradingType = ucast (TradingType_uint8 (oTradingType x))\<rparr>"

definition Order_ofPb :: "OrderPb \<Rightarrow> Order" where
  "Order_ofPb po = zeroOrder
     \<lparr>oId := poId po, oTargetId := poTargetId po, oAccountId := poAccountId po, oStockId := poStockId po,
      oPrice := poPrice po, oQuantity := poQuantity po, oFilledQuantity := poFilledQuantity po,
      oOrderType := OrderType_of (ucast (poOrderType po)),
      oTradingType := TradingType_of (ucast (poTradingType po))\<rparr>"

definition OrderBooks_toProto :: "BookTable \<Rightarrow> OrderBookPb list" where
  "OrderBooks_toProto m =
     List.map_filter (\<lambda>i. map_option (\<lambda>b. \<lparr>pbStockId = i, pbOrders = map OrderPb_of (orders b)\<rparr>) (fmlookup m i))
       (sorted_list_of_fset (fmdom m))"

definition rebuildBook :: "OrderPb list \<Rightarrow> OrderBook" where
  "rebuildBook items = foldl (\<lambda>b po. Add b (Order_ofPb po)) NewOrderBook items"

definition OrderBooks_fromProto :: "OrderBookPb list \<Rightarrow> BookTable" where
  "OrderBooks_fromProto items = foldl (\<lambda>m pb. fmupd (pbStockId pb) (rebuildBook (pbOrders pb)) m) fmempty items"

section \<open>The snapshot\<close>

definition snapshotVersion :: "32 word" where
  "snapshotVersion = 1"

definition snapshotOf :: "State \<Rightarrow> LedgerSnapshot" where
  "snapshotOf s =
     \<lparr>snapVersion = snapshotVersion, snapAccounts = Accounts_toProto (Accounts s),
      snapStockBalances = StockBalances_toProto (StockBalances s),
      snapStocks = Stocks_toProto (Stocks s), snapOrderBooks = OrderBooks_toProto (OrderBooks s)\<rparr>"

definition Serialize :: "(LedgerSnapshot \<Rightarrow> 'b option) \<Rightarrow> State \<Rightarrow> 'b outcome" where
  "Serialize enc s = (case enc (snapshotOf s) of None \<Rightarrow> Err MarshalFailed | Some d \<Rightarrow> Ret d)"

definition Restore :: "('b \<Rightarrow> LedgerSnapshot option) \<Rightarrow> State \<Rightarrow> 'b \<Rightarrow> State outcome" where
  "Restore dec s d =
     (case dec d of
        None \<Rightarrow> Err UnmarshalFailed
      | Some snap \<Rightarrow>
          if snapVersion snap \<noteq> snapshotVersion then Err (UnsupportedVersion (snapVersion snap))
          else Ret (s\<lparr>Accounts := Accounts_fromProto (snapAccounts snap),
                      StockBalances := StockBalances_fromProto (snapStockBalances snap),
                      Stocks := Stocks_fromProto (snapStocks snap),
                      OrderBooks := OrderBooks_fromProto (snapOrderBooks snap)\<rparr>))"

definition proto_laws :: "(LedgerSnapshot \<Rightarrow> 'b option) \<Rightarrow> ('b \<Rightarrow> LedgerSnapshot option) \<Rightarrow> bool" where
  "proto_laws enc dec \<longleftrightarrow> (\<forall>snap d. enc snap = Some d \<longrightarrow> dec d = Some snap)"

section \<open>Rebuilding a table\<close>

lemma set_rows: "v \<in> set (rows m) \<longleftrightarrow> (\<exists>k. fmlookup m k = Some v)"
  by (force simp: rows_def List.map_filter_def fmlookup_dom_iff)

lemma foldl_fmupd_lookup:
  assumes "\<And>p. p \<in> set xs \<Longrightarrow> M (k p) = Some (g p)"
  shows "fmlookup (foldl (\<lambda>m p. fmupd (k p) (g p) m) m0 xs) i =
    (if i \<in> k ` set xs then M i else fmlookup m0 i)"
  using assms
proof (induction xs arbitrary: m0)
  case (Cons a xs)
  have "M (k a) = Some (g a)" using Cons.prems by simp
  moreover have "fmlookup (foldl (\<lambda>m p. fmupd (k p) (g p) m) (fmupd (k a) (g a) m0) xs) i =
    (if i \<in> k ` set xs then M i else fmlookup (fmupd (k a) (g a) m0) i)"
    by (rule Cons.IH) (simp add: Cons.prems)
  ultimately show ?case by auto
qed simp

text \<open>
  The codec of a row: decoding undoes encoding, and the message shows the key. Such a table
  is rebuilt from its rows.
\<close>

locale row_codec =
  fixes key :: "'v \<Rightarrow> 'k::linorder" and pkey :: "'p \<Rightarrow> 'k"
    and enc :: "'v \<Rightarrow> 'p" and dec :: "'p \<Rightarrow> 'v" and ok :: "'v \<Rightarrow> bool"
  assumes dec_enc: "ok v \<Longrightarrow> dec (enc v) = v"
    and pkey_enc: "pkey (enc v) = key v"
begin

lemma table_roundtrip:
  assumes "\<And>i v. fmlookup m i = Some v \<Longrightarrow> key v = i \<and> ok v"
  shows "foldl (\<lambda>m p. fmupd (pkey p) (dec p) m) fmempty (map enc (rows m)) = m"
proof (rule fmap_ext)
  fix i
  have "fmlookup m (pkey p) = Some (dec p)" if "p \<in> set (map enc (rows m))" for p
    using that assms by (auto simp: set_rows pkey_enc dec_enc)
  moreover have "fmlookup m i = None" if "i \<notin> pkey ` set (map enc (rows m))"
  proof (rule ccontr)
    assume "fmlookup m i \<noteq> None"
    then obtain v where "fmlookup m i = Some v" by blast
    then show False using that assms [of i v] by (force simp: set_rows pkey_enc)
  qed
  ultimately show "fmlookup (foldl (\<lambda>m p. fmupd (pkey p) (dec p) m) fmempty (map enc (rows m))) i = fmlookup m i"
    by (subst foldl_fmupd_lookup [where M = "fmlookup m"]) auto
qed

end

definition canonicalStatus :: "StockStatus \<Rightarrow> bool" where
  "canonicalStatus t \<longleftrightarrow> StockStatus_of (StockStatus_uint8 t) = t"

lemma ucast_8_32 [simp]: "ucast (ucast (w :: 8 word) :: 32 word) = w"
  by (rule bit_word_eqI) (simp add: bit_simps)

interpretation accountRows: row_codec aId paId AccountPb_of Account_ofPb "\<lambda>_. True"
  by standard (simp_all add: AccountPb_of_def Account_ofPb_def)

interpretation holdingRows: row_codec holdingKey "\<lambda>pb. StockKey (phAccountId pb) (phStockId pb)"
    StockBalancePb_of StockBalance_ofPb "\<lambda>_. True"
  by standard (simp_all add: StockBalancePb_of_def StockBalance_ofPb_def)

interpretation stockRows: row_codec sId psId StockPb_of Stock_ofPb "\<lambda>st. canonicalStatus (sStatus st)"
  by standard (simp_all add: StockPb_of_def Stock_ofPb_def canonicalStatus_def)

section \<open>Rebuilding a book\<close>

text \<open>What the snapshot keeps of an order: everything but the time it was created.\<close>

definition forgetTime :: "Order \<Rightarrow> Order" where
  "forgetTime x = x\<lparr>oCreatedAt := 0\<rparr>"

lemma forgetTime_simps [simp]:
  "oId (forgetTime x) = oId x" "oPrice (forgetTime x) = oPrice x" "oTradingType (forgetTime x) = oTradingType x"
  "oQuantity (forgetTime x) = oQuantity x" "oFilledQuantity (forgetTime x) = oFilledQuantity x"
  "oAccountId (forgetTime x) = oAccountId x" "oStockId (forgetTime x) = oStockId x"
  "oOrderType (forgetTime x) = oOrderType x"
  by (simp_all add: forgetTime_def)

lemma Order_Pb_roundtrip:
  "is_side (oTradingType x) \<Longrightarrow> oOrderType x = ORDER_LIMIT \<Longrightarrow> Order_ofPb (OrderPb_of x) = forgetTime x"
  by (cases x) (auto simp: Order_ofPb_def OrderPb_of_def forgetTime_def zeroOrder_def is_side_def
      OrderType_of_def TradingType_of_def)

text \<open>Adding fresh orders one by one builds a book whose levels list them in the order of adding.\<close>

definition addOrders :: "OrderBook \<Rightarrow> Order list \<Rightarrow> OrderBook" where
  "addOrders b xs = foldl Add b xs"

lemma addOrders_levels:
  assumes "wf_book b" "distinct (map oId xs)" "\<And>x. x \<in> set xs \<Longrightarrow> Get b (oId x) = None"
    and "\<And>x. x \<in> set xs \<Longrightarrow> is_side (oTradingType x) \<and> oFilledQuantity x < oQuantity x"
  shows "wf_book (addOrders b xs) \<and> (\<forall>t p. is_side t \<longrightarrow>
    level (addOrders b xs) t p = level b t p @ filter (\<lambda>x. oTradingType x = t \<and> oPrice x = p) xs)"
  using assms
proof (induction xs arbitrary: b)
  case (Cons x xs)
  have x: "is_side (oTradingType x)" "oFilledQuantity x < oQuantity x" "Get b (oId x) = None"
    using Cons.prems by simp_all
  have wf: "wf_book (Add b x)" using Cons.prems(1) x by (intro wf_book_Add)
  have "Get (Add b x) (oId y) = None" if "y \<in> set xs" for y
  proof -
    have "oId y \<noteq> oId x" using imageI [OF that, of oId] Cons.prems(2) by auto
    with that Cons.prems(3) [of y] show ?thesis by (simp add: Get_Add [OF Cons.prems(1) x(1)])
  qed
  then have "wf_book (addOrders (Add b x) xs) \<and> (\<forall>t p. is_side t \<longrightarrow>
      level (addOrders (Add b x) xs) t p = level (Add b x) t p @ filter (\<lambda>x. oTradingType x = t \<and> oPrice x = p) xs)"
    using wf Cons.IH [of "Add b x"] Cons.prems(2,4) by simp
  then show ?case
    using x(1) by (simp add: addOrders_def level_Add [OF Cons.prems(1)])
qed (simp add: addOrders_def)

lemma level_New [simp]: "level NewOrderBook t p = []"
  by (simp add: level_def NewOrderBook_def sideMap_def)

lemma orders_levels:
  "orders b = concat (map (level b TRADING_BUY) (sidePrices b TRADING_BUY)) @
     concat (map (level b TRADING_SELL) (sidePrices b TRADING_SELL))"
  by (simp add: orders_def level_def [abs_def] sidePrices_def sideMap_def)

lemma set_orders:
  assumes "wf_book b"
  shows "x \<in> set (orders b) \<longleftrightarrow> Get b (oId x) = Some x"
proof
  assume "x \<in> set (orders b)"
  then obtain t p where "is_side t" "x \<in> set (level b t p)"
    by (auto simp: orders_levels intro: is_side_simps(1,2))
  then show "Get b (oId x) = Some x" using level_Get(1) [OF assms] by blast
next
  assume g: "Get b (oId x) = Some x"
  obtain a where "is_side (oTradingType x)" by (rule Get_Some_elim [OF assms g])
  moreover note Get_level [OF assms g]
  ultimately have "oPrice x \<in> set (sidePrices b (oTradingType x))" "is_side (oTradingType x)"
    using sidePrices_iff_level [OF assms, of "oTradingType x" "oPrice x"] by auto
  then show "x \<in> set (orders b)" using Get_level [OF assms g] by (auto simp: orders_levels is_side_def)
qed

text \<open>The orders of one level, picked out of the flattened book.\<close>

lemma filter_levels:
  assumes "distinct ps" "\<And>q x. q \<in> set ps \<Longrightarrow> x \<in> set (L q) \<Longrightarrow> oPrice x = q"
  shows "filter (\<lambda>x. oPrice x = p) (concat (map L ps)) = (if p \<in> set ps then L p else [])"
  using assms
proof (induction ps)
  case (Cons q ps)
  have "filter (\<lambda>x. oPrice x = p) (L q) = (if p = q then L q else [])"
    using Cons.prems(2) [of q] by (auto simp: filter_empty_conv filter_id_conv)
  with Cons show ?case by auto
qed simp

lemma filter_orders:
  assumes wf: "wf_book b" and t: "is_side t"
  shows "filter (\<lambda>x. oTradingType x = t \<and> oPrice x = p) (orders b) = level b t p"
proof -
  let ?side = "\<lambda>u. concat (map (level b u) (sidePrices b u))"
  have ty: "oTradingType x = u" if "x \<in> set (?side u)" "is_side u" for x u
    using that level_Get(2) [OF wf] by auto
  have own: "filter (\<lambda>x. oTradingType x = t \<and> oPrice x = p) (?side t) = level b t p"
  proof -
    have "filter (\<lambda>x. oTradingType x = t \<and> oPrice x = p) (?side t) = filter (\<lambda>x. oPrice x = p) (?side t)"
      using ty [of _ t] t by (intro filter_cong) auto
    also have "\<dots> = (if p \<in> set (sidePrices b t) then level b t p else [])"
      using sidePrices_ascending [OF wf t] level_Get(3) [OF wf t]
      by (intro filter_levels) (auto simp: ascending_distinct)
    finally show ?thesis using sidePrices_iff_level [OF wf t, of p] by auto
  qed
  have other: "filter (\<lambda>x. oTradingType x = t \<and> oPrice x = p) (?side u) = []" if "is_side u" "u \<noteq> t" for u
    using ty [of _ u] that by (auto simp: filter_empty_conv)
  show ?thesis
    using own other t by (auto simp: orders_levels is_side_def)
qed

lemma orders_distinct:
  assumes "wf_book b"
  shows "distinct (map oId (orders b))"
proof -
  have "set (map oId (prio b TRADING_BUY)) \<inter> set (map oId (prio b TRADING_SELL)) = {}"
    using prio_ids_absent [OF assms is_side_simps(1)] set_prio [OF assms is_side_simps(2)] by force
  then have "distinct (map oId (prio b TRADING_BUY @ prio b TRADING_SELL))"
    using prio_distinct [OF assms] by simp
  moreover have "mset (orders b) = mset (prio b TRADING_BUY @ prio b TRADING_SELL)"
    by (simp add: orders_levels prio_def bestFirst_def mset_concat rev_map [symmetric] sum_list_rev)
  ultimately show ?thesis by (metis mset_eq_imp_distinct_iff mset_map)
qed

definition restoredBook :: "OrderBook \<Rightarrow> OrderBook" where
  "restoredBook b = rebuildBook (map OrderPb_of (orders b))"

lemma rebuildBook_addOrders:
  "(\<And>x. x \<in> set xs \<Longrightarrow> is_side (oTradingType x) \<and> oOrderType x = ORDER_LIMIT) \<Longrightarrow>
   rebuildBook (map OrderPb_of xs) = addOrders NewOrderBook (map forgetTime xs)"
proof -
  assume ok: "\<And>x. x \<in> set xs \<Longrightarrow> is_side (oTradingType x) \<and> oOrderType x = ORDER_LIMIT"
  have "foldl (\<lambda>b po. Add b (Order_ofPb po)) b (map OrderPb_of xs) = foldl Add b (map forgetTime xs)" for b
    using ok by (induction xs arbitrary: b) (simp_all add: Order_Pb_roundtrip)
  then show ?thesis by (simp add: rebuildBook_def addOrders_def)
qed

lemma restoredBook_spec:
  assumes "book_ok i b"
  shows "wf_book (restoredBook b)" "is_side t \<Longrightarrow> prio (restoredBook b) t = map forgetTime (prio b t)"
proof -
  have wf: "wf_book b" using assms by (simp add: book_ok_def)
  have o: "is_side (oTradingType x) \<and> oFilledQuantity x < oQuantity x \<and> oOrderType x = ORDER_LIMIT"
    if "x \<in> set (orders b)" for x
  proof -
    have g: "Get b (oId x) = Some x" using that set_orders [OF wf] by blast
    obtain a where "is_side (oTradingType x)" "oFilledQuantity x < oQuantity x" by (rule Get_Some_elim [OF wf g])
    with g assms show ?thesis by (auto simp: book_ok_def)
  qed
  have r: "restoredBook b = addOrders NewOrderBook (map forgetTime (orders b))"
    unfolding restoredBook_def by (rule rebuildBook_addOrders) (use o in blast)
  have "distinct (map oId (map forgetTime (orders b)))"
    using orders_distinct [OF wf] by (simp add: comp_def)
  note L = addOrders_levels [OF wf_book_New this, folded r]
  have L': "wf_book (restoredBook b) \<and> (\<forall>t p. is_side t \<longrightarrow> level (restoredBook b) t p =
      level NewOrderBook t p @ filter (\<lambda>x. oTradingType x = t \<and> oPrice x = p) (map forgetTime (orders b)))"
    by (rule L) (use o in auto)
  then show wf': "wf_book (restoredBook b)" by blast
  assume t: "is_side t"
  have "level (restoredBook b) t p = map forgetTime (level b t p)" for p
    using L' t filter_orders [OF wf t, of p]
    by (simp add: filter_map comp_def)
  then show "prio (restoredBook b) t = map forgetTime (prio b t)"
    by (rule prio_map_levels [OF wf wf' t])
qed

lemma restoredBook_Get:
  assumes "book_ok i b"
  shows "Get (restoredBook b) j = map_option forgetTime (Get b j)"
proof -
  have wf: "wf_book b" using assms by (simp add: book_ok_def)
  note R = restoredBook_spec [OF assms]
  have "Get (restoredBook b) j = Some y \<longleftrightarrow> (\<exists>x. Get b j = Some x \<and> y = forgetTime x)" for y
  proof
    assume g: "Get (restoredBook b) j = Some y"
    obtain a where y: "oId y = j" "is_side (oTradingType y)" by (rule Get_Some_elim [OF R(1) g])
    then have "y \<in> set (prio (restoredBook b) (oTradingType y))"
      using set_prio [OF R(1) y(2), of y] g by simp
    then obtain x where "x \<in> set (prio b (oTradingType y))" "y = forgetTime x" using R(2) [OF y(2)] by auto
    then show "\<exists>x. Get b j = Some x \<and> y = forgetTime x" using set_prio [OF wf y(2), of x] y(1) by auto
  next
    assume "\<exists>x. Get b j = Some x \<and> y = forgetTime x"
    then obtain x where x: "Get b j = Some x" "y = forgetTime x" by blast
    obtain a where s: "oId x = j" "is_side (oTradingType x)" by (rule Get_Some_elim [OF wf x(1)])
    then have "x \<in> set (prio b (oTradingType x))" using set_prio [OF wf s(2), of x] x(1) by simp
    then have "y \<in> set (prio (restoredBook b) (oTradingType x))" using R(2) [OF s(2)] x(2) by simp
    then show "Get (restoredBook b) j = Some y" using set_prio [OF R(1) s(2), of y] x(2) s(1) by simp
  qed
  then show ?thesis by (cases "Get b j"; cases "Get (restoredBook b) j") auto
qed

section \<open>Restoring a snapshot\<close>

definition restoredState :: "State \<Rightarrow> State" where
  "restoredState s = s\<lparr>OrderBooks := fmmap restoredBook (OrderBooks s)\<rparr>"

definition statuses_ok :: "State \<Rightarrow> bool" where
  "statuses_ok s \<longleftrightarrow> (\<forall>i st. Stocks_Get (Stocks s) i = Some st \<longrightarrow> canonicalStatus (sStatus st))"

lemma OrderBooks_roundtrip: "OrderBooks_fromProto (OrderBooks_toProto m) = fmmap restoredBook m"
proof (rule fmap_ext)
  fix i
  have set: "pb \<in> set (OrderBooks_toProto m) \<longleftrightarrow>
      (\<exists>j b. fmlookup m j = Some b \<and> pb = \<lparr>pbStockId = j, pbOrders = map OrderPb_of (orders b)\<rparr>)" for pb
    by (force simp: OrderBooks_toProto_def List.map_filter_def fmlookup_dom_iff)
  have "i \<in> pbStockId ` set (OrderBooks_toProto m) \<longleftrightarrow> fmlookup m i \<noteq> None"
    by (force simp: set image_iff)
  then show "fmlookup (OrderBooks_fromProto (OrderBooks_toProto m)) i = fmlookup (fmmap restoredBook m) i"
    unfolding OrderBooks_fromProto_def
    by (subst foldl_fmupd_lookup [where M = "fmlookup (fmmap restoredBook m)"]) (auto simp: set restoredBook_def)
qed

lemma Restore_Serialize:
  assumes "proto_laws enc dec" "keys_ok s" "statuses_ok s" "Serialize enc s = Ret d"
  shows "Restore dec s0 d = Ret (restoredState s)"
proof -
  have d: "dec d = Some (snapshotOf s)"
    using assms(1,4) by (auto simp: proto_laws_def Serialize_def split: option.splits)
  have "Accounts_fromProto (Accounts_toProto (Accounts s)) = Accounts s"
    unfolding Accounts_fromProto_def Accounts_toProto_def
    by (rule accountRows.table_roundtrip) (use keysD(1) [OF assms(2)] in \<open>simp add: Get_fmlookup\<close>)
  moreover have "StockBalances_fromProto (StockBalances_toProto (StockBalances s)) = StockBalances s"
    unfolding StockBalances_fromProto_def StockBalances_toProto_def
    by (rule holdingRows.table_roundtrip) (use keysD(2) [OF assms(2)] in \<open>simp add: Get_fmlookup\<close>)
  moreover have "Stocks_fromProto (Stocks_toProto (Stocks s)) = Stocks s"
    unfolding Stocks_fromProto_def Stocks_toProto_def
    by (rule stockRows.table_roundtrip)
      (use keysD(3) [OF assms(2)] assms(3) in \<open>simp add: Get_fmlookup statuses_ok_def\<close>)
  ultimately show ?thesis
    by (simp add: Restore_def d snapshotOf_def restoredState_def OrderBooks_roundtrip)
qed

lemma bookOf_restored: "bookOf (restoredState s) i =
    (if fmlookup (OrderBooks s) i = None then NewOrderBook else restoredBook (bookOf s i))"
  by (auto simp: bookOf_def OrderBooks_Get_def restoredState_def split: option.split)

lemma books_ok_lookup: "books_ok s \<Longrightarrow> fmlookup (OrderBooks s) i = Some b \<Longrightarrow> book_ok i b"
  by (auto simp: books_ok_def bookOf_def OrderBooks_Get_def dest!: spec [of _ i])

text \<open>Also for a stock without a book yet, the restored book shows the same orders.\<close>

lemma restored_views:
  assumes "books_ok s"
  shows "Get (bookOf (restoredState s) i) j = map_option forgetTime (Get (bookOf s i) j)"
    "wf_book (bookOf (restoredState s) i)"
    "is_side t \<Longrightarrow> prio (bookOf (restoredState s) i) t = map forgetTime (prio (bookOf s i) t)"
proof -
  have b: "book_ok i (bookOf s i)" using assms by (simp add: books_ok_def)
  have none: "bookOf s i = NewOrderBook" if "fmlookup (OrderBooks s) i = None"
    using that by (simp add: bookOf_def OrderBooks_Get_def)
  show "Get (bookOf (restoredState s) i) j = map_option forgetTime (Get (bookOf s i) j)"
    "wf_book (bookOf (restoredState s) i)"
    "is_side t \<Longrightarrow> prio (bookOf (restoredState s) i) t = map forgetTime (prio (bookOf s i) t)"
    using restoredBook_Get [OF b] restoredBook_spec [OF b] none wf_book_New by (simp_all add: bookOf_restored)
qed

lemma osum_map_option: "osum (\<lambda>j. map_option f (m j)) c = osum m (c \<circ> f)"
  by (auto simp: osum_def dom_def intro!: sum.cong)

lemma reserved_restored:
  assumes "books_ok s" "\<And>x. c (forgetTime x) = c x"
  shows "reserved c (restoredState s) = reserved c s"
proof -
  have inner: "osum (Get (restoredBook b)) (held c) = osum (Get b) (held c)"
    if "fmlookup (OrderBooks s) i = Some b" for i b
  proof -
    have "Get (restoredBook b) = (\<lambda>j. map_option forgetTime (Get b j))"
      using restoredBook_Get [OF books_ok_lookup [OF assms(1) that]] by (rule ext)
    moreover have "held c \<circ> forgetTime = held c" by (simp add: fun_eq_iff held_def assms(2))
    ultimately show ?thesis by (simp add: osum_map_option)
  qed
  have "fmlookup (OrderBooks (restoredState s)) = (\<lambda>i. map_option restoredBook (fmlookup (OrderBooks s) i))"
    by (simp add: restoredState_def fun_eq_iff)
  then have "reserved c (restoredState s) =
      osum (fmlookup (OrderBooks s)) ((\<lambda>b. osum (Get b) (held c)) \<circ> restoredBook)"
    by (simp add: reserved_def osum_map_option)
  also have "\<dots> = reserved c s"
    unfolding reserved_def osum_def [of "fmlookup (OrderBooks s)"]
    by (rule sum.cong) (auto simp: inner dom_def fmlookup_dom'_iff)
  finally show ?thesis .
qed

lemma restored_inv:
  assumes "ledger_inv s x y"
  shows "ledger_inv (restoredState s) x y"
proof -
  have I: "keys_ok s" "books_ok s" "holders_ok s" "bounded s" "backed s x y"
    using assms by (auto simp: ledger_inv_def)
  have "books_ok (restoredState s)"
    using I(2) restored_views [OF I(2)] by (auto simp: books_ok_def book_ok_def)
  moreover have "reserved (cashW a) (restoredState s) = reserved (cashW a) s"
    "reserved (shareW a st) (restoredState s) = reserved (shareW a st) s" for a st
    by (simp_all add: reserved_restored [OF I(2)] cashW_def shareW_def)
  ultimately show ?thesis
    using I by (simp add: ledger_inv_def backed_def bounded_def keys_ok_def holders_ok_def bal_def avl_def
        qty_def avq_def total_cash_def total_shares_def)
      (simp add: restoredState_def)
qed

text \<open>
  C22: A ledger restored from its own snapshot has the same accounts, holdings and stocks, and
  every book shows the same orders in the same price-time priority; only the creation times of
  the resting orders are lost. The ledger invariant survives. The protobuf library is assumed
  to decode what it encoded.
\<close>

theorem snapshot_roundtrip:
  assumes "proto_laws enc dec" "ledger_inv s no_slack no_slack2" "statuses_ok s" "Serialize enc s = Ret d"
  shows "\<exists>s'. Restore dec s0 d = Ret s' \<and> Accounts s' = Accounts s \<and> StockBalances s' = StockBalances s \<and>
    Stocks s' = Stocks s \<and> fmdom (OrderBooks s') = fmdom (OrderBooks s) \<and>
    (\<forall>i t. is_side t \<longrightarrow> prio (bookOf s' i) t = map forgetTime (prio (bookOf s i) t)) \<and>
    ledger_inv s' no_slack no_slack2"
proof -
  have I: "keys_ok s" "books_ok s" using assms(2) by (auto simp: ledger_inv_def)
  show ?thesis
    using Restore_Serialize [OF assms(1) I(1) assms(3,4), of s0] restored_views(3) [OF I(2)] restored_inv [OF assms(2)]
    by (simp add: restoredState_def)
qed

theorem snapshot_roundtrip_witness:
  "\<exists>s'. Restore Some NewState (snapshotOf sampleState) = Ret s' \<and> Accounts s' = Accounts sampleState \<and>
     prio (bookOf s' 1) TRADING_SELL = [restingAsk]"
proof -
  have "proto_laws Some Some" "statuses_ok sampleState" "Serialize Some sampleState = Ret (snapshotOf sampleState)"
    by (auto simp: proto_laws_def statuses_ok_def Serialize_def sampleState_def table_defs canonicalStatus_def
        StockStatus_of_def split: if_splits)
  from snapshot_roundtrip [OF this(1) sample_inv this(2,3), of NewState]
  obtain s' where "Restore Some NewState (snapshotOf sampleState) = Ret s'" "Accounts s' = Accounts sampleState"
    "prio (bookOf s' 1) TRADING_SELL = map forgetTime (prio (bookOf sampleState 1) TRADING_SELL)"
    by (auto dest: is_side_simps(2) [THEN mp [rotated]])
  moreover have "forgetTime restingAsk = restingAsk"
    by (simp add: forgetTime_def restingAsk_def sampleOrder_def zeroOrder_def)
  ultimately show ?thesis by (simp add: bookOf_sample prio_sample)
qed

end
