(* ===== verification/Recovery.thy ===== *)
theory Recovery
  imports Retrace Snapshot
begin

text \<open>
  Booting the engine (\<^verbatim>\<open>internal/core/engine.go\<close>): the recovery watermark from the output log, the
  duplicate filter from the tail of the input log, the last trade id, and the replay of the
  input log on top of the latest snapshot. Snapshots and cursors live in a database; what its
  queries answer is an argument. A loop over log indices \<^verbatim>\<open>for i := first; i <= last; i++\<close> is a
  recursion over the list of these indices, which is the loop as long as \<open>last\<close> is not the
  largest 64-bit number.
\<close>

section \<open>Loops over a log\<close>

definition indices :: "uint64 \<Rightarrow> uint64 \<Rightarrow> uint64 list" where
  "indices first last' = map word_of_nat [unat first..<Suc (unat last')]"

fun forEach :: "('l Engine \<Rightarrow> uint64 \<Rightarrow> ('l, unit) result) \<Rightarrow> 'l Engine \<Rightarrow> uint64 list \<Rightarrow> ('l, unit) result" where
  "forEach body e [] = (e, Ret ())"
| "forEach body e (i # is) = andThen (body e i) (\<lambda>e1 _. forEach body e1 is)"

text \<open>A log read and decoded; both failures end the loop with an error.\<close>

definition readAs :: "(json \<Rightarrow> 'a option) \<Rightarrow> 'l twal \<Rightarrow> 'l \<Rightarrow> uint64 \<Rightarrow> 'a outcome" where
  "readAs f ops l i =
     (case Read ops l i of
        Ret d \<Rightarrow> (case unmarshal f d of None \<Rightarrow> Err UnmarshalFailed | Some x \<Rightarrow> Ret x)
      | Err x \<Rightarrow> Err x
      | Panic x \<Rightarrow> Panic x)"

definition ofOutcome :: "'l Engine \<Rightarrow> 'a outcome \<Rightarrow> ('l, 'a) result" where
  "ofOutcome e r = (e, r)"

definition decoded :: "'l Engine \<Rightarrow> (json \<Rightarrow> 'a option) \<Rightarrow> bytes \<Rightarrow> ('a \<Rightarrow> ('l, unit) result) \<Rightarrow> ('l, unit) result" where
  "decoded e f raw go = (case unmarshal f raw of None \<Rightarrow> (e, Err UnmarshalFailed) | Some x \<Rightarrow> go x)"

section \<open>The watermark\<close>

definition loadOutputWatermark :: "'l twal \<Rightarrow> 'l Engine \<Rightarrow> ('l, unit) result" where
  "loadOutputWatermark ops e =
     andThen (ofOutcome e (LastIndex ops (outputLog e))) (\<lambda>e lastIdx.
       if lastIdx = 0 then (e\<lparr>outputAppliedSeq := 0\<rparr>, Ret ())
       else andThen (ofOutcome e (readAs OutputEnvelope_Unmarshal ops (outputLog e) lastIdx)) (\<lambda>e env.
              (e\<lparr>outputAppliedSeq := envInputSeq env\<rparr>, Ret ())))"

section \<open>The duplicate filter\<close>

definition rememberInput :: "'l twal \<Rightarrow> 'l Engine \<Rightarrow> uint64 \<Rightarrow> ('l, unit) result" where
  "rememberInput ops e i =
     andThen (ofOutcome e (readAs envelope_Unmarshal ops (inputLog e) i)) (\<lambda>e env.
       (let p = inPattern env; raw = inData env;
            remember = (\<lambda>k. (e\<lparr>dedup := dedup_add (dedup e) p k\<rparr>, Ret ()))
        in if p = PatternOrderCreated then decoded e Order_Unmarshal raw (\<lambda>x. remember (oId x))
           else if p = PatternAccountCreated then decoded e Account_Unmarshal raw (\<lambda>a. remember (aId a))
           else if p = PatternTransferCreated then decoded e Transfer_Unmarshal raw (\<lambda>t. remember (tId t))
           else if p = PatternStockList then decoded e Stock_Unmarshal raw (\<lambda>s. remember (sId s))
           else if p = PatternAdminBalanceAdjust
           then decoded e BalanceAdjust_Unmarshal raw (\<lambda>r. remember (baId r))
           else if p = PatternAdminStockBalanceAdjust
           then decoded e StockBalanceAdjust_Unmarshal raw (\<lambda>r. remember (sbaId r))
           else (e, Ret ())))"

definition dedupStart :: "dedup \<Rightarrow> uint64 \<Rightarrow> uint64" where
  "dedupStart d lastIdx =
     (let w = word_of_int (window d) in if lastIdx > w then lastIdx - w + 1 else 1)"

definition loadDedup :: "'l twal \<Rightarrow> 'l Engine \<Rightarrow> ('l, unit) result" where
  "loadDedup ops e =
     andThen (ofOutcome e (LastIndex ops (inputLog e))) (\<lambda>e lastIdx.
       if lastIdx = 0 then (e, Ret ())
       else forEach (rememberInput ops) e (indices (dedupStart (dedup e) lastIdx) lastIdx))"

text \<open>The engine over two opened logs; a failure to open one is the caller's.\<close>

definition NewEngine :: "'l twal \<Rightarrow> 'l \<Rightarrow> 'l \<Rightarrow> ('l, unit) result" where
  "NewEngine ops input outp =
     (let e = \<lparr>inputLog = input, outputLog = outp, state = NewState, inputSeq = 0, outputAppliedSeq = 0,
               lastTradeID = 0, dedup = newDedup dedupWindow, outputSignal = False, ticks = 0\<rparr>
      in andThen (loadOutputWatermark ops e) (\<lambda>e _. loadDedup ops e))"

section \<open>The last trade id\<close>

text \<open>
  Backwards through the output log, and backwards through the events of an envelope, to the
  last trade with a positive id; when the log has none, the database is asked. \<open>tradeIDs\<close> is
  its answer, \<open>None\<close> when there is no store.
\<close>

fun lastTradeIn :: "OutputEvent list \<Rightarrow> int64 option outcome" where
  "lastTradeIn [] = Ret None"
| "lastTradeIn (e # es) =
     (if outPattern e \<noteq> PatternTradeExecuted then lastTradeIn es
      else case unmarshal Trade_Unmarshal (outData e) of
             None \<Rightarrow> Err UnmarshalFailed
           | Some trade \<Rightarrow> if trId trade > 0 then Ret (Some (trId trade)) else lastTradeIn es)"

fun findTradeID :: "'l twal \<Rightarrow> 'l \<Rightarrow> uint64 list \<Rightarrow> int64 option outcome" where
  "findTradeID ops l [] = Ret None"
| "findTradeID ops l (i # is) =
     (case readAs OutputEnvelope_Unmarshal ops l i of
        Ret env \<Rightarrow>
          (case lastTradeIn (rev (envEvents env)) of
             Ret None \<Rightarrow> findTradeID ops l is
           | r \<Rightarrow> r)
      | Err x \<Rightarrow> Err x
      | Panic x \<Rightarrow> Panic x)"

definition initializeTradeID :: "'l twal \<Rightarrow> int64 outcome option \<Rightarrow> 'l Engine \<Rightarrow> ('l, unit) result" where
  "initializeTradeID ops tradeIDs e =
     andThen (ofOutcome e (LastIndex ops (outputLog e))) (\<lambda>e lastIdx.
     andThen (ofOutcome e (FirstIndex ops (outputLog e))) (\<lambda>e firstIdx.
     andThen (ofOutcome e (findTradeID ops (outputLog e) (rev (indices (max firstIdx 1) lastIdx)))) (\<lambda>e found.
       (case found of
          Some i \<Rightarrow> (e\<lparr>lastTradeID := i\<rparr>, Ret ())
        | None \<Rightarrow>
            (case tradeIDs of
               None \<Rightarrow> (e, Err NoTradeIDStore)
             | Some r \<Rightarrow>
                 andThen (ofOutcome e r) (\<lambda>e i.
                   if i < 0 then (e, Err (InvalidTradeID i))
                   else (e\<lparr>lastTradeID := i\<rparr>, Ret ())))))))"

section \<open>Replay\<close>

definition replayInput :: "'l twal \<Rightarrow> clock \<Rightarrow> 'l Engine \<Rightarrow> uint64 \<Rightarrow> ('l, unit) result" where
  "replayInput ops clk e i =
     andThen (ofOutcome e (readAs envelope_Unmarshal ops (inputLog e) i)) (\<lambda>e env.
       (let p = inPattern env; raw = inData env; e1 = e\<lparr>inputSeq := i\<rparr>
        in if p = PatternOrderCreated
           then decoded e Order_Unmarshal raw (\<lambda>order.
                  case validateOrder (state e1) order of
                    (s, Some reason) \<Rightarrow> appendReject ops clk (e1\<lparr>state := s\<rparr>) order reason
                  | (s, None) \<Rightarrow> route ops clk (e1\<lparr>state := s\<rparr>) order)
           else if p = PatternAccountCreated
           then decoded e Account_Unmarshal raw (activateAccount ops clk e1)
           else if p = PatternTransferCreated
           then decoded e Transfer_Unmarshal raw (applyTransfer ops clk e1)
           else if p = PatternStockList
           then decoded e Stock_Unmarshal raw (\<lambda>stock. setStockStatus ops clk e1 stock LISTED PatternStockListed)
           else if p = PatternAdminBalanceAdjust
           then decoded e BalanceAdjust_Unmarshal raw (applyBalanceAdjust ops clk e1)
           else if p = PatternAdminStockBalanceAdjust
           then decoded e StockBalanceAdjust_Unmarshal raw (applyStockBalanceAdjust ops clk e1)
           else (e, Ret ())))"

text \<open>
  \<open>store\<close> is what the snapshot store answers: \<open>None\<close> when there is no store, an error, no
  snapshot, or the latest snapshot with the index of the last input in it.
\<close>

definition loadSnapshot ::
  "('b \<Rightarrow> LedgerSnapshot option) \<Rightarrow> ('b \<times> uint64) option outcome option \<Rightarrow> 'l Engine \<Rightarrow> ('l, uint64) result" where
  "loadSnapshot dec store e =
     (case store of
        None \<Rightarrow> (e, Ret 0)
      | Some answer \<Rightarrow>
          andThen (ofOutcome e answer) (\<lambda>e found.
            (case found of
               None \<Rightarrow> (e, Ret 0)
             | Some (d, idx) \<Rightarrow>
                 andThen (ofOutcome e (Restore dec (state e) d)) (\<lambda>e s.
                   (e\<lparr>state := s, inputSeq := idx\<rparr>, Ret idx)))))"

definition Replay ::
  "'l twal \<Rightarrow> clock \<Rightarrow> ('b \<Rightarrow> LedgerSnapshot option) \<Rightarrow> ('b \<times> uint64) option outcome option \<Rightarrow>
   'l Engine \<Rightarrow> ('l, unit) result" where
  "Replay ops clk dec store e =
     andThen (loadSnapshot dec store e) (\<lambda>e lastSnapshotIdx.
     andThen (ofOutcome e (LastIndex ops (inputLog e))) (\<lambda>e lastIdx.
       forEach (replayInput ops clk) e (indices (lastSnapshotIdx + 1) lastIdx)))"

section \<open>Live runs\<close>

text \<open>A sequence of messages handled one after the other, each of them without an error.\<close>

fun handleAll :: "'l twal \<Rightarrow> clock \<Rightarrow> 'l Engine \<Rightarrow> bytes list \<Rightarrow> ('l, unit) result" where
  "handleAll ops clk e [] = (e, Ret ())"
| "handleAll ops clk e (m # ms) = andThen (handle ops clk e m) (\<lambda>e1 _. handleAll ops clk e1 ms)"

text \<open>What a handled message did: nothing, or it was logged, remembered and applied.\<close>

definition admitted :: "'l Engine \<Rightarrow> request \<Rightarrow> 'l \<Rightarrow> uint64 \<Rightarrow> 'l Engine" where
  "admitted e rq l idx =
     e\<lparr>inputLog := l, inputSeq := idx, dedup := dedup_add (dedup e) (requestKind rq) (requestId rq)\<rparr>"

lemma handle_Ret:
  assumes "handle ops clk e m = (e', Ret r)"
  obtains (ignored) "e' = e"
  | (applied) rq l idx where "requestOf m = Some rq" "admissible rq"
      "\<not> dedup_has (dedup e) (requestKind rq) (requestId rq)" "Append ops (inputLog e) m = Ret (l, idx)"
      "applyRequest ops clk (admitted e rq l idx) rq = (e', Ret ())" "r = Ack"
proof (cases "requestOf m")
  case None
  with assms show ?thesis by (intro ignored) (simp add: handle_request handleRequest_def)
next
  case (Some rq)
  show ?thesis
  proof (cases "admissible rq \<and> \<not> dedup_has (dedup e) (requestKind rq) (requestId rq)")
    case False
    with assms Some show ?thesis
      by (intro ignored) (auto simp: handle_request handleRequest_def admit_def split: if_splits)
  next
    case True
    with assms Some obtain l idx where l: "Append ops (inputLog e) m = Ret (l, idx)"
      "acked (applyRequest ops clk (admitted e rq l idx) rq) = (e', Ret r)"
      by (auto simp: handle_request handleRequest_def admit_def admitted_def split: outcome.splits)
    obtain e1 r1 where a: "applyRequest ops clk (admitted e rq l idx) rq = (e1, r1)" by fastforce
    with l(2) have "e1 = e'" "r1 = Ret ()" "r = Ack" by (cases r1; simp add: acked_def)+
    with a l(1) True Some show ?thesis by (intro applied) auto
  qed
qed

lemma applyRequest_inputLog:
  "inputLog (fst (applyRequest ops clk e rq)) = inputLog e"
  "inputSeq (fst (applyRequest ops clk e rq)) = inputSeq e"
  "dedup (fst (applyRequest ops clk e rq)) = dedup e"
  "outputAppliedSeq (fst (applyRequest ops clk e rq)) = outputAppliedSeq e"
proof -
  have "agrees (\<lambda>_ _. True) (recoveryMark e) (applyRequest ops clk e rq) (applyRequest ops clk e rq)"
    by (rule agrees_applyRequest) simp_all
  then have "recoveryMark (fst (applyRequest ops clk e rq)) = recoveryMark e" by (simp add: agrees_def)
  then show "inputLog (fst (applyRequest ops clk e rq)) = inputLog e"
    "inputSeq (fst (applyRequest ops clk e rq)) = inputSeq e"
    "dedup (fst (applyRequest ops clk e rq)) = dedup e"
    "outputAppliedSeq (fst (applyRequest ops clk e rq)) = outputAppliedSeq e"
    by (simp_all add: recoveryMark_def)
qed

text \<open>The input log only grows, and a message that changed anything is in it.\<close>

lemma handle_log:
  assumes laws: "twal_laws ops base recs" and h: "handle ops clk e m = (e', Ret r)"
  obtains (ignored) "e' = e"
  | (applied) rq l idx where "requestOf m = Some rq" "recs (inputLog e') = recs (inputLog e) @ [m]"
      "base (inputLog e') = base (inputLog e)" "idx = word_of_nat (base (inputLog e) + length (recs (inputLog e)) + 1)"
      "applyRequest ops clk (admitted e rq l idx) rq = (e', Ret ())"
  using h
proof (cases rule: handle_Ret)
  case (applied rq l idx)
  have "inputLog e' = l" using applyRequest_inputLog(1) [of ops clk "admitted e rq l idx" rq] applied(5)
    by (simp add: admitted_def)
  with applied show ?thesis using Append_Ret [OF laws applied(4)] that(2) [of rq idx l] by simp
qed (rule that(1))

lemma handleAll_log:
  assumes laws: "twal_laws ops base recs" and "handleAll ops clk e ms = (e', Ret ())"
  shows "base (inputLog e') = base (inputLog e) \<and> (\<exists>ys. recs (inputLog e') = recs (inputLog e) @ ys)"
  using assms(2)
proof (induction ms arbitrary: e)
  case (Cons m ms)
  obtain e1 r where h: "handle ops clk e m = (e1, Ret r)" "handleAll ops clk e1 ms = (e', Ret ())"
    using Cons.prems by (cases "handle ops clk e m"; cases "snd (handle ops clk e m)") auto
  show ?case using Cons.IH [OF h(2)] by (cases rule: handle_log [OF laws h(1)]) auto
qed simp

section \<open>Replaying what was handled\<close>

lemma replayInput_request:
  assumes "Read ops (inputLog e) i = Ret m" "requestOf m = Some rq"
  shows "replayInput ops clk e i = replayRequest ops clk (e\<lparr>inputSeq := i\<rparr>) rq"
proof -
  obtain env where env: "unmarshal envelope_Unmarshal m = Some env" "decodeRequest env = Some rq"
    using assms(2) by (auto simp: requestOf_def bind_eq_Some_conv)
  show ?thesis
    using env assms(1) decodeRequest_kind [OF env(2)]
    by (cases rq) (auto simp: replayInput_def ofOutcome_def readAs_def Let_def decoded_def replayRequest_def
        decodeRequest_def split: if_splits)
qed

lemma agrees_replayRequest:
  assumes "state f = state e" "recoveryMark f = k"
  shows "agrees (\<lambda>_ _. True) k (applyRequest ops clk e rq) (replayRequest ops' clk' f rq)"
proof (cases rq)
  case (RqOrder x)
  then show ?thesis using assms
    by (auto simp: replayRequest_def appendReject_def intro!: agrees_orPanicL [OF agrees_appendOutput] agrees_route
        split: prod.split option.split)
qed (use agrees_applyRequest [OF assms] in \<open>simp_all add: replayRequest_def del: applyRequest.simps\<close>)

lemma handleAll_Cons:
  assumes "handleAll ops clk e (m # ms) = (e', Ret ())"
  obtains e1 r where "handle ops clk e m = (e1, Ret r)" "handleAll ops clk e1 ms = (e', Ret ())"
  using assms by (cases "handle ops clk e m"; cases "snd (handle ops clk e m)") auto

text \<open>
  A suppressed replay of one logged request: it succeeds, it ends with the ledger the live run
  ended with, and it writes nothing and draws no trade id.
\<close>

definition replays :: "'l Engine \<Rightarrow> 'l Engine \<Rightarrow> bool" where
  "replays f f' \<longleftrightarrow> inputLog f' = inputLog f \<and> outputLog f' = outputLog f \<and>
     outputAppliedSeq f' = outputAppliedSeq f \<and> dedup f' = dedup f \<and> lastTradeID f' = lastTradeID f"

lemma replayInput_step:
  assumes "Read ops (inputLog f) i = Ret m" "requestOf m = Some rq"
    and "state f = state e" "0 < outputAppliedSeq f" "i \<le> outputAppliedSeq f"
    and "applyRequest ops clk e rq = (e', Ret ())"
  obtains f' where "replayInput ops clk' f i = (f', Ret ())" "state f' = state e'" "replays f f'"
    "inputSeq f' = i"
proof -
  let ?f = "f\<lparr>inputSeq := i\<rparr>"
  have q: "suppressed ?f" using assms(4,5) by (simp add: suppressed_def)
  have "agrees (\<lambda>_ _. True) (recoveryMark ?f) (applyRequest ops clk e rq) (replayRequest ops clk' ?f rq)"
    by (rule agrees_replayRequest) (simp_all add: assms(3))
  then obtain f' where f': "replayRequest ops clk' ?f rq = (f', Ret ())" "state f' = state e'"
    "recoveryMark f' = recoveryMark ?f"
    using q assms(6) by (cases "replayRequest ops clk' ?f rq") (auto simp: agrees_def suppressed_quiet split: outcome.splits)
  have "suppressed f'" using q f'(3) by (simp add: suppressed_quiet)
  moreover have "lastTradeID f' = lastTradeID f"
    using idKept_requests(2) [of ?f ops clk' rq] q f'(1) by (simp add: idKept_def)
  ultimately have "replays f f'" "inputSeq f' = i" using q f'(3) by (auto simp: recoveryMark_def replays_def)
  with f' show thesis
    by (intro that [of f']) (simp_all add: replayInput_request [OF assms(1,2)])
qed

lemma replay_handled:
  assumes laws: "twal_laws ops base recs" and rel: "twal_reliable ops base recs"
    and live: "handleAll ops clk e ms = (e', Ret ())"
    and f: "state f = state e" "base (inputLog f) = base (inputLog e)" "recs (inputLog f) = recs (inputLog e') @ zs"
    and bnd: "base (inputLog f) + length (recs (inputLog f)) < 2 ^ 64"
    and mark: "base (inputLog e') + length (recs (inputLog e')) \<le> unat (outputAppliedSeq f)"
  shows "\<exists>f'. forEach (replayInput ops clk') f (map word_of_nat
      [base (inputLog e) + length (recs (inputLog e)) + 1..<base (inputLog e') + length (recs (inputLog e')) + 1]) =
      (f', Ret ()) \<and> state f' = state e' \<and> replays f f'"
  using live f bnd mark
proof (induction ms arbitrary: e f)
  case Nil
  then show ?case by (auto simp: replays_def)
next
  case (Cons m ms)
  obtain e1 r where h: "handle ops clk e m = (e1, Ret r)" "handleAll ops clk e1 ms = (e', Ret ())"
    by (rule handleAll_Cons [OF Cons.prems(1)])
  show ?case
  proof (cases rule: handle_log [OF laws h(1)])
    case 1
    then show ?thesis using Cons.IH [OF h(2), of f] Cons.prems by simp
  next
    case (2 rq l idx)
    let ?n = "base (inputLog e) + length (recs (inputLog e)) + 1"
    let ?N = "base (inputLog e') + length (recs (inputLog e')) + 1"
    obtain ys where ys: "recs (inputLog e') = recs (inputLog e) @ m # ys" "base (inputLog e') = base (inputLog e)"
      using handleAll_log [OF laws h(2)] 2 by auto
    have rd: "Read ops (inputLog f) (word_of_nat ?n) = Ret m"
      using Read_reliable [OF rel, of "length (recs (inputLog e))" "inputLog f"] Cons.prems(3-5) ys by simp
    have n: "?n < ?N" "unat (word_of_nat ?n :: uint64) = ?n"
      using Cons.prems(3-5) ys unat_word_of_nat64 [of ?n] by simp_all
    have i: "0 < outputAppliedSeq f" "word_of_nat ?n \<le> outputAppliedSeq f"
      using Cons.prems(6) n by (auto simp: word_le_nat_alt word_less_nat_alt)
    have "state f = state (admitted e rq l idx)" using Cons.prems(2) by (simp add: admitted_def)
    from replayInput_step [OF rd 2(1) this i 2(5)] obtain f1 where
      f1: "replayInput ops clk' f (word_of_nat ?n) = (f1, Ret ())" "state f1 = state e1" "replays f f1" by metis
    have "\<exists>f'. forEach (replayInput ops clk') f1 (map word_of_nat
        [base (inputLog e1) + length (recs (inputLog e1)) + 1..<?N]) = (f', Ret ()) \<and>
        state f' = state e' \<and> replays f1 f'"
      using f1(2,3) Cons.prems(3-6) 2 by (intro Cons.IH [OF h(2)]) (simp_all add: replays_def)
    moreover have "[?n..<?N] = ?n # [Suc ?n..<?N]" using n(1) by (rule upt_conv_Cons)
    ultimately show ?thesis
      using f1(1,3) 2 by (auto simp: replays_def)
  qed
qed

section \<open>One envelope per input\<close>

text \<open>The input index an output record answers.\<close>

definition answers :: "bytes \<Rightarrow> uint64" where
  "answers d = (case unmarshal OutputEnvelope_Unmarshal d of None \<Rightarrow> 0 | Some env \<Rightarrow> envInputSeq env)"

lemma answers_envelopeAt: "rawEvents out \<Longrightarrow> answers (envelopeAt clk e out i) = inputSeq e"
  using OutputEnvelope_roundtrip [of "\<lparr>envInputSeq = inputSeq e, envOutputSeq = i, envCreatedAt = clk (ticks e), envEvents = out\<rparr>"]
  by (simp add: answers_def envelopeAt_def unmarshal_def)

lemma reportsOnce_outputs:
  assumes laws: "twal_laws ops base recs" and "reportsOnce ops clk e (e', Ret ())"
  shows "base (outputLog e') = base (outputLog e) \<and> (if suppressed e then outputLog e' = outputLog e
    else map answers (recs (outputLog e')) = map answers (recs (outputLog e)) @ [inputSeq e])"
proof -
  obtain e1 evs where e1: "frame e e1" "evs \<noteq> []" "appendOutput ops clk e1 evs = (e', Ret ())"
  proof -
    have "\<exists>e1 evs. frame e e1 \<and> evs \<noteq> [] \<and>
        ((e', Ret ()) = appendOutput ops clk e1 evs \<or> (e', Ret ()) = orPanic (appendOutput ops clk e1 evs))"
      using assms(2) by (auto simp: reportsOnce_def)
    then obtain e1 evs where *: "frame e e1" "evs \<noteq> []"
      "(e', Ret ()) = appendOutput ops clk e1 evs \<or> (e', Ret ()) = orPanic (appendOutput ops clk e1 evs)" by blast
    then have "appendOutput ops clk e1 evs = (e', Ret ())"
      by (cases "appendOutput ops clk e1 evs"; cases "snd (appendOutput ops clk e1 evs)") auto
    with * show thesis by (intro that) auto
  qed
  have fr: "suppressed e1 = suppressed e" "outputLog e1 = outputLog e" "inputSeq e1 = inputSeq e"
    using e1(1) by (simp_all add: frame_def suppressed_def)
  show ?thesis
  proof (cases "suppressed e")
    case True
    with e1(3) fr show ?thesis by (simp add: appendOutput_suppressed)
  next
    case False
    with fr have "\<not> suppressed e1" by simp
    from appendOutput_record [OF laws e1(2) this e1(3)] obtain out where
      "marshalEvents evs = Some out" "base (outputLog e') = base (outputLog e1)"
      "recs (outputLog e') = recs (outputLog e1) @
         [envelopeAt clk e1 out (word_of_nat (base (outputLog e1) + length (recs (outputLog e1)) + 1))]" by metis
    with False fr show ?thesis by (simp add: answers_envelopeAt marshalEvents_raw)
  qed
qed

lemma reportsOnce_replayRequest: "reportsOnce ops clk e (replayRequest ops clk e rq)"
proof (cases rq)
  case (RqOrder x)
  then show ?thesis
    using reportsOnce_route [of ops clk "e\<lparr>state := s\<rparr>" x for s]
    by (auto simp: replayRequest_def appendReject_def reportsOnce_frame reportsOnceI split: prod.split option.split)
qed (use reportsOnce_applyRequest [of ops clk e rq] in \<open>simp_all add: replayRequest_def del: applyRequest.simps\<close>)

text \<open>
  The output log is in step with the input log: its records answer consecutive inputs, each
  exactly once, up to the last input.
\<close>

definition inStep :: "('l \<Rightarrow> nat) \<Rightarrow> ('l \<Rightarrow> bytes list) \<Rightarrow> nat \<Rightarrow> 'l Engine \<Rightarrow> bool" where
  "inStep base recs lo e \<longleftrightarrow>
     map answers (recs (outputLog e)) =
       map word_of_nat [lo..<Suc (base (inputLog e) + length (recs (inputLog e)))] \<and>
     lo \<le> Suc (base (inputLog e) + length (recs (inputLog e))) \<and>
     unat (outputAppliedSeq e) \<le> base (inputLog e) + length (recs (inputLog e))"

lemma handle_inStep:
  assumes laws: "twal_laws ops base recs" and step: "inStep base recs lo e"
    and h: "handle ops clk e m = (e', Ret r)"
    and bnd: "base (inputLog e) + length (recs (inputLog e)) + 1 < 2 ^ 64"
  shows "inStep base recs lo e'"
proof (cases rule: handle_log [OF laws h])
  case 1
  with step show ?thesis by simp
next
  case (2 rq l idx)
  let ?n = "base (inputLog e) + length (recs (inputLog e))" and ?e = "admitted e rq l idx"
  have idx: "unat idx = Suc ?n" using unat_word_of_nat64 [of "Suc ?n"] bnd 2(4) by simp
  have lo: "map answers (recs (outputLog e)) = map word_of_nat [lo..<Suc ?n]" "lo \<le> Suc ?n"
    "unat (outputAppliedSeq e) \<le> ?n"
    using step by (auto simp: inStep_def)
  have "\<not> suppressed ?e"
    using lo(3) idx by (simp add: suppressed_def admitted_def word_le_nat_alt word_less_nat_alt)
  moreover have "reportsOnce ops clk ?e (e', Ret ())"
    using reportsOnce_applyRequest [of ops clk ?e rq] 2(5) by simp
  ultimately have "map answers (recs (outputLog e')) = map answers (recs (outputLog e)) @ [idx]"
    using reportsOnce_outputs [OF laws, of clk ?e e'] by (simp add: admitted_def)
  moreover have "outputAppliedSeq e' = outputAppliedSeq e"
    using applyRequest_inputLog(4) [of ops clk ?e rq] 2(5) by (simp add: admitted_def)
  ultimately show ?thesis
    using 2(2-4) lo by (simp add: inStep_def)
qed

lemma handle_outBase:
  assumes laws: "twal_laws ops base recs" and h: "handle ops clk e m = (e', Ret r)"
  shows "base (outputLog e') = base (outputLog e)"
proof (cases rule: handle_log [OF laws h])
  case (2 rq l idx)
  then show ?thesis
    using reportsOnce_outputs [OF laws, of clk "admitted e rq l idx" e']
      reportsOnce_applyRequest [of ops clk "admitted e rq l idx" rq] by (simp add: admitted_def)
qed simp

lemma handleAll_outBase:
  assumes laws: "twal_laws ops base recs"
  shows "handleAll ops clk e ms = (e', Ret ()) \<Longrightarrow> base (outputLog e') = base (outputLog e)"
proof (induction ms arbitrary: e)
  case (Cons m ms)
  show ?case by (rule handleAll_Cons [OF Cons.prems]) (use Cons.IH handle_outBase [OF laws] in metis)
qed simp

lemma handleAll_inStep:
  assumes laws: "twal_laws ops base recs"
  shows "inStep base recs lo e \<Longrightarrow> handleAll ops clk e ms = (e', Ret ()) \<Longrightarrow>
    base (inputLog e') + length (recs (inputLog e')) < 2 ^ 64 \<Longrightarrow> inStep base recs lo e'"
proof (induction ms arbitrary: e)
  case (Cons m ms)
  obtain e1 r where h: "handle ops clk e m = (e1, Ret r)" "handleAll ops clk e1 ms = (e', Ret ())"
    by (rule handleAll_Cons [OF Cons.prems(2)])
  show ?case
  proof (cases rule: handle_log [OF laws h(1)])
    case 1
    then show ?thesis using Cons.IH [OF _ h(2)] Cons.prems by simp
  next
    case 2
    have "base (inputLog e) + length (recs (inputLog e)) + 1 < 2 ^ 64"
      using handleAll_log [OF laws h(2)] 2(2,3) Cons.prems(3) by auto
    with handle_inStep [OF laws Cons.prems(1) h(1)] Cons.IH [OF _ h(2)] Cons.prems(3) show ?thesis by simp
  qed
qed simp

section \<open>What a restarted engine knows\<close>

definition keyOf :: "bytes \<Rightarrow> string \<times> int64" where
  "keyOf m = (case requestOf m of None \<Rightarrow> ('''', 0) | Some rq \<Rightarrow> (requestKind rq, requestId rq))"

definition decodable :: "bytes list \<Rightarrow> bool" where
  "decodable ms \<longleftrightarrow> (\<forall>m\<in>set ms. requestOf m \<noteq> None)"

lemma rememberInput_request:
  assumes "Read ops (inputLog e) i = Ret m" "requestOf m = Some rq"
  shows "rememberInput ops e i = (e\<lparr>dedup := dedup_add (dedup e) (requestKind rq) (requestId rq)\<rparr>, Ret ())"
proof -
  obtain env where env: "unmarshal envelope_Unmarshal m = Some env" "decodeRequest env = Some rq"
    using assms(2) by (auto simp: requestOf_def bind_eq_Some_conv)
  show ?thesis
    using env assms(1) decodeRequest_kind [OF env(2)]
    by (cases rq) (auto simp: rememberInput_def ofOutcome_def readAs_def Let_def decoded_def
        decodeRequest_def split: if_splits)
qed

lemma forEach_remember:
  assumes rel: "twal_reliable ops base recs"
  shows "decodable (recs (inputLog e)) \<Longrightarrow> base (inputLog e) + length (recs (inputLog e)) < 2 ^ 64 \<Longrightarrow>
    k + n = length (recs (inputLog e)) \<Longrightarrow>
    forEach (rememberInput ops) e (map word_of_nat [base (inputLog e) + k + 1..<base (inputLog e) + k + n + 1]) =
      (e\<lparr>dedup := rememberAll (dedup e) (map keyOf (drop k (recs (inputLog e))))\<rparr>, Ret ())"
proof (induction n arbitrary: e k)
  case 0
  then show ?case by (simp add: rememberAll_def)
next
  case (Suc n)
  let ?r = "recs (inputLog e)"
  have k: "k < length ?r" using Suc.prems(3) by simp
  obtain rq where rq: "requestOf (?r ! k) = Some rq" using Suc.prems(1) k by (force simp: decodable_def)
  define e1 where "e1 = e\<lparr>dedup := dedup_add (dedup e) (requestKind rq) (requestId rq)\<rparr>"
  have "rememberInput ops e (word_of_nat (base (inputLog e) + k + 1)) = (e1, Ret ())"
    unfolding e1_def by (rule rememberInput_request [OF Read_reliable [OF rel k Suc.prems(2)] rq])
  moreover have "[base (inputLog e) + k + 1..<base (inputLog e) + k + Suc n + 1] =
      (base (inputLog e) + k + 1) # [base (inputLog e) + Suc k + 1..<base (inputLog e) + Suc k + n + 1]"
    by (simp add: upt_conv_Cons)
  moreover have "drop k ?r = ?r ! k # drop (Suc k) ?r" using k by (rule Cons_nth_drop_Suc [symmetric])
  moreover have "forEach (rememberInput ops) e1 (map word_of_nat [base (inputLog e1) + Suc k + 1..<base (inputLog e1) + Suc k + n + 1]) =
      (e1\<lparr>dedup := rememberAll (dedup e1) (map keyOf (drop (Suc k) (recs (inputLog e1))))\<rparr>, Ret ())"
    using Suc.prems by (intro Suc.IH) (simp_all add: e1_def)
  moreover have "keyOf (?r ! k) = (requestKind rq, requestId rq)" by (simp add: keyOf_def rq)
  ultimately show ?case by (simp add: e1_def rememberAll_def del: upt_Suc)
qed

text \<open>
  The tail of the input log that is read back: the last \<open>dedupWindow\<close> records, or all of them.
  A log that was cleaned up must still hold that many.
\<close>

abbreviation windowSize :: nat where "windowSize \<equiv> 8192"

definition windowKept :: "nat \<Rightarrow> bytes list \<Rightarrow> bool" where
  "windowKept b ms \<longleftrightarrow> b = 0 \<or> windowSize \<le> length ms"

lemma dedupStart_window:
  assumes "unat n = b + l" "b = 0 \<or> windowSize \<le> l" "window d = dedupWindow"
  shows "unat (dedupStart d n) = b + (l - windowSize) + 1"
proof -
  have w: "unat (word_of_int 8192 :: uint64) = 8192" by simp
  show ?thesis
  proof (cases "n > word_of_int 8192")
    case True
    then have gt: "windowSize < unat n" using w by (simp add: word_less_nat_alt)
    then have sub: "unat (n - word_of_int 8192) = unat n - windowSize"
      using w by (subst unat_sub_le) (simp_all add: word_le_nat_alt)
    have "unat (n - word_of_int 8192) + unat (1 :: uint64) < 2 ^ 64"
      using sub unat_64_less [of n] gt by simp
    then have "unat (n - word_of_int 8192 + 1) = unat n - windowSize + 1"
      using sub by (subst unat_add_less) simp_all
    moreover have "dedupStart d n = n - word_of_int 8192 + 1"
      using True assms(3) by (simp add: dedupStart_def)
    ultimately show ?thesis using gt assms(1,2) by auto
  next
    case False
    then have "unat n \<le> windowSize" using w by (simp add: word_less_nat_alt)
    with False assms show ?thesis by (auto simp: dedupStart_def Let_def)
  qed
qed

lemma loadDedup_window:
  assumes laws: "twal_laws ops base recs" and rel: "twal_reliable ops base recs"
    and "decodable (recs (inputLog e))" "base (inputLog e) + length (recs (inputLog e)) < 2 ^ 64"
    and "windowKept (base (inputLog e)) (recs (inputLog e))" "window (dedup e) = dedupWindow"
  shows "loadDedup ops e = (e\<lparr>dedup := rememberAll (dedup e) (map keyOf
    (drop (length (recs (inputLog e)) - windowSize) (recs (inputLog e))))\<rparr>, Ret ())"
proof -
  let ?b = "base (inputLog e)" and ?r = "recs (inputLog e)"
  let ?n = "?b + length ?r" and ?k = "length ?r - windowSize"
  have u: "unat (word_of_nat ?n :: uint64) = ?n" by (rule unat_word_of_nat64 [OF assms(4)])
  note ix = LastIndex_reliable [OF laws rel, of "inputLog e"]
  show ?thesis
  proof (cases "?n = 0")
    case True
    then show ?thesis using ix by (simp add: loadDedup_def ofOutcome_def rememberAll_def)
  next
    case False
    then have nz: "(word_of_nat ?n :: uint64) \<noteq> 0" using u by auto
    have "unat (dedupStart (dedup e) (word_of_nat ?n)) = ?b + ?k + 1"
      using assms(5,6) by (intro dedupStart_window u) (auto simp: windowKept_def)
    then have "indices (dedupStart (dedup e) (word_of_nat ?n)) (word_of_nat ?n) =
        map word_of_nat [?b + ?k + 1..<?b + ?k + (length ?r - ?k) + 1]"
      using u by (simp add: indices_def del: of_nat_add)
    then show ?thesis
      using forEach_remember [OF rel assms(3,4), of ?k "length ?r - ?k"] nz ix
      by (simp add: loadDedup_def ofOutcome_def del: of_nat_add)
  qed
qed

section \<open>Rebooting\<close>

text \<open>The engine before its first message, over two logs, with a given watermark.\<close>

definition emptyEngine :: "'l \<Rightarrow> 'l \<Rightarrow> 'l Engine" where
  "emptyEngine input outp =
     \<lparr>inputLog = input, outputLog = outp, state = NewState, inputSeq = 0, outputAppliedSeq = 0,
      lastTradeID = 0, dedup = newDedup dedupWindow, outputSignal = False, ticks = 0\<rparr>"

lemma emptyEngine_simps [simp]:
  "inputLog (emptyEngine i out) = i" "outputLog (emptyEngine i out) = out" "state (emptyEngine i out) = NewState"
  "outputAppliedSeq (emptyEngine i out) = 0" "dedup (emptyEngine i out) = newDedup dedupWindow"
  "inputSeq (emptyEngine i out) = 0"
  by (simp_all add: emptyEngine_def)

definition lastAnswer :: "bytes list \<Rightarrow> uint64" where
  "lastAnswer ds = (if ds = [] then 0 else answers (last ds))"

lemma loadOutputWatermark_answer:
  assumes laws: "twal_laws ops base recs" and rel: "twal_reliable ops base recs"
    and bnd: "base (outputLog e) + length (recs (outputLog e)) < 2 ^ 64"
    and ok: "if recs (outputLog e) = [] then base (outputLog e) = 0 else lastAnswer (recs (outputLog e)) \<noteq> 0"
  shows "loadOutputWatermark ops e = (e\<lparr>outputAppliedSeq := lastAnswer (recs (outputLog e))\<rparr>, Ret ())"
proof (cases "recs (outputLog e) = []")
  case True
  then show ?thesis using ok LastIndex_reliable [OF laws rel, of "outputLog e"]
    by (simp add: loadOutputWatermark_def ofOutcome_def lastAnswer_def)
next
  case False
  let ?b = "base (outputLog e)" and ?r = "recs (outputLog e)"
  have ix: "LastIndex ops (outputLog e) = Ret (word_of_nat (?b + length ?r))" by (rule LastIndex_reliable [OF laws rel])
  have nz: "(word_of_nat (?b + length ?r) :: uint64) \<noteq> 0"
    using False unat_word_of_nat64 [OF bnd] by (metis add_is_0 length_0_conv unat_0)
  have rd: "Read ops (outputLog e) (word_of_nat (?b + length ?r)) = Ret (last ?r)"
    using Read_reliable [OF rel, of "length ?r - 1" "outputLog e"] False bnd
    by (simp add: last_conv_nth Suc_leI del: of_nat_add)
  obtain env where "unmarshal OutputEnvelope_Unmarshal (last ?r) = Some env" "envInputSeq env = lastAnswer ?r"
    using ok False by (auto simp: lastAnswer_def answers_def split: option.splits)
  with ix rd nz show ?thesis
    by (simp add: loadOutputWatermark_def ofOutcome_def readAs_def del: of_nat_add)
qed

lemma NewEngine_boots:
  assumes laws: "twal_laws ops base recs" and rel: "twal_reliable ops base recs"
    and "base out + length (recs out) < 2 ^ 64" "base i + length (recs i) < 2 ^ 64"
    and "if recs out = [] then base out = 0 else lastAnswer (recs out) \<noteq> 0"
    and "decodable (recs i)" "windowKept (base i) (recs i)"
  shows "NewEngine ops i out = ((emptyEngine i out)\<lparr>outputAppliedSeq := lastAnswer (recs out),
    dedup := rememberAll (newDedup dedupWindow) (map keyOf (drop (length (recs i) - windowSize) (recs i)))\<rparr>, Ret ())"
proof -
  have "window (newDedup dedupWindow) = dedupWindow" by (simp add: newDedup_def)
  then show ?thesis
    using loadOutputWatermark_answer [OF laws rel, of "emptyEngine i out"] assms(3-7)
      loadDedup_window [OF laws rel, of "(emptyEngine i out)\<lparr>outputAppliedSeq := lastAnswer (recs out)\<rparr>"]
    by (simp add: NewEngine_def emptyEngine_def [symmetric])
qed

lemma handleAll_decodable:
  assumes laws: "twal_laws ops base recs"
  shows "decodable (recs (inputLog e)) \<Longrightarrow> handleAll ops clk e ms = (e', Ret ()) \<Longrightarrow> decodable (recs (inputLog e'))"
proof (induction ms arbitrary: e)
  case (Cons m ms)
  obtain e1 r where h: "handle ops clk e m = (e1, Ret r)" "handleAll ops clk e1 ms = (e', Ret ())"
    by (rule handleAll_Cons [OF Cons.prems(2)])
  have "decodable (recs (inputLog e1))"
    using Cons.prems(1) by (cases rule: handle_log [OF laws h(1)]) (auto simp: decodable_def)
  then show ?case using Cons.IH h(2) by blast
qed simp

lemma handleAll_tradeID:
  "lastTradeID e \<le> int64_max \<Longrightarrow> handleAll ops clk e ms = (e', Ret ()) \<Longrightarrow> lastTradeID e' \<le> int64_max"
proof (induction ms arbitrary: e)
  case (Cons m ms)
  obtain e1 r where h: "handle ops clk e m = (e1, Ret r)" "handleAll ops clk e1 ms = (e', Ret ())"
    by (rule handleAll_Cons [OF Cons.prems(2)])
  have "lastTradeID e1 \<le> int64_max"
  proof (cases rule: handle_Ret [OF h(1)])
    case (2 rq l idx)
    then show ?thesis using idKept_requests(1) [of "admitted e rq l idx" ops clk rq] Cons.prems(1) by (simp add: idKept_def admitted_def)
  qed (use Cons.prems(1) in simp)
  then show ?case using Cons.IH h(2) by blast
qed simp

text \<open>
  The history of an exchange from empty logs: the messages handled so far without an error.
\<close>

definition history :: "'l twal \<Rightarrow> ('l \<Rightarrow> nat) \<Rightarrow> ('l \<Rightarrow> bytes list) \<Rightarrow> clock \<Rightarrow> 'l \<Rightarrow> 'l \<Rightarrow> bytes list \<Rightarrow> 'l Engine \<Rightarrow> bool" where
  "history ops base recs clk i out ms e \<longleftrightarrow>
     base i = 0 \<and> recs i = [] \<and> base out = 0 \<and> recs out = [] \<and>
     handleAll ops clk (emptyEngine i out) ms = (e, Ret ())"

lemma history_facts:
  assumes laws: "twal_laws ops base recs" and h: "history ops base recs clk i out ms e"
    and bnd: "length (recs (inputLog e)) < 2 ^ 64"
  shows "base (inputLog e) = 0" "decodable (recs (inputLog e))" "base (outputLog e) = 0"
    "map answers (recs (outputLog e)) = map word_of_nat [1..<Suc (length (recs (inputLog e)))]"
    "lastAnswer (recs (outputLog e)) = word_of_nat (length (recs (inputLog e)))"
    "unat (outputAppliedSeq e) \<le> length (recs (inputLog e))" "lastTradeID e \<le> int64_max"
proof -
  let ?n = "length (recs (inputLog e))"
  have run: "handleAll ops clk (emptyEngine i out) ms = (e, Ret ())" using h by (simp add: history_def)
  show base: "base (inputLog e) = 0" using handleAll_log [OF laws run] h by (simp add: history_def)
  show "base (outputLog e) = 0" using handleAll_outBase [OF laws run] h by (simp add: history_def)
  show "decodable (recs (inputLog e))"
    using handleAll_decodable [OF laws _ run] h by (simp add: history_def decodable_def)
  have "inStep base recs 1 (emptyEngine i out)" using h by (simp add: history_def inStep_def)
  then have "inStep base recs 1 e" using handleAll_inStep [OF laws _ run] base bnd by simp
  then show a: "map answers (recs (outputLog e)) = map word_of_nat [1..<Suc ?n]"
    and "unat (outputAppliedSeq e) \<le> ?n"
    using base by (simp_all add: inStep_def)
  show "lastTradeID e \<le> int64_max" by (rule handleAll_tradeID [OF _ run]) (simp add: emptyEngine_def)
  show "lastAnswer (recs (outputLog e)) = word_of_nat ?n"
  proof (cases "?n = 0")
    case True
    with a show ?thesis by (simp add: lastAnswer_def)
  next
    case False
    then have "recs (outputLog e) \<noteq> []" using arg_cong [OF a, of length] by (auto simp del: upt_Suc)
    then have "answers (last (recs (outputLog e))) = last (map word_of_nat [1..<Suc ?n])"
      using a last_map [of "recs (outputLog e)" answers] by simp
    moreover have "[1..<Suc ?n] = [1..<?n] @ [?n]" using False by (simp add: Suc_le_eq)
    ultimately show ?thesis using \<open>recs (outputLog e) \<noteq> []\<close> by (simp add: lastAnswer_def)
  qed
qed

lemma history_reboots:
  assumes laws: "twal_laws ops base recs" and rel: "twal_reliable ops base recs"
    and h: "history ops base recs clk i out ms e" and "length (recs (inputLog e)) < 2 ^ 64"
    and l: "base l = 0" "recs l = recs (inputLog e) @ zs" "decodable zs" "length (recs l) < 2 ^ 64"
  obtains f where "NewEngine ops l (outputLog e) = (f, Ret ())" "inputLog f = l" "outputLog f = outputLog e"
    "state f = NewState" "unat (outputAppliedSeq f) = length (recs (inputLog e))"
    "dedup f = rememberAll (newDedup dedupWindow) (map keyOf (drop (length (recs l) - windowSize) (recs l)))"
proof -
  let ?n = "length (recs (inputLog e))"
  note H = history_facts [OF laws h assms(4)]
  have n: "length (recs (outputLog e)) = ?n" using arg_cong [OF H(4), of length] by (simp del: upt_Suc)
  have "lastAnswer (recs (outputLog e)) \<noteq> 0" if "recs (outputLog e) \<noteq> []"
    using that n H(5) unat_word_of_nat64 [OF assms(4)] by (metis length_0_conv unat_0)
  moreover have "decodable (recs l)" using H(2) l(2,3) by (auto simp: decodable_def)
  ultimately have "NewEngine ops l (outputLog e) = ((emptyEngine l (outputLog e))\<lparr>
      outputAppliedSeq := lastAnswer (recs (outputLog e)),
      dedup := rememberAll (newDedup dedupWindow) (map keyOf (drop (length (recs l) - windowSize) (recs l)))\<rparr>, Ret ())"
    using H(3) n assms(4) l by (intro NewEngine_boots [OF laws rel]) (simp_all add: windowKept_def)
  then show thesis
    by (rule that) (simp_all add: H(5) unat_word_of_nat64 [OF assms(4)])
qed

lemma indices_all: "n < 2 ^ 64 \<Longrightarrow> indices 1 (word_of_nat n) = map word_of_nat [1..<Suc n]"
  by (simp add: indices_def unat_word_of_nat64)

lemma forEach_append: "forEach body e (xs @ ys) = andThen (forEach body e xs) (\<lambda>e1 _. forEach body e1 ys)"
proof (induction xs arbitrary: e)
  case (Cons x xs)
  obtain e1 r where "body e x = (e1, r)" by fastforce
  with Cons show ?case by (cases r) simp_all
qed simp

text \<open>
  C5: After a crash, the engine booted from the two logs and replaying the input log ends with
  the ledger it had before: when every input was answered in the output log, the boot and the
  replay succeed, the ledger is the same one, and the replay adds nothing to the output log.
\<close>

theorem reboot_restores_ledger:
  assumes "twal_laws ops base recs" "twal_reliable ops base recs"
    and "history ops base recs clk i out ms e" "length (recs (inputLog e)) + 1 < 2 ^ 64"
  shows "\<exists>f f'. NewEngine ops (inputLog e) (outputLog e) = (f, Ret ()) \<and>
    Replay ops clk' dec None f = (f', Ret ()) \<and> state f' = state e \<and>
    inputLog f' = inputLog e \<and> outputLog f' = outputLog e"
proof -
  let ?n = "length (recs (inputLog e))"
  have n: "?n < 2 ^ 64" using assms(4) by simp
  note H = history_facts [OF assms(1,3) n]
  obtain f where f: "NewEngine ops (inputLog e) (outputLog e) = (f, Ret ())" "inputLog f = inputLog e"
    "outputLog f = outputLog e" "state f = NewState" "unat (outputAppliedSeq f) = ?n"
    by (rule history_reboots [OF assms(1-3) n, of "inputLog e" "[]"]) (use H(1) n in \<open>auto simp: decodable_def\<close>)
  have run: "handleAll ops clk (emptyEngine i out) ms = (e, Ret ())" "recs i = []" "base i = 0"
    using assms(3) by (simp_all add: history_def)
  have "\<exists>f'. forEach (replayInput ops clk') f (map word_of_nat [1..<?n + 1]) = (f', Ret ()) \<and>
      state f' = state e \<and> replays f f'"
    using replay_handled [OF assms(1,2) run(1), of f "[]" clk'] run(2,3) f(2,4,5) H(1) n by simp
  moreover have "LastIndex ops (inputLog f) = Ret (word_of_nat ?n)"
    using LastIndex_reliable [OF assms(1,2), of "inputLog f"] H(1) f(2) by simp
  ultimately show ?thesis
    using f n by (auto simp: Replay_def loadSnapshot_def ofOutcome_def indices_all replays_def)
qed

subsection \<open>A short history\<close>

text \<open>The exchange whose only message so far registered account 7 with 1000 of cash.\<close>

definition messageOf :: "string \<Rightarrow> json \<Rightarrow> bytes" where
  "messageOf p d = Text (JObj [(''pattern'', JStr p), (''data'', d)])"

lemma envelope_messageOf: "unmarshal envelope_Unmarshal (messageOf p d) = Some \<lparr>inPattern = p, inData = Text d\<rparr>"
  by (simp add: messageOf_def unmarshal_def envelope_Unmarshal_def dec_defs)

definition account7 :: Account where
  "account7 = \<lparr>aId = 7, aBalance = 1000, aAvailableBalance = 1000\<rparr>"

definition message7 :: bytes where
  "message7 = messageOf PatternAccountCreated (Account_Marshal account7)"

lemma request_message7: "requestOf message7 = Some (RqAccount account7)"
proof -
  have "Account_Unmarshal (Account_Marshal account7) = Some account7"
    by (rule Account_roundtrip) (simp_all add: account7_def)
  then show ?thesis
    by (simp add: message7_def requestOf_def envelope_messageOf decodeRequest_def unmarshal_def [of Account_Unmarshal])
qed

lemma Append_memEmpty: "Append memOps memEmpty m = Ret (\<lparr>mlBase = 0, mlRecs = [m]\<rparr>, 1)"
  by (simp add: Append_def AppendWithIndex_def memOps_def memEmpty_def memLast_def)

lemma history7:
  obtains e where "history memOps mlBase mlRecs sampleClock memEmpty memEmpty [message7] e"
    "mlRecs (inputLog e) = [message7]" "getAccount (state e) 7 = Some account7"
proof -
  let ?e = "admitted (emptyEngine memEmpty memEmpty) (RqAccount account7) \<lparr>mlBase = 0, mlRecs = [message7]\<rparr> 1"
  let ?f = "?e\<lparr>state := setAccount (state ?e) account7\<rparr>"
  obtain e where e: "appendOutput memOps sampleClock ?f [ev PatternAccountActivated (EvAccount account7)] = (e, Ret ())"
    using appendOutput_reliable [OF memOps_laws memOps_reliable, of "[ev PatternAccountActivated (EvAccount account7)]" ?f sampleClock]
    by (auto simp: admitted_def memEmpty_def)
  have "handle memOps sampleClock (emptyEngine memEmpty memEmpty) message7 = (e, Ret Ack)"
    using e by (simp add: handle_request request_message7 handleRequest_def admit_def Append_memEmpty
        admitted_def activateAccount_def acked_def account7_def)
  moreover have "inputLog e = \<lparr>mlBase = 0, mlRecs = [message7]\<rparr>" "state e = setAccount NewState account7"
    using appendOutput_frame(1,2) [OF e] by (simp_all add: admitted_def)
  ultimately show thesis
    by (intro that [of e]) (simp_all add: history_def memEmpty_def account7_def)
qed

theorem reboot_restores_ledger_witness:
  "\<exists>e f f'. history memOps mlBase mlRecs sampleClock memEmpty memEmpty [message7] e \<and>
     NewEngine memOps (inputLog e) (outputLog e) = (f, Ret ()) \<and>
     Replay memOps sampleClock Some None f = (f', Ret ()) \<and> getAccount (state f') 7 = Some account7"
proof -
  obtain e where e: "history memOps mlBase mlRecs sampleClock memEmpty memEmpty [message7] e"
    "mlRecs (inputLog e) = [message7]" "getAccount (state e) 7 = Some account7" by (rule history7)
  from reboot_restores_ledger [OF memOps_laws memOps_reliable e(1), of sampleClock Some] e(2,3)
  obtain f f' where "NewEngine memOps (inputLog e) (outputLog e) = (f, Ret ())"
    "Replay memOps sampleClock Some None f = (f', Ret ())" "state f' = state e" by auto
  with e show ?thesis by auto
qed

section \<open>A crash in the middle\<close>

text \<open>The last step of a replay.\<close>

lemma Replay_last:
  assumes "twal_laws ops base recs" "twal_reliable ops base recs" "base (inputLog f) + length (recs (inputLog f)) = Suc n"
    and "forEach (replayInput ops clk) f (map word_of_nat [1..<Suc n]) = (f1, Ret ())"
    and "Read ops (inputLog f1) (word_of_nat (Suc n)) = Ret m" "requestOf m = Some rq" "Suc n < 2 ^ 64"
  shows "Replay ops clk dec None f = replayRequest ops clk (f1\<lparr>inputSeq := word_of_nat (Suc n)\<rparr>) rq"
proof -
  have "LastIndex ops (inputLog f) = Ret (word_of_nat (Suc n))"
    using LastIndex_reliable [OF assms(1,2), of "inputLog f"] assms(3) by simp
  moreover have "indices 1 (word_of_nat (Suc n)) = map word_of_nat [1..<Suc n] @ [word_of_nat (Suc n)]"
    using assms(7) by (subst indices_all) simp_all
  moreover have "andThen p (\<lambda>e1 _. (e1, Ret ())) = p" for p :: "('a, unit) result"
    by (cases p; cases "snd p") (auto simp: andThen_def)
  ultimately show ?thesis
    using assms(4) replayInput_request [OF assms(5,6), of clk]
    by (simp add: Replay_def loadSnapshot_def ofOutcome_def forEach_append del: of_nat_Suc upt_Suc)
qed

text \<open>
  C6: When the engine crashes after logging an input and before its output is written, the next
  boot repairs it. On logs that take records, from a history that began with empty logs, and for a
  request whose first run went through, \<open>NewEngine\<close> and \<open>Replay\<close> both succeed, whatever id up to
  the crashed engine's last one the search for the last trade id has left in between; afterwards the
  output log answers every input exactly once, in the order of the inputs, and the ledger is the
  one the interrupted request would have left. The boot is from the logs, without a snapshot.
\<close>

theorem reboot_catches_up:
  assumes "twal_laws ops base recs" "twal_reliable ops base recs"
    and "history ops base recs clk i out ms e" "length (recs (inputLog e)) + 2 < 2 ^ 64"
    and "requestOf m = Some rq" "Append ops (inputLog e) m = Ret (l, idx)"
    and "applyRequest ops clk (admitted e rq l idx) rq = (e', Ret ())" "k \<le> lastTradeID e"
  shows "\<exists>f f'. NewEngine ops l (outputLog e) = (f, Ret ()) \<and>
    Replay ops clk' dec None (f\<lparr>lastTradeID := k\<rparr>) = (f', Ret ()) \<and> state f' = state e' \<and>
    map answers (recs (outputLog f')) = map word_of_nat [1..<Suc (length (recs l))]"
proof -
  let ?n = "length (recs (inputLog e))"
  have n: "?n < 2 ^ 64" using assms(4) by simp
  note H = history_facts [OF assms(1,3) n]
  have l: "base l = 0" "recs l = recs (inputLog e) @ [m]" "length (recs l) < 2 ^ 64" "idx = word_of_nat (Suc ?n)"
    using Append_Ret [OF assms(1,6)] H(1) assms(4) by simp_all
  obtain f0 where f0: "NewEngine ops l (outputLog e) = (f0, Ret ())" "inputLog f0 = l" "outputLog f0 = outputLog e"
    "state f0 = NewState" "unat (outputAppliedSeq f0) = ?n"
    by (rule history_reboots [OF assms(1-3) n, of l "[m]"]) (use l assms(5) in \<open>auto simp: decodable_def\<close>)
  define f where "f = f0\<lparr>lastTradeID := k\<rparr>"
  have f: "inputLog f = l" "outputLog f = outputLog e" "state f = NewState" "unat (outputAppliedSeq f) = ?n" "lastTradeID f = k"
    using f0 by (simp_all add: f_def)
  have run: "handleAll ops clk (emptyEngine i out) ms = (e, Ret ())" "recs i = []" "base i = 0"
    using assms(3) by (simp_all add: history_def)
  obtain f1 where f1: "forEach (replayInput ops clk') f (map word_of_nat [1..<Suc ?n]) = (f1, Ret ())"
    "state f1 = state e" "replays f f1"
    using replay_handled [OF assms(1,2) run(1), of f "[m]" clk'] run(2,3) f(1,3,4) H(1) n l by auto
  let ?i = "word_of_nat (Suc ?n)" let ?f = "f1\<lparr>inputSeq := ?i\<rparr>" let ?e = "admitted e rq l idx"
  have i: "unat (?i :: uint64) = Suc ?n" using assms(4) by (intro unat_word_of_nat64) simp
  have rd: "Read ops (inputLog f1) ?i = Ret m"
    using Read_reliable [OF assms(2), of ?n "inputLog f1"] f1(3) f(1) l by (simp add: replays_def)
  have loop: "Replay ops clk' dec None f = replayRequest ops clk' ?f rq"
    by (rule Replay_last [OF assms(1,2) _ f1(1) rd assms(5)]) (use f(1) l assms(4) in simp_all)
  have ns: "\<not> suppressed ?f" "\<not> suppressed ?e"
    using f(4) f1(3) i H(6) l(4) by (simp_all add: suppressed_def replays_def admitted_def word_le_nat_alt del: of_nat_Suc)
  have "shadows (outputLog e) ?e ?f"
    using ns f1(2,3) f(2,5) assms(8) H(7) by (simp add: shadows_def replays_def admitted_def)
  moreover have "takesRecord base recs (outputLog e)"
    using H(3) arg_cong [OF H(4), of length] assms(4) by (simp add: takesRecord_def del: upt_Suc)
  ultimately obtain f' where f': "replayRequest ops clk' ?f rq = (f', Ret ())"
    using returns_replayRequest [OF assms(1,2), of "outputLog e" ?e ?f ops clk rq clk'] assms(7) by (auto simp: retraces_def)
  have "map answers (recs (outputLog f')) = map word_of_nat [1..<Suc (length (recs l))]"
    using reportsOnce_outputs [OF assms(1), of clk' ?f f'] reportsOnce_replayRequest [of ops clk' ?f rq]
      ns(1) f' f1(3) f(2) H(4) l(2) by (simp add: replays_def del: of_nat_Suc)
  moreover have "agrees (\<lambda>_ _. True) (recoveryMark ?f) (applyRequest ops clk ?e rq) (replayRequest ops clk' ?f rq)"
    by (rule agrees_replayRequest) (simp_all add: f1(2) admitted_def)
  then have "state f' = state e'" using f' assms(7) by simp
  ultimately show ?thesis
    using f0(1) trans [OF loop f'] unfolding f_def by (intro exI [of _ f0] exI [of _ f']) simp
qed

text \<open>A second registration, which a crash interrupts.\<close>

definition account9 :: Account where
  "account9 = \<lparr>aId = 9, aBalance = 500, aAvailableBalance = 500\<rparr>"

definition message9 :: bytes where
  "message9 = messageOf PatternAccountCreated (Account_Marshal account9)"

lemma request_message9: "requestOf message9 = Some (RqAccount account9)"
proof -
  have "Account_Unmarshal (Account_Marshal account9) = Some account9"
    by (rule Account_roundtrip) (simp_all add: account9_def)
  then show ?thesis
    by (simp add: message9_def requestOf_def envelope_messageOf decodeRequest_def unmarshal_def [of Account_Unmarshal])
qed

theorem reboot_catches_up_witness:
  "\<exists>e l f f'. history memOps mlBase mlRecs sampleClock memEmpty memEmpty [message7] e \<and>
     Append memOps (inputLog e) message9 = Ret (l, 2) \<and> NewEngine memOps l (outputLog e) = (f, Ret ()) \<and>
     Replay memOps sampleClock Some None (f\<lparr>lastTradeID := lastTradeID e\<rparr>) = (f', Ret ()) \<and>
     map answers (mlRecs (outputLog f')) = [1, 2] \<and> getAccount (state f') 9 = Some account9"
proof -
  obtain e where e: "history memOps mlBase mlRecs sampleClock memEmpty memEmpty [message7] e"
    "mlRecs (inputLog e) = [message7]" by (rule history7)
  note H = history_facts [OF memOps_laws e(1)]
  let ?l = "\<lparr>mlBase = 0, mlRecs = [message7, message9]\<rparr>"
  have l: "Append memOps (inputLog e) message9 = Ret (?l, 2)"
    using H(1) e(2) by (simp add: Append_def AppendWithIndex_def memOps_def memLast_def)
  let ?e = "admitted e (RqAccount account9) ?l 2"
  have out: "mlBase (outputLog e) = 0" "length (mlRecs (outputLog e)) = 1"
    using H(3) arg_cong [OF H(4), of length] e(2) by simp_all
  let ?s = "setAccount (state ?e) account9"
  obtain e' where e': "appendOutput memOps sampleClock (?e\<lparr>state := ?s\<rparr>) [ev PatternAccountActivated (EvAccount account9)] = (e', Ret ())"
    using appendOutput_reliable [OF memOps_laws memOps_reliable, of "[ev PatternAccountActivated (EvAccount account9)]" "?e\<lparr>state := ?s\<rparr>" sampleClock]
      out by (auto simp: admitted_def)
  have ap: "applyRequest memOps sampleClock ?e (RqAccount account9) = (e', Ret ())"
    using e' by (simp add: activateAccount_def)
  have "getAccount (state e') 9 = Some account9"
    using appendOutput_frame(1) [OF e'] by (simp add: account9_def)
  moreover obtain f f' where "NewEngine memOps ?l (outputLog e) = (f, Ret ())"
    "Replay memOps sampleClock Some None (f\<lparr>lastTradeID := lastTradeID e\<rparr>) = (f', Ret ())" "state f' = state e'"
    "map answers (mlRecs (outputLog f')) = map word_of_nat [1..<Suc (length (mlRecs ?l))]"
    using reboot_catches_up [OF memOps_laws memOps_reliable e(1) _ request_message9 l ap order.refl, of sampleClock Some] e(2) by auto
  ultimately show ?thesis using e(1) l by (intro exI [of _ e] exI [of _ ?l] exI [of _ f] exI [of _ f']) simp
qed

section \<open>Redelivered messages\<close>

text \<open>
  C33: A message that the broker delivers again after a restart is recognised: when it is among
  the last 8192 records of the input log, the rebooted engine acknowledges it and changes
  nothing. (An id of zero is not recognised by the filter's design.)
\<close>

theorem redelivery_after_restart:
  assumes "twal_laws ops base recs" "twal_reliable ops base recs"
    and "base out + length (recs out) < 2 ^ 64" "base i + length (recs i) < 2 ^ 64"
    and "if recs out = [] then base out = 0 else lastAnswer (recs out) \<noteq> 0"
    and "decodable (recs i)" "windowKept (base i) (recs i)"
    and "m \<in> set (drop (length (recs i) - windowSize) (recs i))"
    and "requestOf m = Some rq" "admissible rq" "requestId rq \<noteq> 0"
  shows "\<exists>f. NewEngine ops i out = (f, Ret ()) \<and> handle ops clk f m = (f, Ret Ack)"
proof -
  let ?xs = "map keyOf (drop (length (recs i) - windowSize) (recs i))"
  have "(requestKind rq, requestId rq) \<in> set ?xs"
    using assms(8,9) by (force simp: keyOf_def)
  then have "dedup_has (rememberAll (newDedup dedupWindow) ?xs) (requestKind rq) (requestId rq)"
    using assms(11) by (intro rememberAll_has) simp_all
  then show ?thesis
    using NewEngine_boots [OF assms(1-7)] assms(9,10)
    by (simp add: handle_request handleRequest_def admit_def)
qed

theorem redelivery_after_restart_witness:
  "\<exists>e f. history memOps mlBase mlRecs sampleClock memEmpty memEmpty [message7] e \<and>
     NewEngine memOps (inputLog e) (outputLog e) = (f, Ret ()) \<and>
     handle memOps sampleClock f message7 = (f, Ret Ack)"
proof -
  obtain e where e: "history memOps mlBase mlRecs sampleClock memEmpty memEmpty [message7] e"
    "mlRecs (inputLog e) = [message7]" by (rule history7)
  note H = history_facts [OF memOps_laws e(1)]
  have out: "mlBase (outputLog e) = 0" "length (mlRecs (outputLog e)) = 1" "lastAnswer (mlRecs (outputLog e)) = 1"
    using H(3,5) arg_cong [OF H(4), of length] e(2) by simp_all
  have "\<exists>f. NewEngine memOps (inputLog e) (outputLog e) = (f, Ret ()) \<and> handle memOps sampleClock f message7 = (f, Ret Ack)"
    by (rule redelivery_after_restart [OF memOps_laws memOps_reliable, where rq = "RqAccount account7"])
      (use out H(1) e(2) in \<open>auto simp: request_message7 decodable_def windowKept_def account7_def\<close>)
  with e(1) show ?thesis by blast
qed

end
