(* ===== verification/Lifecycle.thy ===== *)
theory Lifecycle
  imports Recovery
begin

text \<open>
  The engine at work (\<^verbatim>\<open>Run\<close>, \<^verbatim>\<open>snapshot\<close>, \<^verbatim>\<open>runSnapshotSaver\<close> and the log cleanup of
  \<^verbatim>\<open>internal/core/engine.go\<close>, with the snapshot table of \<^verbatim>\<open>internal/storage/snapshot.go\<close>): messages,
  snapshot ticks, the saver's transactions and the publishers' cursors interleave. The
  database is a list of rows in the order of their ids; an argument says which statement of a
  transaction fails, and a failed transaction is rolled back.
\<close>

section \<open>The snapshot table\<close>

type_synonym 'b rowset = "('b \<times> uint64) list"

definition SaveSnapshot :: "'b rowset \<Rightarrow> 'b \<Rightarrow> uint64 \<Rightarrow> 'b rowset" where
  "SaveSnapshot rs d i = rs @ [(d, i)]"

definition KeepNewest :: "'b rowset \<Rightarrow> int \<Rightarrow> 'b rowset" where
  "KeepNewest rs keep = drop (length rs - nat keep) rs"

definition OldestSnapshotWalIndex :: "'b rowset \<Rightarrow> uint64 option" where
  "OldestSnapshotWalIndex rs = (case rs of [] \<Rightarrow> None | r # _ \<Rightarrow> Some (snd r))"

definition NewestSnapshot :: "'b rowset \<Rightarrow> ('b \<times> uint64) option" where
  "NewestSnapshot rs = (if rs = [] then None else Some (last rs))"

datatype txStep = TxBegin | TxSave | TxPrune | TxOldest | TxCommit

definition SaveSnapshotAndPrune ::
  "txStep option \<Rightarrow> 'b rowset \<Rightarrow> 'b \<Rightarrow> uint64 \<Rightarrow> int \<Rightarrow> 'b rowset \<times> uint64 outcome" where
  "SaveSnapshotAndPrune fails rs d i keep =
     (if fails \<noteq> None then (rs, Err StoreFailed)
      else (let rs' = KeepNewest (SaveSnapshot rs d i) keep
            in case OldestSnapshotWalIndex rs' of
                 None \<Rightarrow> (rs, Err StoreFailed)
               | Some lowest \<Rightarrow> (rs', Ret lowest)))"

text \<open>Pruning on its own is not a transaction: it stands when the query after it fails.\<close>

definition PruneSnapshots ::
  "txStep option \<Rightarrow> 'b rowset \<Rightarrow> int \<Rightarrow> 'b rowset \<times> (uint64 \<times> bool) outcome" where
  "PruneSnapshots fails rs keep =
     (if fails = Some TxPrune then (rs, Err StoreFailed)
      else (let rs' = KeepNewest rs keep
            in if fails = Some TxOldest then (rs', Err StoreFailed)
               else case OldestSnapshotWalIndex rs' of
                      None \<Rightarrow> (rs', Ret (0, False))
                    | Some lowest \<Rightarrow> (rs', Ret (lowest, True))))"

definition LatestSnapshot :: "bool \<Rightarrow> 'b rowset \<Rightarrow> ('b \<times> uint64) option outcome" where
  "LatestSnapshot fails rs = (if fails then Err StoreFailed else Ret (NewestSnapshot rs))"

section \<open>Snapshots and cleanup\<close>

definition snapshotRetention :: int where
  "snapshotRetention = 15"

text \<open>The channel to the saver holds at most one snapshot; a full channel drops the new one.\<close>

definition snapshot ::
  "(LedgerSnapshot \<Rightarrow> 'b option) \<Rightarrow> 'l Engine \<Rightarrow> ('b \<times> uint64) option \<Rightarrow> ('b \<times> uint64) option \<times> unit outcome" where
  "snapshot enc e chan =
     (case Serialize enc (state e) of
        Ret d \<Rightarrow> ((case chan of None \<Rightarrow> Some (d, inputSeq e) | Some queued \<Rightarrow> Some queued), Ret ())
      | Err x \<Rightarrow> (chan, Err x)
      | Panic x \<Rightarrow> (chan, Panic x))"

definition cleanupInputWAL :: "'l twal \<Rightarrow> 'l Engine \<Rightarrow> uint64 \<Rightarrow> ('l, unit) result" where
  "cleanupInputWAL ops e lowest =
     (let w = word_of_int dedupWindow;
          target = (if lowest + 1 > w then lowest - w + 1 else 1)
      in case TruncateFront ops (inputLog e) target of
           Truncated l \<Rightarrow> (e\<lparr>inputLog := l\<rparr>, Ret ())
         | OutOfRange \<Rightarrow> (e, Ret ())
         | TruncateFailed \<Rightarrow> (e, Err WalFailed))"

text \<open>\<open>cursors\<close> are the answers of the cursor store for the queue and for the database.\<close>

definition cleanupOutputWAL ::
  "'l twal \<Rightarrow> (uint64 outcome \<times> uint64 outcome) option \<Rightarrow> 'l Engine \<Rightarrow> ('l, unit) result" where
  "cleanupOutputWAL ops cursors e =
     (case cursors of
        None \<Rightarrow> (e, Ret ())
      | Some (mq, db) \<Rightarrow>
          andThen (ofOutcome e mq) (\<lambda>e mqCursor.
          andThen (ofOutcome e db) (\<lambda>e dbCursor.
            (let lowest = min mqCursor dbCursor
             in if lowest = 0 then (e, Ret ())
                else case TruncateFront ops (outputLog e) lowest of
                       Truncated l \<Rightarrow> (e\<lparr>outputLog := l\<rparr>, Ret ())
                     | OutOfRange \<Rightarrow> (e, Ret ())
                     | TruncateFailed \<Rightarrow> (e, Err WalFailed)))))"

text \<open>Errors of the cleanup are only reported in the process log.\<close>

definition cleanupWAL ::
  "'l twal \<Rightarrow> (uint64 outcome \<times> uint64 outcome) option \<Rightarrow> 'l Engine \<Rightarrow> uint64 \<Rightarrow> 'l Engine" where
  "cleanupWAL ops cursors e lowest = fst (cleanupOutputWAL ops cursors (fst (cleanupInputWAL ops e lowest)))"

text \<open>One round of the saver with the snapshot it received.\<close>

definition runSnapshotSaver ::
  "'l twal \<Rightarrow> txStep option \<Rightarrow> (uint64 outcome \<times> uint64 outcome) option \<Rightarrow> 'b rowset \<Rightarrow> 'l Engine \<Rightarrow>
   'b \<times> uint64 \<Rightarrow> 'b rowset \<times> 'l Engine" where
  "runSnapshotSaver ops fails cursors rs e snap =
     (case SaveSnapshotAndPrune fails rs (fst snap) (snd snap) snapshotRetention of
        (rs', Ret lowest) \<Rightarrow> (rs', cleanupWAL ops cursors e lowest)
      | (rs', _) \<Rightarrow> (rs', e))"

section \<open>Run\<close>

text \<open>\<^verbatim>\<open>Run\<close> up to its loop: trade id, replay, and the cleanup of the boot.\<close>

definition bootCleanup ::
  "'l twal \<Rightarrow> txStep option \<Rightarrow> (uint64 outcome \<times> uint64 outcome) option \<Rightarrow> 'b rowset option \<Rightarrow> 'l Engine \<Rightarrow>
   'b rowset option \<times> 'l Engine" where
  "bootCleanup ops fails cursors store e =
     (case store of
        None \<Rightarrow> (None, fst (cleanupOutputWAL ops cursors e))
      | Some rs \<Rightarrow>
          (case PruneSnapshots fails rs snapshotRetention of
             (rs', Ret (lowest, True)) \<Rightarrow> (Some rs', cleanupWAL ops cursors e lowest)
           | (rs', _) \<Rightarrow> (Some rs', fst (cleanupOutputWAL ops cursors e))))"

definition boot ::
  "'l twal \<Rightarrow> clock \<Rightarrow> ('b \<Rightarrow> LedgerSnapshot option) \<Rightarrow> int64 outcome option \<Rightarrow> bool \<Rightarrow> txStep option \<Rightarrow>
   (uint64 outcome \<times> uint64 outcome) option \<Rightarrow> 'b rowset option \<Rightarrow> 'l Engine \<Rightarrow> ('l, 'b rowset option) result" where
  "boot ops clk dec tradeIDs loadFails fails cursors store e =
     andThen (initializeTradeID ops tradeIDs e) (\<lambda>e _.
     andThen (Replay ops clk dec (map_option (LatestSnapshot loadFails) store) e) (\<lambda>e _.
       (let (store', e') = bootCleanup ops fails cursors store e in (e', Ret store'))))"

text \<open>
  The loop of \<^verbatim>\<open>Run\<close> over what its \<^verbatim>\<open>select\<close> receives, until it returns; \<open>None\<close> is the loop still
  waiting for the next event.
\<close>

datatype loopEvent = Cancelled | Delivered Delivery | DeliveriesClosed | SnapshotTick

fun runLoop ::
  "'l twal \<Rightarrow> clock \<Rightarrow> (LedgerSnapshot \<Rightarrow> 'b option) \<Rightarrow> 'l Engine \<Rightarrow> ('b \<times> uint64) option \<Rightarrow> loopEvent list \<Rightarrow>
   'l Engine \<times> ('b \<times> uint64) option \<times> unit outcome option" where
  "runLoop ops clk enc e chan [] = (e, chan, None)"
| "runLoop ops clk enc e chan (Cancelled # evs) = (e, chan, Some (Err BrokerFailed))"
| "runLoop ops clk enc e chan (DeliveriesClosed # evs) = (e, chan, Some (Ret ()))"
| "runLoop ops clk enc e chan (SnapshotTick # evs) =
     runLoop ops clk enc e (fst (snapshot enc e chan)) evs"
| "runLoop ops clk enc e chan (Delivered d # evs) =
     (case serve ops clk e d of
        (e', Ret ()) \<Rightarrow> runLoop ops clk enc e' chan evs
      | (e', r) \<Rightarrow> (e', chan, Some r))"

end
