(* ===== verification/Exchange.thy ===== *)
theory Exchange
  imports Lifecycle
begin

text \<open>
  The exchange as a whole: the engine's loop, the snapshot saver, the two publishers that move
  their cursors, crashes and reboots, as steps in any order. The two logs, the snapshot rows
  and the cursors survive a crash; the engine's memory and the saver's channel do not. The
  work of one handler, of one round of the saver and of one boot is one step; what the cursor
  store answers during a cleanup may be out of date or an error.
\<close>

section \<open>Systems and their steps\<close>

record ('l, 'b) system =
  engine :: "'l Engine"
  saved :: "'b rowset"
  queued :: "('b \<times> uint64) option"
  mqCursor :: uint64
  dbCursor :: uint64
  up :: bool

fun isRet :: "'a outcome \<Rightarrow> bool" where
  "isRet (Ret x) = True"
| "isRet _ = False"

definition staleCursor :: "uint64 \<Rightarrow> uint64 outcome \<Rightarrow> bool" where
  "staleCursor c r \<longleftrightarrow> (case r of Ret c' \<Rightarrow> c' \<le> c | _ \<Rightarrow> True)"

definition cursorAnswers :: "('l, 'b) system \<Rightarrow> (uint64 outcome \<times> uint64 outcome) option \<Rightarrow> bool" where
  "cursorAnswers s a \<longleftrightarrow> (case a of None \<Rightarrow> True
     | Some (mq, db) \<Rightarrow> staleCursor (mqCursor s) mq \<and> staleCursor (dbCursor s) db)"

inductive step ::
  "'l twal \<Rightarrow> (LedgerSnapshot \<Rightarrow> 'b option) \<Rightarrow> ('b \<Rightarrow> LedgerSnapshot option) \<Rightarrow>
   ('l, 'b) system \<Rightarrow> ('l, 'b) system \<Rightarrow> bool"
  for ops enc dec
where
  deliver: "up s \<Longrightarrow> handle ops clk (engine s) m = (e', r) \<Longrightarrow>
    step ops enc dec s (s\<lparr>engine := e', up := isRet r\<rparr>)"
| tick: "up s \<Longrightarrow> step ops enc dec s (s\<lparr>queued := fst (snapshot enc (engine s) (queued s))\<rparr>)"
| save: "up s \<Longrightarrow> queued s = Some snap \<Longrightarrow> cursorAnswers s cursors \<Longrightarrow>
    runSnapshotSaver ops fails cursors (saved s) (engine s) snap = (rs', e') \<Longrightarrow>
    step ops enc dec s (s\<lparr>engine := e', saved := rs', queued := None\<rparr>)"
| publish: "LastIndex ops (outputLog (engine s)) = Ret n \<Longrightarrow> mqCursor s \<le> i \<Longrightarrow> i \<le> n \<Longrightarrow>
    step ops enc dec s (s\<lparr>mqCursor := i\<rparr>)"
| project: "LastIndex ops (outputLog (engine s)) = Ret n \<Longrightarrow> dbCursor s \<le> i \<Longrightarrow> i \<le> n \<Longrightarrow>
    step ops enc dec s (s\<lparr>dbCursor := i\<rparr>)"
| crash: "step ops enc dec s (s\<lparr>queued := None, up := False\<rparr>)"
| reboot: "\<not> up s \<Longrightarrow> cursorAnswers s cursors \<Longrightarrow>
    NewEngine ops (inputLog (engine s)) (outputLog (engine s)) = (f, Ret ()) \<Longrightarrow>
    boot ops clk dec ids loadFails fails cursors (Some (saved s)) f = (e', r) \<Longrightarrow>
    step ops enc dec s (s\<lparr>engine := e', saved := (case r of Ret (Some rs') \<Rightarrow> rs' | _ \<Rightarrow> saved s),
      queued := None, up := isRet r\<rparr>)"

section \<open>Log positions\<close>

definition lastPos :: "('l \<Rightarrow> nat) \<Rightarrow> ('l \<Rightarrow> bytes list) \<Rightarrow> 'l \<Rightarrow> nat" where
  "lastPos base recs l = base l + length (recs l)"

text \<open>
  An exchange starts with empty logs, no snapshots and cursors at zero. The runs considered
  end before the indices of the input log reach the largest 64-bit number.
\<close>

definition initial :: "('l \<Rightarrow> nat) \<Rightarrow> ('l \<Rightarrow> bytes list) \<Rightarrow> ('l, 'b) system \<Rightarrow> bool" where
  "initial base recs s \<longleftrightarrow>
     (\<exists>i out. s = \<lparr>engine = emptyEngine i out, saved = [], queued = None, mqCursor = 0, dbCursor = 0, up = False\<rparr> \<and>
        base i = 0 \<and> recs i = [] \<and> base out = 0 \<and> recs out = [])"

inductive reachable ::
  "'l twal \<Rightarrow> ('l \<Rightarrow> nat) \<Rightarrow> ('l \<Rightarrow> bytes list) \<Rightarrow> (LedgerSnapshot \<Rightarrow> 'b option) \<Rightarrow>
   ('b \<Rightarrow> LedgerSnapshot option) \<Rightarrow> ('l, 'b) system \<Rightarrow> bool"
  for ops base recs enc dec
where
  start: "initial base recs s \<Longrightarrow> reachable ops base recs enc dec s"
| more: "reachable ops base recs enc dec s \<Longrightarrow> step ops enc dec s s' \<Longrightarrow>
    Suc (lastPos base recs (inputLog (engine s'))) < 2 ^ 64 \<Longrightarrow> reachable ops base recs enc dec s'"

text \<open>Record \<open>k\<close> of the output log answers input \<open>k\<close>.\<close>

definition aligned :: "('l \<Rightarrow> nat) \<Rightarrow> ('l \<Rightarrow> bytes list) \<Rightarrow> 'l \<Rightarrow> bool" where
  "aligned base recs l \<longleftrightarrow>
     map answers (recs l) = map word_of_nat [Suc (base l)..<Suc (lastPos base recs l)]"

lemma lastPos_append:
  "recs l' = recs l @ [d] \<Longrightarrow> base l' = base l \<Longrightarrow> lastPos base recs l' = Suc (lastPos base recs l)"
  by (simp add: lastPos_def)

lemma aligned_append:
  assumes "aligned base recs l" "base l' = base l"
    and "map answers (recs l') = map answers (recs l) @ [word_of_nat (Suc (lastPos base recs l))]"
  shows "aligned base recs l' \<and> lastPos base recs l' = Suc (lastPos base recs l)"
proof -
  have "length (recs l') = Suc (length (recs l))" using arg_cong [OF assms(3), of length] by simp
  then have "lastPos base recs l' = Suc (lastPos base recs l)" using assms(2) by (simp add: lastPos_def)
  with assms show ?thesis by (simp add: aligned_def lastPos_def)
qed

lemma TruncateFront_Truncated:
  assumes laws: "twal_laws ops base recs" and "TruncateFront ops l i = Truncated l'"
  obtains k where "k < length (recs l)" "i = word_of_nat (base l + k + 1)" "base l' = base l + k"
    "recs l' = drop k (recs l)" "lastPos base recs l' = lastPos base recs l"
proof -
  obtain k where "k < length (recs l)" "i = word_of_nat (base l + k + 1)" "base l' = base l + k"
    "recs l' = drop k (recs l)"
    using assms unfolding twal_laws_def TruncateFront_def by blast
  then show thesis by (intro that [of k]) (simp_all add: lastPos_def)
qed

lemma aligned_drop:
  assumes "aligned base recs l" "base l' = base l + k" "recs l' = drop k (recs l)" "k < length (recs l)"
  shows "aligned base recs l'"
proof -
  have "map answers (recs l') = drop k (map word_of_nat [Suc (base l)..<Suc (lastPos base recs l)])"
    using assms(1,3) by (simp add: aligned_def drop_map [symmetric] del: upt_Suc)
  then show ?thesis using assms(2-4) by (simp add: aligned_def drop_map lastPos_def del: upt_Suc)
qed

lemma aligned_last:
  assumes "aligned base recs l" "recs l = [] \<Longrightarrow> base l = 0"
  shows "lastAnswer (recs l) = word_of_nat (lastPos base recs l)"
proof (cases "recs l = []")
  case True
  with assms show ?thesis by (simp add: lastAnswer_def lastPos_def)
next
  case False
  have "answers (last (recs l)) = last (map answers (recs l))" using False by (simp add: last_map)
  also have "\<dots> = word_of_nat (lastPos base recs l)"
    using assms(1) False by (simp add: aligned_def lastPos_def Suc_le_eq)
  finally show ?thesis using False by (simp add: lastAnswer_def)
qed

section \<open>What the engine's operations do to the logs\<close>

lemma reportsOnce_fails:
  assumes "reportsOnce ops clk e (e', r)" "\<not> isRet r"
  shows "outputLog e' = outputLog e"
proof -
  have ap: "outputLog e2 = outputLog e1" if "appendOutput ops clk e1 evs = (e2, r')" "\<not> isRet r'" for e1 e2 evs r'
    using that by (auto simp: appendOutput_def now_def Let_def split: if_splits option.splits outcome.splits)
  consider e1 evs where "frame e e1" "(e', r) = appendOutput ops clk e1 evs"
    | e1 evs where "frame e e1" "(e', r) = orPanic (appendOutput ops clk e1 evs)" | "frame e e'"
    using assms(1) by (auto simp: reportsOnce_def)
  then show ?thesis
  proof cases
    case 1
    then show ?thesis using ap [of e1 evs e' r] assms(2) by (simp add: frame_def)
  next
    case 2
    obtain e2 r' where r': "appendOutput ops clk e1 evs = (e2, r')" by fastforce
    with 2 assms(2) have "e2 = e'" "\<not> isRet r'" by (cases r'; simp)+
    with 2(1) ap [OF r'] show ?thesis by (simp add: frame_def)
  qed (simp add: frame_def)
qed

text \<open>
  A request applied or replayed at position \<open>i\<close>, whatever its outcome: the output log gains
  the answer to \<open>i\<close> when the request succeeds above the watermark, and nothing otherwise.
\<close>

lemma reportsOnce_effect:
  assumes laws: "twal_laws ops base recs" and "reportsOnce ops clk e (e', r)"
  shows "base (outputLog e') = base (outputLog e) \<and>
    (if isRet r \<and> \<not> suppressed e
     then map answers (recs (outputLog e')) = map answers (recs (outputLog e)) @ [inputSeq e]
     else outputLog e' = outputLog e)"
proof (cases "isRet r")
  case True
  then obtain u where "r = Ret u" by (cases r) auto
  with assms reportsOnce_outputs [OF laws, of clk e e'] show ?thesis by simp
qed (use reportsOnce_fails [OF assms(2)] in simp)

lemma handle_effect:
  assumes laws: "twal_laws ops base recs" and h: "handle ops clk e m = (e', r)"
  obtains (ignored) "e' = e"
  | (applied) rq l idx r1 where "requestOf m = Some rq" "recs (inputLog e') = recs (inputLog e) @ [m]"
      "base (inputLog e') = base (inputLog e)" "inputSeq e' = word_of_nat (Suc (lastPos base recs (inputLog e)))"
      "outputAppliedSeq e' = outputAppliedSeq e"
      "idx = inputSeq e'" "reportsOnce ops clk (admitted e rq l idx) (e', r1)" "isRet r1 = isRet r"
proof (cases "requestOf m")
  case None
  with h show thesis by (intro ignored) (simp add: handle_request handleRequest_def)
next
  case (Some rq)
  show thesis
  proof (cases "admissible rq \<and> \<not> dedup_has (dedup e) (requestKind rq) (requestId rq) \<and>
      isRet (Append ops (inputLog e) m)")
    case False
    with h Some show thesis
      by (intro ignored) (auto simp: handle_request handleRequest_def admit_def split: if_splits outcome.splits)
  next
    case True
    then obtain l idx where l: "Append ops (inputLog e) m = Ret (l, idx)"
      by (cases "Append ops (inputLog e) m") auto
    obtain e1 r1 where a: "applyRequest ops clk (admitted e rq l idx) rq = (e1, r1)" by fastforce
    with h Some True l have e1: "e1 = e'" "isRet r1 = isRet r"
      by (cases r1; auto simp: handle_request handleRequest_def admit_def admitted_def acked_def)+
    note fr = applyRequest_inputLog [of ops clk "admitted e rq l idx" rq, unfolded a e1(1), simplified]
    show thesis
      using Append_Ret [OF laws l] fr Some e1(2)
        reportsOnce_applyRequest [of ops clk "admitted e rq l idx" rq, unfolded a e1(1)]
      by (intro applied [of rq idx l r1]) (simp_all add: admitted_def lastPos_def)
  qed
qed

lemma replayRequest_frame:
  assumes "replayRequest ops clk f rq = (f', r)"
  shows "inputLog f' = inputLog f" "inputSeq f' = inputSeq f" "outputAppliedSeq f' = outputAppliedSeq f"
proof -
  have "agrees (\<lambda>_ _. True) (recoveryMark f) (applyRequest ops clk f rq) (replayRequest ops clk f rq)"
    by (rule agrees_replayRequest) simp_all
  then have "recoveryMark f' = recoveryMark f" using assms by (simp add: agrees_def)
  then show "inputLog f' = inputLog f" "inputSeq f' = inputSeq f" "outputAppliedSeq f' = outputAppliedSeq f"
    by (simp_all add: recoveryMark_def)
qed

lemma replayInput_effect:
  assumes laws: "twal_laws ops base recs" and "decodable (recs (inputLog f))"
    and "replayInput ops clk f i = (f', r)"
  obtains (failed) "f' = f" "\<not> isRet r"
  | (replayed) "inputLog f' = inputLog f" "inputSeq f' = i" "outputAppliedSeq f' = outputAppliedSeq f"
      "reportsOnce ops clk (f\<lparr>inputSeq := i\<rparr>) (f', r)"
proof (cases "Read ops (inputLog f) i")
  case (Ret m)
  then have "twal_Read ops (inputLog f) i = Some m" by (auto simp: Read_def split: option.splits)
  then have "\<exists>k < length (recs (inputLog f)). m = recs (inputLog f) ! k"
    using laws unfolding twal_laws_def by blast
  then have "m \<in> set (recs (inputLog f))" by auto
  then obtain rq where rq: "requestOf m = Some rq" using assms(2) by (auto simp: decodable_def)
  then have "replayRequest ops clk (f\<lparr>inputSeq := i\<rparr>) rq = (f', r)"
    using assms(3) replayInput_request [OF Ret rq] by simp
  with replayRequest_frame [OF this] reportsOnce_replayRequest [of ops clk "f\<lparr>inputSeq := i\<rparr>" rq] show thesis
    by (intro replayed) simp_all
qed (use assms(3) failed in \<open>auto simp: replayInput_def readAs_def ofOutcome_def\<close>)

lemma forEach_replay:
  assumes laws: "twal_laws ops base recs"
  shows "decodable (recs (inputLog f)) \<Longrightarrow> lastPos base recs (inputLog f) < 2 ^ 64 \<Longrightarrow>
    j + n = lastPos base recs (inputLog f) \<Longrightarrow> aligned base recs (outputLog f) \<Longrightarrow>
    lastPos base recs (outputLog f) = max (unat (outputAppliedSeq f)) j \<Longrightarrow> inputSeq f = word_of_nat j \<Longrightarrow>
    forEach (replayInput ops clk) f (map word_of_nat [Suc j..<Suc (j + n)]) = (f', r) \<Longrightarrow>
    inputLog f' = inputLog f \<and> base (outputLog f') = base (outputLog f) \<and> aligned base recs (outputLog f') \<and>
    outputAppliedSeq f' = outputAppliedSeq f \<and>
    lastPos base recs (outputLog f) \<le> lastPos base recs (outputLog f') \<and>
    lastPos base recs (outputLog f') \<le> max (unat (outputAppliedSeq f)) (j + n) \<and>
    (isRet r \<longrightarrow> lastPos base recs (outputLog f') = max (unat (outputAppliedSeq f)) (j + n) \<and>
       inputSeq f' = word_of_nat (j + n))"
proof (induction n arbitrary: f j)
  case (Suc n)
  let ?i = "word_of_nat (Suc j) :: uint64"
  obtain f1 r1 where f1: "replayInput ops clk f ?i = (f1, r1)" by fastforce
  have up: "[Suc j..<Suc (j + Suc n)] = Suc j # [Suc (Suc j)..<Suc (Suc j + n)]"
    by (simp add: upt_conv_Cons del: upt_Suc)
  have i: "unat ?i = Suc j" using Suc.prems(2,3) by (intro unat_word_of_nat64) simp
  show ?case
  proof (cases rule: replayInput_effect [OF laws Suc.prems(1) f1])
    case 1
    with Suc.prems(3-7) f1 up show ?thesis by (cases r1) (auto simp del: upt_Suc)
  next
    case 2
    note R = reportsOnce_effect [OF laws 2(4)]
    have sup: "suppressed (f\<lparr>inputSeq := ?i\<rparr>) \<longleftrightarrow> Suc j \<le> unat (outputAppliedSeq f)"
      using i by (auto simp: suppressed_def word_le_nat_alt word_less_nat_alt)
    have out: "aligned base recs (outputLog f1) \<and> base (outputLog f1) = base (outputLog f) \<and>
        lastPos base recs (outputLog f1) =
          (if isRet r1 then max (unat (outputAppliedSeq f)) (Suc j) else lastPos base recs (outputLog f))"
    proof (cases "isRet r1 \<and> unat (outputAppliedSeq f) \<le> j")
      case True
      then show ?thesis
        using aligned_append [OF Suc.prems(4), of "outputLog f1"] R sup Suc.prems(5) by (auto simp: max_def)
    next
      case False
      then show ?thesis using R sup Suc.prems(4,5) by (auto simp: max_def)
    qed
    show ?thesis
    proof (cases r1)
      case (Ret u)
      have "forEach (replayInput ops clk) f1 (map word_of_nat [Suc (Suc j)..<Suc (Suc j + n)]) = (f', r)"
        using Suc.prems(7) f1 Ret up by (simp del: upt_Suc)
      note IH = Suc.IH [OF _ _ _ _ _ _ this]
      have "decodable (recs (inputLog f1))" "lastPos base recs (inputLog f1) < 2 ^ 64"
        "Suc j + n = lastPos base recs (inputLog f1)" "aligned base recs (outputLog f1)"
        "lastPos base recs (outputLog f1) = max (unat (outputAppliedSeq f1)) (Suc j)" "inputSeq f1 = ?i"
        using Suc.prems(1-3) 2(1-3) out Ret by simp_all
      from IH [OF this] 2(1,3) out Ret Suc.prems(5) show ?thesis by (simp del: of_nat_add of_nat_Suc)
    qed (use Suc.prems(3-7) f1 up out 2 in \<open>auto simp del: upt_Suc\<close>)
  qed
qed simp

lemma dedup_same: "\<exists>d. e = e\<lparr>dedup := d\<rparr>"
  by (rule exI [of _ "dedup e"]) simp

lemma decoded_dedup: "(\<And>x. \<exists>d. fst (go x) = e\<lparr>dedup := d\<rparr>) \<Longrightarrow> \<exists>d. fst (decoded e f raw go) = e\<lparr>dedup := d\<rparr>"
  by (simp add: decoded_def dedup_same split: option.split)

lemma rememberInput_frame: "\<exists>d. fst (rememberInput ops e i) = e\<lparr>dedup := d\<rparr>"
proof (cases "readAs envelope_Unmarshal ops (inputLog e) i")
  case (Ret env)
  have "\<exists>d. fst (e\<lparr>dedup := d'\<rparr>, Ret ()) = e\<lparr>dedup := d\<rparr>" for d' by auto
  with Ret show ?thesis
    unfolding rememberInput_def ofOutcome_def andThen_simps Let_def
    by (simp only: andThen_simps split: if_split) (auto intro!: decoded_dedup dedup_same)
qed (simp_all add: rememberInput_def ofOutcome_def dedup_same)

lemma forEach_remember_frame: "\<exists>d. fst (forEach (rememberInput ops) e is) = e\<lparr>dedup := d\<rparr>"
proof (induction "is" arbitrary: e)
  case Nil
  show ?case by (simp add: dedup_same)
next
  case (Cons i "is")
  obtain e1 r where r: "rememberInput ops e i = (e1, r)" by fastforce
  with rememberInput_frame [of ops e i] obtain d where e1: "e1 = e\<lparr>dedup := d\<rparr>" by auto
  from Cons.IH [of e1] obtain d' where "fst (forEach (rememberInput ops) e1 is) = e1\<lparr>dedup := d'\<rparr>" by blast
  with r e1 show ?case by (cases r) auto
qed

lemma loadDedup_frame: "\<exists>d. fst (loadDedup ops e) = e\<lparr>dedup := d\<rparr>"
  by (cases "LastIndex ops (inputLog e)")
    (simp_all add: loadDedup_def ofOutcome_def dedup_same forEach_remember_frame)

lemma LastIndex_Ret:
  "twal_laws ops base recs \<Longrightarrow> LastIndex ops l = Ret n \<Longrightarrow> n = word_of_nat (lastPos base recs l)"
  using twal_lawsD(1) by (fastforce simp: LastIndex_def lastPos_def split: option.splits)

lemma loadOutputWatermark_effect:
  assumes laws: "twal_laws ops base recs" and load: "loadOutputWatermark ops e = (f, Ret ())"
    and out: "aligned base recs (outputLog e)" "recs (outputLog e) = [] \<Longrightarrow> base (outputLog e) = 0"
    and bnd: "lastPos base recs (outputLog e) < 2 ^ 64"
  shows "f = e\<lparr>outputAppliedSeq := word_of_nat (lastPos base recs (outputLog e))\<rparr>"
proof -
  let ?l = "outputLog e" and ?N = "lastPos base recs (outputLog e)"
  obtain n where n: "LastIndex ops ?l = Ret n"
    using load by (cases "LastIndex ops ?l") (auto simp: loadOutputWatermark_def ofOutcome_def)
  note nN = LastIndex_Ret [OF laws n]
  show ?thesis
  proof (cases "n = 0")
    case True
    then show ?thesis using load n nN by (simp add: loadOutputWatermark_def ofOutcome_def)
  next
    case False
    obtain env where env: "readAs OutputEnvelope_Unmarshal ops ?l n = Ret env"
      and f: "f = e\<lparr>outputAppliedSeq := envInputSeq env\<rparr>"
      using load n False
      by (cases "readAs OutputEnvelope_Unmarshal ops ?l n") (auto simp: loadOutputWatermark_def ofOutcome_def)
    obtain d where d: "twal_Read ops ?l n = Some d" "unmarshal OutputEnvelope_Unmarshal d = Some env"
      using env by (auto simp: readAs_def Read_def split: option.splits outcome.splits)
    then obtain k where k: "k < length (recs ?l)" "n = word_of_nat (base ?l + k + 1)" "d = recs ?l ! k"
      using laws unfolding twal_laws_def by blast
    have "base ?l + k + 1 = ?N"
      using arg_cong [OF trans [OF k(2) [symmetric] nN], of unat] bnd k(1)
        unat_word_of_nat64 [of "base ?l + k + 1"] unat_word_of_nat64 [OF bnd] by (simp add: lastPos_def)
    then have "k = length (recs ?l) - 1" by (simp add: lastPos_def)
    with k have "d = last (recs ?l)" by (simp add: last_conv_nth [of "recs ?l"] length_greater_0_conv [symmetric] del: length_greater_0_conv)
    then have "envInputSeq env = lastAnswer (recs ?l)" using d(2) k(1) by (auto simp: lastAnswer_def answers_def)
    with f aligned_last [OF out] show ?thesis by simp
  qed
qed

lemma NewEngine_effect:
  assumes "twal_laws ops base recs" "NewEngine ops i out = (f, Ret ())"
    and "aligned base recs out" "recs out = [] \<Longrightarrow> base out = 0" "lastPos base recs out < 2 ^ 64"
  shows "inputLog f = i" "outputLog f = out" "inputSeq f = 0"
    "outputAppliedSeq f = word_of_nat (lastPos base recs out)"
proof -
  have new: "andThen (loadOutputWatermark ops (emptyEngine i out)) (\<lambda>e _. loadDedup ops e) = (f, Ret ())"
    using assms(2) by (simp add: NewEngine_def emptyEngine_def)
  obtain e1 r1 where e1: "loadOutputWatermark ops (emptyEngine i out) = (e1, r1)" by fastforce
  with new have r1: "r1 = Ret ()" "loadDedup ops e1 = (f, Ret ())" by (cases r1; simp)+
  have e1': "e1 = (emptyEngine i out)\<lparr>outputAppliedSeq := word_of_nat (lastPos base recs out)\<rparr>"
    using loadOutputWatermark_effect [OF assms(1), of "emptyEngine i out" e1] e1 r1(1) assms(3-5) by simp
  from loadDedup_frame [of ops e1] r1(2) obtain d where "f = e1\<lparr>dedup := d\<rparr>" by auto
  with e1' show "inputLog f = i" "outputLog f = out" "inputSeq f = 0"
    "outputAppliedSeq f = word_of_nat (lastPos base recs out)" by simp_all
qed

section \<open>What a cleanup keeps\<close>

lemma cleanupTarget:
  assumes "unat (word_of_nat n :: uint64) = n" "n = b + 1"
    and "word_of_nat n = (if lowest + 1 > (word_of_int dedupWindow :: uint64) then lowest - word_of_int dedupWindow + 1 else 1)"
  shows "b = 0 \<or> b + windowSize \<le> unat lowest"
proof (cases "lowest + 1 > (word_of_int dedupWindow :: uint64)")
  case True
  then have w: "windowSize < (unat lowest + 1) mod 2 ^ 64" by (simp add: word_less_nat_alt unat_word_ariths)
  then have "unat lowest + 1 \<noteq> 2 ^ 64" by (metis mod_self not_less0)
  with w have "unat lowest + 1 < 2 ^ 64" "windowSize < unat lowest + 1"
    using unat_64_less [of lowest] by simp_all
  moreover have "unat (lowest - word_of_int dedupWindow) = unat lowest - windowSize"
    using calculation by (subst unat_sub_le) (simp_all add: word_le_nat_alt)
  ultimately have "unat (lowest - word_of_int dedupWindow + 1) = unat lowest - windowSize + 1"
    by (subst unat_add_less) simp_all
  with True assms \<open>windowSize < unat lowest + 1\<close> show ?thesis by auto
next
  case False
  then have "n = 1" using assms(1,3) by (metis unat_1)
  with assms(2) show ?thesis by simp
qed

lemma cleanupInputWAL_effect:
  assumes laws: "twal_laws ops base recs" and "lastPos base recs (inputLog e) < 2 ^ 64"
  obtains l where "fst (cleanupInputWAL ops e lowest) = e\<lparr>inputLog := l\<rparr>"
    "lastPos base recs l = lastPos base recs (inputLog e)" "set (recs l) \<subseteq> set (recs (inputLog e))"
    "l = inputLog e \<or> base l = 0 \<or> base l + windowSize \<le> unat lowest"
proof -
  define target where "target = (if lowest + 1 > (word_of_int dedupWindow :: uint64)
    then lowest - word_of_int dedupWindow + 1 else 1)"
  have eq: "fst (cleanupInputWAL ops e lowest) =
      (case TruncateFront ops (inputLog e) target of Truncated l \<Rightarrow> e\<lparr>inputLog := l\<rparr> | _ \<Rightarrow> e)"
    by (simp add: cleanupInputWAL_def Let_def target_def split: truncation.split)
  show thesis
  proof (cases "TruncateFront ops (inputLog e) target")
    case (Truncated l)
    obtain k where k: "k < length (recs (inputLog e))" "target = word_of_nat (base (inputLog e) + k + 1)"
      "base l = base (inputLog e) + k" "recs l = drop k (recs (inputLog e))"
      "lastPos base recs l = lastPos base recs (inputLog e)"
      by (rule TruncateFront_Truncated [OF laws Truncated])
    have u: "unat (word_of_nat (base (inputLog e) + k + 1) :: uint64) = base (inputLog e) + k + 1"
      using k(1) assms(2) by (intro unat_word_of_nat64) (simp add: lastPos_def)
    have "base l = 0 \<or> base l + windowSize \<le> unat lowest"
      using cleanupTarget [OF u, of "base l" lowest] k(2,3) by (simp add: target_def)
    with Truncated eq k show thesis by (intro that [of l]) (auto dest: in_set_dropD)
  qed (use eq in \<open>auto intro: that [of "inputLog e"]\<close>)
qed

lemma cleanupOutputWAL_effect:
  assumes laws: "twal_laws ops base recs" and "lastPos base recs (outputLog e) < 2 ^ 64" "cursorAnswers s cursors"
  obtains (cleaned) l where "fst (cleanupOutputWAL ops cursors e) = e\<lparr>outputLog := l\<rparr>"
    "lastPos base recs l = lastPos base recs (outputLog e)"
    "l = outputLog e \<or> recs l \<noteq> [] \<and> base l < unat (mqCursor s) \<and> base l < unat (dbCursor s)"
    "aligned base recs (outputLog e) \<Longrightarrow> aligned base recs l"
proof -
  let ?l = "outputLog e"
  have kept: thesis if "fst (cleanupOutputWAL ops cursors e) = e"
    using that by (intro cleaned [of ?l]) simp_all
  show thesis
  proof (cases cursors)
    case (Some c)
    obtain mq db where c: "c = (mq, db)" by fastforce
    show thesis
    proof (cases "isRet mq \<and> isRet db")
      case False
      then show thesis using Some c by (intro kept) (cases mq; cases db; simp add: cleanupOutputWAL_def ofOutcome_def)
    next
      case True
      then obtain a b where ab: "mq = Ret a" "db = Ret b" by (cases mq; cases db; simp)
      let ?t = "TruncateFront ops ?l (min a b)"
      have eq: "fst (cleanupOutputWAL ops cursors e) =
          (if min a b = 0 then e else case ?t of Truncated l \<Rightarrow> e\<lparr>outputLog := l\<rparr> | _ \<Rightarrow> e)"
        using Some c ab by (simp add: cleanupOutputWAL_def ofOutcome_def Let_def split: truncation.split)
      show thesis
      proof (cases "min a b \<noteq> 0 \<and> (\<exists>l. ?t = Truncated l)")
        case True
        then obtain l where l: "min a b \<noteq> 0" "?t = Truncated l" by blast
        obtain k where k: "k < length (recs ?l)" "min a b = word_of_nat (base ?l + k + 1)"
          "base l = base ?l + k" "recs l = drop k (recs ?l)" "lastPos base recs l = lastPos base recs ?l"
          by (rule TruncateFront_Truncated [OF laws l(2)])
        have "unat (min a b) = base l + 1"
          using k assms(2) unat_word_of_nat64 [of "base ?l + k + 1"] by (simp add: lastPos_def)
        moreover have "min a b \<le> mqCursor s" "min a b \<le> dbCursor s"
          using assms(3) Some c ab by (auto simp: cursorAnswers_def staleCursor_def min_le_iff_disj)
        ultimately have "base l < unat (mqCursor s)" "base l < unat (dbCursor s)" by (simp_all add: word_le_nat_alt)
        with l eq k show thesis by (intro cleaned [of l]) (simp_all add: aligned_drop [OF _ k(3,4,1)])
      qed (use eq in \<open>auto intro: kept split: truncation.splits if_splits\<close>)
    qed
  qed (use kept in \<open>simp add: cleanupOutputWAL_def\<close>)
qed

section \<open>What a boot does\<close>

definition logsSound :: "('l \<Rightarrow> nat) \<Rightarrow> ('l \<Rightarrow> bytes list) \<Rightarrow> 'l Engine \<Rightarrow> bool" where
  "logsSound base recs e \<longleftrightarrow>
     decodable (recs (inputLog e)) \<and> aligned base recs (outputLog e) \<and>
     (recs (outputLog e) = [] \<longrightarrow> base (outputLog e) = 0) \<and>
     lastPos base recs (outputLog e) \<le> lastPos base recs (inputLog e)"

lemma loadSnapshot_effect:
  assumes "inputSeq f = 0" "loadSnapshot dec (Some (LatestSnapshot loadFails rs)) f = (e1, r1)"
  shows "inputLog e1 = inputLog f \<and> outputLog e1 = outputLog f \<and> outputAppliedSeq e1 = outputAppliedSeq f \<and>
    (\<forall>idx. r1 = Ret idx \<longrightarrow> inputSeq e1 = idx \<and> (idx = 0 \<or> idx \<in> snd ` set rs))"
proof (cases "loadFails \<or> rs = []")
  case True
  with assms show ?thesis
    by (cases loadFails) (auto simp: loadSnapshot_def LatestSnapshot_def NewestSnapshot_def ofOutcome_def)
next
  case False
  obtain d idx where l: "last rs = (d, idx)" by fastforce
  with False have "idx \<in> snd ` set rs" by (metis image_eqI last_in_set snd_conv)
  with assms False l show ?thesis
    by (cases "Restore dec (state f) d") (auto simp: loadSnapshot_def LatestSnapshot_def NewestSnapshot_def ofOutcome_def)
qed

lemma Replay_effect:
  assumes laws: "twal_laws ops base recs" and snd: "logsSound base recs f"
    and seq: "inputSeq f = 0" "outputAppliedSeq f = word_of_nat (lastPos base recs (outputLog f))"
    and rows: "\<forall>x\<in>set rs. unat (snd x) \<le> lastPos base recs (outputLog f)"
    and bnd: "Suc (lastPos base recs (inputLog f)) < 2 ^ 64"
    and run: "Replay ops clk dec (Some (LatestSnapshot loadFails rs)) f = (e', r)"
  shows "logsSound base recs e' \<and> inputLog e' = inputLog f \<and> base (outputLog e') = base (outputLog f) \<and>
    lastPos base recs (outputLog f) \<le> lastPos base recs (outputLog e') \<and>
    (isRet r \<longrightarrow> lastPos base recs (outputLog e') = lastPos base recs (inputLog e') \<and>
       inputSeq e' = word_of_nat (lastPos base recs (inputLog e')) \<and>
       unat (outputAppliedSeq e') \<le> lastPos base recs (inputLog e'))"
proof -
  let ?M = "lastPos base recs (outputLog f)" and ?N = "lastPos base recs (inputLog f)"
  have MN: "?M \<le> ?N" using snd by (simp add: logsSound_def)
  obtain e1 r1 where e1: "loadSnapshot dec (Some (LatestSnapshot loadFails rs)) f = (e1, r1)" by fastforce
  note S = loadSnapshot_effect [OF seq(1) e1]
  have same: "logsSound base recs e1" using S snd by (simp add: logsSound_def)
  show ?thesis
  proof (cases "isRet r1 \<and> isRet (LastIndex ops (inputLog f))")
    case False
    then have "e' = e1" "\<not> isRet r"
      using run e1 S by (cases r1; cases "LastIndex ops (inputLog f)"; auto simp: Replay_def ofOutcome_def)+
    with S same show ?thesis by simp
  next
    case True
    then obtain idx n where idx: "r1 = Ret idx" "LastIndex ops (inputLog f) = Ret n"
      by (cases r1; cases "LastIndex ops (inputLog f)") auto
    have n: "n = word_of_nat ?N" by (rule LastIndex_Ret [OF laws idx(2)])
    have j: "unat idx \<le> ?M" using S idx(1) rows by auto
    have "unat (idx + 1) = Suc (unat idx)" using j MN bnd by (subst unat_add_less) simp_all
    then have ix: "indices (idx + 1) n = map word_of_nat [Suc (unat idx)..<Suc (unat idx + (?N - unat idx))]"
      using n bnd j MN by (simp add: indices_def unat_word_of_nat64 del: upt_Suc)
    have "forEach (replayInput ops clk) e1 (map word_of_nat [Suc (unat idx)..<Suc (unat idx + (?N - unat idx))]) = (e', r)"
      using run e1 S idx ix by (simp add: Replay_def ofOutcome_def del: upt_Suc)
    note R = forEach_replay [OF laws _ _ _ _ _ _ this]
    have wm: "unat (outputAppliedSeq f) = ?M" using seq(2) MN bnd by (simp add: unat_word_of_nat64)
    have "decodable (recs (inputLog e1))" "lastPos base recs (inputLog e1) < 2 ^ 64"
      "unat idx + (?N - unat idx) = lastPos base recs (inputLog e1)" "aligned base recs (outputLog e1)"
      "lastPos base recs (outputLog e1) = max (unat (outputAppliedSeq e1)) (unat idx)"
      "inputSeq e1 = word_of_nat (unat idx)"
      using same S idx(1) bnd j MN wm by (simp_all add: logsSound_def)
    from R [OF this] S wm MN j snd show ?thesis
      by (auto simp: logsSound_def lastPos_def)
  qed
qed

text \<open>
  A cleanup: the logs end where they ended; the input log keeps a window before \<open>lowest\<close> if it
  was cut, the output log keeps a record and everything the cursors have not passed.
\<close>

definition tidied ::
  "('l \<Rightarrow> nat) \<Rightarrow> ('l \<Rightarrow> bytes list) \<Rightarrow> ('l, 'b) system \<Rightarrow> uint64 \<Rightarrow> 'l Engine \<Rightarrow> 'l Engine \<Rightarrow> bool" where
  "tidied base recs s lowest e e' \<longleftrightarrow>
     (\<exists>i out. e' = e\<lparr>inputLog := i, outputLog := out\<rparr> \<and>
        lastPos base recs i = lastPos base recs (inputLog e) \<and> set (recs i) \<subseteq> set (recs (inputLog e)) \<and>
        (i = inputLog e \<or> base i = 0 \<or> base i + windowSize \<le> unat lowest) \<and>
        lastPos base recs out = lastPos base recs (outputLog e) \<and>
        (aligned base recs (outputLog e) \<longrightarrow> aligned base recs out) \<and>
        (out = outputLog e \<or> recs out \<noteq> [] \<and> base out < unat (mqCursor s) \<and> base out < unat (dbCursor s)))"

lemma cleanupOutputWAL_tidied:
  assumes "twal_laws ops base recs" "lastPos base recs (outputLog e) < 2 ^ 64" "cursorAnswers s cursors"
  shows "tidied base recs s lowest e (fst (cleanupOutputWAL ops cursors e))"
proof (cases rule: cleanupOutputWAL_effect [OF assms])
  case (1 l)
  then show ?thesis unfolding tidied_def by (intro exI [of _ "inputLog e"] exI [of _ l]) simp
qed

lemma cleanupWAL_tidied:
  assumes laws: "twal_laws ops base recs" and "lastPos base recs (inputLog e) < 2 ^ 64"
    and "lastPos base recs (outputLog e) < 2 ^ 64" "cursorAnswers s cursors"
  shows "tidied base recs s lowest e (cleanupWAL ops cursors e lowest)"
proof (cases rule: cleanupInputWAL_effect [OF laws assms(2), of lowest])
  case (1 i)
  have "lastPos base recs (outputLog (e\<lparr>inputLog := i\<rparr>)) < 2 ^ 64" using assms(3) by simp
  from cleanupOutputWAL_effect [OF laws this assms(4)] obtain l where
    "fst (cleanupOutputWAL ops cursors (e\<lparr>inputLog := i\<rparr>)) = e\<lparr>inputLog := i, outputLog := l\<rparr>"
    "lastPos base recs l = lastPos base recs (outputLog e)"
    "l = outputLog e \<or> recs l \<noteq> [] \<and> base l < unat (mqCursor s) \<and> base l < unat (dbCursor s)"
    "aligned base recs (outputLog e) \<Longrightarrow> aligned base recs l" by auto
  with 1 show ?thesis unfolding tidied_def cleanupWAL_def by (intro exI [of _ i] exI [of _ l]) simp
qed

lemma tidied_logs:
  assumes "tidied base recs s lowest e e'" "logsSound base recs e"
  shows "logsSound base recs e'" "lastPos base recs (inputLog e') = lastPos base recs (inputLog e)"
    "lastPos base recs (outputLog e') = lastPos base recs (outputLog e)"
    "inputSeq e' = inputSeq e" "outputAppliedSeq e' = outputAppliedSeq e"
  using assms by (auto simp: tidied_def logsSound_def decodable_def)

section \<open>The invariant\<close>

definition indexed :: "('b \<times> uint64) list \<Rightarrow> nat list" where
  "indexed rs = map (\<lambda>r. unat (snd r)) rs"

definition inputKept :: "('l \<Rightarrow> nat) \<Rightarrow> 'b rowset \<Rightarrow> 'l \<Rightarrow> bool" where
  "inputKept base rs l \<longleftrightarrow> base l = 0 \<or> rs \<noteq> [] \<and> base l + windowSize \<le> hd (indexed rs)"

definition outputKept :: "('l \<Rightarrow> nat) \<Rightarrow> ('l \<Rightarrow> bytes list) \<Rightarrow> ('l, 'b) system \<Rightarrow> 'l \<Rightarrow> bool" where
  "outputKept base recs s l \<longleftrightarrow>
     unat (mqCursor s) \<le> lastPos base recs l \<and> unat (dbCursor s) \<le> lastPos base recs l \<and>
     (base l = 0 \<or> base l < unat (mqCursor s) \<and> base l < unat (dbCursor s))"

definition rowsSound :: "('b \<times> uint64) list \<Rightarrow> nat \<Rightarrow> bool" where
  "rowsSound rs n \<longleftrightarrow> sorted (indexed rs) \<and> (\<forall>x\<in>set rs. unat (snd x) \<le> n)"

definition sound :: "('l \<Rightarrow> nat) \<Rightarrow> ('l \<Rightarrow> bytes list) \<Rightarrow> ('l, 'b) system \<Rightarrow> bool" where
  "sound base recs s \<longleftrightarrow>
     logsSound base recs (engine s) \<and>
     rowsSound (saved s @ (case queued s of None \<Rightarrow> [] | Some q \<Rightarrow> [q])) (lastPos base recs (outputLog (engine s))) \<and>
     inputKept base (saved s) (inputLog (engine s)) \<and>
     outputKept base recs s (outputLog (engine s)) \<and>
     (up s \<longrightarrow> lastPos base recs (outputLog (engine s)) = lastPos base recs (inputLog (engine s)) \<and>
        inputSeq (engine s) = word_of_nat (lastPos base recs (inputLog (engine s))) \<and>
        unat (outputAppliedSeq (engine s)) \<le> lastPos base recs (inputLog (engine s)))"

lemma indexed_simps [simp]:
  "indexed [] = []" "indexed (r # rs) = unat (snd r) # indexed rs" "indexed (rs @ rs') = indexed rs @ indexed rs'"
  "length (indexed rs) = length rs"
  by (simp_all add: indexed_def)

lemma sorted_hd_drop:
  assumes "sorted xs" "n < length xs"
  shows "hd xs \<le> hd (drop n (xs :: nat list))"
  using assms sorted_nth_mono [of xs 0 n] by (cases xs) (simp_all add: hd_drop_conv_nth)

lemma KeepNewest_rows:
  assumes "rowsSound rs n" "rs \<noteq> []"
  shows "rowsSound (KeepNewest rs snapshotRetention) n" "KeepNewest rs snapshotRetention \<noteq> []"
    "hd (indexed rs) \<le> hd (indexed (KeepNewest rs snapshotRetention))"
proof -
  have lt: "length rs - 15 < length rs" using assms(2) by (cases rs) simp_all
  then show "KeepNewest rs snapshotRetention \<noteq> []"
    by (simp add: KeepNewest_def snapshotRetention_def)
  show "rowsSound (KeepNewest rs snapshotRetention) n"
    using assms(1) by (auto simp: rowsSound_def KeepNewest_def indexed_def drop_map [symmetric] dest: in_set_dropD)
  show "hd (indexed rs) \<le> hd (indexed (KeepNewest rs snapshotRetention))"
    using sorted_hd_drop [of "indexed rs" "length rs - 15"] lt assms(1)
    by (simp add: rowsSound_def KeepNewest_def snapshotRetention_def indexed_def drop_map [symmetric])
qed

lemma KeepNewest_Nil: "KeepNewest [] n = []"
  by (simp add: KeepNewest_def)

lemma rowsSound_mono: "rowsSound rs n \<Longrightarrow> n \<le> m \<Longrightarrow> rowsSound rs m"
  by (fastforce simp: rowsSound_def)

lemma tidied_kept:
  assumes "tidied base recs s lowest e e'" "inputKept base rs (inputLog e)"
    and "rs \<noteq> [] \<Longrightarrow> rs' \<noteq> [] \<and> hd (indexed rs) \<le> hd (indexed rs')"
    and "\<And>l. base l + windowSize \<le> unat lowest \<Longrightarrow> inputKept base rs' l"
  shows "inputKept base rs' (inputLog e')"
proof -
  have "inputKept base rs' (inputLog e)" using assms(2,3) by (auto simp: inputKept_def)
  moreover have "inputLog e' = inputLog e \<or> base (inputLog e') = 0 \<or> base (inputLog e') + windowSize \<le> unat lowest"
    using assms(1) by (auto simp: tidied_def)
  moreover have "inputKept base rs' (inputLog e')" if "base (inputLog e') = 0" using that by (simp add: inputKept_def)
  ultimately show ?thesis using assms(4) by metis
qed

lemma tidied_outputKept:
  "tidied base recs s lowest e e' \<Longrightarrow> outputKept base recs s (outputLog e) \<Longrightarrow> outputKept base recs s (outputLog e')"
  by (auto simp: tidied_def outputKept_def)

lemma outputKept_grow:
  "outputKept base recs s l \<Longrightarrow> base l' = base l \<Longrightarrow> lastPos base recs l \<le> lastPos base recs l' \<Longrightarrow>
   outputKept base recs s l'"
  by (auto simp: outputKept_def)

lemma outputKept_cong [simp]:
  "outputKept base recs (s\<lparr>engine := e\<rparr>) = outputKept base recs s" "outputKept base recs (s\<lparr>saved := rs\<rparr>) = outputKept base recs s"
  "outputKept base recs (s\<lparr>queued := q\<rparr>) = outputKept base recs s" "outputKept base recs (s\<lparr>up := u\<rparr>) = outputKept base recs s"
  by (simp_all add: outputKept_def fun_eq_iff)

text \<open>A message, whatever comes of it.\<close>

lemma sound_deliver:
  assumes laws: "twal_laws ops base recs" and snd: "sound base recs s" and "up s"
    and h: "handle ops clk (engine s) m = (e', r)" and bnd: "Suc (lastPos base recs (inputLog e')) < 2 ^ 64"
  shows "sound base recs (s\<lparr>engine := e', up := isRet r\<rparr>)"
proof (cases rule: handle_effect [OF laws h])
  case 1
  with snd \<open>up s\<close> show ?thesis by (auto simp: sound_def)
next
  case (2 rq l idx r1)
  let ?e = "engine s" and ?a = "admitted (engine s) rq l idx"
  let ?N = "lastPos base recs (inputLog ?e)"
  have N': "lastPos base recs (inputLog e') = Suc ?N" using lastPos_append [of recs "inputLog e'"] 2(2,3) by blast
  have live: "lastPos base recs (outputLog ?e) = ?N" "unat (outputAppliedSeq ?e) \<le> ?N"
    using snd \<open>up s\<close> by (auto simp: sound_def)
  have idx: "unat idx = Suc ?N" using 2(4,6) N' bnd unat_word_of_nat64 [of "Suc ?N"] by simp
  have "\<not> suppressed ?a"
    using live(2) idx by (simp add: suppressed_def admitted_def word_le_nat_alt word_less_nat_alt)
  with reportsOnce_effect [OF laws 2(7)] 2(4,6,8) have out: "base (outputLog e') = base (outputLog ?e)"
    "if isRet r then map answers (recs (outputLog e')) = map answers (recs (outputLog ?e)) @ [word_of_nat (Suc ?N)]
     else outputLog e' = outputLog ?e"
    by (simp_all add: admitted_def split: if_splits)
  have al: "aligned base recs (outputLog ?e)" using snd by (simp add: sound_def logsSound_def)
  have out': "aligned base recs (outputLog e')"
    "lastPos base recs (outputLog e') = (if isRet r then Suc ?N else ?N)"
    using aligned_append [OF al out(1)] out(2) al live(1) by (auto split: if_splits)
  have "recs (outputLog e') = [] \<longrightarrow> base (outputLog e') = 0"
    using snd out by (auto simp: sound_def logsSound_def split: if_splits)
  then have logs: "logsSound base recs e'"
    using snd 2(1,2) out' N' by (auto simp: sound_def logsSound_def decodable_def)
  moreover have "inputKept base (saved s) (inputLog e')" using snd 2(3) by (simp add: sound_def inputKept_def)
  moreover have "outputKept base recs s (outputLog e')"
    using outputKept_grow [of base recs s "outputLog ?e"] snd out(1) out'(2) live(1) by (simp add: sound_def)
  moreover have "rowsSound (saved s @ (case queued s of None \<Rightarrow> [] | Some q \<Rightarrow> [q])) (lastPos base recs (outputLog e'))"
    by (rule rowsSound_mono [where n = ?N]) (use snd live(1) out'(2) in \<open>auto simp: sound_def\<close>)
  ultimately show ?thesis using 2(4,5) out'(2) N' live(2) by (simp add: sound_def)
qed

lemma sound_tick:
  assumes "sound base recs s" "up s" "lastPos base recs (inputLog (engine s)) < 2 ^ 64"
  shows "sound base recs (s\<lparr>queued := fst (snapshot enc (engine s) (queued s))\<rparr>)"
proof -
  have "unat (inputSeq (engine s)) = lastPos base recs (outputLog (engine s))"
    using assms by (simp add: sound_def unat_word_of_nat64)
  then have "rowsSound (saved s @ [(d, inputSeq (engine s))]) (lastPos base recs (outputLog (engine s)))"
    if "queued s = None" for d
    using assms(1) that by (auto simp: sound_def rowsSound_def sorted_append indexed_def)
  with assms(1) show ?thesis
    by (cases "Serialize enc (state (engine s))"; cases "queued s") (simp_all add: sound_def snapshot_def)
qed

text \<open>A round of the saver.\<close>

lemma sound_save:
  assumes laws: "twal_laws ops base recs" and snd: "sound base recs s" and "queued s = Some snap"
    and cur: "cursorAnswers s cursors"
    and run: "runSnapshotSaver ops fails cursors (saved s) (engine s) snap = (rs', e')"
    and bnd: "lastPos base recs (inputLog (engine s)) < 2 ^ 64"
  shows "sound base recs (s\<lparr>engine := e', saved := rs', queued := None\<rparr>)"
proof (cases fails)
  case (Some x)
  with run have "rs' = saved s" "e' = engine s" by (auto simp: runSnapshotSaver_def SaveSnapshotAndPrune_def)
  with snd assms(3) show ?thesis by (auto simp: sound_def rowsSound_def sorted_append)
next
  case None
  let ?all = "saved s @ [snap]" let ?M = "lastPos base recs (outputLog (engine s))"
  have rows: "rowsSound ?all ?M" using snd assms(3) by (simp add: sound_def)
  note K = KeepNewest_rows [OF rows]
  obtain q qs where q: "KeepNewest ?all snapshotRetention = q # qs"
    using K(2) by (cases "KeepNewest ?all snapshotRetention") auto
  have rs': "rs' = q # qs" and e': "e' = cleanupWAL ops cursors (engine s) (snd q)"
    using run None q by (auto simp: runSnapshotSaver_def SaveSnapshotAndPrune_def SaveSnapshot_def
        OldestSnapshotWalIndex_def)
  have logs: "logsSound base recs (engine s)" using snd by (simp add: sound_def)
  have "lastPos base recs (outputLog (engine s)) < 2 ^ 64" using logs bnd by (simp add: logsSound_def)
  then have t: "tidied base recs s (snd q) (engine s) e'" unfolding e' by (intro cleanupWAL_tidied [OF laws bnd _ cur])
  have "inputKept base rs' (inputLog e')"
  proof (rule tidied_kept [OF t])
    show "inputKept base (saved s) (inputLog (engine s))" using snd by (simp add: sound_def)
    show "rs' \<noteq> [] \<and> hd (indexed (saved s)) \<le> hd (indexed rs')" if "saved s \<noteq> []"
      using K(3) q rs' that by (simp add: hd_append indexed_def)
  qed (simp add: inputKept_def rs')
  moreover have "rowsSound rs' ?M" using K(1) q rs' by simp
  ultimately show ?thesis
    using tidied_logs [OF t logs] tidied_outputKept [OF t] snd by (simp add: sound_def)
qed

text \<open>A boot, also one that fails after it replayed a part of the log.\<close>

lemma tradeID_same: "\<exists>i. e = e\<lparr>lastTradeID := i\<rparr>"
  by (rule exI [of _ "lastTradeID e"]) simp

lemma andThen_tradeID:
  assumes "\<And>a. \<exists>i. fst (g e a) = e\<lparr>lastTradeID := i\<rparr>"
  shows "\<exists>i. fst (andThen (ofOutcome e x) g) = e\<lparr>lastTradeID := i\<rparr>"
  using assms by (cases x) (simp_all add: ofOutcome_def tradeID_same)

lemma initializeTradeID_frame:
  assumes "initializeTradeID ops ids e = (e', r)"
  shows "\<exists>i. e' = e\<lparr>lastTradeID := i\<rparr>"
proof -
  have "\<exists>i. fst (initializeTradeID ops ids e) = e\<lparr>lastTradeID := i\<rparr>"
    unfolding initializeTradeID_def
    by (intro andThen_tradeID; split option.split; intro conjI allI impI)
      (auto simp: tradeID_same split: option.split intro!: andThen_tradeID)
  with assms show ?thesis by simp
qed

lemma bootCleanup_effect:
  assumes laws: "twal_laws ops base recs" and cur: "cursorAnswers s cursors"
    and e: "logsSound base recs e" "lastPos base recs (inputLog e) < 2 ^ 64"
    and rows: "rowsSound rs n" "inputKept base rs (inputLog e)"
    and run: "bootCleanup ops fails cursors (Some rs) e = (store', e')"
  obtains rs' lowest where "store' = Some rs'" "rowsSound rs' n" "inputKept base rs' (inputLog e')"
    "tidied base recs s lowest e e'"
proof -
  have M: "lastPos base recs (outputLog e) < 2 ^ 64" using e by (simp add: logsSound_def)
  define rs1 where "rs1 = KeepNewest rs snapshotRetention"
  have rs1: "rowsSound rs1 n" "rs \<noteq> [] \<Longrightarrow> rs1 \<noteq> [] \<and> hd (indexed rs) \<le> hd (indexed rs1)"
    using KeepNewest_rows [OF rows(1)] rows(1) by (cases "rs = []"; simp add: rs1_def KeepNewest_Nil)+
  consider (clean) q qs where "rs1 = q # qs" "store' = Some rs1" "e' = cleanupWAL ops cursors e (snd q)"
    | (pruned) "store' = Some rs1" "e' = fst (cleanupOutputWAL ops cursors e)"
    | (kept) "store' = Some rs" "e' = fst (cleanupOutputWAL ops cursors e)"
    using run by (cases rs1) (auto simp: bootCleanup_def PruneSnapshots_def rs1_def [symmetric] Let_def
        OldestSnapshotWalIndex_def split: if_splits)
  then show thesis
  proof cases
    case clean
    note t = cleanupWAL_tidied [OF laws e(2) M cur, of "snd q", folded clean(3)]
    show thesis
      by (rule that [OF clean(2) rs1(1) tidied_kept [OF t rows(2) rs1(2)] t]) (simp_all add: inputKept_def clean(1))
  next
    case pruned
    note t = cleanupOutputWAL_tidied [OF laws M cur, of 0, folded pruned(2)]
    show thesis
      by (rule that [OF pruned(1) rs1(1) tidied_kept [OF t rows(2) rs1(2)] t]) simp_all
  next
    case kept
    note t = cleanupOutputWAL_tidied [OF laws M cur, of 0, folded kept(2)]
    show thesis
      by (rule that [OF kept(1) rows(1) tidied_kept [OF t rows(2)] t]) simp_all
  qed
qed

lemma sound_reboot:
  assumes laws: "twal_laws ops base recs" and snd: "sound base recs s"
    and cur: "cursorAnswers s cursors"
    and new: "NewEngine ops (inputLog (engine s)) (outputLog (engine s)) = (f, Ret ())"
    and run: "boot ops clk dec ids loadFails fails cursors (Some (saved s)) f = (e', r)"
    and bnd: "Suc (lastPos base recs (inputLog (engine s))) < 2 ^ 64"
  shows "sound base recs (s\<lparr>engine := e', saved := (case r of Ret (Some rs') \<Rightarrow> rs' | _ \<Rightarrow> saved s),
      queued := None, up := isRet r\<rparr>)"
proof -
  let ?e = "engine s"
  have S: "logsSound base recs ?e" "inputKept base (saved s) (inputLog ?e)" "outputKept base recs s (outputLog ?e)"
    "rowsSound (saved s) (lastPos base recs (outputLog ?e))"
    using snd by (auto simp: sound_def rowsSound_def sorted_append)
  have f: "inputLog f = inputLog ?e" "outputLog f = outputLog ?e" "inputSeq f = 0"
    "outputAppliedSeq f = word_of_nat (lastPos base recs (outputLog ?e))"
    by (rule NewEngine_effect [OF laws new]; use S(1) bnd in \<open>simp add: logsSound_def\<close>)+
  obtain f1 r1 where f1: "initializeTradeID ops ids f = (f1, r1)" by fastforce
  obtain t where t: "f1 = f\<lparr>lastTradeID := t\<rparr>" using initializeTradeID_frame [OF f1] by blast
  obtain f2 r2 where f2: "Replay ops clk dec (Some (LatestSnapshot loadFails (saved s))) f1 = (f2, r2)" by fastforce
  have "logsSound base recs f1" "Suc (lastPos base recs (inputLog f1)) < 2 ^ 64"
    using S(1) f t bnd by (simp_all add: logsSound_def)
  then have R: "logsSound base recs f2" "inputLog f2 = inputLog ?e" "base (outputLog f2) = base (outputLog ?e)"
    "lastPos base recs (outputLog ?e) \<le> lastPos base recs (outputLog f2)"
    "isRet r2 \<Longrightarrow> lastPos base recs (outputLog f2) = lastPos base recs (inputLog f2) \<and>
       inputSeq f2 = word_of_nat (lastPos base recs (inputLog f2)) \<and>
       unat (outputAppliedSeq f2) \<le> lastPos base recs (inputLog f2)"
    using Replay_effect [OF laws _ _ _ _ _ f2] S(4) f t by (auto simp: rowsSound_def)
  have rows: "rowsSound (saved s) (lastPos base recs (outputLog f2))" by (rule rowsSound_mono [OF S(4) R(4)])
  have out: "outputKept base recs s (outputLog f2)" by (rule outputKept_grow [OF S(3) R(3,4)])
  have kept: "inputKept base (saved s) (inputLog f2)" using S(2) R(2) by simp
  show ?thesis
  proof (cases "isRet r1 \<and> isRet r2")
    case False
    then have "\<not> isRet r" "e' = f1 \<or> e' = f2"
      using run f1 f2 by (cases r1; cases r2; auto simp: boot_def)+
    moreover have "logsSound base recs f1" "outputKept base recs s (outputLog f1)" "inputLog f1 = inputLog ?e"
      "rowsSound (saved s) (lastPos base recs (outputLog f1))"
      using S f t by (simp_all add: logsSound_def)
    ultimately show ?thesis using R(1,2) rows out kept S(2) by (cases r) (auto simp: sound_def)
  next
    case True
    then obtain store' where b: "bootCleanup ops fails cursors (Some (saved s)) f2 = (store', e')" "r = Ret store'"
      using run f1 f2 by (cases r1; cases r2; auto simp: boot_def split: prod.splits)
    have N: "lastPos base recs (inputLog f2) < 2 ^ 64" using R(2) bnd by simp
    obtain rs' lowest where rs': "store' = Some rs'" "rowsSound rs' (lastPos base recs (outputLog f2))"
      "inputKept base rs' (inputLog e')" "tidied base recs s lowest f2 e'"
      by (rule bootCleanup_effect [OF laws cur R(1) N rows kept b(1)])
    with tidied_logs [OF rs'(4) R(1)] tidied_outputKept [OF rs'(4) out] R(5) True b(2) show ?thesis
      by (simp add: sound_def)
  qed
qed

section \<open>Every reachable exchange\<close>

lemma sound_initial: "initial base recs s \<Longrightarrow> sound base recs s"
  by (auto simp: initial_def sound_def logsSound_def decodable_def aligned_def lastPos_def rowsSound_def
      inputKept_def outputKept_def)

lemma step_sound:
  assumes laws: "twal_laws ops base recs" and step: "step ops enc dec s s'"
    and snd: "sound base recs s" and bnd: "Suc (lastPos base recs (inputLog (engine s))) < 2 ^ 64"
    and bnd': "Suc (lastPos base recs (inputLog (engine s'))) < 2 ^ 64"
  shows "sound base recs s'"
  using step
proof (cases rule: step.cases)
  case (deliver clk m e' r)
  with sound_deliver [OF laws snd] bnd' show ?thesis by simp
next
  case tick
  with sound_tick [OF snd] bnd show ?thesis by simp
next
  case (save snap cursors fails rs' e')
  with sound_save [OF laws snd] bnd show ?thesis by simp
next
  case (publish n i)
  have M: "lastPos base recs (outputLog (engine s)) < 2 ^ 64" using snd bnd by (simp add: sound_def logsSound_def)
  have "unat i \<le> lastPos base recs (outputLog (engine s))"
    using publish(4) LastIndex_Ret [OF laws publish(2)] unat_word_of_nat64 [OF M] by (simp add: word_le_nat_alt)
  with snd publish(1,3) show ?thesis by (auto simp: sound_def outputKept_def word_le_nat_alt)
next
  case (project n i)
  have M: "lastPos base recs (outputLog (engine s)) < 2 ^ 64" using snd bnd by (simp add: sound_def logsSound_def)
  have "unat i \<le> lastPos base recs (outputLog (engine s))"
    using project(4) LastIndex_Ret [OF laws project(2)] unat_word_of_nat64 [OF M] by (simp add: word_le_nat_alt)
  with snd project(1,3) show ?thesis by (auto simp: sound_def outputKept_def word_le_nat_alt)
next
  case crash
  with snd show ?thesis by (auto simp: sound_def rowsSound_def sorted_append)
next
  case (reboot cursors f clk ids loadFails fails e' r)
  with sound_reboot [OF laws snd _ _ _ bnd] show ?thesis by simp
qed

lemma reachable_sound:
  assumes laws: "twal_laws ops base recs" and "reachable ops base recs enc dec s"
  shows "sound base recs s \<and> Suc (lastPos base recs (inputLog (engine s))) < 2 ^ 64"
  using assms(2)
proof induction
  case (start s)
  then show ?case using sound_initial [of base recs s] by (auto simp: initial_def lastPos_def)
next
  case (more s s')
  then show ?case using step_sound [OF laws more.hyps(2)] by blast
qed

subsection \<open>A reachable exchange\<close>

text \<open>The exchange that was booted for the first time and then handled the message of account 7.\<close>

lemma reachable7:
  obtains s where "reachable memOps mlBase mlRecs Some Some s" "up s" "saved s = []"
    "inputLog (engine s) = \<lparr>mlBase = 0, mlRecs = [message7]\<rparr>" "getAccount (state (engine s)) 7 = Some account7"
proof -
  let ?e0 = "emptyEngine memEmpty memEmpty"
  obtain e where h: "history memOps mlBase mlRecs sampleClock memEmpty memEmpty [message7] e"
    "mlRecs (inputLog e) = [message7]" "getAccount (state e) 7 = Some account7" by (rule history7)
  obtain r where e: "handle memOps sampleClock ?e0 message7 = (e, Ret r)"
    using h(1) handleAll_Cons [of memOps sampleClock ?e0 message7 "[]" e] by (auto simp: history_def)
  let ?s0 = "\<lparr>engine = ?e0, saved = [], queued = None, mqCursor = 0, dbCursor = 0, up = False\<rparr>"
  let ?s1 = "?s0\<lparr>engine := ?e0, saved := [], queued := None, up := True\<rparr>"
  let ?s2 = "?s1\<lparr>engine := e, up := True\<rparr>"
  have new: "NewEngine memOps memEmpty memEmpty = (?e0, Ret ())"
    using NewEngine_boots [OF memOps_laws memOps_reliable, of memEmpty memEmpty]
    by (simp add: memEmpty_def decodable_def windowKept_def lastAnswer_def rememberAll_def emptyEngine_def)
  have ids: "initializeTradeID memOps (Some (Ret 0)) ?e0 = (?e0, Ret ())"
    by (simp add: initializeTradeID_def ofOutcome_def LastIndex_def FirstIndex_def memOps_def memLast_def memEmpty_def
        indices_def emptyEngine_def)
  have lastIdx: "LastIndex memOps memEmpty = Ret 0"
    by (simp add: LastIndex_def memOps_def memLast_def memEmpty_def)
  have "boot memOps sampleClock Some (Some (Ret 0)) False None None (Some []) ?e0 = (?e0, Ret (Some []))"
    by (simp add: boot_def ids lastIdx Replay_def loadSnapshot_def LatestSnapshot_def NewestSnapshot_def ofOutcome_def
        indices_def bootCleanup_def PruneSnapshots_def OldestSnapshotWalIndex_def KeepNewest_def cleanupOutputWAL_def)
  then have st1: "step memOps Some Some ?s0 ?s1"
    using step.reboot [of ?s0 None memOps ?e0 sampleClock Some "Some (Ret 0)" False None ?e0 "Ret (Some [])" Some] new
    by (simp add: cursorAnswers_def)
  have st2: "step memOps Some Some ?s1 ?s2"
    using step.deliver [of ?s1 memOps sampleClock message7 e "Ret r" Some Some] e by simp
  have r0: "reachable memOps mlBase mlRecs Some Some ?s0"
    by (rule reachable.start, unfold initial_def, intro exI [of _ memEmpty]) (simp add: memEmpty_def)
  have base: "mlBase (inputLog e) = 0" using history_facts(1) [OF memOps_laws h(1)] h(2) by simp
  have r1: "reachable memOps mlBase mlRecs Some Some ?s1"
    by (rule reachable.more [OF r0 st1]) (simp add: lastPos_def memEmpty_def)
  have "reachable memOps mlBase mlRecs Some Some ?s2"
    by (rule reachable.more [OF r1 st2]) (simp add: lastPos_def base h(2))
  then show thesis by (rule that) (use h base in simp_all)
qed

section \<open>Theorems\<close>

text \<open>
  C4: In every exchange that can be reached by handling messages, taking and saving snapshots,
  cleaning up the logs, publishing, crashing and rebooting in any order, record number \<open>k\<close> of
  the output log answers input number \<open>k\<close>: no input is answered twice and none is skipped. The
  output log is never ahead of the input log, and while the engine runs it is level with it.
\<close>

theorem outputs_answer_inputs:
  assumes "twal_laws ops base recs" "reachable ops base recs enc dec s"
  shows "map answers (recs (outputLog (engine s))) =
      map word_of_nat [Suc (base (outputLog (engine s)))..<Suc (lastPos base recs (outputLog (engine s)))] \<and>
    lastPos base recs (outputLog (engine s)) \<le> lastPos base recs (inputLog (engine s)) \<and>
    (up s \<longrightarrow> lastPos base recs (outputLog (engine s)) = lastPos base recs (inputLog (engine s)))"
  using reachable_sound [OF assms] by (simp add: sound_def logsSound_def aligned_def)

theorem outputs_answer_inputs_witness:
  "\<exists>s. reachable memOps mlBase mlRecs Some Some s \<and> up s \<and>
     lastPos mlBase mlRecs (outputLog (engine s)) = 1 \<and> mlRecs (inputLog (engine s)) = [message7]"
proof -
  obtain s where s: "reachable memOps mlBase mlRecs Some Some s" "up s"
    "inputLog (engine s) = \<lparr>mlBase = 0, mlRecs = [message7]\<rparr>" by (rule reachable7)
  with outputs_answer_inputs [OF memOps_laws s(1)] show ?thesis by (auto simp: lastPos_def)
qed

text \<open>
  C20: Whatever the cleanup removed, a crashed exchange can be booted: on reliable storage
  \<^verbatim>\<open>NewEngine\<close> succeeds on the two logs, the duplicate filter is rebuilt from a full window of
  inputs (or from all there ever were), and every input after any retained snapshot, or every
  input when there is none, can still be read for the replay.
\<close>

theorem cleanup_keeps_recovery:
  assumes "twal_laws ops base recs" "twal_reliable ops base recs" "reachable ops base recs enc dec s"
  shows "(\<exists>f. NewEngine ops (inputLog (engine s)) (outputLog (engine s)) = (f, Ret ())) \<and>
    windowKept (base (inputLog (engine s))) (recs (inputLog (engine s))) \<and>
    (\<forall>k. (if saved s = [] then 0 else Min (set (map (unat \<circ> snd) (saved s)))) < k \<longrightarrow>
       k \<le> lastPos base recs (inputLog (engine s)) \<longrightarrow> isRet (Read ops (inputLog (engine s)) (word_of_nat k)))"
proof -
  let ?i = "inputLog (engine s)" and ?o = "outputLog (engine s)"
  note S = reachable_sound [OF assms(1,3), unfolded sound_def logsSound_def]
  have bnd: "base ?i + length (recs ?i) < 2 ^ 64" "base ?o + length (recs ?o) < 2 ^ 64"
    using S by (simp_all add: lastPos_def)
  have rows: "sorted (indexed (saved s))" "\<forall>x\<in>set (saved s). unat (snd x) \<le> lastPos base recs ?i"
  proof -
    have "rowsSound (saved s) (lastPos base recs ?o)"
      using S by (simp add: rowsSound_def sorted_append ball_Un)
    from rowsSound_mono [OF this] S show "sorted (indexed (saved s))"
      "\<forall>x\<in>set (saved s). unat (snd x) \<le> lastPos base recs ?i" by (auto simp: rowsSound_def)
  qed
  have kept: "base ?i = 0 \<or> saved s \<noteq> [] \<and> base ?i + windowSize \<le> hd (indexed (saved s))"
    using S by (simp add: inputKept_def)
  have first: "hd (indexed (saved s)) = Min (set (map (unat \<circ> snd) (saved s)))" if "saved s \<noteq> []"
  proof -
    have "indexed (saved s) = map (unat \<circ> snd) (saved s)" by (simp add: indexed_def)
    with rows(1) that show ?thesis by (cases "saved s") (auto intro!: Min_eqI [symmetric])
  qed
  have win: "windowKept (base ?i) (recs ?i)"
  proof -
    have "hd (indexed (saved s)) \<le> lastPos base recs ?i" if "saved s \<noteq> []"
      using rows(2) that by (cases "saved s") auto
    with kept show ?thesis by (auto simp: windowKept_def lastPos_def)
  qed
  have ans: "lastAnswer (recs ?o) = word_of_nat (lastPos base recs ?o)" using S by (intro aligned_last) auto
  have "if recs ?o = [] then base ?o = 0 else lastAnswer (recs ?o) \<noteq> 0"
    using S ans bnd(2) unat_word_of_nat64 [of "lastPos base recs ?o"]
    by (auto simp: lastPos_def simp del: of_nat_add dest: arg_cong [where f = unat])
  then have "\<exists>f. NewEngine ops ?i ?o = (f, Ret ())"
    using NewEngine_boots [OF assms(1,2) bnd(2,1) _ _ win] S by blast
  moreover have "isRet (Read ops ?i (word_of_nat k))" if "base ?i < k" "k \<le> lastPos base recs ?i" for k
    using Read_reliable [OF assms(2), of "k - base ?i - 1" ?i] that bnd(1)
    by (simp add: lastPos_def Suc_leI del: of_nat_add of_nat_Suc of_nat_diff)
  moreover define lowest where "lowest = (if saved s = [] then 0 else Min (set (map (unat \<circ> snd) (saved s))))"
  moreover have "base ?i \<le> lowest"
  proof (cases "saved s = []")
    case False
    with first [OF False] have "lowest = hd (indexed (saved s))" by (simp only: lowest_def if_False)
    with kept show ?thesis by linarith
  qed (use kept in simp)
  ultimately show ?thesis using win unfolding lowest_def [symmetric] by (meson le_less_trans)
qed

theorem cleanup_keeps_recovery_witness:
  "\<exists>s. reachable memOps mlBase mlRecs Some Some s \<and> lastPos mlBase mlRecs (inputLog (engine s)) = 1 \<and>
     (\<exists>f. NewEngine memOps (inputLog (engine s)) (outputLog (engine s)) = (f, Ret ())) \<and>
     isRet (Read memOps (inputLog (engine s)) (word_of_nat 1))"
proof -
  obtain s where s: "reachable memOps mlBase mlRecs Some Some s" "saved s = []"
    "inputLog (engine s) = \<lparr>mlBase = 0, mlRecs = [message7]\<rparr>" by (rule reachable7)
  then have "lastPos mlBase mlRecs (inputLog (engine s)) = 1" by (simp add: lastPos_def)
  with cleanup_keeps_recovery [OF memOps_laws memOps_reliable s(1)] s(1,2) show ?thesis by (intro exI [of _ s]) auto
qed

text \<open>
  C21: The output log keeps everything that is still to be published: the record after the
  cursor of the queue and the one after the cursor of the database, as long as they are not
  past the end, can be read, and a log that was ever written keeps at least one record, from
  which the recovery watermark is read.
\<close>

theorem cleanup_keeps_unpublished:
  assumes "twal_laws ops base recs" "twal_reliable ops base recs" "reachable ops base recs enc dec s"
  shows "(\<forall>c\<in>{mqCursor s, dbCursor s}. unat c < lastPos base recs (outputLog (engine s)) \<longrightarrow>
      isRet (Read ops (outputLog (engine s)) (c + 1))) \<and>
    (0 < lastPos base recs (outputLog (engine s)) \<longrightarrow> recs (outputLog (engine s)) \<noteq> [])"
proof -
  let ?o = "outputLog (engine s)"
  note S = reachable_sound [OF assms(1,3), unfolded sound_def logsSound_def outputKept_def]
  have bnd: "base ?o + length (recs ?o) < 2 ^ 64" using S by (simp add: lastPos_def)
  have "isRet (Read ops ?o (c + 1))" if "base ?o \<le> unat c" "unat c < lastPos base recs ?o" for c
  proof -
    have "word_of_nat (base ?o + (unat c - base ?o) + 1) = c + 1" using that(1) by simp
    then show ?thesis
      using Read_reliable [OF assms(2), of "unat c - base ?o" ?o] that bnd by (simp add: lastPos_def add.commute)
  qed
  moreover have "base ?o \<le> unat (mqCursor s)" "base ?o \<le> unat (dbCursor s)" using S by auto
  ultimately show ?thesis using S by (auto simp: lastPos_def)
qed

theorem cleanup_keeps_unpublished_witness:
  "\<exists>s. reachable memOps mlBase mlRecs Some Some s \<and> mlRecs (outputLog (engine s)) \<noteq> []"
proof -
  obtain s where s: "reachable memOps mlBase mlRecs Some Some s" "up s"
    "inputLog (engine s) = \<lparr>mlBase = 0, mlRecs = [message7]\<rparr>" by (rule reachable7)
  have "lastPos mlBase mlRecs (outputLog (engine s)) = 1"
    using reachable_sound [OF memOps_laws s(1)] s(2,3) by (simp add: sound_def lastPos_def)
  with cleanup_keeps_unpublished [OF memOps_laws memOps_reliable s(1)] s(1) show ?thesis by auto
qed

lemma KeepNewest_length: "length (KeepNewest rs keep) = min (length rs) (nat keep)"
  by (simp add: KeepNewest_def min_def)

lemma step_rows:
  assumes "step ops enc dec s s'" "length (saved s) \<le> nat snapshotRetention"
  shows "length (saved s') \<le> nat snapshotRetention"
  using assms(1)
proof cases
  case (save snap cursors fails rs' e')
  then have "rs' = saved s \<or> rs' = KeepNewest (SaveSnapshot (saved s) (fst snap) (snd snap)) snapshotRetention"
    by (auto simp: runSnapshotSaver_def SaveSnapshotAndPrune_def Let_def split: if_splits option.splits)
  with save(1) assms(2) show ?thesis by (auto simp: KeepNewest_length)
next
  case (reboot cursors f clk ids loadFails fails e' r)
  have "length rs' \<le> nat snapshotRetention" if found: "r = Ret (Some rs')" for rs'
  proof -
    have c: "fst (bootCleanup ops fails cursors (Some (saved s)) e1) \<in> {Some (saved s), Some (KeepNewest (saved s) snapshotRetention)}" for e1
      by (auto simp: bootCleanup_def PruneSnapshots_def Let_def split: option.splits)
    obtain e1 where "fst (bootCleanup ops fails cursors (Some (saved s)) e1) = Some rs'"
      using reboot(5) found unfolding boot_def andThen_def
      by (auto simp: Let_def case_prod_beta split: outcome.splits prod.splits)
    then have "Some rs' \<in> {Some (saved s), Some (KeepNewest (saved s) snapshotRetention)}" using c [of e1] by simp
    then show ?thesis using assms(2) by (auto simp: KeepNewest_length)
  qed
  then show ?thesis using reboot(1) assms(2) by (auto split: outcome.splits option.splits)
qed (use assms(2) in auto)

text \<open>
  C37: At most fifteen snapshots are stored, in every exchange that can be reached: the saver adds
  a snapshot and removes the oldest ones in one transaction, a boot prunes, and nothing else
  writes to the table.
\<close>

theorem snapshots_bounded:
  assumes "reachable ops base recs enc dec s"
  shows "length (saved s) \<le> 15"
proof -
  have "length (saved s) \<le> nat snapshotRetention"
    using assms
  proof induction
    case (start s)
    then show ?case by (auto simp: initial_def)
  next
    case (more s s')
    then show ?case using step_rows by blast
  qed
  then show ?thesis by (simp add: snapshotRetention_def)
qed

theorem snapshots_bounded_witness:
  "\<exists>s. reachable memOps mlBase mlRecs Some Some s \<and> up s \<and> length (saved s) \<le> 15"
proof -
  obtain s where "reachable memOps mlBase mlRecs Some Some s" "up s" by (rule reachable7)
  with snapshots_bounded show ?thesis by blast
qed

end
