(* ===== verification/Storage.thy ===== *)
theory Storage
  imports Engine
begin

text \<open>
  The event store (\<^verbatim>\<open>internal/storage/event.go\<close> over the statements of
  \<^verbatim>\<open>internal/storage/sqlc\<close>): the tables the projector writes to, every statement with the
  constraints of \<^verbatim>\<open>db/migrations/schema.sql\<close> (primary and foreign keys, ENUM columns in the
  strict mode of the server), the two cursors, and transactions. A row has the columns that the
  statements use.

  A transaction is the database as the transaction sees it together with the number of
  statements until the connection breaks, if it does; a statement that fails, for this reason or
  because of a constraint, returns an error, and the database outside is only changed by a
  commit. Times are stored as given; the rounding of \<^verbatim>\<open>DATETIME(3)\<close> columns is left out.
\<close>

section \<open>Columns\<close>

definition AccountsStatus :: "string list" where
  "AccountsStatus = [''PENDING'', ''ACTIVE'']"

definition OrdersStatus :: "string list" where
  "OrdersStatus = [''RECEIVED'', ''OPEN'', ''FILLED'', ''CANCELED'', ''REPLACED'', ''REJECTED'', ''COMPLETED'']"

definition OrdersRejectReason :: "string list" where
  "OrdersRejectReason =
     [''INVALID_ORDER'', ''INSUFFICIENT_BALANCE'', ''INSUFFICIENT_STOCK'', ''STOCK_NOT_TRADABLE'', ''ORDER_NOT_ACTIVE'']"

definition StocksStatus :: "string list" where
  "StocksStatus = [''PENDING'', ''LISTED'', ''SUSPENDED'', ''DELISTED'']"

definition TransfersStatus :: "string list" where
  "TransfersStatus = [''RECEIVED'', ''REJECTED'', ''COMPLETED'']"

definition TransfersRejectReason :: "string list" where
  "TransfersRejectReason =
     [''INSUFFICIENT_BALANCE'', ''INVALID_RECIPIENT'', ''INVALID_SENDER'', ''SENDER_NOT_ACTIVE'',
      ''RECIPIENT_NOT_ACTIVE'', ''SELF_TRANSFER'', ''INVALID_REQUEST'']"

definition AdminRequestsStatus :: "string list" where
  "AdminRequestsStatus = [''RECEIVED'', ''COMPLETED'', ''REJECTED'']"

definition AdminRequestsRejectReason :: "string list" where
  "AdminRequestsRejectReason =
     [''TARGET_NOT_FOUND'', ''INVALID_STATE'', ''INSUFFICIENT_BALANCE'', ''INSUFFICIENT_STOCK'', ''INVALID_REQUEST'']"

datatype CursorsType = DB_APPLIED_OUTPUT_SEQ | MQ_PUBLISHED_OUTPUT_SEQ

section \<open>Tables\<close>

record AccountRow =
  raBalance :: uint64
  raAvailableBalance :: uint64
  raStatus :: string

record StockRow =
  rsPrice :: uint64
  rsStatus :: string

record OrderRow =
  roQuantity :: uint64
  roFilledQuantity :: uint64
  roStatus :: string
  roRejectReason :: "string option"
  roFullyFilledAt :: "time option"

record TradeRow =
  rtStockID :: int32
  rtPrice :: uint64
  rtQuantity :: uint64
  rtMakerOrderID :: int64
  rtTakerOrderID :: int64
  rtMatchedAt :: time

text \<open>Transfers and administrator's requests have the same columns that are written.\<close>

record RequestRow =
  rqStatus :: string
  rqRejectReason :: "string option"
  rqCompletedAt :: "time option"

record HoldingRow =
  rhQuantity :: uint64
  rhAvailableQuantity :: uint64
  rhAverage :: uint64
  rhTotalBuyAmount :: uint64

record database =
  dbAccounts :: "(int32, AccountRow) fmap"
  dbHoldings :: "(stockKey, HoldingRow) fmap"
  dbStocks :: "(int32, StockRow) fmap"
  dbOrders :: "(int64, OrderRow) fmap"
  dbTrades :: "(int64, TradeRow) fmap"
  dbTransfers :: "(int64, RequestRow) fmap"
  dbAdminRequests :: "(int64, RequestRow) fmap"
  dbCursors :: "(CursorsType, int64) fmap"

section \<open>Statements\<close>

text \<open>\<open>None\<close> is a statement that a constraint refuses. An update of a missing row does nothing.\<close>

definition updateRow :: "'k \<Rightarrow> ('r \<Rightarrow> 'r) \<Rightarrow> ('k, 'r) fmap \<Rightarrow> ('k, 'r) fmap" where
  "updateRow k f t = (case fmlookup t k of None \<Rightarrow> t | Some r \<Rightarrow> fmupd k (f r) t)"

definition q_ActivateAccount :: "int32 \<Rightarrow> database \<Rightarrow> database option" where
  "q_ActivateAccount i d = Some (d\<lparr>dbAccounts := updateRow i (\<lambda>r. r\<lparr>raStatus := ''ACTIVE''\<rparr>) (dbAccounts d)\<rparr>)"

definition q_UpdateAccountBalance :: "uint64 \<Rightarrow> uint64 \<Rightarrow> int32 \<Rightarrow> database \<Rightarrow> database option" where
  "q_UpdateAccountBalance balance available i d =
     Some (d\<lparr>dbAccounts := updateRow i (\<lambda>r. r\<lparr>raBalance := balance, raAvailableBalance := available\<rparr>) (dbAccounts d)\<rparr>)"

definition q_UpdateStockPrice :: "uint64 \<Rightarrow> int32 \<Rightarrow> database \<Rightarrow> database option" where
  "q_UpdateStockPrice price i d = Some (d\<lparr>dbStocks := updateRow i (\<lambda>r. r\<lparr>rsPrice := price\<rparr>) (dbStocks d)\<rparr>)"

definition q_UpdateStockStatus :: "string \<Rightarrow> int32 \<Rightarrow> database \<Rightarrow> database option" where
  "q_UpdateStockStatus status i d =
     (if status \<in> set StocksStatus
      then Some (d\<lparr>dbStocks := updateRow i (\<lambda>r. r\<lparr>rsStatus := status\<rparr>) (dbStocks d)\<rparr>) else None)"

definition q_RejectOrder :: "string \<Rightarrow> int64 \<Rightarrow> database \<Rightarrow> database option" where
  "q_RejectOrder reason i d =
     (if reason \<in> set OrdersRejectReason
      then Some (d\<lparr>dbOrders := updateRow i (\<lambda>r. r\<lparr>roStatus := ''REJECTED'', roRejectReason := Some reason\<rparr>) (dbOrders d)\<rparr>)
      else None)"

definition q_UpdateOrderState ::
  "string \<Rightarrow> uint64 \<Rightarrow> uint64 \<Rightarrow> time option \<Rightarrow> int64 \<Rightarrow> database \<Rightarrow> database option" where
  "q_UpdateOrderState status quantity filled fullyFilledAt i d =
     (if status \<in> set OrdersStatus
      then Some (d\<lparr>dbOrders := updateRow i (\<lambda>r. r\<lparr>roStatus := status, roQuantity := quantity,
             roFilledQuantity := filled, roFullyFilledAt := fullyFilledAt\<rparr>) (dbOrders d)\<rparr>)
      else None)"

definition q_SaveTrade :: "int64 \<Rightarrow> TradeRow \<Rightarrow> database \<Rightarrow> database option" where
  "q_SaveTrade i r d =
     (if fmlookup (dbTrades d) i = None \<and> fmlookup (dbStocks d) (rtStockID r) \<noteq> None \<and>
         fmlookup (dbOrders d) (rtMakerOrderID r) \<noteq> None \<and> fmlookup (dbOrders d) (rtTakerOrderID r) \<noteq> None
      then Some (d\<lparr>dbTrades := fmupd i r (dbTrades d)\<rparr>) else None)"

definition q_UpsertHolding :: "int32 \<Rightarrow> int32 \<Rightarrow> HoldingRow \<Rightarrow> database \<Rightarrow> database option" where
  "q_UpsertHolding a st r d =
     (if fmlookup (dbAccounts d) a \<noteq> None \<and> fmlookup (dbStocks d) st \<noteq> None
      then Some (d\<lparr>dbHoldings := fmupd (StockKey a st) r (dbHoldings d)\<rparr>) else None)"

definition q_DeleteHolding :: "int32 \<Rightarrow> int32 \<Rightarrow> database \<Rightarrow> database option" where
  "q_DeleteHolding a st d = Some (d\<lparr>dbHoldings := fmdrop (StockKey a st) (dbHoldings d)\<rparr>)"

definition q_CompleteTransfer :: "time option \<Rightarrow> int64 \<Rightarrow> database \<Rightarrow> database option" where
  "q_CompleteTransfer completedAt i d =
     Some (d\<lparr>dbTransfers := updateRow i (\<lambda>r. r\<lparr>rqStatus := ''COMPLETED'', rqCompletedAt := completedAt\<rparr>) (dbTransfers d)\<rparr>)"

definition q_RejectTransfer :: "string \<Rightarrow> time option \<Rightarrow> int64 \<Rightarrow> database \<Rightarrow> database option" where
  "q_RejectTransfer reason completedAt i d =
     (if reason \<in> set TransfersRejectReason
      then Some (d\<lparr>dbTransfers := updateRow i (\<lambda>r. r\<lparr>rqStatus := ''REJECTED'', rqRejectReason := Some reason,
             rqCompletedAt := completedAt\<rparr>) (dbTransfers d)\<rparr>)
      else None)"

definition q_CompleteAdminRequest :: "time option \<Rightarrow> int64 \<Rightarrow> database \<Rightarrow> database option" where
  "q_CompleteAdminRequest completedAt i d =
     Some (d\<lparr>dbAdminRequests := updateRow i (\<lambda>r. r\<lparr>rqStatus := ''COMPLETED'', rqCompletedAt := completedAt\<rparr>)
       (dbAdminRequests d)\<rparr>)"

definition q_RejectAdminRequest :: "string \<Rightarrow> time option \<Rightarrow> int64 \<Rightarrow> database \<Rightarrow> database option" where
  "q_RejectAdminRequest reason completedAt i d =
     (if reason \<in> set AdminRequestsRejectReason
      then Some (d\<lparr>dbAdminRequests := updateRow i (\<lambda>r. r\<lparr>rqStatus := ''REJECTED'', rqRejectReason := Some reason,
             rqCompletedAt := completedAt\<rparr>) (dbAdminRequests d)\<rparr>)
      else None)"

definition q_SaveCursor :: "CursorsType \<Rightarrow> int64 \<Rightarrow> database \<Rightarrow> database option" where
  "q_SaveCursor t i d = Some (d\<lparr>dbCursors := fmupd t i (dbCursors d)\<rparr>)"

definition q_LoadCursor :: "CursorsType \<Rightarrow> database \<Rightarrow> int64 option" where
  "q_LoadCursor t d = fmlookup (dbCursors d) t"

section \<open>The event store\<close>

text \<open>Go's conversions between \<^verbatim>\<open>uint64\<close> and \<^verbatim>\<open>int64\<close>.\<close>

definition int64_of_uint64 :: "uint64 \<Rightarrow> int64" where
  "int64_of_uint64 w = (if unat w < 2 ^ 63 then int (unat w) else int (unat w) - 2 ^ 64)"

definition LastTradeID :: "bool \<Rightarrow> database \<Rightarrow> int64 outcome" where
  "LastTradeID fails d =
     (if fails then Err StoreFailed
      else Ret (let ids = fset (fmdom (dbTrades d)) in if ids = {} then 0 else Max ids))"

definition LoadCursor :: "CursorsType \<Rightarrow> bool \<Rightarrow> database \<Rightarrow> uint64 outcome" where
  "LoadCursor t fails d =
     (if fails then Err StoreFailed
      else case q_LoadCursor t d of None \<Rightarrow> Ret 0 | Some i \<Rightarrow> Ret (word_of_int i))"

definition SaveMQPublishedCursor :: "bool \<Rightarrow> database \<Rightarrow> uint64 \<Rightarrow> database \<times> unit outcome" where
  "SaveMQPublishedCursor fails d idx =
     (if fails then (d, Err StoreFailed)
      else case q_SaveCursor MQ_PUBLISHED_OUTPUT_SEQ (int64_of_uint64 idx) d of
             None \<Rightarrow> (d, Err StoreFailed)
           | Some d' \<Rightarrow> (d', Ret ()))"

type_synonym eventTx = "database \<times> nat option"

text \<open>
  A transaction is the database it sees with the number of further statements the connection lasts.
  It begins unless the connection is down; \<open>fault\<close> is \<open>None\<close> for a stable connection, \<open>Some 0\<close> when
  not even the transaction begins, \<open>Some (Suc n)\<close> when it breaks after \<open>n\<close> statements.
\<close>

definition Begin :: "nat option \<Rightarrow> database \<Rightarrow> eventTx outcome" where
  "Begin fault d = (if fault = Some 0 then Err StoreFailed else Ret (d, map_option (\<lambda>n. n - 1) fault))"

definition exec :: "(database \<Rightarrow> database option) \<Rightarrow> eventTx \<Rightarrow> eventTx outcome" where
  "exec q t =
     (case snd t of
        Some 0 \<Rightarrow> Err StoreFailed
      | n \<Rightarrow> (case q (fst t) of
                None \<Rightarrow> Err StoreFailed
              | Some d \<Rightarrow> Ret (d, map_option (\<lambda>k. k - 1) n)))"

definition SaveDBAppliedCursor :: "uint64 \<Rightarrow> eventTx \<Rightarrow> eventTx outcome" where
  "SaveDBAppliedCursor idx = exec (q_SaveCursor DB_APPLIED_OUTPUT_SEQ (int64_of_uint64 idx))"

definition SaveTrade :: "Trade \<Rightarrow> eventTx \<Rightarrow> eventTx outcome" where
  "SaveTrade tr = exec (q_SaveTrade (trId tr)
     \<lparr>rtStockID = trStockId tr, rtPrice = trPrice tr, rtQuantity = trQuantity tr,
      rtMakerOrderID = trMakerOrderId tr, rtTakerOrderID = trTakerOrderId tr, rtMatchedAt = trExecutedAt tr\<rparr>)"

definition UpdateOrderState :: "int64 \<Rightarrow> string \<Rightarrow> uint64 \<Rightarrow> uint64 \<Rightarrow> time option \<Rightarrow> eventTx \<Rightarrow> eventTx outcome" where
  "UpdateOrderState orderID status quantity filled fullyFilledAt =
     exec (q_UpdateOrderState status quantity filled fullyFilledAt orderID)"

definition RejectOrder :: "int64 \<Rightarrow> string \<Rightarrow> eventTx \<Rightarrow> eventTx outcome" where
  "RejectOrder orderID reason = exec (q_RejectOrder reason orderID)"

definition UpdateAccountBalance :: "int32 \<Rightarrow> uint64 \<Rightarrow> uint64 \<Rightarrow> eventTx \<Rightarrow> eventTx outcome" where
  "UpdateAccountBalance acc balance available = exec (q_UpdateAccountBalance balance available acc)"

definition ActivateAccount :: "int32 \<Rightarrow> eventTx \<Rightarrow> eventTx outcome" where
  "ActivateAccount acc = exec (q_ActivateAccount acc)"

definition UpdateStockPrice :: "int32 \<Rightarrow> uint64 \<Rightarrow> eventTx \<Rightarrow> eventTx outcome" where
  "UpdateStockPrice stock price = exec (q_UpdateStockPrice price stock)"

definition UpdateStockStatus :: "int32 \<Rightarrow> string \<Rightarrow> eventTx \<Rightarrow> eventTx outcome" where
  "UpdateStockStatus stock status = exec (q_UpdateStockStatus status stock)"

definition UpsertHolding :: "StockBalance \<Rightarrow> eventTx \<Rightarrow> eventTx outcome" where
  "UpsertHolding h = exec (q_UpsertHolding (hAccountId h) (hStockId h)
     \<lparr>rhQuantity = hQuantity h, rhAvailableQuantity = hAvailableQuantity h, rhAverage = hAverage h,
      rhTotalBuyAmount = hTotalBuyAmount h\<rparr>)"

definition DeleteHolding :: "int32 \<Rightarrow> int32 \<Rightarrow> eventTx \<Rightarrow> eventTx outcome" where
  "DeleteHolding acc stock = exec (q_DeleteHolding acc stock)"

definition CompleteTransfer :: "int64 \<Rightarrow> time \<Rightarrow> eventTx \<Rightarrow> eventTx outcome" where
  "CompleteTransfer transferID completedAt = exec (q_CompleteTransfer (Some completedAt) transferID)"

definition RejectTransfer :: "int64 \<Rightarrow> string \<Rightarrow> time \<Rightarrow> eventTx \<Rightarrow> eventTx outcome" where
  "RejectTransfer transferID reason completedAt = exec (q_RejectTransfer reason (Some completedAt) transferID)"

definition CompleteAdminRequest :: "int64 \<Rightarrow> time \<Rightarrow> eventTx \<Rightarrow> eventTx outcome" where
  "CompleteAdminRequest requestID completedAt = exec (q_CompleteAdminRequest (Some completedAt) requestID)"

definition RejectAdminRequest :: "int64 \<Rightarrow> string \<Rightarrow> time \<Rightarrow> eventTx \<Rightarrow> eventTx outcome" where
  "RejectAdminRequest requestID reason completedAt = exec (q_RejectAdminRequest reason (Some completedAt) requestID)"

text \<open>A commit, like every statement, needs the connection.\<close>

definition Commit :: "eventTx \<Rightarrow> database outcome" where
  "Commit t = (if snd t = Some 0 then Err StoreFailed else Ret (fst t))"

text \<open>What rolling back a transaction answers; one that was committed before is done already.\<close>

datatype rollbackResult = RolledBack | TxDone | RollbackFailed

definition Rollback :: "rollbackResult \<Rightarrow> unit outcome" where
  "Rollback r = (if r = RollbackFailed then Err StoreFailed else Ret ())"

lemmas eventTx_defs = SaveDBAppliedCursor_def SaveTrade_def UpdateOrderState_def RejectOrder_def
  UpdateAccountBalance_def ActivateAccount_def UpdateStockPrice_def UpdateStockStatus_def UpsertHolding_def
  DeleteHolding_def CompleteTransfer_def RejectTransfer_def CompleteAdminRequest_def RejectAdminRequest_def

section \<open>Laws of the store\<close>

text \<open>A statement that goes through does what it does when the connection is stable.\<close>

lemma exec_Ret: "exec q (d, n) = Ret (d', n') \<Longrightarrow> exec q (d, None) = Ret (d', None)"
  by (auto simp: exec_def split: option.splits nat.splits)

lemma exec_stable: "exec q (d, None) = (case q d of None \<Rightarrow> Err StoreFailed | Some d' \<Rightarrow> Ret (d', None))"
  by (simp add: exec_def split: option.split)

lemma exec_not_Panic: "exec q t \<noteq> Panic x"
  by (auto simp: exec_def split: option.splits nat.splits)

lemma cursor_conversion: "word_of_int (int64_of_uint64 w) = w"
proof -
  have "word_of_int (int (unat w) - 2 ^ 64) = (word_of_int (int (unat w)) :: uint64) - word_of_int (2 ^ 64)"
    by (simp only: wi_hom_sub)
  also have "(word_of_int (2 ^ 64) :: uint64) = 0" by (rule word_of_int_eq_0_iff [THEN iffD2]) simp
  finally show ?thesis by (simp add: int64_of_uint64_def)
qed

text \<open>
  A cursor comes back as it was saved: what the store loads after saving a 64-bit index in
  its signed column is the index, for every index; before the first save it is zero.
\<close>

lemma cursor_roundtrip:
  "LoadCursor MQ_PUBLISHED_OUTPUT_SEQ False (fst (SaveMQPublishedCursor False d idx)) = Ret idx \<and>
   (exec (q_SaveCursor DB_APPLIED_OUTPUT_SEQ (int64_of_uint64 idx)) (d, None) =
      Ret (d\<lparr>dbCursors := fmupd DB_APPLIED_OUTPUT_SEQ (int64_of_uint64 idx) (dbCursors d)\<rparr>, None)) \<and>
   LoadCursor DB_APPLIED_OUTPUT_SEQ False
     (d\<lparr>dbCursors := fmupd DB_APPLIED_OUTPUT_SEQ (int64_of_uint64 idx) (dbCursors d)\<rparr>) = Ret idx \<and>
   LoadCursor t False (d\<lparr>dbCursors := fmempty\<rparr>) = Ret 0"
  by (simp add: LoadCursor_def q_LoadCursor_def SaveMQPublishedCursor_def q_SaveCursor_def exec_def cursor_conversion)

end
