(* ===== verification/Publisher.thy ===== *)
theory Publisher
  imports Recovery Storage "HOL-Library.Sublist"
begin

text \<open>
  The two readers of the output log (\<^verbatim>\<open>internal/publisher\<close>): the projector, which writes the
  events into the database in transactions of up to 100 envelopes, and the event publisher,
  which sends the envelopes to the message queue in batches of up to 100. Both keep their
  position in the database. What can go wrong in a batch is an argument, by the index at which
  the batch ends. A loop \<^verbatim>\<open>for p.cursor < last\<close> that does not end is the value \<open>None\<close>.
\<close>

section \<open>Applying events\<close>

definition orderStatus :: "string \<Rightarrow> string" where
  "orderStatus p =
     (if p = PatternOrderFilled then ''FILLED''
      else if p = PatternOrderCanceled then ''CANCELED''
      else if p = PatternOrderReplaced then ''REPLACED''
      else if p = PatternOrderCompleted then ''COMPLETED''
      else ''OPEN'')"

definition withData :: "(json \<Rightarrow> 'a option) \<Rightarrow> OutputEvent \<Rightarrow> ('a \<Rightarrow> eventTx outcome) \<Rightarrow> eventTx outcome" where
  "withData f event go = (case unmarshal f (outData event) of None \<Rightarrow> Err UnmarshalFailed | Some x \<Rightarrow> go x)"

definition applyEvent :: "eventTx \<Rightarrow> OutputEvent \<Rightarrow> eventTx outcome" where
  "applyEvent tx event =
     (let p = outPattern event
      in if p = PatternTradeExecuted then withData Trade_Unmarshal event (\<lambda>trade. SaveTrade trade tx)
         else if p \<in> {PatternOrderOpen, PatternOrderFilled, PatternOrderCanceled, PatternOrderReplaced, PatternOrderCompleted}
         then withData OrderEvent_Unmarshal event (\<lambda>order.
                UpdateOrderState (oeId order) (orderStatus p) (oeQuantity order) (oeFilledQuantity order)
                  (oeFullyFilledAt order) tx)
         else if p = PatternOrderRejected
         then withData OrderRejected_Unmarshal event (\<lambda>rejected. RejectOrder (orOrderId rejected) (orReason rejected) tx)
         else if p = PatternAccountUpdated
         then withData Account_Unmarshal event (\<lambda>a. UpdateAccountBalance (aId a) (aBalance a) (aAvailableBalance a) tx)
         else if p = PatternAccountActivated then withData Account_Unmarshal event (\<lambda>a. ActivateAccount (aId a) tx)
         else if p = PatternHoldingUpdated
         then withData StockBalance_Unmarshal event (\<lambda>h.
                if hQuantity h = 0 \<and> hAvailableQuantity h = 0 then DeleteHolding (hAccountId h) (hStockId h) tx
                else UpsertHolding h tx)
         else if p = PatternStockListed
         then withData Stock_Unmarshal event (\<lambda>s. UpdateStockStatus (sId s) (StockStatus_String (sStatus s)) tx)
         else if p = PatternStockUpdated
         then withData Stock_Unmarshal event (\<lambda>s. UpdateStockPrice (sId s) (sPrice s) tx)
         else if p = PatternTransferCompleted
         then withData TransferCompleted_Unmarshal event (\<lambda>t. CompleteTransfer (tcId t) (tcCompletedAt t) tx)
         else if p = PatternTransferRejected
         then withData TransferRejected_Unmarshal event (\<lambda>t. RejectTransfer (tjId t) (tjReason t) (tjCompletedAt t) tx)
         else if p = PatternAdminRequestCompleted
         then withData AdminRequestCompleted_Unmarshal event (\<lambda>r. CompleteAdminRequest (acId r) (acCompletedAt r) tx)
         else if p = PatternAdminRequestRejected
         then withData AdminRequestRejected_Unmarshal event (\<lambda>r. RejectAdminRequest (ajId r) (ajReason r) (ajCompletedAt r) tx)
         else Ret tx)"

fun applyEvents :: "eventTx \<Rightarrow> OutputEvent list \<Rightarrow> eventTx outcome" where
  "applyEvents tx [] = Ret tx"
| "applyEvents tx (e # es) = (case applyEvent tx e of Ret tx' \<Rightarrow> applyEvents tx' es | r \<Rightarrow> r)"

fun applyEnvelopes :: "eventTx \<Rightarrow> OutputEnvelope list \<Rightarrow> eventTx outcome" where
  "applyEnvelopes tx [] = Ret tx"
| "applyEnvelopes tx (env # envs) =
     (case applyEvents tx (envEvents env) of Ret tx' \<Rightarrow> applyEnvelopes tx' envs | r \<Rightarrow> r)"

text \<open>One transaction, which is rolled back when it is not committed.\<close>

definition applyBatch :: "nat option \<Rightarrow> database \<Rightarrow> uint64 \<Rightarrow> OutputEnvelope list \<Rightarrow> database \<times> unit outcome" where
  "applyBatch fault d idx envs =
     (case Begin fault d of
        Ret tx0 \<Rightarrow>
          (case applyEnvelopes tx0 envs of
             Ret tx \<Rightarrow>
               (case SaveDBAppliedCursor idx tx of
                  Ret tx' \<Rightarrow> (case Commit tx' of Ret d' \<Rightarrow> (d', Ret ()) | Err x \<Rightarrow> (d, Err x) | Panic x \<Rightarrow> (d, Panic x))
                | Err x \<Rightarrow> (d, Err x)
                | Panic x \<Rightarrow> (d, Panic x))
           | Err x \<Rightarrow> (d, Err x)
           | Panic x \<Rightarrow> (d, Panic x))
      | Err x \<Rightarrow> (d, Err x)
      | Panic x \<Rightarrow> (d, Panic x))"

section \<open>The projector\<close>

abbreviation dbProjectorBatchSize :: uint64 where "dbProjectorBatchSize \<equiv> 100"

fun readEnvelopes :: "'l twal \<Rightarrow> 'l \<Rightarrow> uint64 list \<Rightarrow> OutputEnvelope list outcome" where
  "readEnvelopes ops l [] = Ret []"
| "readEnvelopes ops l (i # is) =
     (case readAs OutputEnvelope_Unmarshal ops l i of
        Ret env \<Rightarrow> (case readEnvelopes ops l is of Ret envs \<Rightarrow> Ret (env # envs) | r \<Rightarrow> r)
      | Err x \<Rightarrow> Err x
      | Panic x \<Rightarrow> Panic x)"

record DBProjector =
  stored :: database
  dbAt :: uint64

text \<open>One batch: the projector afterwards, and how the batch ended.\<close>

definition projectBatch ::
  "'l twal \<Rightarrow> 'l \<Rightarrow> (uint64 \<Rightarrow> nat option) \<Rightarrow> uint64 \<Rightarrow> DBProjector \<Rightarrow> DBProjector \<times> unit outcome" where
  "projectBatch ops l faults lastIdx p =
     (let batchEnd = min (dbAt p + dbProjectorBatchSize) lastIdx
      in case readEnvelopes ops l (indices (dbAt p + 1) batchEnd) of
           Ret envs \<Rightarrow>
             (case applyBatch (faults batchEnd) (stored p) batchEnd envs of
                (d, Ret _) \<Rightarrow> (\<lparr>stored = d, dbAt = batchEnd\<rparr>, Ret ())
              | (d, r) \<Rightarrow> (p\<lparr>stored := d\<rparr>, r))
         | Err x \<Rightarrow> (p, Err x)
         | Panic x \<Rightarrow> (p, Panic x))"

partial_function (option) projectLoop ::
  "'l twal \<Rightarrow> 'l \<Rightarrow> (uint64 \<Rightarrow> nat option) \<Rightarrow> uint64 \<Rightarrow> DBProjector \<Rightarrow> (DBProjector \<times> unit outcome) option" where
  "projectLoop ops l faults lastIdx p =
     (if dbAt p < lastIdx
      then (case projectBatch ops l faults lastIdx p of
              (p', Ret _) \<Rightarrow> projectLoop ops l faults lastIdx p'
            | (p', r) \<Rightarrow> Some (p', r))
      else Some (p, Ret ()))"

definition DBProjector_drain ::
  "'l twal \<Rightarrow> 'l \<Rightarrow> (uint64 \<Rightarrow> nat option) \<Rightarrow> DBProjector \<Rightarrow> (DBProjector \<times> unit outcome) option" where
  "DBProjector_drain ops l faults p =
     (case LastIndex ops l of
        Ret lastIdx \<Rightarrow> projectLoop ops l faults lastIdx p
      | Err x \<Rightarrow> Some (p, Err x)
      | Panic x \<Rightarrow> Some (p, Panic x))"

text \<open>\<^verbatim>\<open>Run\<close> starts from the cursor in the database.\<close>

definition DBProjector_start :: "bool \<Rightarrow> database \<Rightarrow> DBProjector outcome" where
  "DBProjector_start fails d =
     (case LoadCursor DB_APPLIED_OUTPUT_SEQ fails d of
        Ret c \<Rightarrow> Ret \<lparr>stored = d, dbAt = c\<rparr>
      | Err x \<Rightarrow> Err x
      | Panic x \<Rightarrow> Panic x)"

section \<open>The event publisher\<close>

abbreviation eventPublisherBatchSize :: uint64 where "eventPublisherBatchSize \<equiv> 100"

text \<open>
  A batch can fail after some of its messages went out, or after all did, when the cursor
  cannot be saved. \<open>sent\<close> are the payloads the queue received so far.
\<close>

datatype publishFault = Published | PublishFails nat | CursorFails

record EventPublisher =
  sent :: "bytes list"
  mqStored :: database
  mqAt :: uint64

definition publishBatch ::
  "'l twal \<Rightarrow> 'l \<Rightarrow> (uint64 \<Rightarrow> publishFault) \<Rightarrow> uint64 \<Rightarrow> EventPublisher \<Rightarrow> EventPublisher \<times> unit outcome" where
  "publishBatch ops l faults lastIdx p =
     (let batchEnd = min (mqAt p + eventPublisherBatchSize) lastIdx
      in case readEnvelopes ops l (indices (mqAt p + 1) batchEnd) of
           Ret envs \<Rightarrow>
             (let msgs = map (\<lambda>env. Text (OutputEnvelope_Marshal env)) envs
              in case faults batchEnd of
                   PublishFails n \<Rightarrow> (p\<lparr>sent := sent p @ take n msgs\<rparr>, Err BrokerFailed)
                 | f \<Rightarrow>
                     (case SaveMQPublishedCursor (f = CursorFails) (mqStored p) batchEnd of
                        (d, Ret _) \<Rightarrow> (\<lparr>sent = sent p @ msgs, mqStored = d, mqAt = batchEnd\<rparr>, Ret ())
                      | (d, r) \<Rightarrow> (p\<lparr>sent := sent p @ msgs, mqStored := d\<rparr>, r)))
         | Err x \<Rightarrow> (p, Err x)
         | Panic x \<Rightarrow> (p, Panic x))"

partial_function (option) publishLoop ::
  "'l twal \<Rightarrow> 'l \<Rightarrow> (uint64 \<Rightarrow> publishFault) \<Rightarrow> uint64 \<Rightarrow> EventPublisher \<Rightarrow> (EventPublisher \<times> unit outcome) option" where
  "publishLoop ops l faults lastIdx p =
     (if mqAt p < lastIdx
      then (case publishBatch ops l faults lastIdx p of
              (p', Ret _) \<Rightarrow> publishLoop ops l faults lastIdx p'
            | (p', r) \<Rightarrow> Some (p', r))
      else Some (p, Ret ()))"

definition EventPublisher_drain ::
  "'l twal \<Rightarrow> 'l \<Rightarrow> (uint64 \<Rightarrow> publishFault) \<Rightarrow> EventPublisher \<Rightarrow> (EventPublisher \<times> unit outcome) option" where
  "EventPublisher_drain ops l faults p =
     (case LastIndex ops l of
        Ret lastIdx \<Rightarrow> publishLoop ops l faults lastIdx p
      | Err x \<Rightarrow> Some (p, Err x)
      | Panic x \<Rightarrow> Some (p, Panic x))"

definition EventPublisher_start :: "bool \<Rightarrow> bytes list \<Rightarrow> database \<Rightarrow> EventPublisher outcome" where
  "EventPublisher_start fails out d =
     (case LoadCursor MQ_PUBLISHED_OUTPUT_SEQ fails d of
        Ret c \<Rightarrow> Ret \<lparr>sent = out, mqStored = d, mqAt = c\<rparr>
      | Err x \<Rightarrow> Err x
      | Panic x \<Rightarrow> Panic x)"

section \<open>Signals\<close>

text \<open>A signal channel holds at most one signal; sending to a full one drops the signal.\<close>

definition notify :: "bool \<Rightarrow> bool" where
  "notify signal = True"

section \<open>Statements do not see the cursors\<close>

text \<open>
  What every step of a transaction has in common: when it goes through, it goes through on a
  stable connection with the same effect, whatever the cursors are, and leaves them alone.
\<close>

definition tame :: "(eventTx \<Rightarrow> eventTx outcome) \<Rightarrow> bool" where
  "tame f \<longleftrightarrow> (\<forall>d n d' n' c. f (d, n) = Ret (d', n') \<longrightarrow>
     f (d\<lparr>dbCursors := c\<rparr>, None) = Ret (d'\<lparr>dbCursors := c\<rparr>, None))"

lemma tame_exec:
  assumes "\<And>d d' c. q d = Some d' \<Longrightarrow> q (d\<lparr>dbCursors := c\<rparr>) = Some (d'\<lparr>dbCursors := c\<rparr>)"
  shows "tame (exec q)"
  unfolding tame_def using assms by (auto simp: exec_def split: option.splits nat.splits)

lemmas q_defs = q_ActivateAccount_def q_UpdateAccountBalance_def q_UpdateStockPrice_def q_UpdateStockStatus_def
  q_RejectOrder_def q_UpdateOrderState_def q_SaveTrade_def q_UpsertHolding_def q_DeleteHolding_def
  q_CompleteTransfer_def q_RejectTransfer_def q_CompleteAdminRequest_def q_RejectAdminRequest_def

lemma tame_statements:
  "tame (SaveTrade tr)" "tame (UpdateOrderState i st qn fq ft)" "tame (RejectOrder i r)"
  "tame (UpdateAccountBalance a b av)" "tame (ActivateAccount a)" "tame (UpdateStockPrice i p)"
  "tame (UpdateStockStatus i st)" "tame (UpsertHolding h)" "tame (DeleteHolding a i)"
  "tame (CompleteTransfer i t)" "tame (RejectTransfer i r t)" "tame (CompleteAdminRequest i t)"
  "tame (RejectAdminRequest i r t)"
  unfolding eventTx_defs by (rule tame_exec, auto simp: q_defs split: if_splits)+

lemma tame_Ret: "tame Ret"
  by (simp add: tame_def)

lemma tame_withData: "(\<And>x. tame (go x)) \<Longrightarrow> tame (\<lambda>tx. withData f event (\<lambda>x. go x tx))"
  by (cases "unmarshal f (outData event)") (simp_all add: withData_def tame_def)

lemma tame_if: "tame f \<Longrightarrow> tame g \<Longrightarrow> tame (\<lambda>tx. if b then f tx else g tx)"
  by (cases b) simp_all

lemma tame_applyEvent: "tame (\<lambda>tx. applyEvent tx event)"
  unfolding applyEvent_def Let_def by (intro tame_if tame_withData tame_statements tame_Ret)

lemma tame_then:
  assumes "tame f" "tame g"
  shows "tame (\<lambda>tx. case f tx of Ret tx' \<Rightarrow> g tx' | r \<Rightarrow> r)"
  unfolding tame_def
proof (intro allI impI)
  fix d n d' n' c
  assume "(case f (d, n) of Ret tx' \<Rightarrow> g tx' | r \<Rightarrow> r) = Ret (d', n')"
  then obtain d1 n1 where "f (d, n) = Ret (d1, n1)" "g (d1, n1) = Ret (d', n')"
    by (auto split: outcome.splits)
  then show "(case f (d\<lparr>dbCursors := c\<rparr>, None) of Ret tx' \<Rightarrow> g tx' | r \<Rightarrow> r) = Ret (d'\<lparr>dbCursors := c\<rparr>, None)"
    using assms unfolding tame_def by fastforce
qed

lemma tame_applyEvents: "tame (\<lambda>tx. applyEvents tx es)"
  by (induction es) (simp_all add: tame_Ret tame_then tame_applyEvent)

lemma tame_applyEnvelopes: "tame (\<lambda>tx. applyEnvelopes tx envs)"
  by (induction envs) (simp_all add: tame_Ret tame_then tame_applyEvents)

lemma applyEnvelopes_append:
  "applyEnvelopes tx (xs @ ys) = (case applyEnvelopes tx xs of Ret tx' \<Rightarrow> applyEnvelopes tx' ys | r \<Rightarrow> r)"
  by (induction xs arbitrary: tx) (simp_all split: outcome.split)

abbreviation tables :: "database \<Rightarrow> database" where
  "tables d \<equiv> d\<lparr>dbCursors := fmempty\<rparr>"

text \<open>A batch is all or nothing.\<close>

lemma applyBatch_effect:
  assumes "applyBatch fault d idx envs = (d', r)"
  obtains (applied) "r = Ret ()" "applyEnvelopes (tables d, None) envs = Ret (tables d', None)"
      "LoadCursor DB_APPLIED_OUTPUT_SEQ False d' = Ret idx"
  | (failed) "d' = d" "r \<noteq> Ret ()"
proof (cases "r = Ret ()")
  case True
  with assms obtain n d1 n1 tx2 where d1: "applyEnvelopes (d, n) envs = Ret (d1, n1)"
    "SaveDBAppliedCursor idx (d1, n1) = Ret tx2" "Commit tx2 = Ret d'"
    by (auto simp: applyBatch_def Begin_def split: if_splits outcome.splits prod.splits)
  have c: "d' = d1\<lparr>dbCursors := fmupd DB_APPLIED_OUTPUT_SEQ (int64_of_uint64 idx) (dbCursors d1)\<rparr>"
    using d1(2,3) by (auto simp: SaveDBAppliedCursor_def exec_def q_SaveCursor_def Commit_def
        split: option.splits nat.splits if_splits)
  have "applyEnvelopes (tables d, None) envs = Ret (tables d1, None)"
    using tame_applyEnvelopes [of envs] d1(1) unfolding tame_def by blast
  with True c show thesis
    by (intro applied) (simp_all add: LoadCursor_def q_LoadCursor_def cursor_conversion)
next
  case False
  with assms have "d' = d" by (auto simp: applyBatch_def Begin_def split: if_splits outcome.splits)
  with False show thesis by (rule failed [rotated])
qed

section \<open>Draining a log in batches\<close>

text \<open>
  The contract of one batch and what the loop over the batches makes of it: it always returns,
  it keeps the invariant, and it stops early only with an error.
\<close>

locale batch_loop =
  fixes position :: "'p \<Rightarrow> uint64"
    and batch :: "'p \<Rightarrow> 'p \<times> unit outcome"
    and loop :: "'p \<Rightarrow> ('p \<times> unit outcome) option"
    and goal :: uint64
    and inv :: "'p \<Rightarrow> bool"
  assumes unfold: "loop p = (if position p < goal
      then (case batch p of (p', Ret _) \<Rightarrow> loop p' | (p', r) \<Rightarrow> Some (p', r)) else Some (p, Ret ()))"
    and batch_keeps: "inv p \<Longrightarrow> position p < goal \<Longrightarrow> batch p = (p', r) \<Longrightarrow> inv p' \<and> position p \<le> position p'"
    and batch_moves: "inv p \<Longrightarrow> position p < goal \<Longrightarrow> batch p = (p', Ret ()) \<Longrightarrow> position p < position p'"
begin

lemma loop_returns:
  "inv p \<Longrightarrow> \<exists>p' r. loop p = Some (p', r) \<and> inv p' \<and> position p \<le> position p' \<and> (r = Ret () \<longrightarrow> goal \<le> position p')"
proof (induction "unat goal - unat (position p)" arbitrary: p rule: less_induct)
  case less
  obtain p1 r1 where b: "batch p = (p1, r1)" by fastforce
  show ?case
  proof (cases "position p < goal \<and> r1 = Ret ()")
    case True
    then have m: "inv p1" "position p < position p1"
      using batch_keeps [OF less.prems _ b] batch_moves [OF less.prems] b by auto
    have "unat goal - unat (position p1) < unat goal - unat (position p)"
      using m(2) True by (auto simp: word_less_nat_alt intro: diff_less_mono2)
    from less.hyps [OF this m(1)] m(2) b True show ?thesis
      using unfold [of p] by force
  next
    case False
    then show ?thesis
      using unfold [of p] b less.prems batch_keeps [OF less.prems _ b] by (cases r1) auto
  qed
qed

lemma loop_succeeds:
  assumes ok: "\<And>p. inv p \<Longrightarrow> q \<le> position p \<Longrightarrow> position p < goal \<Longrightarrow> snd (batch p) = Ret ()"
  shows "inv p \<Longrightarrow> q \<le> position p \<Longrightarrow> \<exists>p'. loop p = Some (p', Ret ()) \<and> inv p' \<and> goal \<le> position p'"
proof (induction "unat goal - unat (position p)" arbitrary: p rule: less_induct)
  case less
  obtain p1 r1 where b: "batch p = (p1, r1)" by fastforce
  show ?case
  proof (cases "position p < goal")
    case True
    then have r1: "r1 = Ret ()" using ok [OF less.prems] b by simp
    then have m: "inv p1" "position p < position p1" "q \<le> position p1"
      using batch_keeps [OF less.prems(1) True b] batch_moves [OF less.prems(1) True] b less.prems(2) by auto
    have "unat goal - unat (position p1) < unat goal - unat (position p)"
      using m(2) True by (auto simp: word_less_nat_alt intro: diff_less_mono2)
    from less.hyps [OF this m(1,3)] b True r1 show ?thesis using unfold [of p] by simp
  qed (use unfold [of p] less.prems in auto)
qed

end

text \<open>
  A log whose records are the envelopes \<open>envs\<close> of the whole history, less the ones that were
  cleaned up; the batch size must not wrap around at the end of the indices.
\<close>

locale output_reader =
  fixes ops :: "'l twal" and base :: "'l \<Rightarrow> nat" and recs :: "'l \<Rightarrow> bytes list"
    and l :: 'l and envs :: "OutputEnvelope list"
  assumes laws: "twal_laws ops base recs"
    and history: "length envs = base l + length (recs l)"
    and holds: "k < length (recs l) \<Longrightarrow> unmarshal OutputEnvelope_Unmarshal (recs l ! k) = Some (envs ! (base l + k))"
    and room: "length envs + 100 < 2 ^ 64"
begin

lemma readAs_envelope:
  assumes "readAs OutputEnvelope_Unmarshal ops l (word_of_nat (Suc i)) = Ret env" "i < length envs"
  shows "env = envs ! i"
proof -
  obtain d where d: "twal_Read ops l (word_of_nat (Suc i)) = Some d" "unmarshal OutputEnvelope_Unmarshal d = Some env"
    using assms(1) by (auto simp: readAs_def Read_def split: option.splits outcome.splits)
  then obtain k where k: "k < length (recs l)" "(word_of_nat (Suc i) :: uint64) = word_of_nat (base l + k + 1)" "d = recs l ! k"
    using laws unfolding twal_laws_def by blast
  have "Suc i = base l + k + 1"
    using arg_cong [OF k(2), of unat] k(1) assms(2) history room
      unat_word_of_nat64 [of "Suc i"] unat_word_of_nat64 [of "base l + k + 1"] by simp
  with holds [OF k(1)] d(2) k(3) show ?thesis by simp
qed

lemma readEnvelopes_slice:
  "readEnvelopes ops l (map word_of_nat [Suc i..<Suc (i + n)]) = Ret es \<Longrightarrow> i + n \<le> length envs \<Longrightarrow>
   es = take n (drop i envs)"
proof (induction n arbitrary: i es)
  case (Suc n)
  have up: "[Suc i..<Suc (i + Suc n)] = Suc i # [Suc (Suc i)..<Suc (Suc i + n)]" by (simp add: upt_conv_Cons del: upt_Suc)
  obtain env es' where r: "readAs OutputEnvelope_Unmarshal ops l (word_of_nat (Suc i)) = Ret env"
    "readEnvelopes ops l (map word_of_nat [Suc (Suc i)..<Suc (Suc i + n)]) = Ret es'" "es = env # es'"
    using Suc.prems(1) unfolding up by (auto split: outcome.splits)
  have "es' = take n (drop (Suc i) envs)" using Suc.IH [OF r(2)] Suc.prems(2) by simp
  moreover have "env = envs ! i" using readAs_envelope [OF r(1)] Suc.prems(2) by simp
  ultimately show ?case using Suc.prems(2) r(3) by (simp add: Cons_nth_drop_Suc [symmetric])
qed simp

lemma readEnvelopes_reliable:
  assumes rel: "twal_reliable ops base recs"
  shows "i + n \<le> length envs \<Longrightarrow> base l \<le> i \<Longrightarrow>
    readEnvelopes ops l (map word_of_nat [Suc i..<Suc (i + n)]) = Ret (take n (drop i envs))"
proof (induction n arbitrary: i)
  case (Suc n)
  have up: "[Suc i..<Suc (i + Suc n)] = Suc i # [Suc (Suc i)..<Suc (Suc i + n)]" by (simp add: upt_conv_Cons del: upt_Suc)
  have k: "i - base l < length (recs l)" using Suc.prems history by simp
  have "Read ops l (word_of_nat (base l + (i - base l) + 1)) = Ret (recs l ! (i - base l))"
    using history room by (intro Read_reliable [OF rel k]) simp
  moreover have "base l + (i - base l) + 1 = Suc i" using Suc.prems(2) by simp
  ultimately have "readAs OutputEnvelope_Unmarshal ops l (word_of_nat (Suc i)) = Ret (envs ! i)"
    using holds [OF k] Suc.prems(2) by (simp add: readAs_def del: of_nat_Suc)
  with Suc.IH [of "Suc i"] Suc.prems show ?case
    unfolding up by (simp add: Cons_nth_drop_Suc [symmetric] del: upt_Suc of_nat_Suc)
qed simp

text \<open>The batch that starts behind position \<open>c\<close>.\<close>

lemma batch_slice:
  assumes "c < word_of_nat (length envs)" "batchEnd = min (c + 100) (word_of_nat (length envs))"
  obtains n where "unat batchEnd = unat c + n" "0 < n" "unat c + n \<le> length envs"
    "indices (c + 1) batchEnd = map word_of_nat [Suc (unat c)..<Suc (unat c + n)]"
proof -
  have N: "unat (word_of_nat (length envs) :: uint64) = length envs" using room by (intro unat_word_of_nat64) simp
  have c: "unat c < length envs" using assms(1) N by (simp add: word_less_nat_alt)
  have "unat (c + 100) = unat c + 100" "unat (c + 1) = unat c + 1"
    using c room by (subst unat_add_less; simp)+
  then have "unat batchEnd = min (unat c + 100) (length envs)" "unat (c + 1) = Suc (unat c)"
    using assms(2) N by (simp_all add: min_def word_le_nat_alt)
  with c show thesis by (intro that [of "min (unat c + 100) (length envs) - unat c"]) (auto simp: indices_def)
qed

end

subsection \<open>The projector\<close>

text \<open>
  The database mirrors the log: its cursor is the projector's, and its tables are the initial
  ones with the events of exactly the first \<open>dbAt\<close> envelopes applied in order.
\<close>

definition mirrors :: "database \<Rightarrow> OutputEnvelope list \<Rightarrow> DBProjector \<Rightarrow> bool" where
  "mirrors d0 envs p \<longleftrightarrow> unat (dbAt p) \<le> length envs \<and>
     LoadCursor DB_APPLIED_OUTPUT_SEQ False (stored p) = Ret (dbAt p) \<and>
     applyEnvelopes (tables d0, None) (take (unat (dbAt p)) envs) = Ret (tables (stored p), None)"

locale projection = output_reader +
  fixes faults :: "uint64 \<Rightarrow> nat option" and d0 :: database
begin

lemma project_batch:
  assumes "mirrors d0 envs p" "dbAt p < word_of_nat (length envs)"
    and "projectBatch ops l faults (word_of_nat (length envs)) p = (p', r)"
  shows "mirrors d0 envs p' \<and> dbAt p \<le> dbAt p' \<and> (r = Ret () \<longrightarrow> dbAt p < dbAt p')"
proof -
  define e where "e = min (dbAt p + 100) (word_of_nat (length envs))"
  obtain n where n: "unat e = unat (dbAt p) + n" "0 < n" "unat (dbAt p) + n \<le> length envs"
    "indices (dbAt p + 1) e = map word_of_nat [Suc (unat (dbAt p))..<Suc (unat (dbAt p) + n)]"
    by (rule batch_slice [OF assms(2) e_def])
  show ?thesis
  proof (cases "readEnvelopes ops l (indices (dbAt p + 1) e)")
    case (Ret es)
    have es: "es = take n (drop (unat (dbAt p)) envs)"
      using readEnvelopes_slice Ret n(3,4) by (simp del: upt_Suc)
    obtain d r1 where b: "applyBatch (faults e) (stored p) e es = (d, r1)" by fastforce
    from b show ?thesis
    proof (cases rule: applyBatch_effect)
      case applied
      then have p': "p' = \<lparr>stored = d, dbAt = e\<rparr>" "r = Ret ()"
        using assms(3) Ret b by (simp_all add: projectBatch_def Let_def e_def [symmetric])
      have "take (unat e) envs = take (unat (dbAt p)) envs @ es"
        by (simp add: n(1) es take_add)
      then have "applyEnvelopes (tables d0, None) (take (unat e) envs) = Ret (tables d, None)"
        using assms(1) applied(2) by (simp add: mirrors_def applyEnvelopes_append)
      then have "mirrors d0 envs p'" using applied(3) n(1,3) by (simp add: p' mirrors_def)
      moreover have "dbAt p < dbAt p'" using n(1,2) by (simp add: p' word_less_nat_alt)
      ultimately show ?thesis by simp
    next
      case failed
      then have "p' = p" "r \<noteq> Ret ()"
        using assms(3) Ret b by (cases r1; simp add: projectBatch_def Let_def e_def [symmetric])+
      with assms(1) show ?thesis by simp
    qed
  qed (use assms in \<open>auto simp: projectBatch_def Let_def e_def [symmetric]\<close>)
qed

end

sublocale projection \<subseteq> projecting: batch_loop dbAt
  "projectBatch ops l faults (word_of_nat (length envs))" "projectLoop ops l faults (word_of_nat (length envs))"
  "word_of_nat (length envs)" "mirrors d0 envs"
proof
  show "projectLoop ops l faults (word_of_nat (length envs)) p =
      (if dbAt p < word_of_nat (length envs)
       then (case projectBatch ops l faults (word_of_nat (length envs)) p of
               (p', Ret _) \<Rightarrow> projectLoop ops l faults (word_of_nat (length envs)) p'
             | (p', r) \<Rightarrow> Some (p', r))
       else Some (p, Ret ()))" for p
    by (subst projectLoop.simps) (auto split: outcome.splits prod.splits)
qed (use project_batch in blast)+

context projection
begin

lemma project_batch_ok:
  assumes rel: "twal_reliable ops base recs" and "faults = (\<lambda>_. None)"
    and all: "applyEnvelopes (tables d0, None) envs = Ret tx"
    and p: "mirrors d0 envs p" "word_of_nat (base l) \<le> dbAt p" "dbAt p < word_of_nat (length envs)"
  shows "snd (projectBatch ops l faults (word_of_nat (length envs)) p) = Ret ()"
proof -
  define e where "e = min (dbAt p + 100) (word_of_nat (length envs))"
  obtain n where n: "unat e = unat (dbAt p) + n" "unat (dbAt p) + n \<le> length envs"
    "indices (dbAt p + 1) e = map word_of_nat [Suc (unat (dbAt p))..<Suc (unat (dbAt p) + n)]"
    by (rule batch_slice [OF p(3) e_def])
  let ?es = "take n (drop (unat (dbAt p)) envs)"
  have "unat (word_of_nat (base l) :: uint64) = base l" using history room by (intro unat_word_of_nat64) simp
  then have lo: "base l \<le> unat (dbAt p)" using p(2) by (simp add: word_le_nat_alt)
  have rd: "readEnvelopes ops l (indices (dbAt p + 1) e) = Ret ?es"
    unfolding n(3) using n(2) lo by (rule readEnvelopes_reliable [OF rel])
  have split: "envs = take (unat (dbAt p)) envs @ ?es @ drop (unat e) envs"
    by (simp add: n(1) flip: take_add append_assoc)
  have "applyEnvelopes (tables (stored p), None) (?es @ drop (unat e) envs) = Ret tx"
    using all p(1) unfolding mirrors_def by (subst (asm) split) (simp add: applyEnvelopes_append)
  then obtain d1 n1 where "applyEnvelopes (tables (stored p), None) ?es = Ret (d1, n1)"
    by (auto simp: applyEnvelopes_append split: outcome.splits)
  then have "applyEnvelopes ((tables (stored p))\<lparr>dbCursors := dbCursors (stored p)\<rparr>, None) ?es =
      Ret (d1\<lparr>dbCursors := dbCursors (stored p)\<rparr>, None)"
    using tame_applyEnvelopes [of ?es] unfolding tame_def by blast
  then have "\<exists>d2. applyBatch None (stored p) e ?es = (d2, Ret ())"
    by (simp add: applyBatch_def Begin_def SaveDBAppliedCursor_def exec_def q_SaveCursor_def Commit_def)
  with rd assms(2) show ?thesis by (auto simp: projectBatch_def Let_def e_def [symmetric])
qed

end

subsection \<open>The publisher\<close>

text \<open>
  The queue relays the log: the cursor in the database is the publisher's, and the payloads of
  the first \<open>mqAt\<close> envelopes are among the messages sent, in their order; some may have been
  sent more than once.
\<close>

definition messageFor :: "OutputEnvelope \<Rightarrow> bytes" where
  "messageFor env = Text (OutputEnvelope_Marshal env)"

definition relays :: "OutputEnvelope list \<Rightarrow> EventPublisher \<Rightarrow> bool" where
  "relays envs p \<longleftrightarrow> unat (mqAt p) \<le> length envs \<and>
     LoadCursor MQ_PUBLISHED_OUTPUT_SEQ False (mqStored p) = Ret (mqAt p) \<and>
     subseq (map messageFor (take (unat (mqAt p)) envs)) (sent p)"

locale publication = output_reader +
  fixes outages :: "uint64 \<Rightarrow> publishFault"
begin

lemma publish_batch:
  assumes "relays envs p" "mqAt p < word_of_nat (length envs)"
    and "publishBatch ops l outages (word_of_nat (length envs)) p = (p', r)"
  shows "relays envs p' \<and> mqAt p \<le> mqAt p' \<and> (r = Ret () \<longrightarrow> mqAt p < mqAt p')"
proof -
  define e where "e = min (mqAt p + 100) (word_of_nat (length envs))"
  obtain n where n: "unat e = unat (mqAt p) + n" "0 < n" "unat (mqAt p) + n \<le> length envs"
    "indices (mqAt p + 1) e = map word_of_nat [Suc (unat (mqAt p))..<Suc (unat (mqAt p) + n)]"
    by (rule batch_slice [OF assms(2) e_def])
  show ?thesis
  proof (cases "readEnvelopes ops l (indices (mqAt p + 1) e)")
    case (Ret es)
    have es: "es = take n (drop (unat (mqAt p)) envs)"
      using readEnvelopes_slice Ret n(3,4) by (simp del: upt_Suc)
    have more: "relays envs (p\<lparr>sent := sent p @ zs\<rparr>)" for zs
      using assms(1) by (simp add: relays_def subseq_rev_drop_many)
    show ?thesis
    proof (cases "outages e")
      case Published
      then have p': "p' = \<lparr>sent = sent p @ map messageFor es,
          mqStored = fst (SaveMQPublishedCursor False (mqStored p) e), mqAt = e\<rparr>" "r = Ret ()"
        using assms(3) Ret
        by (auto simp: publishBatch_def Let_def e_def [symmetric] SaveMQPublishedCursor_def q_SaveCursor_def
            messageFor_def [abs_def])
      have "take (unat e) envs = take (unat (mqAt p)) envs @ es" by (simp add: n(1) es take_add)
      then have "subseq (map messageFor (take (unat e) envs)) (sent p @ map messageFor es)"
        using assms(1) by (simp add: relays_def list_emb_append_mono)
      then have "relays envs p'"
        using n(1,3) by (simp add: p' relays_def LoadCursor_def q_LoadCursor_def SaveMQPublishedCursor_def
            q_SaveCursor_def cursor_conversion)
      moreover have "mqAt p < mqAt p'" using n(1,2) by (simp add: p' word_less_nat_alt)
      ultimately show ?thesis by simp
    next
      case (PublishFails k)
      then show ?thesis using assms(3) Ret more by (auto simp: publishBatch_def Let_def e_def [symmetric])
    next
      case CursorFails
      then show ?thesis using assms(3) Ret more
        by (auto simp: publishBatch_def Let_def e_def [symmetric] SaveMQPublishedCursor_def)
    qed
  qed (use assms in \<open>auto simp: publishBatch_def Let_def e_def [symmetric]\<close>)
qed

end

sublocale publication \<subseteq> publishing: batch_loop mqAt
  "publishBatch ops l outages (word_of_nat (length envs))" "publishLoop ops l outages (word_of_nat (length envs))"
  "word_of_nat (length envs)" "relays envs"
proof
  show "publishLoop ops l outages (word_of_nat (length envs)) p =
      (if mqAt p < word_of_nat (length envs)
       then (case publishBatch ops l outages (word_of_nat (length envs)) p of
               (p', Ret _) \<Rightarrow> publishLoop ops l outages (word_of_nat (length envs)) p'
             | (p', r) \<Rightarrow> Some (p', r))
       else Some (p, Ret ()))" for p
    by (subst publishLoop.simps) (auto split: outcome.splits prod.splits)
qed (use publish_batch in blast)+

subsection \<open>Drains\<close>

context projection
begin

lemma drain_mirrors:
  assumes "mirrors d0 envs p"
  shows "\<exists>p' r. DBProjector_drain ops l faults p = Some (p', r) \<and> mirrors d0 envs p' \<and> dbAt p \<le> dbAt p' \<and>
    DBProjector_start False (stored p') = Ret p'"
proof -
  have start: "DBProjector_start False (stored p') = Ret p'" if "mirrors d0 envs p'" for p'
    using that by (simp add: mirrors_def DBProjector_start_def)
  show ?thesis
  proof (cases "LastIndex ops l")
    case (Ret n)
    then have "n = word_of_nat (length envs)"
      using twal_lawsD(1) [OF laws] history by (auto simp: LastIndex_def split: option.splits)
    with Ret projecting.loop_returns [OF assms] start show ?thesis
      by (auto simp: DBProjector_drain_def)
  qed (use assms start in \<open>auto simp: DBProjector_drain_def\<close>)
qed

lemma drain_completes:
  assumes rel: "twal_reliable ops base recs" and "faults = (\<lambda>_. None)"
    and "applyEnvelopes (tables d0, None) envs = Ret (d, None)"
    and "mirrors d0 envs p" "base l \<le> unat (dbAt p)"
  shows "\<exists>p'. DBProjector_drain ops l faults p = Some (p', Ret ()) \<and> unat (dbAt p') = length envs \<and> tables (stored p') = d"
proof -
  have N: "unat (word_of_nat (length envs) :: uint64) = length envs" using room by (intro unat_word_of_nat64) simp
  have "unat (word_of_nat (base l) :: uint64) = base l" using history room by (intro unat_word_of_nat64) simp
  then have lo: "word_of_nat (base l) \<le> dbAt p" using assms(5) by (simp add: word_le_nat_alt)
  obtain p' where p': "projectLoop ops l faults (word_of_nat (length envs)) p = Some (p', Ret ())"
    "mirrors d0 envs p'" "word_of_nat (length envs) \<le> dbAt p'"
    using projecting.loop_succeeds [OF project_batch_ok [OF rel assms(2,3)] assms(4) lo] by blast
  have "LastIndex ops l = Ret (word_of_nat (length envs))"
    using LastIndex_reliable [OF laws rel, of l] history by simp
  moreover have "unat (dbAt p') = length envs"
    using p'(2,3) N by (simp add: mirrors_def word_le_nat_alt)
  ultimately show ?thesis
    using p' assms(3) by (auto simp: DBProjector_drain_def mirrors_def)
qed

end

context publication
begin

lemma drain_relays:
  assumes "relays envs p"
  shows "\<exists>p' r. EventPublisher_drain ops l outages p = Some (p', r) \<and> relays envs p' \<and> mqAt p \<le> mqAt p' \<and>
    EventPublisher_start False (sent p') (mqStored p') = Ret p'"
proof -
  have start: "EventPublisher_start False (sent p') (mqStored p') = Ret p'" if "relays envs p'" for p'
    using that by (simp add: relays_def EventPublisher_start_def)
  show ?thesis
  proof (cases "LastIndex ops l")
    case (Ret n)
    then have "n = word_of_nat (length envs)"
      using twal_lawsD(1) [OF laws] history by (auto simp: LastIndex_def split: option.splits)
    with Ret publishing.loop_returns [OF assms] start show ?thesis
      by (auto simp: EventPublisher_drain_def)
  qed (use assms start in \<open>auto simp: EventPublisher_drain_def\<close>)
qed

end

section \<open>A short log\<close>

text \<open>The output log after account 7 was activated, and a database that knows the account.\<close>

definition sampleEnvelope :: OutputEnvelope where
  "sampleEnvelope = \<lparr>envInputSeq = 1, envOutputSeq = 1, envCreatedAt = 1,
     envEvents = [\<lparr>outPattern = PatternAccountActivated, outData = Text (Account_Marshal account7)\<rparr>]\<rparr>"

definition sampleLog :: memLog where
  "sampleLog = \<lparr>mlBase = 0, mlRecs = [messageFor sampleEnvelope]\<rparr>"

definition sampleDatabase :: database where
  "sampleDatabase = \<lparr>dbAccounts = fmupd 7 \<lparr>raBalance = 1000, raAvailableBalance = 1000, raStatus = ''PENDING''\<rparr> fmempty,
     dbHoldings = fmempty, dbStocks = fmempty, dbOrders = fmempty, dbTrades = fmempty, dbTransfers = fmempty,
     dbAdminRequests = fmempty, dbCursors = fmempty\<rparr>"

lemma sampleLog_reader: "output_reader memOps mlBase mlRecs sampleLog [sampleEnvelope]"
proof
  have "rawEvents (envEvents sampleEnvelope)" by (simp add: rawEvents_def sampleEnvelope_def)
  from OutputEnvelope_roundtrip [OF this]
  show "unmarshal OutputEnvelope_Unmarshal (mlRecs sampleLog ! k) = Some ([sampleEnvelope] ! (mlBase sampleLog + k))"
    if "k < length (mlRecs sampleLog)" for k
    using that by (simp add: sampleLog_def messageFor_def unmarshal_def)
qed (simp_all add: memOps_laws sampleLog_def)

interpretation sampleProjection: projection memOps mlBase mlRecs sampleLog "[sampleEnvelope]" "\<lambda>_. None" sampleDatabase
  using sampleLog_reader by (simp add: projection_def)

interpretation samplePublication: publication memOps mlBase mlRecs sampleLog "[sampleEnvelope]" "\<lambda>_. Published"
  using sampleLog_reader by (simp add: publication_def)

lemma sampleDatabase_mirrors: "mirrors sampleDatabase [sampleEnvelope] \<lparr>stored = sampleDatabase, dbAt = 0\<rparr>"
  by (simp add: mirrors_def LoadCursor_def q_LoadCursor_def sampleDatabase_def)

lemma sample_applies:
  "applyEnvelopes (tables sampleDatabase, None) [sampleEnvelope] =
     Ret (sampleDatabase\<lparr>dbAccounts := fmupd 7 \<lparr>raBalance = 1000, raAvailableBalance = 1000, raStatus = ''ACTIVE''\<rparr> fmempty\<rparr>, None)"
proof -
  have "Account_Unmarshal (Account_Marshal account7) = Some account7"
    by (rule Account_roundtrip) (simp_all add: account7_def)
  then show ?thesis
    by (simp add: sampleEnvelope_def applyEvent_def Let_def pattern_defs withData_def unmarshal_def ActivateAccount_def
        exec_def q_ActivateAccount_def updateRow_def sampleDatabase_def account7_def)
qed

section \<open>Theorems\<close>

text \<open>
  C23: The projector catches up. On reliable storage, when no batch fails and the cleanup left
  what the projector has not read, a drain returns without an error, its cursor is the end of
  the log, and the tables are the initial ones with all events of the history applied.
\<close>

theorem projector_catches_up:
  assumes "output_reader ops base recs l envs" "twal_reliable ops base recs"
    and "applyEnvelopes (tables d0, None) envs = Ret (d, None)"
    and "mirrors d0 envs p" "base l \<le> unat (dbAt p)"
  shows "\<exists>p'. DBProjector_drain ops l (\<lambda>_. None) p = Some (p', Ret ()) \<and> unat (dbAt p') = length envs \<and>
    tables (stored p') = d"
  using projection.drain_completes [OF _ assms(2) refl assms(3-5)] assms(1) by (simp add: projection_def)

theorem projector_catches_up_witness:
  "\<exists>p'. DBProjector_drain memOps sampleLog (\<lambda>_. None) \<lparr>stored = sampleDatabase, dbAt = 0\<rparr> = Some (p', Ret ()) \<and>
     unat (dbAt p') = 1 \<and> map_option raStatus (fmlookup (dbAccounts (stored p')) 7) = Some ''ACTIVE''"
proof -
  let ?d = "sampleDatabase\<lparr>dbAccounts := fmupd 7 \<lparr>raBalance = 1000, raAvailableBalance = 1000, raStatus = ''ACTIVE''\<rparr> fmempty\<rparr>"
  obtain p' where p': "DBProjector_drain memOps sampleLog (\<lambda>_. None) \<lparr>stored = sampleDatabase, dbAt = 0\<rparr> = Some (p', Ret ())"
    "unat (dbAt p') = length [sampleEnvelope]" "tables (stored p') = ?d"
    using projector_catches_up [OF sampleLog_reader memOps_reliable sample_applies sampleDatabase_mirrors]
    by (auto simp: sampleDatabase_def sampleLog_def)
  have "dbAccounts (stored p') = dbAccounts ?d" using arg_cong [OF p'(3), of dbAccounts] by simp
  with p'(1,2) show ?thesis by simp
qed

text \<open>
  C24: The queue receives every envelope at least once and in order. A drain of the publisher
  always returns, whatever fails in whichever batch (also half-way through a batch, or after it
  was sent and before the cursor was saved); the messages for the envelopes up to its cursor are
  a subsequence of the messages sent, and a restarted publisher continues at the cursor.
\<close>

theorem publication_at_least_once:
  assumes "output_reader ops base recs l envs" "relays envs p"
  shows "\<exists>p' r. EventPublisher_drain ops l outages p = Some (p', r) \<and> relays envs p' \<and> mqAt p \<le> mqAt p' \<and>
    EventPublisher_start False (sent p') (mqStored p') = Ret p'"
  using publication.drain_relays [of ops base recs l envs p outages] assms by (simp add: publication_def)

theorem publication_at_least_once_witness:
  "\<exists>p' r. EventPublisher_drain memOps sampleLog (\<lambda>_. CursorFails)
     \<lparr>sent = [], mqStored = sampleDatabase, mqAt = 0\<rparr> = Some (p', r) \<and> relays [sampleEnvelope] p'"
proof -
  have "relays [sampleEnvelope] \<lparr>sent = [], mqStored = sampleDatabase, mqAt = 0\<rparr>"
    by (simp add: relays_def LoadCursor_def q_LoadCursor_def sampleDatabase_def)
  from publication_at_least_once [OF sampleLog_reader this, of "\<lambda>_. CursorFails"] show ?thesis by blast
qed

end
