(* ===== verification/Readers.thy ===== *)
theory Readers
  imports Publisher
begin

text \<open>
  The lives of the two readers of the output log: their loops \<^verbatim>\<open>Run\<close>, which drain the log, wait for
  a signal or the backstop timer and drain again, whatever a drain reports, and their restarts.
  The log grows, and is cut in front, between the drains.
\<close>

section \<open>Runs\<close>

text \<open>A round is what a drain finds: the log at that time and what fails.\<close>

fun readerRounds :: "('w \<Rightarrow> 'p \<Rightarrow> ('p \<times> unit outcome) option) \<Rightarrow> 'w list \<Rightarrow> 'p \<Rightarrow> 'p option" where
  "readerRounds drain [] p = Some p"
| "readerRounds drain (w # ws) p = (case drain w p of None \<Rightarrow> None | Some (p', _) \<Rightarrow> readerRounds drain ws p')"

definition readerRun ::
  "('w \<Rightarrow> 'p \<Rightarrow> ('p \<times> unit outcome) option) \<Rightarrow> (bool \<Rightarrow> 'm \<Rightarrow> 'p outcome) \<Rightarrow> bool \<Rightarrow> 'w list \<Rightarrow> 'm \<Rightarrow> 'p outcome option" where
  "readerRun drain start loadFails rounds m =
     (case start loadFails m of Ret p \<Rightarrow> map_option Ret (readerRounds drain rounds p) | r \<Rightarrow> Some r)"

definition DBProjector_Run ::
  "'l twal \<Rightarrow> bool \<Rightarrow> ('l \<times> (uint64 \<Rightarrow> nat option)) list \<Rightarrow> database \<Rightarrow> DBProjector outcome option" where
  "DBProjector_Run ops = readerRun (\<lambda>(l, faults). DBProjector_drain ops l faults) DBProjector_start"

definition EventPublisher_Run ::
  "'l twal \<Rightarrow> bool \<Rightarrow> ('l \<times> (uint64 \<Rightarrow> publishFault)) list \<Rightarrow> bytes list \<times> database \<Rightarrow> EventPublisher outcome option" where
  "EventPublisher_Run ops =
     readerRun (\<lambda>(l, faults). EventPublisher_drain ops l faults) (\<lambda>fails (out, d). EventPublisher_start fails out d)"

text \<open>
  One run after the other, on what the run before left behind; a run that cannot load its cursor
  ends at once.
\<close>

fun readerLife :: "(bool \<Rightarrow> 'w list \<Rightarrow> 'm \<Rightarrow> 'p outcome option) \<Rightarrow> ('p \<Rightarrow> 'm) \<Rightarrow> (bool \<times> 'w list) list \<Rightarrow> 'm \<Rightarrow> 'm option" where
  "readerLife run keep [] m = Some m"
| "readerLife run keep ((fails, ws) # runs) m =
     (case run fails ws m of
        None \<Rightarrow> None
      | Some (Ret p) \<Rightarrow> readerLife run keep runs (keep p)
      | Some _ \<Rightarrow> readerLife run keep runs m)"

section \<open>Lives\<close>

text \<open>
  What a reader promises: a drain returns and keeps the relation to the history of the log it
  read, the relation survives the growth of the history, and a reader started on what another
  left behind is where that one was.
\<close>

lemma last_chain: "last (x # xs @ ys) = last (last (x # xs) # ys)"
  by (cases ys rule: rev_cases) simp_all

locale log_reader =
  fixes drain :: "'w \<Rightarrow> 'p \<Rightarrow> ('p \<times> unit outcome) option" and start :: "bool \<Rightarrow> 'm \<Rightarrow> 'p outcome"
    and keep :: "'p \<Rightarrow> 'm" and tracks :: "OutputEnvelope list \<Rightarrow> 'p \<Rightarrow> bool"
    and reads :: "OutputEnvelope list \<Rightarrow> 'w \<Rightarrow> bool"
  assumes drains: "tracks envs p \<Longrightarrow> reads envs w \<Longrightarrow> \<exists>p' r. drain w p = Some (p', r) \<and> tracks envs p'"
    and grows: "tracks envs p \<Longrightarrow> prefix envs envs' \<Longrightarrow> tracks envs' p"
    and resumes: "tracks envs p \<Longrightarrow> start False (keep p) = Ret p"
    and refuses: "start True m \<noteq> Ret p"
begin

lemma rounds_track:
  assumes "tracks envs p" "sorted_wrt prefix (envs # map hist ws)" "\<forall>w \<in> set ws. reads (hist w) w"
  shows "\<exists>p'. readerRounds drain ws p = Some p' \<and> tracks (last (envs # map hist ws)) p'"
  using assms
proof (induction ws arbitrary: envs p)
  case (Cons w ws)
  have "tracks (hist w) p" using grows Cons.prems(1,2) by simp
  then obtain p1 r where "drain w p = Some (p1, r)" "tracks (hist w) p1" using drains Cons.prems(3) by fastforce
  with Cons.IH [of "hist w" p1] Cons.prems(2,3) show ?case by simp
qed simp

lemma run_tracks:
  assumes "tracks envs p" "sorted_wrt prefix (envs # map hist ws)" "\<forall>w \<in> set ws. reads (hist w) w"
  shows "\<exists>r. readerRun drain start fails ws (keep p) = Some r \<and>
    (case r of Ret p' \<Rightarrow> tracks (last (envs # map hist ws)) p' | _ \<Rightarrow> True)"
proof (cases fails)
  case True
  then show ?thesis using refuses by (cases "start fails (keep p)") (auto simp: readerRun_def)
next
  case False
  then show ?thesis using rounds_track [OF assms] resumes [OF assms(1)] by (auto simp: readerRun_def)
qed

lemma life_tracks:
  assumes "tracks envs p" "sorted_wrt prefix (envs # map hist (concat (map snd runs)))"
    and "\<forall>w \<in> set (concat (map snd runs)). reads (hist w) w"
  shows "\<exists>p'. readerLife (readerRun drain start) keep runs (keep p) = Some (keep p') \<and>
    tracks (last (envs # map hist (concat (map snd runs)))) p'"
  using assms
proof (induction runs arbitrary: envs p)
  case (Cons run runs)
  obtain fails ws where run: "run = (fails, ws)" by fastforce
  let ?now = "last (envs # map hist ws)" and ?rest = "map hist (concat (map snd runs))"
  have sorted: "sorted_wrt prefix (envs # map hist ws)" "sorted_wrt prefix (?now # ?rest)" "sorted_wrt prefix (envs # ?rest)"
    "\<forall>h \<in> set ?rest. prefix ?now h" and le: "prefix envs ?now"
    using Cons.prems(2) run by (cases "ws = []"; auto simp: sorted_wrt_append last_map)+
  have reads: "\<forall>w \<in> set ws. reads (hist w) w" "\<forall>w \<in> set (concat (map snd runs)). reads (hist w) w"
    using Cons.prems(3) run by auto
  obtain r where r: "readerRun drain start fails ws (keep p) = Some r" "case r of Ret p' \<Rightarrow> tracks ?now p' | _ \<Rightarrow> True"
    using run_tracks [OF Cons.prems(1) sorted(1) reads(1), of fails] by blast
  have now: "last (envs # map hist (concat (map snd (run # runs)))) = last (?now # ?rest)"
    using last_chain [of envs "map hist ws" ?rest] run by simp
  show ?case
  proof (cases r)
    case (Ret p1)
    then show ?thesis using Cons.IH [OF _ sorted(2) reads(2), of p1] r run unfolding now by simp
  next
    case (Err x)
    then show ?thesis using Cons.IH [OF grows [OF Cons.prems(1) le] sorted(2) reads(2)] r run unfolding now by simp
  next
    case (Panic x)
    then show ?thesis using Cons.IH [OF grows [OF Cons.prems(1) le] sorted(2) reads(2)] r run unfolding now by simp
  qed
qed auto

end

lemma mirrors_grow: "mirrors d0 envs p \<Longrightarrow> prefix envs envs' \<Longrightarrow> mirrors d0 envs' p"
  by (auto simp: mirrors_def prefix_def)

lemma relays_grow: "relays envs p \<Longrightarrow> prefix envs envs' \<Longrightarrow> relays envs' p"
  by (auto simp: relays_def prefix_def)

section \<open>Both readers\<close>

interpretation projector: log_reader "\<lambda>(l, faults). DBProjector_drain ops l faults" DBProjector_start stored "mirrors d0"
    "\<lambda>envs (l, faults). output_reader ops base recs l envs"
  for ops :: "'l twal" and base recs d0
proof
  fix envs p and w :: "'l \<times> (uint64 \<Rightarrow> nat option)"
  assume m: "mirrors d0 envs p"
  show "\<exists>p' r. (case w of (l, faults) \<Rightarrow> DBProjector_drain ops l faults) p = Some (p', r) \<and> mirrors d0 envs p'"
    if "case w of (l, faults) \<Rightarrow> output_reader ops base recs l envs"
    using projection.drain_mirrors [of ops base recs _ envs d0 p] m that by (cases w) (fastforce simp: projection_def)
  show "DBProjector_start False (stored p) = Ret p" using m by (simp add: mirrors_def DBProjector_start_def)
qed (auto intro: mirrors_grow simp: DBProjector_start_def LoadCursor_def)

interpretation publisher: log_reader "\<lambda>(l, faults). EventPublisher_drain ops l faults"
    "\<lambda>fails (out, d). EventPublisher_start fails out d" "\<lambda>p. (sent p, mqStored p)" relays
    "\<lambda>envs (l, faults). output_reader ops base recs l envs"
  for ops :: "'l twal" and base recs
proof
  fix envs p and w :: "'l \<times> (uint64 \<Rightarrow> publishFault)"
  assume m: "relays envs p"
  show "\<exists>p' r. (case w of (l, faults) \<Rightarrow> EventPublisher_drain ops l faults) p = Some (p', r) \<and> relays envs p'"
    if "case w of (l, faults) \<Rightarrow> output_reader ops base recs l envs"
    using publication.drain_relays [of ops base recs _ envs p] m that by (cases w) (fastforce simp: publication_def)
  show "(case (sent p, mqStored p) of (out, d) \<Rightarrow> EventPublisher_start False out d) = Ret p"
    using m by (simp add: relays_def EventPublisher_start_def)
qed (auto intro: relays_grow simp: EventPublisher_start_def LoadCursor_def)

lemma published_for_life:
  assumes "relays envs p" "sorted_wrt prefix (envs # map (hist \<circ> fst) (concat (map snd runs)))"
    and "\<forall>w \<in> set (concat (map snd runs)). output_reader ops base recs (fst w) (hist (fst w))"
  shows "\<exists>p'. readerLife (EventPublisher_Run ops) (\<lambda>p. (sent p, mqStored p)) runs (sent p, mqStored p) = Some (sent p', mqStored p') \<and>
    relays (last (envs # map (hist \<circ> fst) (concat (map snd runs)))) p'"
  using publisher.life_tracks [OF assms(1,2), of ops base recs] assms(3) by (simp add: EventPublisher_Run_def case_prod_beta)

text \<open>
  C7: The projector applies every event exactly once, for life. However often the projector is
  started, whether or not it can load its cursor, however often it is woken and whatever fails
  in its drains, while the log grows and is cut: every drain returns, and the tables are the
  initial ones with the events of exactly the envelopes up to the stored cursor applied, in
  order, from where the next projector goes on.
\<close>

theorem projected_for_life:
  assumes "mirrors d0 envs p" "sorted_wrt prefix (envs # map (hist \<circ> fst) (concat (map snd runs)))"
    and "\<forall>w \<in> set (concat (map snd runs)). output_reader ops base recs (fst w) (hist (fst w))"
  shows "\<exists>p'. readerLife (DBProjector_Run ops) stored runs (stored p) = Some (stored p') \<and>
    mirrors d0 (last (envs # map (hist \<circ> fst) (concat (map snd runs)))) p' \<and> DBProjector_start False (stored p') = Ret p'"
proof -
  obtain p' where p': "readerLife (DBProjector_Run ops) stored runs (stored p) = Some (stored p')"
    "mirrors d0 (last (envs # map (hist \<circ> fst) (concat (map snd runs)))) p'"
    using projector.life_tracks [OF assms(1,2), of ops base recs] assms(3) by (auto simp: DBProjector_Run_def case_prod_beta)
  with projector.resumes [OF p'(2)] show ?thesis by blast
qed

theorem projected_for_life_witness:
  "\<exists>p'. readerLife (DBProjector_Run memOps) stored
      [(False, [(sampleLog, \<lambda>_. Some 1)]), (True, []), (False, [(sampleLog, \<lambda>_. None)])] sampleDatabase = Some (stored p') \<and>
    mirrors sampleDatabase [sampleEnvelope] p'"
proof -
  let ?runs = "[(False, [(sampleLog, \<lambda>_. Some 1)]), (True, []), (False, [(sampleLog, \<lambda>_. None)])]"
  have m: "mirrors sampleDatabase [] \<lparr>stored = sampleDatabase, dbAt = 0\<rparr>"
    by (simp add: mirrors_def LoadCursor_def q_LoadCursor_def sampleDatabase_def)
  have "sorted_wrt prefix ([] # map ((\<lambda>_. [sampleEnvelope]) \<circ> fst) (concat (map snd ?runs)))" by simp
  moreover have "\<forall>w \<in> set (concat (map snd ?runs)). output_reader memOps mlBase mlRecs (fst w) [sampleEnvelope]"
    using sampleLog_reader by simp
  ultimately show ?thesis using projected_for_life [OF m, of "\<lambda>_. [sampleEnvelope]" ?runs memOps mlBase mlRecs] by auto
qed

end
