(* ===== verification/Reporting.thy ===== *)
theory Reporting
  imports Determinism MatchProps
begin

text \<open>
  What the events of a request say about the ledger. Every row that a request changes is
  reported with its value afterwards, every reported row is the row of the ledger, and the
  payload of an event is of the kind its pattern announces. Readers of the output log, such as
  the database projector, can therefore follow the ledger without seeing it.
\<close>

section \<open>Rows that may change\<close>

text \<open>Only accounts in \<open>A\<close> and their holdings of the stock \<open>st\<close>; no row disappears and no account is new.\<close>

definition touches :: "int32 set \<Rightarrow> int32 \<Rightarrow> State \<Rightarrow> State \<Rightarrow> bool" where
  "touches A st s s' \<longleftrightarrow>
     (\<forall>a. a \<notin> A \<longrightarrow> getAccount s' a = getAccount s a) \<and>
     (\<forall>a t. a \<notin> A \<or> t \<noteq> st \<longrightarrow> getHolding s' a t = getHolding s a t) \<and>
     (\<forall>a. getAccount s' a = None \<longleftrightarrow> getAccount s a = None) \<and>
     (\<forall>a t. getHolding s a t \<noteq> None \<longrightarrow> getHolding s' a t \<noteq> None) \<and>
     (keys_ok s \<longrightarrow> keys_ok s')"

lemma touches_refl [simp]: "touches A st s s"
  by (simp add: touches_def)

lemma touches_trans: "touches A st s s' \<Longrightarrow> touches A st s' s'' \<Longrightarrow> touches A st s s''"
  by (simp add: touches_def)

lemma touches_mono: "touches A st s s' \<Longrightarrow> A \<subseteq> B \<Longrightarrow> touches B st s s'"
  unfolding touches_def by blast

lemma touches_books [simp]: "touches A st s (putBook s i b)" "touches A st s (openBook s i)"
  by (simp_all add: touches_def)

lemma touches_setAccount: "aId acc \<in> A \<Longrightarrow> getAccount s (aId acc) \<noteq> None \<Longrightarrow> touches A st s (setAccount s acc)"
  by (auto simp: touches_def)

lemma touches_setHolding: "hAccountId h \<in> A \<Longrightarrow> hStockId h = st \<Longrightarrow> touches A st s (setHolding s h)"
  by (auto simp: touches_def)

lemma touches_keys: "touches A st s s' \<Longrightarrow> keys_ok s \<Longrightarrow> keys_ok s'"
  by (simp add: touches_def)

section \<open>Steps of a match\<close>

lemma touches_locking:
  assumes "keys_ok s" "oAccountId x \<in> A" "oStockId x = st"
  shows "touches A st s (lockAssets s x n)" "touches A st s (releaseAssets s x n)"
    "touches A st s (refundBuyer s x i c)" "touches A st s (releaseMarket s x)"
  using assms keys_getD [OF assms(1)]
  by (auto simp: lockAssets_def releaseAssets_def refundBuyer_def releaseMarket_def Let_def
      intro!: touches_setAccount touches_setHolding split: TradingType.splits option.splits)

lemma touches_payBuyer: "keys_ok s \<Longrightarrow> b \<in> A \<Longrightarrow> touches A st s (payBuyer s b c)"
  using keys_getD(1) [of s b] by (auto simp: payBuyer_def intro!: touches_setAccount split: option.splits)

lemma touches_paySeller: "keys_ok s \<Longrightarrow> b \<in> A \<Longrightarrow> touches A st s (paySeller s b c)"
  using keys_getD(1) [of s b] by (auto simp: paySeller_def intro!: touches_setAccount split: option.splits)

lemma touches_takeSeller: "keys_ok s \<Longrightarrow> b \<in> A \<Longrightarrow> touches A st s (takeSeller s st b f)"
  using keys_getD(2) [of s b st]
  by (auto simp: takeSeller_def Let_def intro!: touches_setHolding split: option.splits)

lemma touches_deliverBuyer:
  "keys_ok s \<Longrightarrow> b \<in> A \<Longrightarrow> deliverBuyer s st b f c = Ret s' \<Longrightarrow> touches A st s s'"
  using keys_getD(2) [of s b st]
  by (auto simp: deliverBuyer_def Let_def zeroHolding_def intro!: touches_setHolding split: option.splits if_splits)

lemma touches_settle:
  assumes "keys_ok s" "b \<in> A" "sl \<in> A" "settle s st b sl f c = Ret s'"
  shows "touches A st s s'"
proof -
  obtain s1 where s1: "deliverBuyer (payBuyer s b c) st b f c = Ret s1"
    "s' = takeSeller (paySeller s1 sl c) st sl f"
    using assms(4) by (auto simp: settle_def split: outcome.splits)
  have t: "touches A st s (payBuyer s b c)" by (rule touches_payBuyer [OF assms(1,2)])
  have t1: "touches A st (payBuyer s b c) s1"
    by (rule touches_deliverBuyer [OF touches_keys [OF t assms(1)] assms(2) s1(1)])
  have k: "keys_ok s1" by (intro touches_keys [OF t1] touches_keys [OF t] assms(1))
  have t2: "touches A st s1 (paySeller s1 sl c)" by (rule touches_paySeller [OF k assms(3)])
  have "touches A st (paySeller s1 sl c) s'"
    unfolding s1(2) by (rule touches_takeSeller [OF touches_keys [OF t2 k] assms(3)])
  then show ?thesis using t t1 t2 touches_trans by metis
qed

section \<open>Events and their payloads\<close>

text \<open>The payload of an event is of the kind its pattern announces.\<close>

definition announced :: "outEvent \<Rightarrow> bool" where
  "announced e =
     (case data e of
        EvTrade _ \<Rightarrow> pattern e = PatternTradeExecuted
      | EvOrder _ \<Rightarrow> pattern e \<in> {PatternOrderOpen, PatternOrderFilled, PatternOrderCanceled, PatternOrderReplaced,
          PatternOrderCompleted}
      | EvRejected _ \<Rightarrow> pattern e = PatternOrderRejected
      | EvAccount _ \<Rightarrow> pattern e \<in> {PatternAccountUpdated, PatternAccountActivated}
      | EvHolding _ \<Rightarrow> pattern e = PatternHoldingUpdated
      | EvStock _ \<Rightarrow> pattern e \<in> {PatternStockListed, PatternStockUpdated}
      | EvBook _ \<Rightarrow> pattern e = PatternOrderBookUpdated
      | EvTransferCompleted _ \<Rightarrow> pattern e = PatternTransferCompleted
      | EvTransferRejected _ \<Rightarrow> pattern e = PatternTransferRejected
      | EvAdminCompleted _ \<Rightarrow> pattern e = PatternAdminRequestCompleted
      | EvAdminRejected _ \<Rightarrow> pattern e = PatternAdminRequestRejected)"

lemma announced_ev [simp]:
  "announced (ev p (EvTrade tr)) \<longleftrightarrow> p = PatternTradeExecuted"
  "announced (ev p (EvOrder oe)) \<longleftrightarrow>
     p \<in> {PatternOrderOpen, PatternOrderFilled, PatternOrderCanceled, PatternOrderReplaced, PatternOrderCompleted}"
  "announced (ev p (EvRejected r)) \<longleftrightarrow> p = PatternOrderRejected"
  "announced (ev p (EvAccount a)) \<longleftrightarrow> p = PatternAccountUpdated \<or> p = PatternAccountActivated"
  "announced (ev p (EvHolding h)) \<longleftrightarrow> p = PatternHoldingUpdated"
  "announced (ev p (EvStock t)) \<longleftrightarrow> p = PatternStockListed \<or> p = PatternStockUpdated"
  "announced (ev p (EvBook u)) \<longleftrightarrow> p = PatternOrderBookUpdated"
  "announced (ev p (EvTransferCompleted tc)) \<longleftrightarrow> p = PatternTransferCompleted"
  "announced (ev p (EvTransferRejected tj)) \<longleftrightarrow> p = PatternTransferRejected"
  "announced (ev p (EvAdminCompleted ac)) \<longleftrightarrow> p = PatternAdminRequestCompleted"
  "announced (ev p (EvAdminRejected aj)) \<longleftrightarrow> p = PatternAdminRequestRejected"
  by (simp_all add: announced_def)

text \<open>
  The rows the events carry are those of the ledger afterwards, and every row that differs
  from before is carried by one.
\<close>

definition describes :: "outEvent list \<Rightarrow> State \<Rightarrow> State \<Rightarrow> bool" where
  "describes evs s s' \<longleftrightarrow>
     (\<forall>acc. EvAccount acc \<in> data ` set evs \<longrightarrow> getAccount s' (aId acc) = Some acc) \<and>
     (\<forall>h. EvHolding h \<in> data ` set evs \<longrightarrow> getHolding s' (hAccountId h) (hStockId h) = Some h) \<and>
     (\<forall>t. EvStock t \<in> data ` set evs \<longrightarrow> getStock s' (sId t) = Some t) \<and>
     (\<forall>a. getAccount s' a \<noteq> getAccount s a \<longrightarrow> (\<exists>acc. getAccount s' a = Some acc \<and> EvAccount acc \<in> data ` set evs)) \<and>
     (\<forall>a t. getHolding s' a t \<noteq> getHolding s a t \<longrightarrow> (\<exists>h. getHolding s' a t = Some h \<and> EvHolding h \<in> data ` set evs)) \<and>
     (\<forall>i. getStock s' i \<noteq> getStock s i \<longrightarrow> (\<exists>t. getStock s' i = Some t \<and> EvStock t \<in> data ` set evs))"

text \<open>
  Requests other than those that open an account or list a stock only update rows that exist:
  no account is new, and no stock is new or changes its status.
\<close>

definition updating :: "outEvent \<Rightarrow> bool" where
  "updating e \<longleftrightarrow> announced e \<and> pattern e \<noteq> PatternAccountActivated \<and> pattern e \<noteq> PatternStockListed"

definition steady :: "outEvent list \<Rightarrow> State \<Rightarrow> State \<Rightarrow> bool" where
  "steady evs s s' \<longleftrightarrow> describes evs s s' \<and> list_all updating evs \<and> keys_ok s' \<and>
     (\<forall>a. getAccount s' a = None \<longleftrightarrow> getAccount s a = None) \<and>
     (\<forall>i t'. getStock s' i = Some t' \<longrightarrow> (\<exists>t. getStock s i = Some t \<and> sStatus t' = sStatus t))"

definition faithful :: "outEvent list \<Rightarrow> State \<Rightarrow> State \<Rightarrow> bool" where
  "faithful evs s s' \<longleftrightarrow> describes evs s s' \<and> list_all announced evs"

lemma steady_cong:
  "getAccount s = getAccount t \<Longrightarrow> getHolding s = getHolding t \<Longrightarrow> getStock s = getStock t \<Longrightarrow>
   steady evs s s' = steady evs t s'"
  by (simp add: steady_def describes_def)

lemma updating_announced: "list_all updating evs \<Longrightarrow> list_all announced evs"
  by (simp add: list_all_iff updating_def)

lemma updating_ev [simp]:
  "updating (ev p (EvTrade tr)) \<longleftrightarrow> p = PatternTradeExecuted"
  "updating (ev p (EvOrder oe)) \<longleftrightarrow>
     p \<in> {PatternOrderOpen, PatternOrderFilled, PatternOrderCanceled, PatternOrderReplaced, PatternOrderCompleted}"
  "updating (ev p (EvRejected r)) \<longleftrightarrow> p = PatternOrderRejected"
  "updating (ev p (EvAccount a)) \<longleftrightarrow> p = PatternAccountUpdated"
  "updating (ev p (EvHolding h)) \<longleftrightarrow> p = PatternHoldingUpdated"
  "updating (ev p (EvStock t)) \<longleftrightarrow> p = PatternStockUpdated"
  "updating (ev p (EvBook u)) \<longleftrightarrow> p = PatternOrderBookUpdated"
  "updating (ev p (EvTransferCompleted tc)) \<longleftrightarrow> p = PatternTransferCompleted"
  "updating (ev p (EvTransferRejected tj)) \<longleftrightarrow> p = PatternTransferRejected"
  "updating (ev p (EvAdminCompleted ac)) \<longleftrightarrow> p = PatternAdminRequestCompleted"
  "updating (ev p (EvAdminRejected aj)) \<longleftrightarrow> p = PatternAdminRequestRejected"
  by (auto simp: updating_def pattern_defs)

text \<open>Events of orders, trades and levels carry no rows.\<close>

definition rowless :: "outEvent \<Rightarrow> bool" where
  "rowless e \<longleftrightarrow> (\<forall>acc. data e \<noteq> EvAccount acc) \<and> (\<forall>h. data e \<noteq> EvHolding h) \<and> (\<forall>t. data e \<noteq> EvStock t)"

lemma rowless_data:
  "list_all rowless evs \<Longrightarrow> EvAccount acc \<notin> data ` set evs"
  "list_all rowless evs \<Longrightarrow> EvHolding h \<notin> data ` set evs"
  "list_all rowless evs \<Longrightarrow> EvStock t \<notin> data ` set evs"
  unfolding list_all_iff rowless_def by (metis imageE)+

lemma describes_rowless: "list_all rowless evs \<Longrightarrow> describes evs s s' \<longleftrightarrow>
    getAccount s' = getAccount s \<and> getHolding s' = getHolding s \<and> getStock s' = getStock s"
  by (auto simp: describes_def rowless_data fun_eq_iff)

text \<open>The loop reports trades and orders only.\<close>

definition traded :: "outEvent \<Rightarrow> bool" where
  "traded e \<longleftrightarrow> (\<exists>t. data e = EvTrade t) \<or> (\<exists>oe. data e = EvOrder oe)"

lemma traded_rowless: "list_all traded evs \<Longrightarrow> list_all rowless evs"
  by (auto simp: list_all_iff traded_def rowless_def)

section \<open>The loop\<close>

lemma makerEvent_reports:
  "updating (fst (makerEvent clk e c f))" "traded (fst (makerEvent clk e c f))"
  "state (snd (makerEvent clk e c f)) = state e"
  by (simp_all add: makerEvent_def now_def Let_def traded_def)

lemma tradeIDFor_state: "state (fst (tradeIDFor e)) = state e"
  by (simp add: tradeIDFor_def nextTradeID_def)

lemma set_track [simp]: "set (track x xs) = insert x (set xs)"
  by (auto simp: track_def)

definition reporting :: "'l Engine \<Rightarrow> matchVars \<Rightarrow> 'l Engine \<Rightarrow> matchVars \<Rightarrow> bool" where
  "reporting e m e' m' \<longleftrightarrow>
     touches (set (mAccountIDs m')) (oStockId (mOrder m)) (state e) (state e') \<and>
     set (mAccountIDs m) \<subseteq> set (mAccountIDs m') \<and>
     oAccountId (mOrder m') = oAccountId (mOrder m) \<and> oStockId (mOrder m') = oStockId (mOrder m) \<and>
     (list_all updating (mEvents m) \<longrightarrow> list_all updating (mEvents m')) \<and>
     (list_all traded (mEvents m) \<longrightarrow> list_all traded (mEvents m')) \<and>
     getStock (state e') = getStock (state e)"

lemma reporting_refl: "reporting e m e m"
  by (simp add: reporting_def)

lemma reporting_trans: "reporting e m e1 m1 \<Longrightarrow> reporting e1 m1 e2 m2 \<Longrightarrow> reporting e m e2 m2"
  unfolding reporting_def by (metis subset_trans touches_mono touches_trans)

lemma getStock_settle: "settle s st b sl f c = Ret s' \<Longrightarrow> getStock s' = getStock s"
  by (auto simp: settle_def deliverBuyer_def payBuyer_def paySeller_def takeSeller_def Let_def fun_eq_iff
      split: outcome.splits option.splits if_splits)

lemma executeTrade_reporting:
  assumes "executeTrade clk e m c best f = (e', Ret (Continue m'))" "keys_ok (state e)"
    and "oAccountId (mOrder m) \<in> set (mAccountIDs m)"
  shows "reporting e m e' m'"
proof -
  let ?b = "if oTradingType (mOrder m) = TRADING_SELL then oAccountId c else oAccountId (mOrder m)"
  let ?s = "if oTradingType (mOrder m) = TRADING_SELL then oAccountId (mOrder m) else oAccountId c"
  obtain s where s: "settle (state e) (oStockId (mOrder m)) ?b ?s f (best * f) = Ret s"
    using assms(1) by (cases "settle (state e) (oStockId (mOrder m)) ?b ?s f (best * f)")
      (auto simp: executeTrade_def Let_def split: if_splits)
  obtain e1 r1 where t: "tradeIDFor (e\<lparr>state := s\<rparr>) = (e1, r1)" by fastforce
  have e1: "state e1 = s" using tradeIDFor_state [of "e\<lparr>state := s\<rparr>"] t by simp
  obtain i where i: "r1 = Ret i"
    using assms(1) s t by (cases r1) (auto simp: executeTrade_def Let_def split: if_splits)
  obtain mk e3 where mk: "makerEvent clk (snd (now clk e1)) c f = (mk, e3)" by fastforce
  have e3: "state e3 = s" "updating mk" "traded mk"
    using makerEvent_reports [of clk "snd (now clk e1)" c f, unfolded mk] e1
    by (simp_all add: now_def)
  have m': "e' = e3" "mAccountIDs m' = track (oAccountId c) (mAccountIDs m)"
    "mOrder m' = (mOrder m)\<lparr>oFilledQuantity := oFilledQuantity (mOrder m) + f\<rparr>"
    "\<exists>d. mEvents m' = mEvents m @ [ev PatternTradeExecuted (EvTrade d), mk]"
    using assms(1) s t i mk by (auto simp: executeTrade_def Let_def now_def split: if_splits)
  have "touches (set (mAccountIDs m')) (oStockId (mOrder m)) (state e) s"
    by (rule touches_settle [OF assms(2) _ _ s]) (use assms(3) m'(2) in auto)
  with m' e3 getStock_settle [OF s] show ?thesis
    by (auto simp: reporting_def traded_def)
qed

lemma matchIter_reporting:
  assumes "matchIter clk e m = (e', Ret r)" "keys_ok (state e)" "oAccountId (mOrder m) \<in> set (mAccountIDs m)"
  shows "reporting e m e' (case r of Break \<Rightarrow> m | Continue m' \<Rightarrow> m')"
proof -
  have put: "reporting e m (e\<lparr>state := putBook (state e) i b\<rparr>) m" for i b
    by (simp add: reporting_def fun_eq_iff)
  have ex: False if "executeTrade clk e0 m c best f = (e', Ret Break)" for e0 c best f
    using that by (auto simp: executeTrade_def Let_def andThen_def split: outcome.splits prod.splits)
  show ?thesis
    using assms(1) put
    by (auto simp: matchIter_def Let_def reporting_refl split: option.splits if_splits prod.splits iteration.splits
        dest: ex intro: reporting_trans [OF put executeTrade_reporting] simp: assms(2,3))
qed

text \<open>What every iteration relates, the loop relates.\<close>

lemma matchLoop_rel:
  assumes "matchLoop clk e m = (e', Ret m')" "Q e m"
    and step: "\<And>clk e m e' r. matchIter clk e m = (e', Ret r) \<Longrightarrow> Q e m \<Longrightarrow>
      P e m e' (case r of Break \<Rightarrow> m | Continue m' \<Rightarrow> m') \<and> Q e' (case r of Break \<Rightarrow> m | Continue m' \<Rightarrow> m')"
    and refl: "\<And>e m. P e m e m"
    and trans: "\<And>e m e1 m1 e2 m2. P e m e1 m1 \<Longrightarrow> P e1 m1 e2 m2 \<Longrightarrow> P e m e2 m2"
  shows "P e m e' m'"
  using assms(1,2)
proof (induction clk e m rule: matchLoop.induct)
  case (1 clk e m)
  show ?case
  proof (cases "oFilledQuantity (mOrder m) < oQuantity (mOrder m)")
    case False
    then show ?thesis using 1(2) by (subst (asm) matchLoop.simps) (simp add: refl)
  next
    case True
    obtain e1 r where r: "matchIter clk e m = (e1, r)" by fastforce
    show ?thesis
    proof (cases r)
      case (Ret it)
      note R = step [OF r [unfolded Ret] 1(3)]
      show ?thesis
      proof (cases it)
        case Break
        then show ?thesis using R r Ret 1(2) True by (subst (asm) matchLoop.simps) simp
      next
        case (Continue m1)
        have l: "matchLoop clk e1 m1 = (e', Ret m')"
          using 1(2) r Ret Continue True by (subst (asm) matchLoop.simps) simp
        have "P e1 m1 e' m'"
          by (rule 1(1) [OF True r [symmetric] Ret Continue l]) (use R Continue in simp)
        then show ?thesis using R Continue trans by fastforce
      qed
    qed (use 1(2) r True in \<open>subst (asm) matchLoop.simps, simp\<close>)+
  qed
qed

lemma matchLoop_reporting:
  assumes "matchLoop clk e m = (e', Ret m')" "keys_ok (state e)" "oAccountId (mOrder m) \<in> set (mAccountIDs m)"
  shows "reporting e m e' m'"
proof (rule matchLoop_rel [OF assms(1), where Q = "\<lambda>e m. keys_ok (state e) \<and> oAccountId (mOrder m) \<in> set (mAccountIDs m)"])
  fix clk and e :: "'a Engine" and m e' r
  assume "matchIter clk e m = (e', Ret r)" and q: "keys_ok (state e) \<and> oAccountId (mOrder m) \<in> set (mAccountIDs m)"
  then have r: "reporting e m e' (case r of Break \<Rightarrow> m | Continue m' \<Rightarrow> m')" (is "reporting e m e' ?m'")
    using matchIter_reporting by blast
  then have "keys_ok (state e')" using q by (auto simp: reporting_def touches_def)
  moreover have "oAccountId (mOrder ?m') \<in> set (mAccountIDs ?m')" using r q by (auto simp: reporting_def)
  ultimately show "reporting e m e' ?m' \<and> keys_ok (state e') \<and> oAccountId (mOrder ?m') \<in> set (mAccountIDs ?m')"
    using r by blast
qed (use assms(2,3) in \<open>auto intro: reporting_refl reporting_trans\<close>)

section \<open>The events of a match\<close>

lemma touches_setStock [simp]: "touches A st s (setStock s t)"
  by (simp add: touches_def)

lemma updateStockPrice_reports:
  assumes "updateStockPrice s st p = (s', u)" "keys_ok s"
  shows "touches A t s s'" "getStock s' = (case u of None \<Rightarrow> getStock s | Some v \<Rightarrow> (getStock s)(st \<mapsto> v))"
    "u = Some v \<Longrightarrow> sId v = st \<and> (\<exists>t. getStock s st = Some t \<and> sStatus v = sStatus t)"
  using assms keys_getD(3) [OF assms(2), of st]
  by (auto simp: updateStockPrice_def Let_def fun_eq_iff split: if_splits option.splits)

lemma restOrder_reports:
  assumes "restOrder s m = (s', m')"
  shows "touches A st s s'" "mOrder m' = mOrder m" "mAccountIDs m' = mAccountIDs m" "mEvents m' = mEvents m"
    "getStock s' = getStock s"
  using assms by (auto simp: restOrder_def Let_def fun_eq_iff split: if_splits)

lemma getStock_release: "getStock (releaseMarket s x) = getStock s" "getStock (refundBuyer s x i c) = getStock s"
  "getStock (lockAssets s x n) = getStock s" "getStock (releaseAssets s x n) = getStock s"
  by (auto simp: releaseMarket_def refundBuyer_def releaseAssets_def lockAssets_def Let_def fun_eq_iff
      split: option.split TradingType.split)

lemma finishState_reports:
  assumes "finishState s m i = (s', m', u)" "keys_ok s" "oAccountId (mOrder m) \<in> A" "oStockId (mOrder m) = st"
  shows "touches A st s s'" "mOrder m' = mOrder m" "mAccountIDs m' = mAccountIDs m" "mEvents m' = mEvents m"
    "getStock s' = (case u of None \<Rightarrow> getStock s | Some v \<Rightarrow> (getStock s)(st \<mapsto> v))"
    "u = Some v \<Longrightarrow> sId v = st \<and> (\<exists>t. getStock s st = Some t \<and> sStatus v = sStatus t)"
proof -
  obtain s1 m1 where r: "restOrder s m = (s1, m1)" by fastforce
  define s2 where "s2 = releaseMarket s1 (mOrder m1)"
  define s3 where "s3 = refundBuyer s2 (mOrder m1) i (mFilledCash m1)"
  have u: "updateStockPrice s3 st (mLastTradePrice m1) = (s', u)" "m' = m1"
    using assms(1,4) r restOrder_reports(2) [OF r]
    by (auto simp: finishState_def Let_def s2_def s3_def split: prod.splits)
  note R = restOrder_reports [OF r]
  have k1: "keys_ok s1" by (rule touches_keys [OF R(1) [of A st] assms(2)])
  have t2: "touches A st s1 s2" unfolding s2_def by (rule touches_locking(4) [OF k1]) (use assms R in simp_all)
  have t3: "touches A st s2 s3"
    unfolding s3_def by (rule touches_locking(3) [OF touches_keys [OF t2 k1]]) (use assms R in simp_all)
  have k3: "keys_ok s3" by (intro touches_keys [OF t3] touches_keys [OF t2] k1)
  note U = updateStockPrice_reports [OF u(1) k3]
  show "touches A st s s'"
    by (rule touches_trans [OF R(1) touches_trans [OF t2 touches_trans [OF t3 U(1)]]])
  have g: "getStock s3 = getStock s" by (simp add: s3_def s2_def getStock_release R(5))
  show "getStock s' = (case u of None \<Rightarrow> getStock s | Some v \<Rightarrow> (getStock s)(st \<mapsto> v))"
    "u = Some v \<Longrightarrow> sId v = st \<and> (\<exists>t. getStock s st = Some t \<and> sStatus v = sStatus t)"
    using U(2,3) unfolding g by simp_all
qed (use assms(1) in \<open>auto simp: finishState_def restOrder_def Let_def split: if_splits prod.splits\<close>)

lemma accountEvents_one:
  "EvAccount acc \<in> data ` set (accountEvents s st a) \<longleftrightarrow> getAccount s a = Some acc"
  "EvHolding h \<in> data ` set (accountEvents s st a) \<longleftrightarrow> getHolding s a st = Some h"
  "EvStock t \<notin> data ` set (accountEvents s st a)" "list_all updating (accountEvents s st a)"
  by (auto simp: accountEvents_def split: option.splits)

lemma accountEvents_data:
  "EvAccount acc \<in> data ` set (concat (map (accountEvents s st) ids)) \<longleftrightarrow> (\<exists>a\<in>set ids. getAccount s a = Some acc)"
  "EvHolding h \<in> data ` set (concat (map (accountEvents s st) ids)) \<longleftrightarrow> (\<exists>a\<in>set ids. getHolding s a st = Some h)"
  "EvStock t \<notin> data ` set (concat (map (accountEvents s st) ids))"
  "list_all updating (concat (map (accountEvents s st) ids))"
  by (simp_all add: image_UN accountEvents_one list_all_length [symmetric])
    (use accountEvents_one(4) in \<open>auto simp: list_all_iff\<close>)

text \<open>The final states of the rows that may have changed describe the change.\<close>

lemma describes_rows:
  assumes "touches (set ids) st s s'" "keys_ok s'" "list_all rowless pre"
    and "getStock s' = (case u of None \<Rightarrow> getStock s | Some v \<Rightarrow> (getStock s)(st \<mapsto> v))"
    and "\<And>v. u = Some v \<Longrightarrow> sId v = st"
  shows "describes (pre @ concat (map (accountEvents s' st) ids) @
    (case u of None \<Rightarrow> [] | Some v \<Rightarrow> [ev PatternStockUpdated (EvStock v)])) s s'" (is "describes ?evs s s'")
proof -
  have D: "EvAccount acc \<in> data ` set ?evs \<longleftrightarrow> (\<exists>a\<in>set ids. getAccount s' a = Some acc)"
    "EvHolding h \<in> data ` set ?evs \<longleftrightarrow> (\<exists>a\<in>set ids. getHolding s' a st = Some h)"
    "EvStock t \<in> data ` set ?evs \<longleftrightarrow> u = Some t" for acc h t
    unfolding set_append image_Un Un_iff accountEvents_data
    using rowless_data [OF assms(3)] accountEvents_data(3) by (auto split: option.split)
  note k = keys_getD [OF assms(2)]
  have T: "a \<in> set ids" if "getAccount s' a \<noteq> getAccount s a" for a
    using assms(1) that by (auto simp: touches_def)
  have H: "a \<in> set ids \<and> t = st" if "getHolding s' a t \<noteq> getHolding s a t" for a t
    using assms(1) that by (auto simp: touches_def)
  have N: "getAccount s' a = None \<Longrightarrow> getAccount s a = None" "getHolding s' a t = None \<Longrightarrow> getHolding s a t = None" for a t
    using assms(1) unfolding touches_def by metis+
  show ?thesis
    unfolding describes_def D
  proof (intro conjI allI impI)
    fix a assume n: "getAccount s' a \<noteq> getAccount s a"
    then show "\<exists>acc. getAccount s' a = Some acc \<and> (\<exists>a\<in>set ids. getAccount s' a = Some acc)"
      using T [OF n] N(1) [of a] by (cases "getAccount s' a") auto
  next
    fix a t assume n: "getHolding s' a t \<noteq> getHolding s a t"
    then show "\<exists>h. getHolding s' a t = Some h \<and> (\<exists>a\<in>set ids. getHolding s' a st = Some h)"
      using H [OF n] N(2) [of a t] by (cases "getHolding s' a t") auto
  next
    fix i assume "getStock s' i \<noteq> getStock s i"
    then show "\<exists>t. getStock s' i = Some t \<and> u = Some t"
      using assms(4) by (cases u) (auto split: if_splits)
  next
    fix t assume "u = Some t"
    then show "getStock s' (sId t) = Some t" using assms(4,5) by simp
  next
    fix acc assume "\<exists>a\<in>set ids. getAccount s' a = Some acc"
    then show "getAccount s' (aId acc) = Some acc" using k(1) by blast
  next
    fix h assume "\<exists>a\<in>set ids. getHolding s' a st = Some h"
    then show "getHolding s' (hAccountId h) (hStockId h) = Some h" using k(2) by blast
  qed
qed

lemma takerEvent_reports: "updating (fst (takerEvent clk e r))" "traded (fst (takerEvent clk e r))"
  by (auto simp: takerEvent_def now_def Let_def traded_def orderStatusPattern_def)

lemma takerEvent_state: "takerEvent clk e r = (tk, e') \<Longrightarrow> state e' = state e"
  by (auto simp: takerEvent_def now_def Let_def split: if_splits)

lemma levelEvents_reports: "list_all updating (levelEvents s st ls)" "list_all rowless (levelEvents s st ls)"
  by (simp_all add: levelEvents_def rowless_def)

lemma matchEvents_steady:
  assumes m: "matchEvents clk e x = (e', Ret evs)" and k: "keys_ok (state e)"
    and s0: "touches {oAccountId x} (oStockId x) s0 (state e)" "getStock (state e) = getStock s0"
  shows "steady evs s0 (state e')"
proof -
  let ?st = "oStockId x" and ?s = "lockAssets (openBook (state e) (oStockId x)) x (remaining x)"
  obtain e1 m1 where l: "matchLoop clk (e\<lparr>state := ?s\<rparr>) (startVars x) = (e1, Ret m1)"
    "closeMatch clk x e1 m1 = (e', Ret evs)"
    using m unfolding matchEvents_eq
    by (cases "matchLoop clk (e\<lparr>state := ?s\<rparr>) (startVars x)"; cases "snd (matchLoop clk (e\<lparr>state := ?s\<rparr>) (startVars x))") auto
  have t0: "touches {oAccountId x} ?st (state e) ?s"
    by (rule touches_trans [OF touches_books(2) touches_locking(1)]) (use k in simp_all)
  have k0: "keys_ok ?s" by (rule touches_keys [OF t0 k])
  have R: "reporting (e\<lparr>state := ?s\<rparr>) (startVars x) e1 m1"
    by (rule matchLoop_reporting [OF l(1)]) (use k0 in \<open>simp_all add: startVars_def track_def\<close>)
  have A: "oAccountId x \<in> set (mAccountIDs m1)" "oAccountId (mOrder m1) = oAccountId x" "oStockId (mOrder m1) = ?st"
    and E: "list_all updating (mEvents m1)" "list_all traded (mEvents m1)"
    and t1: "touches (set (mAccountIDs m1)) ?st ?s (state e1)" and g1: "getStock (state e1) = getStock s0"
    using R s0(2) by (auto simp: reporting_def startVars_def track_def getStock_release fun_eq_iff)
  have k1: "keys_ok (state e1)" by (rule touches_keys [OF t1 k0])
  obtain s m2 u where f: "finishState (state e1) m1 (oFilledQuantity x) = (s, m2, u)" by (metis prod_cases3)
  note F = finishState_reports [OF f k1 A(1) [folded A(2)] A(3)]
  let ?tk = "fst (takerEvent clk (e1\<lparr>state := s\<rparr>) (mOrder m2))"
  let ?pre = "mEvents m2 @ ?tk # levelEvents s ?st (mAffected m2)"
  let ?u = "case u of None \<Rightarrow> [] | Some t \<Rightarrow> [ev PatternStockUpdated (EvStock t)]"
  have evs: "evs = ?pre @ concat (map (accountEvents s ?st) (mAccountIDs m1)) @ ?u" "state e' = s"
    using l(2) f F(3) takerEvent_state [of clk "e1\<lparr>state := s\<rparr>" "mOrder m2"]
    by (auto simp: closeMatch_def Let_def split: prod.splits)
  have t: "touches (set (mAccountIDs m1)) ?st s0 s"
    using touches_mono [OF touches_trans [OF s0(1) t0], of "set (mAccountIDs m1)"] A(1) t1 F(1)
    by (auto intro: touches_trans)
  have "list_all rowless ?pre"
    using E(2) F(4) traded_rowless [of "mEvents m1 @ [?tk]"] by (simp add: takerEvent_reports(2) levelEvents_reports(2))
  moreover have "keys_ok s" by (rule touches_keys [OF F(1) k1])
  ultimately have "describes evs s0 (state e')"
    unfolding evs using t F(5,6) [unfolded g1] by (intro describes_rows) simp_all
  moreover have "list_all updating evs"
    using E(1) F(4) unfolding evs
    by (simp add: takerEvent_reports(1) levelEvents_reports(1) accountEvents_data(4) split: option.split)
  moreover have "\<exists>t. getStock s0 i = Some t \<and> sStatus t' = sStatus t" if "getStock s i = Some t'" for i t'
    using that F(5,6) [unfolded g1] by (cases u) (auto split: if_splits)
  ultimately show ?thesis using t evs(2) touches_keys [OF F(1) k1] by (simp add: steady_def touches_def)
qed

section \<open>Requests\<close>

text \<open>A request that succeeds hands over, once, events that describe what it did.\<close>

definition tells :: "(outEvent list \<Rightarrow> State \<Rightarrow> State \<Rightarrow> bool) \<Rightarrow> 'l twal \<Rightarrow> clock \<Rightarrow> 'l Engine \<Rightarrow> ('l, unit) result \<Rightarrow> bool" where
  "tells R ops clk e p \<longleftrightarrow> (\<forall>u. snd p = Ret u \<longrightarrow>
     (\<exists>e1 evs. evs \<noteq> [] \<and> frame e e1 \<and> appendOutput ops clk e1 evs = (fst p, Ret ()) \<and>
        R evs (state e) (state (fst p))))"

lemma tellsI:
  assumes "evs \<noteq> []" "frame e e1" "R evs (state e) (state e1)"
  shows "tells R ops clk e (appendOutput ops clk e1 evs)" "tells R ops clk e (orPanic (appendOutput ops clk e1 evs))"
proof -
  obtain e2 r where a: "appendOutput ops clk e1 evs = (e2, r)" by fastforce
  have "state e2 = state e1" by (rule appendOutput_frame(1) [OF a])
  with a assms show "tells R ops clk e (appendOutput ops clk e1 evs)"
    "tells R ops clk e (orPanic (appendOutput ops clk e1 evs))"
    by (cases r; force simp: tells_def)+
qed

lemma tells_fails [simp]: "tells R ops clk e (e', Err x)" "tells R ops clk e (e', Panic x)"
  by (simp_all add: tells_def)

lemma tells_mono: "tells R ops clk e p \<Longrightarrow> (\<And>evs s s'. R evs s s' \<Longrightarrow> R' evs s s') \<Longrightarrow> tells R' ops clk e p"
  unfolding tells_def by blast

lemma tells_matchEvents:
  assumes "frame e e0" "keys_ok (state e0)"
    and "touches {oAccountId x} (oStockId x) (state e) (state e0)" "getStock (state e0) = getStock (state e)"
    and "\<And>e1 evs s. evs \<noteq> [] \<Longrightarrow> f e1 evs \<noteq> []"
    and "\<And>e1 evs s. steady evs s (state e1) \<Longrightarrow> steady (f e1 evs) s (state e1)"
  shows "tells steady ops clk e (andThen (matchEvents clk e0 x) (\<lambda>e1 evs. orPanic (appendOutput ops clk e1 (f e1 evs))))"
proof -
  obtain e1 r where m: "matchEvents clk e0 x = (e1, r)" by fastforce
  have fr: "frame e e1" using frame_trans [OF assms(1), of e1] matchEvents_frame [of e0 clk x] m by simp
  show ?thesis
  proof (cases r)
    case (Ret evs)
    note M = matchEvents_steady [OF m [unfolded Ret] assms(2-4)]
    have "evs \<noteq> []"
      using m Ret unfolding matchEvents_eq andThen_def
      by (auto simp: closeMatch_def Let_def split: outcome.splits prod.splits)
    then show ?thesis using M assms(5,6) fr m Ret by (simp add: tellsI(2))
  qed (simp_all add: m)
qed

lemma tells_match: "keys_ok (state e) \<Longrightarrow> tells steady ops clk e (match ops clk e x)"
  unfolding match_def by (rule tells_matchEvents) simp_all

lemma mergeOrderBookLevel_reports:
  "EvAccount acc \<in> data ` set (mergeOrderBookLevel evs l st) \<longleftrightarrow> EvAccount acc \<in> data ` set evs"
  "EvHolding h \<in> data ` set (mergeOrderBookLevel evs l st) \<longleftrightarrow> EvHolding h \<in> data ` set evs"
  "EvStock t \<in> data ` set (mergeOrderBookLevel evs l st) \<longleftrightarrow> EvStock t \<in> data ` set evs"
  "list_all updating evs \<Longrightarrow> list_all updating (mergeOrderBookLevel evs l st)"
  by (induction evs l st rule: mergeOrderBookLevel.induct)
    (auto simp: updating_def announced_def split: evdata.splits, simp_all add: pattern_defs)

lemma removeAndRelease_reports:
  assumes "removeAndRelease s t = Some (ok, s')" "keys_ok s"
  shows "touches {oAccountId t} (oStockId t) s s'" "getStock s' = getStock s" "keys_ok s'"
proof -
  show touched: "touches {oAccountId t} (oStockId t) s s'"
    using assms by (auto simp: removeAndRelease_def Let_def split: option.splits prod.splits if_splits
        intro!: touches_trans [OF touches_trans [OF touches_books(2) touches_books(1)] touches_locking(2)]
          touches_trans [OF touches_books(2) touches_books(1)])
  show "getStock s' = getStock s"
    using assms(1) by (auto simp: removeAndRelease_def Let_def getStock_release fun_eq_iff
        split: option.splits prod.splits if_splits)
  show "keys_ok s'" by (rule touches_keys [OF touched assms(2)])
qed

lemma steady_merge:
  assumes "steady evs s s'"
  shows "steady (ev PatternOrderReplaced (EvOrder x) # mergeOrderBookLevel evs l st) s s'"
  using assms mergeOrderBookLevel_reports(1-3) [of _ evs l st] mergeOrderBookLevel_reports(4) [of evs l st]
  by (simp add: describes_def steady_def)

lemma tells_edit:
  assumes "keys_ok (state e)" "Get (bookOf (state e) (oStockId x)) (oTargetId x) = Some c"
    and "oAccountId c = oAccountId x" "oStockId c = oStockId x"
  shows "tells steady ops clk e (edit ops clk e x)"
proof -
  let ?s0 = "openBook (state e) (oStockId x)"
  have t: "targetOf ?s0 x = c" using assms(2) by (simp add: targetOf_def)
  show ?thesis
  proof (cases "removeAndRelease ?s0 c")
    case None
    then show ?thesis by (simp add: edit_def Let_def t)
  next
    case (Some q)
    then obtain ok s1 where q: "removeAndRelease ?s0 c = Some (ok, s1)" by (cases q) auto
    note R = removeAndRelease_reports [OF q]
    have "touches {oAccountId c} (oStockId c) (state e) s1"
      using touches_trans [OF touches_books(2) R(1)] assms(1) by simp
    with R(2,3) assms(1,3,4) have "tells steady ops clk e (andThen (matchEvents clk (e\<lparr>state := s1\<rparr>) (replacementOf x c))
        (\<lambda>e1 events. orPanic (appendOutput ops clk e1 (ev PatternOrderReplaced (EvOrder (orderEvent c)) #
           mergeOrderBookLevel events (levelOf (state e1) (oStockId x) c) (oStockId c)))))"
      by (intro tells_matchEvents)
        (auto simp: replacementOf_def steady_merge fun_eq_iff)
    then show ?thesis using q by (cases ok) (simp_all add: edit_def Let_def t)
  qed
qed

lemma describes_cancel:
  assumes "removeAndRelease s t = Some (True, s')" "keys_ok s"
  shows "describes (cancelEvents s' x t) s s'"
proof -
  obtain ob where s': "s' = releaseAssets (putBook (openBook s (oStockId t)) (oStockId t) ob) t (remaining t)"
    using assms(1) by (auto simp: removeAndRelease_def Let_def split: option.splits prod.splits if_splits)
  note k = keys_getD [OF assms(2)]
  show ?thesis
  proof (cases "oTradingType t")
    case TRADING_BUY
    then show ?thesis unfolding s' using k(1) [of "oAccountId t"]
      by (cases "getAccount s (oAccountId t)") (auto simp: describes_def cancelEvents_def releaseAssets_def)
  next
    case TRADING_SELL
    then show ?thesis unfolding s' using k(2) [of "oAccountId t" "oStockId t"]
      by (cases "getHolding s (oAccountId t) (oStockId t)") (auto simp: describes_def cancelEvents_def releaseAssets_def)
  qed (simp_all add: s' describes_def cancelEvents_def releaseAssets_def)
qed

lemma updating_cancel: "list_all updating (cancelEvents s x t)"
  by (auto simp: cancelEvents_def split: TradingType.split option.split)

lemma tells_cancel:
  assumes "keys_ok (state e)"
  shows "tells steady ops clk e (cancel ops clk e x)"
proof (cases "Get (bookOf (state e) (oStockId x)) (oTargetId x)")
  case None
  then show ?thesis by (simp add: cancel_def Let_def)
next
  case (Some c)
  let ?s0 = "openBook (state e) (oStockId x)"
  show ?thesis
  proof (cases "removeAndRelease ?s0 c")
    case None
    then show ?thesis using Some by (simp add: cancel_def Let_def)
  next
    case r: (Some q)
    then obtain ok s1 where q: "removeAndRelease ?s0 c = Some (ok, s1)" by (cases q) auto
    note R = removeAndRelease_reports [OF q]
    have "steady (cancelEvents s1 x c) (state e) s1" if ok
      using describes_cancel [of ?s0 c s1 x] q that assms R updating_cancel [of s1 x c]
      by (simp add: steady_def describes_def touches_def)
    then show ?thesis
      using q Some by (cases ok) (auto simp: cancel_def Let_def cancelEvents_def [of s1 x c] intro!: tellsI(2))
  qed
qed

lemma tells_route:
  assumes "keys_ok (state e)"
    and "oTradingType x = TRADING_EDIT \<Longrightarrow>
      \<exists>c. Get (bookOf (state e) (oStockId x)) (oTargetId x) = Some c \<and> oAccountId c = oAccountId x \<and> oStockId c = oStockId x"
  shows "tells steady ops clk e (route ops clk e x)"
  using assms by (cases "oTradingType x") (auto simp: route_def tells_match tells_cancel tells_edit)

lemma tells_order:
  assumes "ledger_inv (state e) no_slack no_slack2"
  shows "tells steady ops clk e (applyRequest ops clk e (RqOrder x))"
proof -
  obtain s r where v: "validateOrder (state e) x = (s, r)" by fastforce
  note K = validateOrder_keeps [OF v]
  have "ledger_inv s no_slack no_slack2" using assms K(5) by blast
  then have k: "keys_ok s" by (simp add: ledger_inv_def)
  have T: "tells steady ops clk e p" if "tells steady ops clk (e\<lparr>state := s\<rparr>) p" for p
    using that steady_cong [of s "state e"] K(2-4) by (simp add: tells_def fun_eq_iff)
  show ?thesis
  proof (cases r)
    case None
    have "\<exists>c. Get (bookOf s (oStockId x)) (oTargetId x) = Some c \<and> oAccountId c = oAccountId x \<and> oStockId c = oStockId x"
      if ed: "oTradingType x = TRADING_EDIT"
    proof -
      obtain c where c: "Get (bookOf (state e) (oStockId x)) (oTargetId x) = Some c" "oAccountId c = oAccountId x"
        using v ed None by (auto simp: validateOrder_def validateEdit_def validateTargetRequest_Inr
            split: if_splits option.splits prod.splits sum.splits)
      with resting_facts(2) [OF assms c(1)] K(1) show ?thesis by simp
    qed
    then show ?thesis using None v k by (auto intro!: T tells_route)
  next
    case (Some reason)
    then show ?thesis
      using v k K(2-4) by (auto simp: appendReject_def steady_def describes_def intro!: tellsI(2))
  qed
qed

lemma tells_openings:
  "tells faithful ops clk e (activateAccount ops clk e acc)"
  "tells faithful ops clk e (setStockStatus ops clk e stock LISTED PatternStockListed)"
  by (auto simp: activateAccount_def setStockStatus_def Let_def faithful_def describes_def intro!: tellsI)

lemma tells_adjustments:
  assumes "keys_ok (state e)"
  shows "tells steady ops clk e (applyBalanceAdjust ops clk e b)" "tells steady ops clk e (applyStockBalanceAdjust ops clk e h)"
proof -
  have "aId (adjustedAccount acc d) = aId acc" for acc d by (simp add: adjustedAccount_def Let_def)
  then show "tells steady ops clk e (applyBalanceAdjust ops clk e b)"
    using assms keys_getD(1) [OF assms, of "baAccountId b"]
    by (auto simp: applyBalanceAdjust_def adminRequestCompleted_def adminRequestRejected_def validateBalanceAdjust_def
        now_def Let_def steady_def describes_def frame_def intro!: tellsI split: option.splits if_splits)
  show "tells steady ops clk e (applyStockBalanceAdjust ops clk e h)"
    using assms by (auto simp: applyStockBalanceAdjust_def adminRequestCompleted_def adminRequestRejected_def now_def Let_def
        steady_def describes_def frame_def intro!: tellsI split: option.split)
qed

lemma tells_transfer:
  assumes "keys_ok (state e)"
  shows "tells steady ops clk e (applyTransfer ops clk e t)"
proof (cases "validateTransfer (state e) t")
  case (Inl r)
  with assms show ?thesis
    by (auto simp: applyTransfer_def transferRejected_def now_def Let_def steady_def describes_def frame_def
        intro!: tellsI(1))
next
  case (Inr p)
  then obtain sd rc where v: "validateTransfer (state e) t = Inr (sd, rc)" by (cases p) auto
  have "aId sd \<noteq> aId rc" "getAccount (state e) (aId sd) \<noteq> None" "getAccount (state e) (aId rc) \<noteq> None"
    using v keys_getD(1) [OF assms] by (auto simp: validateTransfer_Inr)
  with assms v show ?thesis
    by (auto simp: applyTransfer_def moveCash_def transferCompleted_def now_def Let_def steady_def describes_def
        frame_def intro!: tellsI(1))
qed

lemma steady_faithful: "steady evs s s' \<Longrightarrow> faithful evs s s'"
  by (simp add: steady_def faithful_def updating_announced)

fun opens :: "request \<Rightarrow> bool" where
  "opens (RqAccount _) = True"
| "opens (RqStock _) = True"
| "opens _ = False"

lemma tells_updates:
  assumes "ledger_inv (state e) no_slack no_slack2" "\<not> opens rq"
  shows "tells steady ops clk e (applyRequest ops clk e rq)"
proof -
  have "keys_ok (state e)" using assms(1) by (simp add: ledger_inv_def)
  then show ?thesis
    using tells_order [OF assms(1)] assms(2)
    by (cases rq) (simp_all add: tells_adjustments tells_transfer del: applyRequest.simps(1))
qed

lemma tells_applyRequest:
  assumes "ledger_inv (state e) no_slack no_slack2"
  shows "tells faithful ops clk e (applyRequest ops clk e rq)"
  using tells_mono [OF tells_updates [OF assms] steady_faithful, of rq]
  by (cases "opens rq"; cases rq) (simp_all add: tells_openings)

section \<open>The output record of a request\<close>

lemma appendOutput_envelope:
  assumes "twal_laws ops base recs" "evs \<noteq> []" "\<not> suppressed e" "appendOutput ops clk e evs = (e', Ret ())"
  obtains env where "recs (outputLog e') = recs (outputLog e) @ [Text (OutputEnvelope_Marshal env)]"
    "unmarshal OutputEnvelope_Unmarshal (Text (OutputEnvelope_Marshal env)) = Some env"
    "envInputSeq env = inputSeq e" "marshalEvents evs = Some (envEvents env)" "base (outputLog e') = base (outputLog e)"
proof -
  let ?i = "word_of_nat (base (outputLog e) + length (recs (outputLog e)) + 1) :: uint64"
  obtain out where out: "marshalEvents evs = Some out" "base (outputLog e') = base (outputLog e)"
    "recs (outputLog e') = recs (outputLog e) @ [envelopeAt clk e out ?i]"
    by (rule appendOutput_record [OF assms])
  define env where "env = \<lparr>envInputSeq = inputSeq e, envOutputSeq = ?i, envCreatedAt = clk (ticks e), envEvents = out\<rparr>"
  have "OutputEnvelope_Unmarshal (OutputEnvelope_Marshal env) = Some env"
    by (rule OutputEnvelope_roundtrip) (use marshalEvents_raw [OF out(1)] in \<open>simp add: env_def\<close>)
  with out show thesis by (intro that [of env]) (simp_all add: envelopeAt_def env_def unmarshal_def)
qed

lemma tells_record:
  assumes "twal_laws ops base recs" "tells R ops clk e p" "\<not> suppressed e" "p = (e', Ret ())"
  shows "\<exists>env evs. recs (outputLog e') = recs (outputLog e) @ [Text (OutputEnvelope_Marshal env)] \<and>
    envInputSeq env = inputSeq e \<and> marshalEvents evs = Some (envEvents env) \<and> R evs (state e) (state e')"
proof -
  obtain e1 evs where t: "evs \<noteq> []" "frame e e1" "appendOutput ops clk e1 evs = (e', Ret ())"
    "R evs (state e) (state e')"
    using assms(2,4) by (auto simp: tells_def)
  have e1: "\<not> suppressed e1" "outputLog e1 = outputLog e" "inputSeq e1 = inputSeq e"
    using assms(3) t(2) by (simp_all add: suppressed_def frame_def)
  show ?thesis by (rule appendOutput_envelope [OF assms(1) t(1) e1(1) t(3)]) (use t(4) e1(2,3) in auto)
qed

text \<open>
  C9: The events of a request describe it completely. When a request is applied and its result
  is not suppressed as already written, exactly one envelope is added to the output log; it
  answers this input; each event in it carries the kind of payload its pattern announces; every
  account, holding and stock it shows is the one of the ledger afterwards; and every account,
  holding and stock that changed is shown.
\<close>

theorem events_describe_changes:
  assumes "twal_laws ops base recs" "ledger_inv (state e) no_slack no_slack2" "\<not> suppressed e"
    and "applyRequest ops clk e rq = (e', Ret ())"
  shows "\<exists>env evs. recs (outputLog e') = recs (outputLog e) @ [Text (OutputEnvelope_Marshal env)] \<and>
    envInputSeq env = inputSeq e \<and> marshalEvents evs = Some (envEvents env) \<and>
    list_all announced evs \<and> describes evs (state e) (state e')"
proof -
  have "tells (\<lambda>evs s s'. list_all announced evs \<and> describes evs s s') ops clk e (applyRequest ops clk e rq)"
    by (rule tells_mono [OF tells_applyRequest [OF assms(2)]]) (simp add: faithful_def)
  from tells_record [OF assms(1) this assms(3,4)] show ?thesis .
qed

definition sampleAccount :: Account where
  "sampleAccount = \<lparr>aId = 11, aBalance = 500, aAvailableBalance = 500\<rparr>"

lemma sampleAccount_applied: "\<exists>e'. applyRequest memOps sampleClock sampleEngine (RqAccount sampleAccount) = (e', Ret ())"
proof -
  let ?e = "sampleEngine\<lparr>state := setAccount sampleState sampleAccount\<rparr>"
  obtain e' where "appendOutput memOps sampleClock ?e [ev PatternAccountActivated (EvAccount sampleAccount)] = (e', Ret ())"
    using appendOutput_reliable [OF memOps_laws memOps_reliable, of "[ev PatternAccountActivated (EvAccount sampleAccount)]" ?e]
    by (auto simp: sampleEngine_def memEmpty_def)
  then show ?thesis by (simp add: activateAccount_def sampleEngine_def)
qed

theorem events_describe_changes_witness:
  "\<exists>e' env evs. applyRequest memOps sampleClock sampleEngine (RqAccount sampleAccount) = (e', Ret ()) \<and>
     mlRecs (outputLog e') = [Text (OutputEnvelope_Marshal env)] \<and> marshalEvents evs = Some (envEvents env) \<and>
     list_all announced evs \<and> describes evs sampleState (state e')"
proof -
  obtain e' where a: "applyRequest memOps sampleClock sampleEngine (RqAccount sampleAccount) = (e', Ret ())"
    using sampleAccount_applied by blast
  have s: "state sampleEngine = sampleState" "mlRecs (outputLog sampleEngine) = []" "\<not> suppressed sampleEngine"
    by (simp_all add: sampleEngine_def suppressed_def memEmpty_def)
  from events_describe_changes [OF memOps_laws _ s(3) a] sample_inv a s(1,2) show ?thesis by auto
qed

end
