(* ===== verification/Accounting.thy ===== *)
theory Accounting
  imports Recovery
begin

text \<open>
  What every request does to the books of the exchange: a refused request changes nothing, an
  accepted one keeps the ledger invariant and moves exactly the cash and the shares it names.
  The statements are about \<open>applyRequest\<close>, which the handlers run on a request after logging it.
\<close>

section \<open>Refused requests\<close>

fun refusal :: "State \<Rightarrow> request \<Rightarrow> string option" where
  "refusal s (RqOrder x) = snd (validateOrder s x)"
| "refusal s (RqTransfer t) = (case validateTransfer s t of Inl r \<Rightarrow> Some r | Inr _ \<Rightarrow> None)"
| "refusal s (RqBalance r) = validateBalanceAdjust s r"
| "refusal s (RqShares r) = validateStockBalanceAdjust s r"
| "refusal s (RqAccount _) = None"
| "refusal s (RqStock _) = None"

text \<open>The same tables and the same orders in every book; a book may have been opened.\<close>

definition sameLedger :: "State \<Rightarrow> State \<Rightarrow> bool" where
  "sameLedger s s' \<longleftrightarrow> Accounts s' = Accounts s \<and> StockBalances s' = StockBalances s \<and> Stocks s' = Stocks s \<and>
     (\<forall>i. bookOf s' i = bookOf s i)"

lemma sameLedger_refl [simp]: "sameLedger s s"
  by (simp add: sameLedger_def)

lemma sameLedger_openBook: "sameLedger s (openBook s i)"
  by (simp add: sameLedger_def)

lemma appendOutput_state [simp]: "state (fst (appendOutput ops clk e evs)) = state e"
  by (cases "appendOutput ops clk e evs") (simp add: appendOutput_frame(1))

lemma refused_state:
  assumes "refusal (state e) rq = Some reason"
  shows "state (fst (applyRequest ops clk e rq)) = state e \<or>
    (\<exists>i. state (fst (applyRequest ops clk e rq)) = openBook (state e) i)"
proof (cases rq)
  case (RqOrder x)
  obtain s' r where v: "validateOrder (state e) x = (s', r)" by fastforce
  with assms RqOrder show ?thesis
    using validateOrder_frame [OF v] by (auto simp: appendReject_def)
qed (use assms in \<open>auto simp: applyTransfer_def applyBalanceAdjust_def applyStockBalanceAdjust_def
    adminRequestRejected_def now_def Let_def split: sum.splits\<close>)

section \<open>Accepted requests\<close>

text \<open>
  What the code takes for granted of an accepted request: an order's id is not that of a
  resting order, a market buy does not reach asks above its price, trade ids do not run out,
  a new account is new and has nothing reserved, and the totals stay within 64 bits.
\<close>

definition fillable :: "State \<Rightarrow> Order \<Rightarrow> uint64" where
  "fillable s x = (if oTradingType x = TRADING_EDIT then remaining (targetOf s x) else remaining x)"

fun feasible :: "'l Engine \<Rightarrow> request \<Rightarrow> bool" where
  "feasible e (RqOrder x) \<longleftrightarrow>
     Get (bookOf (state e) (oStockId x)) (oId x) = None \<and>
     (is_side (oTradingType x) \<longrightarrow> askCap x (bookOf (state e) (oStockId x))) \<and>
     lastTradeID e + int (unat (fillable (state e) x)) \<le> int64_max"
| "feasible e (RqAccount a) \<longleftrightarrow> getAccount (state e) (aId a) = None \<and>
     aAvailableBalance a = aBalance a \<and> total_cash (state e) + unat (aBalance a) < 2 ^ 64"
| "feasible e (RqBalance r) \<longleftrightarrow> int64_min \<le> baDelta r \<and> baDelta r \<le> int64_max \<and>
     int (total_cash (state e)) + baDelta r < 2 ^ 64"
| "feasible e (RqShares r) \<longleftrightarrow> int64_min \<le> sbaDelta r \<and> sbaDelta r \<le> int64_max \<and>
     int (total_shares (state e) (sbaStockId r)) + sbaDelta r < 2 ^ 63"
| "feasible e _ \<longleftrightarrow> True"

text \<open>What a request brings into the exchange or takes out of it.\<close>

fun cashIn :: "State \<Rightarrow> request \<Rightarrow> int" where
  "cashIn s (RqAccount a) = int (unat (aBalance a))"
| "cashIn s (RqBalance r) = (if validateBalanceAdjust s r = None then baDelta r else 0)"
| "cashIn s _ = 0"

fun sharesIn :: "State \<Rightarrow> request \<Rightarrow> int32 \<Rightarrow> int" where
  "sharesIn s (RqShares r) st = (if validateStockBalanceAdjust s r = None \<and> sbaStockId r = st then sbaDelta r else 0)"
| "sharesIn s _ st = 0"

definition kept :: "State \<Rightarrow> State \<Rightarrow> int \<Rightarrow> (int32 \<Rightarrow> int) \<Rightarrow> bool" where
  "kept s s' c n \<longleftrightarrow> ledger_inv s' no_slack no_slack2 \<and> int (total_cash s') = int (total_cash s) + c \<and>
     (\<forall>st. int (total_shares s' st) = int (total_shares s st) + n st)"

lemma kept_refused:
  "ledger_inv s no_slack no_slack2 \<Longrightarrow> s' = s \<or> (\<exists>i. s' = openBook s i) \<Longrightarrow> kept s s' 0 (\<lambda>_. 0)"
  by (auto simp: kept_def)

lemma kept_sound_step: "sound_step e e1 evs \<Longrightarrow> kept (state e) (state e1) 0 (\<lambda>_. 0)"
  by (simp add: sound_step_def kept_def)

lemma kept_match:
  assumes inv: "ledger_inv (state e) no_slack no_slack2" and f: "feasible e (RqOrder x)"
    and v: "validateOrder (state e) x = (s', None)" and side: "is_side (oTradingType x)"
  shows "kept (state e) (state (fst (match ops clk (e\<lparr>state := s'\<rparr>) x))) 0 (\<lambda>_. 0)"
proof -
  note k = validateOrder_keeps [OF v]
  have "ledger_inv (state (e\<lparr>state := s'\<rparr>)) no_slack no_slack2" using inv k by simp
  moreover have "matchable (state (e\<lparr>state := s'\<rparr>)) x"
    using validated_matchable [OF v side] f side by simp
  moreover have "lastTradeID (e\<lparr>state := s'\<rparr>) + int (unat (remaining x)) \<le> int64_max"
    using f side by (auto simp: fillable_def is_side_def)
  ultimately obtain e1 evs where "match ops clk (e\<lparr>state := s'\<rparr>) x = orPanic (appendOutput ops clk e1 evs)"
    "sound_step (e\<lparr>state := s'\<rparr>) e1 evs" by (rule match_sound)
  then show ?thesis using k kept_sound_step [of "e\<lparr>state := s'\<rparr>" e1 evs] by (simp add: kept_def)
qed

lemma kept_edit:
  assumes inv: "ledger_inv (state e) no_slack no_slack2" and f: "feasible e (RqOrder x)"
    and v: "validateOrder (state e) x = (s', None)" and t: "oTradingType x = TRADING_EDIT"
  shows "kept (state e) (state (fst (edit ops clk (e\<lparr>state := s'\<rparr>) x))) 0 (\<lambda>_. 0)"
proof -
  note k = validateOrder_keeps [OF v]
  let ?e = "e\<lparr>state := s'\<rparr>"
  have "validateEdit (state e) x = (s', None)"
    using v t by (auto simp: validateOrder_def split: if_splits option.splits)
  then obtain c where c: "Get (bookOf (state e) (oStockId x)) (oTargetId x) = Some c" "oAccountId c = oAccountId x"
    "oPrice x \<noteq> 0" "validateEditAssets (state e) x c = None" "s' = openBook (state e) (oStockId x)"
    by (auto elim: validateEdit_target)
  have ids: "lastTradeID ?e + int (unat (remaining c)) \<le> int64_max"
    using f t c(1) by (simp add: fillable_def targetOf_def)
  have hyps: "ledger_inv (state ?e) no_slack no_slack2" "Get (bookOf (state ?e) (oStockId x)) (oTargetId x) = Some c"
    "validateEditAssets (state ?e) x c = None" "Get (bookOf (state ?e) (oStockId x)) (oId x) = None"
    using inv f c k by simp_all
  obtain e0 e1 evs where "edit ops clk ?e x = orPanic (appendOutput ops clk e1
       (ev PatternOrderReplaced (EvOrder (orderEvent c)) #
        mergeOrderBookLevel evs (levelOf (state e1) (oStockId x) c) (oStockId c)))"
    "sound_step ?e e1 (ev PatternOrderReplaced (EvOrder (orderEvent c)) #
        mergeOrderBookLevel evs (levelOf (state e1) (oStockId x) c) (oStockId c))"
    by (rule edit_sound [OF hyps(1,2) c(2,3) hyps(3,4) ids, of ops clk])
  then show ?thesis using k kept_sound_step [of ?e e1] by (auto simp: kept_def)
qed

lemma cancel_state:
  assumes inv: "ledger_inv (state e) no_slack no_slack2"
    and c: "Get (bookOf (state e) (oStockId x)) (oTargetId x) = Some c"
  obtains s1 where "removeAndRelease (openBook (state e) (oStockId x)) c = Some (True, s1)"
    "state (fst (cancel ops clk e x)) = s1" "ledger_inv s1 no_slack no_slack2"
    "conserves (state e) s1"
    "\<And>t. is_side t \<Longrightarrow> prio (bookOf s1 (oStockId x)) t =
       filter (\<lambda>y. oId y \<noteq> oTargetId x) (prio (bookOf (state e) (oStockId x)) t)"
    "\<And>j. j \<noteq> oStockId x \<Longrightarrow> bookOf s1 j = bookOf (state e) j"
    "\<And>a. avl s1 a = avl (state e) a + held (cashW a) c"
    "\<And>a t. avq s1 a t = avq (state e) a t + held (shareW a t) c"
proof -
  let ?s0 = "openBook (state e) (oStockId x)"
  have inv0: "ledger_inv ?s0 no_slack no_slack2" and c0: "Get (bookOf ?s0 (oStockId x)) (oTargetId x) = Some c"
    using inv c by simp_all
  obtain s1 where s1: "removeAndRelease ?s0 c = Some (True, s1)" "ledger_inv s1 no_slack no_slack2"
    "conserves ?s0 s1"
    "\<And>t. is_side t \<Longrightarrow> prio (bookOf s1 (oStockId x)) t =
       filter (\<lambda>y. oId y \<noteq> oTargetId x) (prio (bookOf ?s0 (oStockId x)) t)"
    "\<And>j. j \<noteq> oStockId x \<Longrightarrow> bookOf s1 j = bookOf ?s0 j"
    "\<And>a. avl s1 a = avl ?s0 a + held (cashW a) c" "\<And>a t. avq s1 a t = avq ?s0 a t + held (shareW a t) c"
    by (rule removeAndRelease_spec [OF inv0 c0]) blast
  show thesis
    by (rule that [of s1]) (use s1 c0 in \<open>simp_all add: cancel_def Let_def conserves_def\<close>)
qed

lemma kept_account:
  assumes inv: "ledger_inv s no_slack no_slack2" and new: "getAccount s (aId a) = None"
    and "aAvailableBalance a = aBalance a" "total_cash s + unat (aBalance a) < 2 ^ 64"
  shows "kept s (setAccount s a) (int (unat (aBalance a))) (\<lambda>_. 0)"
proof -
  have I: "keys_ok s" "books_ok s" "holders_ok s" "bounded s" "backed s no_slack no_slack2"
    using inv by (auto simp: ledger_inv_def)
  have zero: "bal s (aId a) = 0" "avl s (aId a) = 0"
    using new by (simp_all add: getAccount_def bal_def avl_def colv_def)
  have res: "reserved (cashW (aId a)) s = 0" using I(5) zero by (simp add: backed_def)
  from zero have t: "total_cash (setAccount s a) = total_cash s + unat (aBalance a)"
    using total_cash_setAccount [of s a] by simp
  have "backed (setAccount s a) no_slack no_slack2"
    using I(5) res assms(3) by (auto simp: backed_def)
  then show ?thesis
    using I t assms(4) by (simp add: kept_def ledger_inv_def bounded_def books_ok_def)
qed

lemma kept_stock: "ledger_inv s no_slack no_slack2 \<Longrightarrow> kept s (setStock s t) 0 (\<lambda>_. 0)"
  by (simp add: kept_def ledger_inv_def backed_def bounded_def books_ok_def)

lemma kept_transfer:
  assumes inv: "ledger_inv (state e) no_slack no_slack2" and v: "validateTransfer (state e) t = Inr (sd, rc)"
  shows "kept (state e) (state (fst (applyTransfer ops clk e t))) 0 (\<lambda>_. 0)"
proof -
  obtain s sd' rc' where m: "moveCash (state e) sd rc (tAmount t) = (s, sd', rc')" by (metis prod_cases3)
  have "state (fst (applyTransfer ops clk e t)) = s"
    using v m by (simp add: applyTransfer_def now_def Let_def)
  with moveCash_sound(1,2) [OF inv v m] show ?thesis by (simp add: kept_def conserves_def)
qed

lemma kept_balance:
  assumes inv: "ledger_inv (state e) no_slack no_slack2" and f: "feasible e (RqBalance r)"
    and v: "validateBalanceAdjust (state e) r = None"
  shows "kept (state e) (state (fst (applyBalanceAdjust ops clk e r))) (baDelta r) (\<lambda>_. 0)"
proof -
  obtain acc where a: "getAccount (state e) (baAccountId r) = Some acc"
    "ledger_inv (setAccount (state e) (adjustedAccount acc (baDelta r))) no_slack no_slack2"
    "adjusts (total_cash (state e)) (baDelta r) (total_cash (setAccount (state e) (adjustedAccount acc (baDelta r))))"
    by (rule balanceAdjust_sound [OF inv v]) (use f in simp_all)
  have "state (fst (applyBalanceAdjust ops clk e r)) = setAccount (state e) (adjustedAccount acc (baDelta r))"
    using v a(1) by (simp add: applyBalanceAdjust_def adminRequestCompleted_def now_def Let_def)
  with a show ?thesis by (simp add: kept_def adjusts_def setAccount_def)
qed

lemma kept_shares:
  assumes inv: "ledger_inv (state e) no_slack no_slack2" and f: "feasible e (RqShares r)"
    and v: "validateStockBalanceAdjust (state e) r = None"
  shows "kept (state e) (state (fst (applyStockBalanceAdjust ops clk e r))) 0
    (\<lambda>st. if sbaStockId r = st then sbaDelta r else 0)"
proof -
  let ?h = "adjustedHolding (state e) r"
  have d: "int64_min \<le> sbaDelta r" "sbaDelta r \<le> int64_max"
    "int (total_shares (state e) (sbaStockId r)) + sbaDelta r < 2 ^ 63" using f by simp_all
  have s: "state (fst (applyStockBalanceAdjust ops clk e r)) = setHolding (state e) ?h"
    using v by (simp add: applyStockBalanceAdjust_def adminRequestCompleted_def now_def Let_def)
  have k: "keys_ok (state e)" using inv by (simp add: ledger_inv_def)
  have st: "hStockId ?h = sbaStockId r"
  proof (cases "getHolding (state e) (sbaAccountId r) (sbaStockId r)")
    case (Some h)
    then show ?thesis using keys_getD(2) [OF k Some] by (simp add: adjustedHolding_def Let_def)
  qed (simp add: adjustedHolding_def Let_def)
  have "total_shares (setHolding (state e) ?h) i = total_shares (state e) i" if "i \<noteq> sbaStockId r" for i
    using total_shares_setHolding [OF k, of ?h i] st that by simp
  then show ?thesis
    using stockAdjust_sound(1,2) [OF inv v d] s by (auto simp: kept_def adjusts_def setHolding_def)
qed

lemma applyRequest_kept:
  assumes inv: "ledger_inv (state e) no_slack no_slack2" and f: "feasible e rq"
  shows "kept (state e) (state (fst (applyRequest ops clk e rq))) (cashIn (state e) rq) (sharesIn (state e) rq)"
proof (cases "refusal (state e) rq")
  case (Some reason)
  then have "cashIn (state e) rq = 0" "sharesIn (state e) rq = (\<lambda>_. 0)" by (cases rq; simp add: fun_eq_iff)+
  with kept_refused [OF inv refused_state [OF Some]] show ?thesis by simp
next
  case None
  show ?thesis
  proof (cases rq)
    case (RqOrder x)
    obtain s' where v: "validateOrder (state e) x = (s', None)"
      using None RqOrder by (cases "validateOrder (state e) x") simp
    have z: "cashIn (state e) rq = 0" "sharesIn (state e) rq = (\<lambda>_. 0)" by (simp_all add: RqOrder fun_eq_iff)
    have fx: "feasible e (RqOrder x)" using f RqOrder by simp
    consider "is_side (oTradingType x)" | "oTradingType x = TRADING_EDIT" | "oTradingType x = TRADING_CANCEL"
      | w where "oTradingType x = TradingType_other w" by (cases "oTradingType x") (auto simp: is_side_def)
    then show ?thesis
    proof cases
      case 1
      then show ?thesis using kept_match [OF inv fx v 1, of ops clk] RqOrder v z
        by (auto simp: route_def is_side_def)
    next
      case 2
      then show ?thesis using kept_edit [OF inv fx v 2, of ops clk] RqOrder v z by (simp add: route_def)
    next
      case 3
      note k = validateOrder_keeps [OF v]
      have "validateCancel (state e) x = (s', None)"
        using v 3 by (auto simp: validateOrder_def split: if_splits option.splits)
      then obtain c where "Get (bookOf (state e) (oStockId x)) (oTargetId x) = Some c"
        using validateTargetRequest_Inr [of "state e" x s']
        by (auto simp: validateCancel_def split: prod.splits sum.splits)
      then obtain s1 where "state (fst (cancel ops clk (e\<lparr>state := s'\<rparr>) x)) = s1" "ledger_inv s1 no_slack no_slack2"
        "conserves s' s1"
        using cancel_state [of "e\<lparr>state := s'\<rparr>" x c thesis for thesis] inv k by auto
      with k show ?thesis using RqOrder v z 3 by (simp add: route_def kept_def conserves_def)
    next
      case 4
      then show ?thesis using v by (auto simp: validateOrder_def split: if_splits option.splits)
    qed
  next
    case (RqAccount a)
    then show ?thesis using kept_account [OF inv, of a] f by (simp add: activateAccount_def kept_def)
  next
    case (RqTransfer t)
    then obtain sd rc where "validateTransfer (state e) t = Inr (sd, rc)"
      using None by (cases "validateTransfer (state e) t") auto
    then show ?thesis using kept_transfer [OF inv, of t sd rc ops clk] RqTransfer by (simp add: kept_def)
  next
    case (RqStock t)
    then show ?thesis using kept_stock [OF inv] by (simp add: setStockStatus_def kept_def Let_def)
  next
    case (RqBalance r)
    then show ?thesis using kept_balance [OF inv _ _, of r ops clk] f None by (simp add: kept_def)
  next
    case (RqShares r)
    then show ?thesis using kept_shares [OF inv _ _, of r ops clk] f None by (simp add: kept_def)
  qed
qed

section \<open>Theorems\<close>

text \<open>
  C2: Every feasible request keeps the ledger sound. However the request ends, accepted, refused or
  failed, the ledger afterwards is backed again (each balance is the available balance plus what
  resting orders reserve, each holding likewise, all books well-formed, totals within their columns);
  the total cash and the total shares of each stock change exactly by what the request brings in:
  nothing for orders, cancellations, edits and transfers. A request is feasible when the id of an
  order is not that of a resting order, a market buy finds no ask above its price, trade ids do not
  run out, the account to be registered does not exist yet and has nothing reserved, and a deposit
  overflows neither the total cash (\<open>2 ^ 64\<close>) nor the shares of the stock (\<open>2 ^ 63\<close>). The code does not
  check these; see the findings on \<^verbatim>\<open>order.go:263\<close> and \<^verbatim>\<open>handle_admin.go:189\<close>.
\<close>

theorem requests_keep_ledger:
  assumes "ledger_inv (state e) no_slack no_slack2" "feasible e rq"
  shows "ledger_inv (state (fst (applyRequest ops clk e rq))) no_slack no_slack2 \<and>
    int (total_cash (state (fst (applyRequest ops clk e rq)))) = int (total_cash (state e)) + cashIn (state e) rq \<and>
    (\<forall>st. int (total_shares (state (fst (applyRequest ops clk e rq))) st) =
       int (total_shares (state e) st) + sharesIn (state e) rq st)"
  using applyRequest_kept [OF assms] by (simp add: kept_def)

lemma sample_feasible: "feasible sampleEngine (RqOrder sampleBuy)"
  by (simp add: bookOf_sample Get_sample askCap_def fillable_def)

theorem requests_keep_ledger_witness:
  "ledger_inv (state (fst (applyRequest memOps sampleClock sampleEngine (RqOrder sampleBuy)))) no_slack no_slack2 \<and>
   total_cash (state (fst (applyRequest memOps sampleClock sampleEngine (RqOrder sampleBuy)))) = 2000"
  using requests_keep_ledger [OF sample_hyps(1) sample_feasible, of memOps sampleClock]
  by (simp add: sample_totals)

text \<open>
  C28: A refused request changes nothing: when validation refuses an order, a transfer or an
  adjustment, all accounts, holdings and stocks and the orders of every book are the same
  afterwards, whether or not the refusal could be written to the output log.
\<close>

theorem refused_requests_change_nothing:
  assumes "refusal (state e) rq = Some reason"
  shows "sameLedger (state e) (state (fst (applyRequest ops clk e rq)))"
  using refused_state [OF assms, of ops clk] sameLedger_openBook by auto

theorem refused_requests_change_nothing_witness:
  "refusal sampleState (RqOrder (sampleBuy\<lparr>oQuantity := 100\<rparr>)) = Some RejectInsufficientBalance \<and>
   sameLedger sampleState (state (fst (applyRequest memOps sampleClock sampleEngine (RqOrder (sampleBuy\<lparr>oQuantity := 100\<rparr>)))))"
proof -
  let ?x = "sampleBuy\<lparr>oQuantity := 100\<rparr>"
  have "refusal (state sampleEngine) (RqOrder ?x) = Some RejectInsufficientBalance"
    by (simp add: validateOrder_def validateStock_def validateBuy_def validateTrade_def sample_rows Mul64_def)
  from this refused_requests_change_nothing [OF this, of memOps sampleClock] show ?thesis by simp
qed

text \<open>
  C27: Validation of buy and sell orders is exact. A buy is accepted if and only if its id is
  positive, its stock is listed, it has a positive quantity, nothing filled, a positive price
  and a known order type, the account exists, and price times quantity, computed without
  overflow, is available; a sell likewise with the quantity available in the holding.
\<close>

theorem order_accepted_iff:
  assumes "is_side (oTradingType x)"
  shows "snd (validateOrder s x) = None \<longleftrightarrow>
    0 < oId x \<and> (\<exists>st. getStock s (oStockId x) = Some st \<and> sStatus st = LISTED) \<and>
    oQuantity x \<noteq> 0 \<and> oFilledQuantity x = 0 \<and> oPrice x \<noteq> 0 \<and>
    (oOrderType x = ORDER_LIMIT \<or> oOrderType x = ORDER_MARKET) \<and>
    (if oTradingType x = TRADING_BUY
     then getAccount s (oAccountId x) \<noteq> None \<and> unat (oPrice x) * unat (oQuantity x) < 2 ^ 64 \<and>
       unat (oPrice x) * unat (oQuantity x) \<le> avl s (oAccountId x)
     else getHolding s (oAccountId x) (oStockId x) \<noteq> None \<and>
       unat (oQuantity x) \<le> avq s (oAccountId x) (oStockId x))"
proof -
  have "snd (validateOrder s x) = None \<longleftrightarrow> 0 < oId x \<and> validateStock s x = None \<and>
      (if oTradingType x = TRADING_BUY then validateBuy s x else validateSell s x) = None"
    using assms by (auto simp: validateOrder_def is_side_def split: option.split)
  moreover have "validateStock s x = None \<longleftrightarrow> (\<exists>st. getStock s (oStockId x) = Some st \<and> sStatus st = LISTED)"
    using assms by (auto simp: validateStock_None is_side_def)
  ultimately show ?thesis
    by (cases "oTradingType x = TRADING_BUY") (auto simp: validateBuy_None validateSell_None validateTrade_None)
qed

theorem order_accepted_iff_witness:
  "snd (validateOrder sampleState sampleBuy) = None \<and>
   snd (validateOrder sampleState (sampleBuy\<lparr>oQuantity := 100\<rparr>)) \<noteq> None"
proof -
  have "snd (validateOrder sampleState sampleBuy) = None"
    using order_accepted_iff [of sampleBuy sampleState] by (simp add: is_side_def sample_rows sample_amounts)
  moreover have "snd (validateOrder sampleState (sampleBuy\<lparr>oQuantity := 100\<rparr>)) \<noteq> None"
    using order_accepted_iff [of "sampleBuy\<lparr>oQuantity := 100\<rparr>" sampleState]
    by (simp add: is_side_def sample_rows sample_amounts)
  ultimately show ?thesis ..
qed

text \<open>
  C29: Cancelling gives back exactly what the order held. The order leaves its queue, all other
  orders keep their places, its owner's available cash grows by the price times the unfilled
  quantity (for a buy) or the available shares by the unfilled quantity (for a sell), no other
  available amount changes, and the totals stay.
\<close>

theorem cancel_gives_back:
  assumes "ledger_inv (state e) no_slack no_slack2"
    and "Get (bookOf (state e) (oStockId x)) (oTargetId x) = Some c"
  shows "ledger_inv (state (fst (cancel ops clk e x))) no_slack no_slack2 \<and>
    (\<forall>t. is_side t \<longrightarrow> prio (bookOf (state (fst (cancel ops clk e x))) (oStockId x)) t =
       filter (\<lambda>y. oId y \<noteq> oTargetId x) (prio (bookOf (state e) (oStockId x)) t)) \<and>
    (\<forall>a. avl (state (fst (cancel ops clk e x))) a = avl (state e) a +
       (if a = oAccountId c \<and> oTradingType c = TRADING_BUY then unat (oPrice c) * unat (remaining c) else 0)) \<and>
    (\<forall>a st. avq (state (fst (cancel ops clk e x))) a st = avq (state e) a st +
       (if a = oAccountId c \<and> st = oStockId c \<and> oTradingType c = TRADING_SELL then unat (remaining c) else 0)) \<and>
    total_cash (state (fst (cancel ops clk e x))) = total_cash (state e) \<and>
    total_shares (state (fst (cancel ops clk e x))) = total_shares (state e)"
  by (rule cancel_state [OF assms, of ops clk]) (auto simp: held_def cashW_def shareW_def conserves_def)

definition sampleCancel :: Order where
  "sampleCancel = (sampleOrder 3 7 TRADING_CANCEL 0 0)\<lparr>oTargetId := 1\<rparr>"

theorem cancel_gives_back_witness:
  "avq (state (fst (cancel memOps sampleClock sampleEngine sampleCancel))) 7 1 = 10 \<and>
   prio (bookOf (state (fst (cancel memOps sampleClock sampleEngine sampleCancel))) 1) TRADING_SELL = []"
proof -
  have x: "oStockId sampleCancel = 1" "oTargetId sampleCancel = 1" by (simp_all add: sampleCancel_def sampleOrder_def)
  then have "Get (bookOf (state sampleEngine) (oStockId sampleCancel)) (oTargetId sampleCancel) = Some restingAsk"
    by (simp add: bookOf_sample Get_sample)
  from cancel_gives_back [OF sample_hyps(1) this, of memOps sampleClock] show ?thesis
    by (simp add: sample_amounts is_side_def bookOf_sample prio_sample x)
qed

text \<open>
  C32: A transfer moves exactly its amount. When it is accepted, the sender's balance and
  available balance shrink by the amount, the recipient's grow by it (without wrapping around),
  every other account, all holdings and all books stay as they are.
\<close>

theorem transfer_moves_cash:
  assumes "ledger_inv (state e) no_slack no_slack2" "refusal (state e) (RqTransfer t) = None"
  shows "(\<forall>a. int (bal (state (fst (applyTransfer ops clk e t))) a) = int (bal (state e) a) +
      (if a = tRecipientAccountId t then int (unat (tAmount t)) else 0) -
      (if a = tSenderAccountId t then int (unat (tAmount t)) else 0)) \<and>
    (\<forall>a. int (avl (state (fst (applyTransfer ops clk e t))) a) = int (avl (state e) a) +
      (if a = tRecipientAccountId t then int (unat (tAmount t)) else 0) -
      (if a = tSenderAccountId t then int (unat (tAmount t)) else 0)) \<and>
    unat (tAmount t) \<le> avl (state e) (tSenderAccountId t) \<and>
    qty (state (fst (applyTransfer ops clk e t))) = qty (state e) \<and>
    OrderBooks (state (fst (applyTransfer ops clk e t))) = OrderBooks (state e)"
proof -
  obtain sd rc where v: "validateTransfer (state e) t = Inr (sd, rc)"
    using assms(2) by (cases "validateTransfer (state e) t") auto
  obtain s sd' rc' where m: "moveCash (state e) sd rc (tAmount t) = (s, sd', rc')" by (metis prod_cases3)
  have s: "state (fst (applyTransfer ops clk e t)) = s"
    using v m by (simp add: applyTransfer_def now_def Let_def)
  note M = moveCash_sound [OF assms(1) v m]
  have sd: "getAccount (state e) (tSenderAccountId t) = Some sd" "tAmount t \<le> aAvailableBalance sd"
    using v by (auto simp: validateTransfer_Inr)
  have "unat (tAmount t) \<le> avl (state e) (tSenderAccountId t)"
    using sd getAccount_colv(2) [OF sd(1)] by (simp add: word_le_nat_alt)
  moreover have "int (bal s a) = int (bal (state e) a) + (if a = tRecipientAccountId t then int (unat (tAmount t)) else 0) -
      (if a = tSenderAccountId t then int (unat (tAmount t)) else 0)" for a
    using arg_cong [OF M(3) [of a], of int] by (auto simp: at_def)
  moreover have "int (avl s a) = int (avl (state e) a) + (if a = tRecipientAccountId t then int (unat (tAmount t)) else 0) -
      (if a = tSenderAccountId t then int (unat (tAmount t)) else 0)" for a
    using arg_cong [OF M(4) [of a], of int] by (auto simp: at_def)
  ultimately show ?thesis using M(5,7) unfolding s by blast
qed

definition sampleTransfer :: Transfer where
  "sampleTransfer = \<lparr>tId = 4, tSenderAccountId = 7, tRecipientAccountId = 9, tAmount = 300\<rparr>"

theorem transfer_moves_cash_witness:
  "bal (state (fst (applyTransfer memOps sampleClock sampleEngine sampleTransfer))) 7 = 700 \<and>
   bal (state (fst (applyTransfer memOps sampleClock sampleEngine sampleTransfer))) 9 = 1300"
proof -
  have "refusal (state sampleEngine) (RqTransfer sampleTransfer) = None"
    by (simp add: validateTransfer_def sampleTransfer_def sample_rows)
  from transfer_moves_cash [OF sample_hyps(1) this, of memOps sampleClock]
  have "int (bal (state (fst (applyTransfer memOps sampleClock sampleEngine sampleTransfer))) 7) = 700"
    "int (bal (state (fst (applyTransfer memOps sampleClock sampleEngine sampleTransfer))) 9) = 1300"
    by (simp_all add: sampleTransfer_def sample_amounts)
  then show ?thesis by simp
qed

text \<open>
  C34: A message that was just handled is recognised when it is delivered again: the second
  delivery is acknowledged and changes nothing, neither the logs nor the ledger. (Requests with
  id zero are not covered: the filter does not keep them apart.)
\<close>

theorem redelivery_ignored:
  assumes "handle ops clk e m = (e', Ret Ack)" "requestOf m = Some rq" "admissible rq" "requestId rq \<noteq> 0"
    and "wf_dedup (dedup e)"
  shows "handle ops clk' e' m = (e', Ret Ack)"
proof -
  have dup: "handle ops clk' f m = (f, Ret Ack)" if "dedup_has (dedup f) (requestKind rq) (requestId rq)" for f
    using that assms(2,3) by (simp add: handle_request handleRequest_def admit_def)
  show ?thesis
  proof (cases "dedup_has (dedup e) (requestKind rq) (requestId rq)")
    case True
    then have "e' = e" using assms(1-3) by (simp add: handle_request handleRequest_def admit_def)
    with True dup show ?thesis by simp
  next
    case False
    then obtain l idx where l: "acked (applyRequest ops clk (admitted e rq l idx) rq) = (e', Ret Ack)"
      using assms(1-3) by (auto simp: handle_request handleRequest_def admit_def admitted_def split: outcome.splits)
    then have "fst (applyRequest ops clk (admitted e rq l idx) rq) = e'"
      by (cases "applyRequest ops clk (admitted e rq l idx) rq"; cases "snd (applyRequest ops clk (admitted e rq l idx) rq)")
        (simp_all add: acked_def)
    then have d: "dedup e' = dedup_add (dedup e) (requestKind rq) (requestId rq)"
      using applyRequest_inputLog(3) [of ops clk "admitted e rq l idx" rq] by (simp add: admitted_def)
    have "dedup_has (dedup e') (requestKind rq) (requestId rq)"
      unfolding d dedup_has_queue [OF wf_dedup_add [OF assms(5)] assms(4)]
      by (simp add: kindQueue_add [OF assms(5,4)] pushId_def)
    then show ?thesis by (rule dup)
  qed
qed

theorem redelivery_ignored_witness:
  "\<exists>e. handle memOps sampleClock (emptyEngine memEmpty memEmpty) message7 = (e, Ret Ack) \<and>
     handle memOps sampleClock e message7 = (e, Ret Ack) \<and> mlRecs (inputLog e) = [message7]"
proof -
  let ?e0 = "emptyEngine memEmpty memEmpty"
  obtain e where h: "history memOps mlBase mlRecs sampleClock memEmpty memEmpty [message7] e"
    "mlRecs (inputLog e) = [message7]" by (rule history7)
  obtain r where e: "handle memOps sampleClock ?e0 message7 = (e, Ret r)"
    using h(1) handleAll_Cons [of memOps sampleClock ?e0 message7 "[]" e] by (auto simp: history_def)
  have "r = Ack"
    using e h(2) by (cases rule: handle_Ret) (simp_all add: memEmpty_def)
  with e have e: "handle memOps sampleClock ?e0 message7 = (e, Ret Ack)" by simp
  have "handle memOps sampleClock e message7 = (e, Ret Ack)"
    by (rule redelivery_ignored [OF e request_message7]) (simp_all add: account7_def wf_newDedup)
  with e h(2) show ?thesis by blast
qed

text \<open>
  C35: A message that cannot be understood is refused for good and leaves no trace: when the
  envelope or its payload does not decode, the pattern is unknown, or a new account or stock has
  no positive id, the reply is a negative acknowledgement without requeueing and the engine is
  exactly as before, so nothing undecodable ever gets into the input log.
\<close>

theorem malformed_refused:
  assumes "case requestOf m of None \<Rightarrow> True | Some rq \<Rightarrow> \<not> admissible rq"
  shows "handle ops clk e m = (e, Ret (Nack False))"
  using assms by (simp add: handle_request handleRequest_def split: option.splits)

theorem malformed_refused_witness: "handle memOps sampleClock sampleEngine NotJson = (sampleEngine, Ret (Nack False))"
  by (rule malformed_refused) (simp add: requestOf_def unmarshal_def)

end
