(* ===== verification/Projected.thy ===== *)
theory Projected
  imports Reporting Accounting Publisher
begin

text \<open>
  The database follows the ledger. The events of a request, applied by the projector to tables
  that show the ledger before the request, leave tables that show the ledger after it. Together
  with the exactly-once theorem of the projector this makes the projected tables a delayed copy
  of the ledger.
\<close>

section \<open>Rows survive the JSON encoding\<close>

text \<open>A document that decodes at all decodes to what was encoded, whatever the ranges.\<close>

lemma parseInt_showInt_Some: "parseInt lo hi (showInt i) = Some j \<Longrightarrow> j = i"
proof -
  assume j: "parseInt lo hi (showInt i) = Some j"
  then have "parseInt (min lo i) (max hi i) (showInt i) = Some j"
    by (auto simp: parseInt_def Let_def split: option.splits if_splits list.splits)
  then show "j = i" by simp
qed

lemma decInt_Some: "field kvs name = Some (encInt i) \<Longrightarrow> decInt lo hi kvs name = Some j \<Longrightarrow> j = i"
  by (auto simp: decInt_def dest: parseInt_showInt_Some)

lemma Account_decoded: "Account_Unmarshal (Account_Marshal a) = Some b \<Longrightarrow> b = a"
  by (auto simp: Account_Marshal_def Account_Unmarshal_def dec_defs bind_eq_Some_conv
      dest!: decInt_Some [rotated])

lemma StockBalance_decoded: "StockBalance_Unmarshal (StockBalance_Marshal h) = Some g \<Longrightarrow> g = h"
  by (auto simp: StockBalance_Marshal_def StockBalance_Unmarshal_def dec_defs bind_eq_Some_conv
      dest!: decInt_Some [rotated])

lemma Stock_decoded:
  "Stock_Unmarshal (Stock_Marshal t) = Some u \<Longrightarrow>
   sId u = sId t \<and> sPrice u = sPrice t \<and> StockStatus_String (sStatus u) = StockStatus_String (sStatus t)"
  by (cases "sStatus t") (auto simp: Stock_Marshal_def Stock_Unmarshal_def dec_defs bind_eq_Some_conv
      StockStatus_UnmarshalJSON_def dest!: decInt_Some [rotated])

section \<open>What one event does to the rows\<close>

definition accountRow :: "database \<Rightarrow> int32 \<Rightarrow> (uint64 \<times> uint64) option" where
  "accountRow d a = map_option (\<lambda>r. (raBalance r, raAvailableBalance r)) (fmlookup (dbAccounts d) a)"

definition holdingRow :: "database \<Rightarrow> int32 \<Rightarrow> int32 \<Rightarrow> HoldingRow option" where
  "holdingRow d a st = fmlookup (dbHoldings d) (StockKey a st)"

definition stockRow :: "database \<Rightarrow> int32 \<Rightarrow> (uint64 \<times> string) option" where
  "stockRow d i = map_option (\<lambda>r. (rsPrice r, rsStatus r)) (fmlookup (dbStocks d) i)"

lemmas row_defs = accountRow_def holdingRow_def stockRow_def

text \<open>A holding without shares has no row.\<close>

definition rowOf :: "StockBalance \<Rightarrow> HoldingRow option" where
  "rowOf h = (if hQuantity h = 0 \<and> hAvailableQuantity h = 0 then None
     else Some \<lparr>rhQuantity = hQuantity h, rhAvailableQuantity = hAvailableQuantity h, rhAverage = hAverage h,
       rhTotalBuyAmount = hTotalBuyAmount h\<rparr>)"

fun tellAccount :: "outEvent \<Rightarrow> int32 \<Rightarrow> (uint64 \<times> uint64) option \<Rightarrow> (uint64 \<times> uint64) option" where
  "tellAccount e a r =
     (case data e of
        EvAccount acc \<Rightarrow>
          if pattern e = PatternAccountUpdated \<and> aId acc = a
          then map_option (\<lambda>_. (aBalance acc, aAvailableBalance acc)) r else r
      | _ \<Rightarrow> r)"

fun tellHolding :: "outEvent \<Rightarrow> int32 \<Rightarrow> int32 \<Rightarrow> HoldingRow option \<Rightarrow> HoldingRow option" where
  "tellHolding e a st r =
     (case data e of EvHolding h \<Rightarrow> if hAccountId h = a \<and> hStockId h = st then rowOf h else r | _ \<Rightarrow> r)"

fun tellStock :: "outEvent \<Rightarrow> int32 \<Rightarrow> (uint64 \<times> string) option \<Rightarrow> (uint64 \<times> string) option" where
  "tellStock e i r =
     (case data e of
        EvStock t \<Rightarrow>
          if sId t \<noteq> i then r
          else if pattern e = PatternStockUpdated then map_option (\<lambda>(_, st). (sPrice t, st)) r
          else map_option (\<lambda>(p, _). (p, StockStatus_String (sStatus t))) r
      | _ \<Rightarrow> r)"

lemma exec_Some: "exec q (d, n) = Ret (d', n') \<Longrightarrow> q d = Some d'"
  by (auto simp: exec_def split: option.splits nat.splits)

text \<open>Statements on other tables leave the three alone.\<close>

definition sameRows :: "database \<Rightarrow> database \<Rightarrow> bool" where
  "sameRows d d' \<longleftrightarrow> accountRow d' = accountRow d \<and> holdingRow d' = holdingRow d \<and> stockRow d' = stockRow d"

lemma sameRows_elsewhere:
  "q_SaveTrade i r d = Some d' \<Longrightarrow> sameRows d d'"
  "q_UpdateOrderState st q f t i d = Some d' \<Longrightarrow> sameRows d d'"
  "q_RejectOrder rs i d = Some d' \<Longrightarrow> sameRows d d'"
  "q_ActivateAccount acc d = Some d' \<Longrightarrow> sameRows d d'"
  "q_CompleteTransfer ct i d = Some d' \<Longrightarrow> sameRows d d'"
  "q_RejectTransfer rs ct i d = Some d' \<Longrightarrow> sameRows d d'"
  "q_CompleteAdminRequest ct i d = Some d' \<Longrightarrow> sameRows d d'"
  "q_RejectAdminRequest rs ct i d = Some d' \<Longrightarrow> sameRows d d'"
  by (auto simp: q_defs sameRows_def row_defs updateRow_def fun_eq_iff split: if_splits option.split)

lemma rows_written:
  "q_UpdateAccountBalance b av i d = Some d' \<Longrightarrow> accountRow d' a = (if a = i then map_option (\<lambda>_. (b, av)) (accountRow d a) else accountRow d a) \<and>
     holdingRow d' = holdingRow d \<and> stockRow d' = stockRow d"
  "q_UpsertHolding i st r d = Some d' \<Longrightarrow> holdingRow d' a t = (if a = i \<and> t = st then Some r else holdingRow d a t) \<and>
     accountRow d' = accountRow d \<and> stockRow d' = stockRow d"
  "q_DeleteHolding i st d = Some d' \<Longrightarrow> holdingRow d' a t = (if a = i \<and> t = st then None else holdingRow d a t) \<and>
     accountRow d' = accountRow d \<and> stockRow d' = stockRow d"
  "q_UpdateStockPrice p i d = Some d' \<Longrightarrow> stockRow d' t = (if t = i then map_option (\<lambda>(_, s). (p, s)) (stockRow d t) else stockRow d t) \<and>
     accountRow d' = accountRow d \<and> holdingRow d' = holdingRow d"
  "q_UpdateStockStatus s i d = Some d' \<Longrightarrow> stockRow d' t = (if t = i then map_option (\<lambda>(p, _). (p, s)) (stockRow d t) else stockRow d t) \<and>
     accountRow d' = accountRow d \<and> holdingRow d' = holdingRow d"
  by (auto simp: q_defs row_defs updateRow_def fun_eq_iff split: if_splits option.splits)

lemma applyEvent_order:
  "p \<in> {PatternOrderOpen, PatternOrderFilled, PatternOrderCanceled, PatternOrderReplaced, PatternOrderCompleted} \<Longrightarrow>
     applyEvent tx \<lparr>outPattern = p, outData = Text j\<rparr> =
     (case OrderEvent_Unmarshal j of None \<Rightarrow> Err UnmarshalFailed | Some x \<Rightarrow>
        UpdateOrderState (oeId x) (orderStatus p) (oeQuantity x) (oeFilledQuantity x) (oeFullyFilledAt x) tx)"
  by (elim insertE emptyE; hypsubst; simp add: applyEvent_def withData_def unmarshal_def Let_def pattern_defs
      split: option.split)

lemma applyEvent_pattern:
  "applyEvent tx \<lparr>outPattern = PatternTradeExecuted, outData = Text j\<rparr> =
     (case Trade_Unmarshal j of None \<Rightarrow> Err UnmarshalFailed | Some x \<Rightarrow> SaveTrade x tx)"
  "applyEvent tx \<lparr>outPattern = PatternOrderRejected, outData = Text j\<rparr> =
     (case OrderRejected_Unmarshal j of None \<Rightarrow> Err UnmarshalFailed | Some x \<Rightarrow> RejectOrder (orOrderId x) (orReason x) tx)"
  "applyEvent tx \<lparr>outPattern = PatternAccountUpdated, outData = Text j\<rparr> =
     (case Account_Unmarshal j of None \<Rightarrow> Err UnmarshalFailed | Some x \<Rightarrow>
        UpdateAccountBalance (aId x) (aBalance x) (aAvailableBalance x) tx)"
  "applyEvent tx \<lparr>outPattern = PatternAccountActivated, outData = Text j\<rparr> =
     (case Account_Unmarshal j of None \<Rightarrow> Err UnmarshalFailed | Some x \<Rightarrow> ActivateAccount (aId x) tx)"
  "applyEvent tx \<lparr>outPattern = PatternHoldingUpdated, outData = Text j\<rparr> =
     (case StockBalance_Unmarshal j of None \<Rightarrow> Err UnmarshalFailed | Some h \<Rightarrow>
        if hQuantity h = 0 \<and> hAvailableQuantity h = 0 then DeleteHolding (hAccountId h) (hStockId h) tx
        else UpsertHolding h tx)"
  "applyEvent tx \<lparr>outPattern = PatternStockListed, outData = Text j\<rparr> =
     (case Stock_Unmarshal j of None \<Rightarrow> Err UnmarshalFailed | Some x \<Rightarrow>
        UpdateStockStatus (sId x) (StockStatus_String (sStatus x)) tx)"
  "applyEvent tx \<lparr>outPattern = PatternStockUpdated, outData = Text j\<rparr> =
     (case Stock_Unmarshal j of None \<Rightarrow> Err UnmarshalFailed | Some x \<Rightarrow> UpdateStockPrice (sId x) (sPrice x) tx)"
  "applyEvent tx \<lparr>outPattern = PatternOrderBookUpdated, outData = Text j\<rparr> = Ret tx"
  "applyEvent tx \<lparr>outPattern = PatternTransferCompleted, outData = Text j\<rparr> =
     (case TransferCompleted_Unmarshal j of None \<Rightarrow> Err UnmarshalFailed | Some x \<Rightarrow> CompleteTransfer (tcId x) (tcCompletedAt x) tx)"
  "applyEvent tx \<lparr>outPattern = PatternTransferRejected, outData = Text j\<rparr> =
     (case TransferRejected_Unmarshal j of None \<Rightarrow> Err UnmarshalFailed | Some x \<Rightarrow>
        RejectTransfer (tjId x) (tjReason x) (tjCompletedAt x) tx)"
  "applyEvent tx \<lparr>outPattern = PatternAdminRequestCompleted, outData = Text j\<rparr> =
     (case AdminRequestCompleted_Unmarshal j of None \<Rightarrow> Err UnmarshalFailed | Some x \<Rightarrow>
        CompleteAdminRequest (acId x) (acCompletedAt x) tx)"
  "applyEvent tx \<lparr>outPattern = PatternAdminRequestRejected, outData = Text j\<rparr> =
     (case AdminRequestRejected_Unmarshal j of None \<Rightarrow> Err UnmarshalFailed | Some x \<Rightarrow>
        RejectAdminRequest (ajId x) (ajReason x) (ajCompletedAt x) tx)"
  unfolding applyEvent_def withData_def unmarshal_def Let_def by (simp_all add: pattern_defs)

text \<open>The rows after an event, computed from its payload alone.\<close>

definition tells_rows :: "outEvent \<Rightarrow> database \<Rightarrow> database \<Rightarrow> bool" where
  "tells_rows e d d' \<longleftrightarrow> (\<forall>a. accountRow d' a = tellAccount e a (accountRow d a)) \<and>
     (\<forall>a st. holdingRow d' a st = tellHolding e a st (holdingRow d a st)) \<and>
     (\<forall>i. stockRow d' i = tellStock e i (stockRow d i))"

lemma tells_rows_same:
  assumes "sameRows d d'" "\<And>h. data e \<noteq> EvHolding h" "\<And>t. data e \<noteq> EvStock t"
    and "\<And>acc. data e = EvAccount acc \<Longrightarrow> pattern e \<noteq> PatternAccountUpdated"
  shows "tells_rows e d d'"
  using assms by (cases "data e") (auto simp: tells_rows_def sameRows_def)

lemma activated_not_updated [simp]: "PatternAccountActivated \<noteq> PatternAccountUpdated" "PatternStockListed \<noteq> PatternStockUpdated"
  by (simp_all add: pattern_defs)

lemma applyEvent_silent:
  assumes "applyEvent (d, n) \<lparr>outPattern = pattern e, outData = Text raw\<rparr> = Ret (d', n')" "announced e"
    and "rowless e \<or> pattern e = PatternAccountActivated \<and> (\<exists>acc. data e = EvAccount acc)"
  shows "sameRows d d'"
proof -
  note stmts = sameRows_elsewhere [OF exec_Some]
  have "sameRows d d" by (simp add: sameRows_def)
  then show ?thesis
    using assms
    by (cases "data e") (auto simp: announced_def rowless_def applyEvent_order applyEvent_pattern eventTx_defs
        simp del: insert_iff split: option.splits intro: stmts)
qed

lemma applyEvent_rows:
  assumes ap: "applyEvent (d, n) \<lparr>outPattern = pattern e, outData = Text raw\<rparr> = Ret (d', n')"
    and raw: "evdata_Marshal (data e) = Some raw" and an: "announced e"
  shows "tells_rows e d d'"
proof (cases "data e")
  case (EvAccount acc)
  show ?thesis
  proof (cases "pattern e = PatternAccountUpdated")
    case True
    then obtain b where "Account_Unmarshal raw = Some b" "q_UpdateAccountBalance (aBalance b) (aAvailableBalance b) (aId b) d = Some d'"
      using ap by (auto simp: applyEvent_pattern eventTx_defs split: option.splits dest: exec_Some)
    moreover from this have "b = acc" using raw EvAccount Account_decoded by auto
    ultimately show ?thesis using True EvAccount rows_written(1) by (auto simp: tells_rows_def)
  next
    case False
    then have "pattern e = PatternAccountActivated" using an EvAccount by (simp add: announced_def)
    with applyEvent_silent [OF ap an] EvAccount show ?thesis by (intro tells_rows_same) auto
  qed
next
  case (EvHolding h)
  then have p: "pattern e = PatternHoldingUpdated" using an by (simp add: announced_def)
  then obtain g where "StockBalance_Unmarshal raw = Some g"
    "(if hQuantity g = 0 \<and> hAvailableQuantity g = 0 then DeleteHolding (hAccountId g) (hStockId g) (d, n)
      else UpsertHolding g (d, n)) = Ret (d', n')"
    using ap by (auto simp: applyEvent_pattern split: option.splits)
  moreover from this have "g = h" using raw EvHolding StockBalance_decoded by auto
  ultimately show ?thesis
    using EvHolding by (auto simp: tells_rows_def rowOf_def eventTx_defs split: if_splits
        dest!: exec_Some dest: rows_written(2,3))
next
  case (EvStock t)
  then have "pattern e = PatternStockUpdated \<or> pattern e = PatternStockListed" using an by (auto simp: announced_def)
  then obtain u where u: "Stock_Unmarshal raw = Some u"
    "q_UpdateStockPrice (sPrice u) (sId u) d = Some d' \<and> pattern e = PatternStockUpdated \<or>
     q_UpdateStockStatus (StockStatus_String (sStatus u)) (sId u) d = Some d' \<and> pattern e = PatternStockListed"
    using ap by (auto simp: applyEvent_pattern eventTx_defs split: option.splits dest!: exec_Some)
  have t: "sId u = sId t" "sPrice u = sPrice t" "StockStatus_String (sStatus u) = StockStatus_String (sStatus t)"
    using raw EvStock Stock_decoded [of t u] u(1) by auto
  from u(2) show ?thesis
  proof (elim disjE conjE)
    assume q: "q_UpdateStockPrice (sPrice u) (sId u) d = Some d'" and "pattern e = PatternStockUpdated"
    then show ?thesis using EvStock t rows_written(4) [OF q] by (auto simp: tells_rows_def)
  next
    assume q: "q_UpdateStockStatus (StockStatus_String (sStatus u)) (sId u) d = Some d'" and "pattern e = PatternStockListed"
    then show ?thesis using EvStock t rows_written(5) [OF q] by (auto simp: tells_rows_def pattern_defs)
  qed
qed (use applyEvent_silent [OF ap an] in \<open>auto simp: rowless_def intro: tells_rows_same\<close>)

section \<open>What all events of a request do to the rows\<close>

lemma applyEvents_rows:
  assumes "applyEvents (d, n) out = Ret (d', n')" "marshalEvents evs = Some out" "list_all announced evs"
  shows "accountRow d' a = fold (\<lambda>e. tellAccount e a) evs (accountRow d a) \<and>
    holdingRow d' a st = fold (\<lambda>e. tellHolding e a st) evs (holdingRow d a st) \<and>
    stockRow d' i = fold (\<lambda>e. tellStock e i) evs (stockRow d i)"
  using assms
proof (induction evs arbitrary: d n out)
  case (Cons e es)
  obtain raw out' where o: "evdata_Marshal (data e) = Some raw" "marshalEvents es = Some out'"
    "out = \<lparr>outPattern = pattern e, outData = Text raw\<rparr> # out'"
    using Cons.prems(2) by (auto split: option.splits)
  obtain d1 n1 where d1: "applyEvent (d, n) \<lparr>outPattern = pattern e, outData = Text raw\<rparr> = Ret (d1, n1)"
    "applyEvents (d1, n1) out' = Ret (d', n')"
    using Cons.prems(1) o(3) by (auto split: outcome.splits)
  have "tells_rows e d d1" using applyEvent_rows [OF d1(1) o(1)] Cons.prems(3) by simp
  then show ?case
    using Cons.IH [OF d1(2) o(2)] Cons.prems(3)
    by (simp add: tells_rows_def del: tellAccount.simps tellHolding.simps tellStock.simps)
qed simp

text \<open>Events that either do the same to a row or nothing do it at most once.\<close>

lemma fold_same_or_nothing:
  assumes "\<And>e. e \<in> set es \<Longrightarrow> f e = g \<or> f e = id" "g \<circ> g = g"
  shows "fold f es = (if \<exists>e\<in>set es. f e = g then g else id)"
  using assms(1)
proof (induction es)
  case (Cons e es)
  have "fold f es = (if \<exists>e\<in>set es. f e = g then g else id)" by (rule Cons.IH) (rule Cons.prems, simp)
  moreover have "f e = g \<or> f e = id" by (rule Cons.prems) simp
  ultimately show ?case using assms(2) by (auto simp: fun_eq_iff)
qed simp

section \<open>Tables that show a ledger\<close>

text \<open>
  The rows of accounts and stocks are inserted by the service that sends the requests, not by the
  projector; there may be more of them than the ledger has. The projector writes the balances of an
  account only when they change, and the price of a stock only with a trade: the announcement of a
  new account or a new listing carries the status alone. So a database shows a ledger \<^emph>\<open>up to\<close> the
  balances of a set \<open>A\<close> of accounts and the prices of a set \<open>P\<close> of stocks, which the projector has not
  written yet since they were announced.
\<close>

definition follows :: "int32 set \<Rightarrow> int32 set \<Rightarrow> State \<Rightarrow> database \<Rightarrow> bool" where
  "follows A P s d \<longleftrightarrow>
     (\<forall>a acc. getAccount s a = Some acc \<longrightarrow> a \<notin> A \<longrightarrow> accountRow d a = Some (aBalance acc, aAvailableBalance acc)) \<and>
     (\<forall>a st. holdingRow d a st = Option.bind (getHolding s a st) rowOf) \<and>
     (\<forall>i t. getStock s i = Some t \<longrightarrow> (i \<notin> P \<longrightarrow> map_option fst (stockRow d i) = Some (sPrice t)) \<and>
        (\<forall>r. stockRow d i = Some r \<longrightarrow> snd r = StockStatus_String (sStatus t)))"

lemma describes_changed:
  assumes "describes evs s s'"
  shows "getAccount s' a \<noteq> getAccount s a \<Longrightarrow> \<exists>e\<in>set evs. \<exists>acc. data e = EvAccount acc \<and> getAccount s' a = Some acc"
    "getHolding s' a st \<noteq> getHolding s a st \<Longrightarrow> \<exists>e\<in>set evs. \<exists>h. data e = EvHolding h \<and> getHolding s' a st = Some h"
    "getStock s' i \<noteq> getStock s i \<Longrightarrow> \<exists>e\<in>set evs. \<exists>t. data e = EvStock t \<and> getStock s' i = Some t"
  using assms unfolding describes_def image_iff by metis+

lemma updates_account:
  assumes "steady evs s s'" "getAccount s' a = Some acc"
  shows "fold (\<lambda>e. tellAccount e a) evs = map_option (\<lambda>_. (aBalance acc, aAvailableBalance acc)) \<or>
    getAccount s a = Some acc \<and> fold (\<lambda>e. tellAccount e a) evs = id"
proof -
  let ?g = "map_option (\<lambda>_. (aBalance acc, aAvailableBalance acc)) :: (uint64 \<times> uint64) option \<Rightarrow> _"
  have D: "EvAccount b \<in> data ` set evs \<Longrightarrow> getAccount s' (aId b) = Some b" for b
    using assms(1) by (simp add: steady_def describes_def)
  have id: "aId acc = a" using keys_getD(1) [of s' a] assms(1,2) by (simp add: steady_def)
  have f: "tellAccount e a = ?g \<or> tellAccount e a = id" if "e \<in> set evs" for e
  proof (cases "data e")
    case (EvAccount b)
    then have "getAccount s' (aId b) = Some b" using D that by (metis image_eqI)
    then show ?thesis using EvAccount assms(2) by (auto simp: fun_eq_iff)
  qed (simp_all add: fun_eq_iff)
  have F: "fold (\<lambda>e. tellAccount e a) evs = (if \<exists>e\<in>set evs. tellAccount e a = ?g then ?g else id)"
    by (rule fold_same_or_nothing [OF f]) (simp_all add: fun_eq_iff option.map_comp comp_def)
  show ?thesis
  proof (cases "getAccount s a = Some acc")
    case False
    then obtain e where e: "e \<in> set evs" "data e = EvAccount acc"
      using describes_changed(1) [of evs s s' a] assms by (auto simp: steady_def)
    then have "pattern e = PatternAccountUpdated"
      using assms(1) by (auto simp: steady_def list_all_iff updating_def announced_def)
    then have "tellAccount e a = ?g" using e(2) id by (simp add: fun_eq_iff)
    then show ?thesis using F e(1) by auto
  qed (simp add: F)
qed

lemma updates_holding:
  assumes "describes evs s s'" "keys_ok s'"
  shows "fold (\<lambda>e. tellHolding e a st) evs (Option.bind (getHolding s a st) rowOf) = Option.bind (getHolding s' a st) rowOf"
proof -
  let ?g = "\<lambda>_ :: HoldingRow option. Option.bind (getHolding s' a st) rowOf"
  have D: "EvHolding h \<in> data ` set evs \<Longrightarrow> getHolding s' (hAccountId h) (hStockId h) = Some h" for h
    using assms(1) by (simp add: describes_def)
  have f: "tellHolding e a st = ?g \<or> tellHolding e a st = id" if "e \<in> set evs" for e
  proof (cases "data e")
    case (EvHolding h)
    then have "getHolding s' (hAccountId h) (hStockId h) = Some h" using D that by (metis image_eqI)
    then show ?thesis using EvHolding by (auto simp: fun_eq_iff)
  qed (simp_all add: fun_eq_iff)
  have F: "fold (\<lambda>e. tellHolding e a st) evs = (if \<exists>e\<in>set evs. tellHolding e a st = ?g then ?g else id)"
    by (rule fold_same_or_nothing [OF f]) (simp_all add: fun_eq_iff)
  show ?thesis
  proof (cases "getHolding s' a st = getHolding s a st")
    case False
    then obtain e h where e: "e \<in> set evs" "data e = EvHolding h" "getHolding s' a st = Some h"
      using describes_changed(2) [OF assms(1)] by blast
    then have "tellHolding e a st = ?g" using keys_getD(2) [OF assms(2) e(3)] by (simp add: fun_eq_iff)
    then show ?thesis using F e(1) by auto
  qed (simp add: F)
qed

lemma updates_stock:
  assumes "steady evs s s'" "getStock s' i = Some t"
  shows "fold (\<lambda>e. tellStock e i) evs = map_option (\<lambda>(_, st). (sPrice t, st)) \<or>
    getStock s i = Some t \<and> fold (\<lambda>e. tellStock e i) evs = id"
proof -
  let ?g = "map_option (\<lambda>(_, st). (sPrice t, st)) :: (uint64 \<times> string) option \<Rightarrow> _"
  have D: "EvStock b \<in> data ` set evs \<Longrightarrow> getStock s' (sId b) = Some b" for b
    using assms(1) by (simp add: steady_def describes_def)
  have id: "sId t = i" using keys_getD(3) [of s' i] assms(1,2) by (simp add: steady_def)
  have u: "pattern e = PatternStockUpdated" if "e \<in> set evs" "data e = EvStock b" for e b
    using that assms(1) by (auto simp: steady_def list_all_iff updating_def announced_def)
  have f: "tellStock e i = ?g \<or> tellStock e i = id" if e: "e \<in> set evs" for e
  proof (cases "data e")
    case (EvStock b)
    then have "getStock s' (sId b) = Some b" using D e by (metis image_eqI)
    then show ?thesis using EvStock u [OF e] assms(2) by (auto simp: fun_eq_iff)
  qed (simp_all add: fun_eq_iff)
  have F: "fold (\<lambda>e. tellStock e i) evs = (if \<exists>e\<in>set evs. tellStock e i = ?g then ?g else id)"
    by (rule fold_same_or_nothing [OF f]) (simp_all add: fun_eq_iff option.map_comp comp_def split_def)
  show ?thesis
  proof (cases "getStock s i = Some t")
    case False
    then obtain e where e: "e \<in> set evs" "data e = EvStock t"
      using describes_changed(3) [of evs s s' i] assms by (auto simp: steady_def)
    then have "tellStock e i = ?g" using u [OF e] id by (simp add: fun_eq_iff)
    then show ?thesis using F e(1) by auto
  qed (simp add: F)
qed

section \<open>Catching up\<close>

text \<open>
  The accounts whose balances are still not shown after a request, and the stocks whose price is
  not: the one the request has announced, and of the earlier ones those whose row in the ledger the
  request has not changed; or which have no row in the database.
\<close>

fun behindAccounts :: "request \<Rightarrow> State \<Rightarrow> State \<Rightarrow> database \<Rightarrow> int32 set \<Rightarrow> int32 set" where
  "behindAccounts (RqAccount acc) s s' d A = insert (aId acc) A"
| "behindAccounts _ s s' d A = {a \<in> A. getAccount s' a = getAccount s a \<or> accountRow d a = None}"

fun behindStocks :: "request \<Rightarrow> State \<Rightarrow> State \<Rightarrow> database \<Rightarrow> int32 set \<Rightarrow> int32 set" where
  "behindStocks (RqStock t) s s' d P = insert (sId t) P"
| "behindStocks _ s s' d P = {i \<in> P. getStock s' i = getStock s i \<or> stockRow d i = None}"

lemma follows_steady:
  assumes "steady evs s s'" "follows A P s d" "applyEvents (d, n) out = Ret (d', n')" "marshalEvents evs = Some out"
  shows "follows {a \<in> A. getAccount s' a = getAccount s a \<or> accountRow d a = None}
    {i \<in> P. getStock s' i = getStock s i \<or> stockRow d i = None} s' d'"
proof -
  have S: "describes evs s s'" "keys_ok s'" "list_all announced evs"
    using assms(1) updating_announced by (auto simp: steady_def)
  note R = applyEvents_rows [OF assms(3,4) S(3)]
  have "accountRow d' a = Some (aBalance acc, aAvailableBalance acc)"
    if acc: "getAccount s' a = Some acc" and a: "a \<notin> {a \<in> A. getAccount s' a = getAccount s a \<or> accountRow d a = None}" for a acc
  proof -
    have "getAccount s a \<noteq> None" using assms(1) acc unfolding steady_def by (metis option.distinct(1))
    then have "accountRow d a \<noteq> None" "getAccount s a = Some acc \<Longrightarrow> accountRow d a = Some (aBalance acc, aAvailableBalance acc)"
      using assms(2) acc a by (auto simp: follows_def)
    then show ?thesis using updates_account [OF assms(1) acc] R [of a 0 0] by (auto simp del: tellAccount.simps)
  qed
  moreover have "(i \<notin> {i \<in> P. getStock s' i = getStock s i \<or> stockRow d i = None} \<longrightarrow> map_option fst (stockRow d' i) = Some (sPrice t)) \<and>
      (\<forall>r. stockRow d' i = Some r \<longrightarrow> snd r = StockStatus_String (sStatus t))" if t: "getStock s' i = Some t" for i t
  proof -
    obtain old where old: "getStock s i = Some old" "sStatus t = sStatus old" using assms(1) t unfolding steady_def by blast
    then have o: "\<forall>r. stockRow d i = Some r \<longrightarrow> snd r = StockStatus_String (sStatus t)"
      "i \<notin> P \<Longrightarrow> map_option fst (stockRow d i) = Some (sPrice old)" using assms(2) by (auto simp: follows_def)
    have row: "stockRow d' i = fold (\<lambda>e. tellStock e i) evs (stockRow d i)" using R [of 0 0 i] by simp
    show ?thesis using updates_stock [OF assms(1) t]
    proof (elim disjE conjE)
      assume f: "fold (\<lambda>e. tellStock e i) evs = map_option (\<lambda>(_, st). (sPrice t, st))"
      show ?thesis using o unfolding row f t old by (cases "stockRow d i") auto
    next
      assume f: "getStock s i = Some t" "fold (\<lambda>e. tellStock e i) evs = id"
      have "t = old" "getStock s' i = getStock s i" using f(1) old(1) t by simp_all
      then show ?thesis using o unfolding row f(2) by auto
    qed
  qed
  moreover have "holdingRow d' a st = Option.bind (getHolding s' a st) rowOf" for a st
    using R [of a st 0] updates_holding [OF S(1,2), of a st] assms(2) by (simp add: follows_def del: tellHolding.simps)
  ultimately show ?thesis unfolding follows_def by blast
qed

text \<open>The tables follow every request whose events go through.\<close>

definition projects :: "request \<Rightarrow> outEvent list \<Rightarrow> State \<Rightarrow> State \<Rightarrow> bool" where
  "projects rq evs s s' \<longleftrightarrow> (\<forall>A P d n d' n' out. follows A P s d \<longrightarrow> marshalEvents evs = Some out \<longrightarrow>
     applyEvents (d, n) out = Ret (d', n') \<longrightarrow> follows (behindAccounts rq s s' d A) (behindStocks rq s s' d P) s' d')"

lemma projects_account:
  "projects (RqAccount acc) [ev PatternAccountActivated (EvAccount acc)] s (setAccount s acc)"
  unfolding projects_def
proof (intro allI impI)
  fix A P d n d' n' out
  assume f: "follows A P s d"
    and a: "marshalEvents [ev PatternAccountActivated (EvAccount acc)] = Some out" "applyEvents (d, n) out = Ret (d', n')"
  have "accountRow d' a = accountRow d a \<and> holdingRow d' a st = holdingRow d a st \<and> stockRow d' i = stockRow d i" for a st i
    using applyEvents_rows [OF a(2,1), of a st i] by simp
  with f show "follows (behindAccounts (RqAccount acc) s (setAccount s acc) d A)
      (behindStocks (RqAccount acc) s (setAccount s acc) d P) (setAccount s acc) d'"
    by (simp add: follows_def)
qed

lemma projects_stock:
  "projects (RqStock t) [ev PatternStockListed (EvStock (t\<lparr>sStatus := LISTED\<rparr>))] s (setStock s (t\<lparr>sStatus := LISTED\<rparr>))"
  unfolding projects_def
proof (intro allI impI)
  fix A P d n d' n' out
  assume f: "follows A P s d"
    and a: "marshalEvents [ev PatternStockListed (EvStock (t\<lparr>sStatus := LISTED\<rparr>))] = Some out" "applyEvents (d, n) out = Ret (d', n')"
  have "accountRow d' a = accountRow d a \<and> holdingRow d' a st = holdingRow d a st \<and>
      stockRow d' i = (if sId t \<noteq> i then stockRow d i else map_option (\<lambda>(p, _). (p, ''LISTED'')) (stockRow d i))" for a st i
    using applyEvents_rows [OF a(2,1), of a st i] by (simp add: activated_not_updated)
  with f show "follows (behindAccounts (RqStock t) s (setStock s (t\<lparr>sStatus := LISTED\<rparr>)) d A)
      (behindStocks (RqStock t) s (setStock s (t\<lparr>sStatus := LISTED\<rparr>)) d P) (setStock s (t\<lparr>sStatus := LISTED\<rparr>)) d'"
    by (auto simp: follows_def)
qed

lemma tells_projects:
  assumes "ledger_inv (state e) no_slack no_slack2"
  shows "tells (projects rq) ops clk e (applyRequest ops clk e rq)"
proof (cases "opens rq")
  case False
  have "projects rq evs s s'" if "steady evs s s'" for evs s s'
    using follows_steady [OF that] False by (cases rq) (auto simp: projects_def)
  with tells_updates [OF assms False] show ?thesis by (rule tells_mono)
next
  case True
  then show ?thesis
    by (cases rq) (auto simp: activateAccount_def setStockStatus_def Let_def intro!: tellsI projects_account projects_stock)
qed

lemma database_step:
  assumes "twal_laws ops base recs" "ledger_inv (state e) no_slack no_slack2" "\<not> suppressed e"
    and "applyRequest ops clk e rq = (e', Ret ())"
    and "recs (outputLog e') = recs (outputLog e) @ [r]" "unmarshal OutputEnvelope_Unmarshal r = Some env"
    and "follows A P (state e) d" "applyEnvelopes (d, n) [env] = Ret (d', n')"
  shows "follows (behindAccounts rq (state e) (state e') d A) (behindStocks rq (state e) (state e') d P) (state e') d'"
proof -
  obtain e1 evs where t: "evs \<noteq> []" "frame e e1" "appendOutput ops clk e1 evs = (e', Ret ())"
    "projects rq evs (state e) (state e')"
    using tells_projects [OF assms(2), of rq ops clk] assms(4) by (auto simp: tells_def)
  have e1: "\<not> suppressed e1" "outputLog e1 = outputLog e" using assms(3) t(2) by (simp_all add: suppressed_def frame_def)
  obtain env' where "recs (outputLog e') = recs (outputLog e1) @ [Text (OutputEnvelope_Marshal env')]"
    "unmarshal OutputEnvelope_Unmarshal (Text (OutputEnvelope_Marshal env')) = Some env'"
    "marshalEvents evs = Some (envEvents env')"
    by (rule appendOutput_envelope [OF assms(1) t(1) e1(1) t(3)])
  then have "marshalEvents evs = Some (envEvents env)" using assms(5,6) e1(2) by simp
  moreover have "applyEvents (d, n) (envEvents env) = Ret (d', n')" using assms(8) by (auto split: outcome.splits)
  ultimately show ?thesis using t(4) assms(7) unfolding projects_def by blast
qed

text \<open>
  C10: The database follows the ledger. Let the ledger be consistent (the invariant of C2) and the
  tables show it up to the balances of accounts in \<open>A\<close> and the prices of stocks in \<open>P\<close>. When a request
  is answered and the projector applies its envelope, the tables show the ledger after the request:
  all holdings (no row for a holding without shares), the status of every stock, and all balances and
  prices up to the new sets. A set gains the account a request registers, or the stock it lists, whose
  amounts the projector does not write, and it loses every account or stock with a row in the database
  that the request changes in the ledger. So every request but these two takes a database that shows
  the whole ledger to one that shows the whole ledger.
\<close>

theorem database_follows_ledger:
  assumes "twal_laws ops base recs" "ledger_inv (state e) no_slack no_slack2" "\<not> suppressed e"
    and "applyRequest ops clk e rq = (e', Ret ())"
    and "recs (outputLog e') = recs (outputLog e) @ [r]" "unmarshal OutputEnvelope_Unmarshal r = Some env"
    and "follows A P (state e) d" "applyEnvelopes (d, n) [env] = Ret (d', n')"
  shows "follows (behindAccounts rq (state e) (state e') d A) (behindStocks rq (state e) (state e') d P) (state e') d'"
  by (rule database_step [OF assms])


text \<open>
  A database whose row of account 9 has never been written by the projector: it has no balances
  yet. A transfer from account 7 to account 9 writes them.
\<close>

definition followingDatabase :: database where
  "followingDatabase = sampleDatabase\<lparr>
     dbAccounts := fmupd 7 \<lparr>raBalance = 1000, raAvailableBalance = 1000, raStatus = ''ACTIVE''\<rparr>
       (fmupd 9 \<lparr>raBalance = 0, raAvailableBalance = 0, raStatus = ''ACTIVE''\<rparr> fmempty),
     dbHoldings := fmupd (StockKey 7 1) \<lparr>rhQuantity = 10, rhAvailableQuantity = 5, rhAverage = 50, rhTotalBuyAmount = 500\<rparr> fmempty,
     dbStocks := fmupd 1 \<lparr>rsPrice = 90, rsStatus = ''LISTED''\<rparr> fmempty\<rparr>"

lemma followingDatabase_follows: "follows {9} {} sampleState followingDatabase"
  by (auto simp: follows_def row_defs followingDatabase_def sampleDatabase_def sampleState_def getAccount_def getHolding_def
      getStock_def Accounts_Get_def StockBalances_Get_def Stocks_Get_def rowOf_def split: if_splits)

definition sampleSender :: Account where "sampleSender = \<lparr>aId = 7, aBalance = 700, aAvailableBalance = 700\<rparr>"
definition sampleRecipient :: Account where "sampleRecipient = \<lparr>aId = 9, aBalance = 1300, aAvailableBalance = 1300\<rparr>"

definition transferEvents :: "outEvent list" where
  "transferEvents = [ev PatternAccountUpdated (EvAccount sampleSender), ev PatternAccountUpdated (EvAccount sampleRecipient),
     transferCompleted sampleTransfer (sampleClock 0)]"

lemma sampleTransfer_applied:
  "applyRequest memOps sampleClock sampleEngine (RqTransfer sampleTransfer) =
     appendOutput memOps sampleClock (sampleEngine\<lparr>ticks := 1, state := setAccount (setAccount sampleState sampleSender) sampleRecipient\<rparr>)
       transferEvents"
  by (simp add: applyTransfer_def now_def Let_def validateTransfer_def sampleTransfer_def sample_rows moveCash_def transferEvents_def
      sampleSender_def sampleRecipient_def) (simp add: sampleEngine_def)

lemma sampleTransfer_projected:
  assumes "marshalEvents transferEvents = Some out"
  shows "\<exists>d'. applyEvents (d, None) out = Ret (d', None)"
proof -
  have "Account_Unmarshal (Account_Marshal sampleSender) = Some sampleSender"
    "Account_Unmarshal (Account_Marshal sampleRecipient) = Some sampleRecipient"
    by (rule Account_roundtrip; simp add: sampleSender_def sampleRecipient_def)+
  moreover have "TransferCompleted_Unmarshal (TransferCompleted_Marshal \<lparr>tcId = 4, tcSenderAccountId = 7, tcRecipientAccountId = 9,
      tcAmount = 300, tcCompletedAt = t\<rparr>) = Some \<lparr>tcId = 4, tcSenderAccountId = 7, tcRecipientAccountId = 9,
      tcAmount = 300, tcCompletedAt = t\<rparr>" for t
    by (rule transfer_roundtrips(1)) simp_all
  ultimately show ?thesis
    using assms by (auto simp: transferEvents_def transferCompleted_def sampleTransfer_def applyEvent_pattern eventTx_defs exec_def
        q_UpdateAccountBalance_def q_CompleteTransfer_def)
qed

lemma sampleTransfer_record:
  obtains e' r env d' where "applyRequest memOps sampleClock sampleEngine (RqTransfer sampleTransfer) = (e', Ret ())"
    "mlRecs (outputLog e') = mlRecs (outputLog sampleEngine) @ [r]" "unmarshal OutputEnvelope_Unmarshal r = Some env"
    "applyEnvelopes (followingDatabase, None) [env] = Ret (d', None)"
    "state e' = setAccount (setAccount sampleState sampleSender) sampleRecipient"
proof -
  let ?e = "sampleEngine\<lparr>ticks := 1, state := setAccount (setAccount sampleState sampleSender) sampleRecipient\<rparr>"
  have ne: "transferEvents \<noteq> []" "list_all marshals transferEvents" "\<not> suppressed ?e"
    by (simp_all add: transferEvents_def transferCompleted_def suppressed_def sampleEngine_def)
  obtain e' where a: "appendOutput memOps sampleClock ?e transferEvents = (e', Ret ())"
    using appendOutput_reliable [OF memOps_laws memOps_reliable ne(2), of ?e sampleClock] by (auto simp: sampleEngine_def memEmpty_def)
  obtain env where env: "mlRecs (outputLog e') = mlRecs (outputLog ?e) @ [Text (OutputEnvelope_Marshal env)]"
    "unmarshal OutputEnvelope_Unmarshal (Text (OutputEnvelope_Marshal env)) = Some env"
    "marshalEvents transferEvents = Some (envEvents env)"
    by (rule appendOutput_envelope [OF memOps_laws ne(1,3) a])
  moreover obtain d' where "applyEvents (followingDatabase, None) (envEvents env) = Ret (d', None)"
    using sampleTransfer_projected [OF env(3)] by blast
  moreover have "state e' = setAccount (setAccount sampleState sampleSender) sampleRecipient"
    using appendOutput_frame(1) [OF a] by simp
  ultimately show thesis
    using that [of e' "Text (OutputEnvelope_Marshal env)" env d'] trans [OF sampleTransfer_applied a] by (simp del: applyRequest.simps)
qed

lemma sampleTransfer_behind:
  "behindAccounts (RqTransfer t) sampleState (setAccount (setAccount sampleState sampleSender) sampleRecipient) followingDatabase {9} = {}"
  by (auto simp: sample_rows sampleRecipient_def row_defs followingDatabase_def)

theorem database_follows_ledger_witness:
  "\<exists>e' d'. applyRequest memOps sampleClock sampleEngine (RqTransfer sampleTransfer) = (e', Ret ()) \<and>
     accountRow followingDatabase 9 = Some (0, 0) \<and> follows {} {} (state e') d'"
proof -
  have s: "ledger_inv (state sampleEngine) no_slack no_slack2" "\<not> suppressed sampleEngine" "state sampleEngine = sampleState"
    using sample_inv by (simp_all add: sampleEngine_def suppressed_def)
  obtain e' r env d' where r: "applyRequest memOps sampleClock sampleEngine (RqTransfer sampleTransfer) = (e', Ret ())"
    "mlRecs (outputLog e') = mlRecs (outputLog sampleEngine) @ [r]" "unmarshal OutputEnvelope_Unmarshal r = Some env"
    "applyEnvelopes (followingDatabase, None) [env] = Ret (d', None)"
    "state e' = setAccount (setAccount sampleState sampleSender) sampleRecipient"
    by (rule sampleTransfer_record)
  have f: "follows {9} {} (state sampleEngine) followingDatabase" using followingDatabase_follows s(3) by simp
  have "accountRow followingDatabase 9 = Some (0, 0)" by (simp add: row_defs followingDatabase_def)
  with database_follows_ledger [OF memOps_laws s(1,2) r(1-3) f r(4)] r(1)
  show ?thesis by (auto simp: s(3) r(5) sampleTransfer_behind simp del: applyRequest.simps behindAccounts.simps)
qed

section \<open>Histories\<close>

text \<open>The projector inserts and deletes no account and no stock.\<close>

definition sameKeys :: "database \<Rightarrow> database \<Rightarrow> bool" where
  "sameKeys d d' \<longleftrightarrow> (\<forall>a. accountRow d' a = None \<longleftrightarrow> accountRow d a = None) \<and> (\<forall>i. stockRow d' i = None \<longleftrightarrow> stockRow d i = None)"

lemma sameKeys_applyEvent: "applyEvent (d, n) event = Ret (d', n') \<Longrightarrow> sameKeys d d'"
  by (auto simp: sameKeys_def applyEvent_def withData_def eventTx_defs Let_def q_defs row_defs updateRow_def
      split: if_splits option.splits dest!: exec_Some)

lemma sameKeys_trans: "sameKeys d d1 \<Longrightarrow> sameKeys d1 d2 \<Longrightarrow> sameKeys d d2"
  by (simp add: sameKeys_def)

lemma sameKeys_applyEvents: "applyEvents (d, n) es = Ret (d', n') \<Longrightarrow> sameKeys d d'"
proof (induction es arbitrary: d n)
  case (Cons e es)
  obtain d1 n1 where "applyEvent (d, n) e = Ret (d1, n1)" "applyEvents (d1, n1) es = Ret (d', n')"
    using Cons.prems by (auto split: outcome.splits)
  then show ?case using sameKeys_applyEvent Cons.IH sameKeys_trans by blast
qed (simp add: sameKeys_def)

lemma sameKeys_applyEnvelopes: "applyEnvelopes (d, n) envs = Ret (d', n') \<Longrightarrow> sameKeys d d'"
proof (induction envs arbitrary: d n)
  case (Cons e envs)
  obtain d1 n1 where "applyEvents (d, n) (envEvents e) = Ret (d1, n1)" "applyEnvelopes (d1, n1) envs = Ret (d', n')"
    using Cons.prems by (auto split: outcome.splits)
  then show ?case using sameKeys_applyEvents Cons.IH sameKeys_trans by blast
qed (simp add: sameKeys_def)

lemma behind_sameKeys:
  assumes "sameKeys d0 d"
  shows "behindAccounts rq s s' d A = behindAccounts rq s s' d0 A" "behindStocks rq s s' d P = behindStocks rq s s' d0 P"
  using assms by (cases rq; simp add: sameKeys_def)+

text \<open>
  The envelopes of a history of feasible requests, from a ledger that the database shows up to two
  sets, and these sets at its end. Between two requests the engine may be restarted and the logs
  may be cut, as long as the ledger stays. The rows that the sender of the requests inserts are in
  the database from the beginning, with whatever amounts.
\<close>

inductive served ::
  "'l twal \<Rightarrow> ('l \<Rightarrow> bytes list) \<Rightarrow> database \<Rightarrow> int32 set \<Rightarrow> int32 set \<Rightarrow> 'l Engine \<Rightarrow> OutputEnvelope list \<Rightarrow> bool"
  for ops recs d0 where
  begins: "served ops recs d0 A P e []" if "follows A P (state e) d0" "ledger_inv (state e) no_slack no_slack2"
| goes_on: "served ops recs d0 (behindAccounts rq (state e1) (state e') d0 A) (behindStocks rq (state e1) (state e') d0 P) e' (envs @ [env])"
    if "served ops recs d0 A P e envs" "state e1 = state e" "\<not> suppressed e1" "feasible e1 rq"
      "applyRequest ops clk e1 rq = (e', Ret ())" "recs (outputLog e') = recs (outputLog e1) @ [r]"
      "unmarshal OutputEnvelope_Unmarshal r = Some env"

lemma served_follows:
  assumes "served ops recs d0 A P e envs" "twal_laws ops base recs"
  shows "ledger_inv (state e) no_slack no_slack2 \<and> (\<forall>d n. applyEnvelopes (d0, None) envs = Ret (d, n) \<longrightarrow> follows A P (state e) d)"
  using assms(1)
proof (induction rule: served.induct)
  case (begins A P e)
  then show ?case by simp
next
  case (goes_on A P e envs e1 rq clk e' r env)
  then have inv: "ledger_inv (state e1) no_slack no_slack2" by simp
  have "ledger_inv (state e') no_slack no_slack2"
    using applyRequest_kept [OF inv goes_on.hyps(4), of ops clk] goes_on.hyps(5) by (simp add: kept_def)
  moreover have "follows (behindAccounts rq (state e1) (state e') d0 A) (behindStocks rq (state e1) (state e') d0 P) (state e') d"
    if d: "applyEnvelopes (d0, None) (envs @ [env]) = Ret (d, n)" for d n
  proof -
    obtain d1 n1 where d1: "applyEnvelopes (d0, None) envs = Ret (d1, n1)" "applyEnvelopes (d1, n1) [env] = Ret (d, n)"
      using d by (auto simp: applyEnvelopes_append split: outcome.splits)
    have "follows A P (state e1) d1" using goes_on.IH goes_on.hyps(2) d1(1) by simp
    from database_step [OF assms(2) inv goes_on.hyps(3,5-7) this d1(2)] show ?thesis
      by (simp only: behind_sameKeys [OF sameKeys_applyEnvelopes [OF d1(1)]])
  qed
  ultimately show ?case by blast
qed

lemma follows_tables: "follows A P s (tables d) = follows A P s d"
  by (simp add: follows_def row_defs)

text \<open>
  A database that has caught up shows the ledger. After any history of requests, between
  which the engine may have been restarted and its logs cut, a projector whose cursor is at the
  end of the output log has a database with the balances, holdings, prices and statuses of the
  ledger, up to the two sets of the history; whatever failed and was repeated on the way does not
  matter.
\<close>

lemma caught_up_shows:
  assumes "twal_laws ops base recs" "served ops recs (tables d0) A P e envs"
    and "mirrors d0 envs p" "unat (dbAt p) = length envs"
  shows "follows A P (state e) (stored p)"
proof -
  have "applyEnvelopes (tables d0, None) envs = Ret (tables (stored p), None)"
    using assms(3,4) by (simp add: mirrors_def)
  then have "follows A P (state e) (tables (stored p))" using served_follows [OF assms(2,1)] by blast
  then show ?thesis by (simp only: follows_tables)
qed

lemma sampleTransfer_served:
  obtains e' r env d' where "served memOps mlRecs (tables followingDatabase) {} {} e' [env]"
    "unmarshal OutputEnvelope_Unmarshal r = Some env" "applyEnvelopes (tables followingDatabase, None) [env] = Ret (tables d', None)"
    "getAccount (state e') 9 = Some sampleRecipient"
proof -
  have s: "ledger_inv (state sampleEngine) no_slack no_slack2" "\<not> suppressed sampleEngine" "state sampleEngine = sampleState"
    using sample_inv by (simp_all add: sampleEngine_def suppressed_def)
  have t: "tables followingDatabase = followingDatabase" by (simp add: followingDatabase_def sampleDatabase_def)
  obtain e' r env d' where r: "applyRequest memOps sampleClock sampleEngine (RqTransfer sampleTransfer) = (e', Ret ())"
    "mlRecs (outputLog e') = mlRecs (outputLog sampleEngine) @ [r]" "unmarshal OutputEnvelope_Unmarshal r = Some env"
    "applyEnvelopes (followingDatabase, None) [env] = Ret (d', None)"
    "state e' = setAccount (setAccount sampleState sampleSender) sampleRecipient"
    by (rule sampleTransfer_record)
  have "served memOps mlRecs (tables followingDatabase) {9} {} sampleEngine []"
    using s followingDatabase_follows by (intro begins) (simp_all add: t)
  from goes_on [OF this refl s(2) _ r(1-3)]
  have "served memOps mlRecs (tables followingDatabase)
      (behindAccounts (RqTransfer sampleTransfer) sampleState (state e') followingDatabase {9})
      (behindStocks (RqTransfer sampleTransfer) sampleState (state e') followingDatabase {}) e' [env]"
    by (simp add: t s(3) del: behindAccounts.simps)
  then have "served memOps mlRecs (tables followingDatabase) {} {} e' [env]"
    unfolding r(5) sampleTransfer_behind by simp
  moreover have "applyEnvelopes (tables followingDatabase, None) [env] = Ret (tables d', None)"
    using tame_applyEnvelopes [of "[env]"] r(4) unfolding tame_def by blast
  moreover have "getAccount (state e') 9 = Some sampleRecipient" by (simp add: r(5) sampleRecipient_def)
  ultimately show thesis using that r(3) by simp
qed

end
