(* ===== verification/Signals.thy ===== *)
theory Signals
  imports Readers Projected
begin

text \<open>
  How the readers of the output log are woken (\<^verbatim>\<open>internal/publisher/handler.go\<close>). The engine
  sends a signal after each record it appends, a goroutine passes the signals on to the two
  readers, and each reader drains the log and waits for the next signal. Every channel holds at
  most one signal and sending to a full one drops the signal. The goroutines are processes that
  take their steps in any order; what they do between two operations on something shared is one
  step.
\<close>

section \<open>Goroutines\<close>

datatype fanPc = FanSelects | FanToDb | FanToEvents | FanReturned

text \<open>
  A reader asks for the last index of the log, reads the log up to there, and waits; \<open>Waits\<close>
  says whether the drain before was without an error. What is appended to the log while a reader
  drains it lies behind the index it asked for, so the drain is one step on the log it saw.
\<close>

datatype 'l readerPc = Drains | Reads 'l | Waits bool | Returned

record channels =
  ctxDone :: bool
  signal :: bool
  dbSignal :: bool
  eventSignal :: bool
  fanAt :: fanPc

record 'l handler = channels +
  outLog :: 'l
  unannounced :: bool
  history :: "OutputEnvelope list"
  dbReader :: "'l readerPc"
  projecting :: DBProjector
  eventReader :: "'l readerPc"
  publishing :: EventPublisher

inductive fanOutSignals :: "'z channels_scheme \<Rightarrow> 'z channels_scheme \<Rightarrow> bool" where
  fan_stops: "fanOutSignals s (s\<lparr>fanAt := FanReturned\<rparr>)" if "fanAt s = FanSelects" "ctxDone s"
| fan_receives: "fanOutSignals s (s\<lparr>signal := False, fanAt := FanToDb\<rparr>)" if "fanAt s = FanSelects" "signal s"
| fan_notifies_db: "fanOutSignals s (s\<lparr>dbSignal := notify (dbSignal s), fanAt := FanToEvents\<rparr>)" if "fanAt s = FanToDb"
| fan_notifies_events: "fanOutSignals s (s\<lparr>eventSignal := notify (eventSignal s), fanAt := FanSelects\<rparr>)" if "fanAt s = FanToEvents"

text \<open>
  The loop of a reader, on its position, its state and its channel: \<open>l\<close> is the log now, \<open>dn\<close> whether
  the context is done. Waking up by the backstop timer is a step of its own below.
\<close>

inductive readerLoop ::
  "('l \<Rightarrow> 'f \<Rightarrow> 'p \<Rightarrow> ('p \<times> unit outcome) option) \<Rightarrow> 'l \<Rightarrow> bool \<Rightarrow>
   'l readerPc \<times> 'p \<times> bool \<Rightarrow> 'l readerPc \<times> 'p \<times> bool \<Rightarrow> bool"
  for drain l dn where
  looks: "readerLoop drain l dn (Drains, p, sig) (Reads l, p, sig)"
| drained: "readerLoop drain l dn (Reads l0, p, sig) (Waits (r = Ret ()), p', sig)" if "drain l0 faults p = Some (p', r)"
| woken: "readerLoop drain l dn (Waits ok, p, True) (Drains, p, False)"
| leaves: "readerLoop drain l dn (Waits ok, p, sig) (Returned, p, sig)" if "dn"

inductive_cases readerLoopE: "readerLoop drain l dn (pc, p, sig) (pc', p', sig')"

text \<open>
  The handler: the three goroutines that \<^verbatim>\<open>Run\<close> starts, and the engine's step from a record to
  its signal. A reader that cannot load its cursor returns at once.
\<close>

definition readerAt :: "'p outcome \<Rightarrow> 'p \<Rightarrow> 'l readerPc \<times> 'p" where
  "readerAt started p = (case started of Ret p' \<Rightarrow> (Drains, p') | _ \<Rightarrow> (Returned, p))"

definition Handler_Run :: "bool \<Rightarrow> bool \<Rightarrow> 'l \<Rightarrow> OutputEnvelope list \<Rightarrow> bytes list \<Rightarrow> database \<Rightarrow> 'l handler" where
  "Handler_Run dbFails mqFails l envs out d =
     (let db = readerAt (DBProjector_start dbFails d) \<lparr>stored = d, dbAt = 0\<rparr>;
          mq = readerAt (EventPublisher_start mqFails out d) \<lparr>sent = out, mqStored = d, mqAt = 0\<rparr>
      in \<lparr>ctxDone = False, signal = False, dbSignal = False, eventSignal = False, fanAt = FanSelects,
          outLog = l, unannounced = False, history = envs,
          dbReader = fst db, projecting = snd db, eventReader = fst mq, publishing = snd mq\<rparr>)"

inductive goroutines :: "'l twal \<Rightarrow> 'l handler \<Rightarrow> 'l handler \<Rightarrow> bool" for ops where
  announces: "goroutines ops s (s\<lparr>unannounced := False, signal := notify (signal s)\<rparr>)" if "unannounced s"
| fans: "goroutines ops s s'" if "fanOutSignals s s'"
| projects: "goroutines ops s (s\<lparr>dbReader := pc, projecting := p, dbSignal := sig\<rparr>)"
    if "readerLoop (DBProjector_drain ops) (outLog s) (ctxDone s) (dbReader s, projecting s, dbSignal s) (pc, p, sig)"
| publishes: "goroutines ops s (s\<lparr>eventReader := pc, publishing := p, eventSignal := sig\<rparr>)"
    if "readerLoop (EventPublisher_drain ops) (outLog s) (ctxDone s) (eventReader s, publishing s, eventSignal s) (pc, p, sig)"

text \<open>
  What happens to the handler: the engine appends a record to the log, in which there is room for
  it, once it has announced the one before; the cleanup cuts the log, below both cursors; a
  backstop timer fires; the context ends.
\<close>

inductive happens :: "'l twal \<Rightarrow> 'l handler \<Rightarrow> 'l handler \<Rightarrow> bool" for ops where
  appended: "happens ops s (s\<lparr>outLog := l, unannounced := True, history := history s @ [env]\<rparr>)"
    if "\<not> unannounced s" "AppendWithIndex ops (outLog s) builder = Ret (l, i)" "builder i = Some (messageFor env)"
      "rawEvents (envEvents env)" "length (history s) + 101 < 2 ^ 64"
| cut: "happens ops s (s\<lparr>outLog := l\<rparr>)"
    if "TruncateFront ops (outLog s) i = Truncated l" "i \<le> dbAt (projecting s)" "i \<le> mqAt (publishing s)"
| db_ticks: "happens ops s (s\<lparr>dbReader := Drains\<rparr>)" if "dbReader s = Waits ok"
| mq_ticks: "happens ops s (s\<lparr>eventReader := Drains\<rparr>)" if "eventReader s = Waits ok"
| cancelled: "happens ops s (s\<lparr>ctxDone := True\<rparr>)"

inductive handled :: "'l twal \<Rightarrow> 'l handler \<Rightarrow> 'l handler \<Rightarrow> bool" for ops s0 where
  handled_start: "handled ops s0 s0"
| handled_goes: "handled ops s0 s \<Longrightarrow> goroutines ops s s' \<Longrightarrow> handled ops s0 s'"
| handled_happens: "handled ops s0 s \<Longrightarrow> happens ops s s' \<Longrightarrow> handled ops s0 s'"

section \<open>Goroutines come to rest\<close>

text \<open>What every signal and every position costs at most until all goroutines wait.\<close>

fun pcCost :: "'l readerPc \<Rightarrow> nat" where
  "pcCost Drains = 3"
| "pcCost (Reads l) = 2"
| "pcCost (Waits ok) = 1"
| "pcCost Returned = 0"

fun fanCost :: "fanPc \<Rightarrow> nat" where
  "fanCost FanToDb = 9"
| "fanCost FanToEvents = 5"
| "fanCost FanSelects = 1"
| "fanCost FanReturned = 0"

definition cost :: "'l handler \<Rightarrow> nat" where
  "cost s = 10 * of_bool (unannounced s) + 9 * of_bool (signal s) + fanCost (fanAt s) +
     3 * of_bool (dbSignal s) + pcCost (dbReader s) + 3 * of_bool (eventSignal s) + pcCost (eventReader s)"

lemma readerLoop_cost:
  "readerLoop drain l dn (pc, p, sig) (pc', p', sig') \<Longrightarrow>
   3 * of_bool sig' + pcCost pc' < 3 * of_bool sig + pcCost pc"
  by (erule readerLoopE) auto

lemma goroutines_cost: "goroutines ops s s' \<Longrightarrow> cost s' < cost s"
proof (induction rule: goroutines.induct)
  case (fans s s')
  then show ?case by cases (auto simp: cost_def notify_def)
qed (use readerLoop_cost in \<open>fastforce simp: cost_def notify_def\<close>)+

lemma pcCost_bound: "pcCost pc \<le> 3"
  by (cases pc) auto

lemma cost_bound: "cost s \<le> 40"
proof -
  have "fanCost (fanAt s) \<le> 9" by (cases "fanAt s") auto
  with pcCost_bound [of "dbReader s"] pcCost_bound [of "eventReader s"] show ?thesis
    unfolding cost_def by (cases "unannounced s"; cases "signal s"; cases "dbSignal s"; cases "eventSignal s") simp_all
qed

lemma goroutines_runs: "(goroutines ops ^^ n) s s' \<Longrightarrow> n + cost s' \<le> cost s"
proof (induction n arbitrary: s')
  case (Suc n)
  then obtain t where "(goroutines ops ^^ n) s t" "goroutines ops t s'" by auto
  with Suc.IH [of t] goroutines_cost [of ops t s'] show ?case by simp
qed simp

section \<open>What a drain without an error reached\<close>

context output_reader
begin

lemma reached:
  assumes "unat c \<le> length envs" "word_of_nat (length envs) \<le> (c::uint64)"
  shows "unat c = length envs"
proof -
  have "unat (word_of_nat (length envs) :: uint64) = length envs" using room by (intro unat_word_of_nat64) simp
  with assms show ?thesis by (simp add: word_le_nat_alt)
qed

lemma last_index: "LastIndex ops l = Ret n \<Longrightarrow> n = word_of_nat (length envs)"
  using twal_lawsD(1) [OF laws] history by (auto simp: LastIndex_def split: option.splits)

end

context projection
begin

lemma drain_ends:
  assumes "mirrors d0 envs p"
  shows "\<exists>p' r. DBProjector_drain ops l faults p = Some (p', r) \<and> mirrors d0 envs p' \<and> (r = Ret () \<longrightarrow> unat (dbAt p') = length envs)"
proof (cases "LastIndex ops l")
  case (Ret n)
  obtain p' r where p': "projectLoop ops l faults (word_of_nat (length envs)) p = Some (p', r)" "mirrors d0 envs p'"
    "r = Ret () \<longrightarrow> word_of_nat (length envs) \<le> dbAt p'"
    using projecting.loop_returns [OF assms] by blast
  then have "r = Ret () \<longrightarrow> unat (dbAt p') = length envs" using reached [of "dbAt p'"] by (auto simp: mirrors_def)
  with p' show ?thesis using Ret last_index [OF Ret] by (simp add: DBProjector_drain_def)
qed (use assms in \<open>auto simp: DBProjector_drain_def\<close>)

end

context publication
begin

lemma drain_ends:
  assumes "relays envs p"
  shows "\<exists>p' r. EventPublisher_drain ops l outages p = Some (p', r) \<and> relays envs p' \<and> (r = Ret () \<longrightarrow> unat (mqAt p') = length envs)"
proof (cases "LastIndex ops l")
  case (Ret n)
  obtain p' r where p': "publishLoop ops l outages (word_of_nat (length envs)) p = Some (p', r)" "relays envs p'"
    "r = Ret () \<longrightarrow> word_of_nat (length envs) \<le> mqAt p'"
    using publishing.loop_returns [OF assms] by blast
  then have "r = Ret () \<longrightarrow> unat (mqAt p') = length envs" using reached [of "mqAt p'"] by (auto simp: relays_def)
  with p' show ?thesis using Ret last_index [OF Ret] by (simp add: EventPublisher_drain_def)
qed (use assms in \<open>auto simp: EventPublisher_drain_def\<close>)

end

section \<open>No signal is lost\<close>

text \<open>
  A reader that waits after a drain without an error, or that drains the log it saw some time
  ago, has seen everything, or a signal is on its way to it.
\<close>

fun informed :: "(OutputEnvelope list \<Rightarrow> 'l \<Rightarrow> bool) \<Rightarrow> OutputEnvelope list \<Rightarrow> bool \<Rightarrow> 'l readerPc \<Rightarrow> nat \<Rightarrow> bool" where
  "informed reads envs pending (Reads l) cur =
     (\<exists>n \<le> length envs. reads (take n envs) l \<and> cur \<le> n \<and> (n < length envs \<longrightarrow> pending))"
| "informed reads envs pending (Waits ok) cur = (ok \<and> cur < length envs \<longrightarrow> pending)"
| "informed reads envs pending _ cur = True"

locale woken_reader =
  fixes drain :: "'l \<Rightarrow> 'f \<Rightarrow> 'p \<Rightarrow> ('p \<times> unit outcome) option" and position :: "'p \<Rightarrow> uint64"
    and tracks :: "OutputEnvelope list \<Rightarrow> 'p \<Rightarrow> bool" and reads :: "OutputEnvelope list \<Rightarrow> 'l \<Rightarrow> bool"
  assumes drains: "tracks envs p \<Longrightarrow> reads envs l \<Longrightarrow>
      \<exists>p' r. drain l faults p = Some (p', r) \<and> tracks envs p' \<and> (r = Ret () \<longrightarrow> unat (position p') = length envs)"
    and tracks_upto: "tracks envs p \<longleftrightarrow> unat (position p) \<le> length envs \<and> tracks (take (unat (position p)) envs) p"
begin

lemma tracks_prefix:
  assumes "tracks envs p" "unat (position p) \<le> n"
  shows "tracks (take n envs) p"
proof (cases "n \<le> length envs")
  case True
  have "take (unat (position p)) (take n envs) = take (unat (position p)) envs" using assms(2) by (simp add: min_def)
  with assms True show ?thesis using tracks_upto [of envs p] tracks_upto [of "take n envs" p] by simp
qed (use assms(1) in simp)

lemma tracks_append: "tracks envs p \<Longrightarrow> tracks (envs @ xs) p"
  using tracks_upto [of envs p] tracks_upto [of "envs @ xs" p] by simp

lemma informed_more:
  assumes "informed reads envs pending pc cur"
  shows "informed reads (envs @ xs) True pc cur"
  using assms
proof (cases pc)
  case (Reads l)
  then obtain n where "n \<le> length envs" "reads (take n envs) l" "cur \<le> n" using assms by auto
  with Reads show ?thesis by (auto intro!: exI [of _ n])
qed auto

lemma informed_mono: "informed reads envs pending pc cur \<Longrightarrow> (pending \<Longrightarrow> pending') \<Longrightarrow> informed reads envs pending' pc cur"
  by (cases pc) auto

lemma loop_informed:
  assumes "readerLoop drain l dn (pc, p, sig) (pc', p', sig')" "tracks envs p" "reads envs l"
    and "informed reads envs (up \<or> sig) pc (unat (position p))"
  shows "tracks envs p' \<and> informed reads envs (up \<or> sig') pc' (unat (position p'))"
  using assms(1)
proof cases
  case looks
  then show ?thesis using assms(2,3) tracks_upto [of envs p] by (auto intro!: exI [of _ "length envs"])
next
  case (drained l0 faults r)
  then obtain n where n: "n \<le> length envs" "reads (take n envs) l0" "unat (position p) \<le> n" "n < length envs \<longrightarrow> up \<or> sig"
    using assms(4) by auto
  have "tracks (take n envs) p" using tracks_prefix [OF assms(2) n(3)] .
  then have p': "tracks (take n envs) p'" "r = Ret () \<longrightarrow> unat (position p') = length (take n envs)"
    using drains [of "take n envs" p l0 faults] n(2) drained by auto
  then have "tracks envs p'" using tracks_append [of "take n envs" p' "drop n envs"] by simp
  with p' n drained show ?thesis by auto
qed (use assms in auto)

lemma loop_goes_on:
  assumes "tracks envs p" "informed reads envs pending pc (unat (position p))"
    and "\<not> (\<exists>t. readerLoop drain l dn (pc, p, sig) t)"
  shows "pc = Returned \<or> (\<exists>ok. pc = Waits ok \<and> \<not> sig \<and> \<not> dn)"
proof (cases pc)
  case (Reads l0)
  then obtain n where n: "reads (take n envs) l0" "unat (position p) \<le> n" using assms(2) by auto
  obtain p' r where "drain l0 undefined p = Some (p', r)"
    using drains [OF tracks_prefix [OF assms(1) n(2)] n(1)] by blast
  then show ?thesis using assms(3) Reads drained [of drain l0 undefined p p' r] by blast
next
  case (Waits ok)
  then show ?thesis using assms(3) woken [of drain l dn ok p] leaves [of dn drain l ok p sig] by (cases sig; cases dn) auto
qed (use assms(3) looks [of drain l dn p sig] in auto)

end

interpretation dbWoken: woken_reader "DBProjector_drain ops" dbAt "mirrors d0" "\<lambda>envs l. output_reader ops base recs l envs"
  for ops :: "'l twal" and base recs d0
proof
  fix envs p l faults
  show "\<exists>p' r. DBProjector_drain ops l faults p = Some (p', r) \<and> mirrors d0 envs p' \<and> (r = Ret () \<longrightarrow> unat (dbAt p') = length envs)"
    if "mirrors d0 envs p" "output_reader ops base recs l envs"
    using projection.drain_ends [of ops base recs l envs d0 p faults] that by (simp add: projection_def)
qed (auto simp: mirrors_def)

interpretation mqWoken: woken_reader "EventPublisher_drain ops" mqAt relays "\<lambda>envs l. output_reader ops base recs l envs"
  for ops :: "'l twal" and base recs
proof
  fix envs p l faults
  show "\<exists>p' r. EventPublisher_drain ops l faults p = Some (p', r) \<and> relays envs p' \<and> (r = Ret () \<longrightarrow> unat (mqAt p') = length envs)"
    if "relays envs p" "output_reader ops base recs l envs"
    using publication.drain_ends [of ops base recs l envs p faults] that by (simp add: publication_def)
qed (auto simp: relays_def)

section \<open>The handler\<close>

definition dbPending :: "'l handler \<Rightarrow> bool" where
  "dbPending s \<longleftrightarrow> unannounced s \<or> signal s \<or> fanAt s = FanToDb"

definition mqPending :: "'l handler \<Rightarrow> bool" where
  "mqPending s \<longleftrightarrow> unannounced s \<or> signal s \<or> fanAt s \<in> {FanToDb, FanToEvents}"

lemmas pending_defs = dbPending_def mqPending_def notify_def

text \<open>
  A reader that is still running tracks the log and is informed; it has returned when it could not
  load its cursor, and otherwise only after the end of the context.
\<close>

definition reader_inv ::
  "(OutputEnvelope list \<Rightarrow> 'l \<Rightarrow> bool) \<Rightarrow> (OutputEnvelope list \<Rightarrow> 'p \<Rightarrow> bool) \<Rightarrow> ('p \<Rightarrow> uint64) \<Rightarrow>
   OutputEnvelope list \<Rightarrow> bool \<Rightarrow> bool \<Rightarrow> bool \<Rightarrow> 'l readerPc \<Rightarrow> 'p \<Rightarrow> bool" where
  "reader_inv reads tracks position envs dn fails pending pc p \<longleftrightarrow>
     (pc \<noteq> Returned \<longrightarrow> tracks envs p) \<and> informed reads envs pending pc (unat (position p)) \<and>
     (fails \<longrightarrow> pc = Returned) \<and> (pc = Returned \<longrightarrow> fails \<or> dn)"

context woken_reader
begin

lemma inv_mono: "reader_inv reads tracks position envs dn fails pending pc p \<Longrightarrow> (dn \<Longrightarrow> dn') \<Longrightarrow> (pending \<Longrightarrow> pending') \<Longrightarrow> reader_inv reads tracks position envs dn' fails pending' pc p"
  unfolding reader_inv_def using informed_mono [of envs pending pc "unat (position p)" pending'] by blast

lemma inv_append: "reader_inv reads tracks position envs dn fails pending pc p \<Longrightarrow> pending' \<Longrightarrow> reader_inv reads tracks position (envs @ xs) dn fails pending' pc p"
  unfolding reader_inv_def using informed_more [of envs pending pc "unat (position p)" xs] tracks_append [of envs p xs] by auto

lemma inv_tick: "reader_inv reads tracks position envs dn fails pending (Waits ok) p \<Longrightarrow> reader_inv reads tracks position envs dn fails pending' Drains p"
  by (simp add: reader_inv_def)

lemma inv_loop:
  assumes "readerLoop drain l dn (pc, p, sig) (pc', p', sig')" "reads envs l" "reader_inv reads tracks position envs dn fails (up \<or> sig) pc p"
  shows "reader_inv reads tracks position envs dn fails (up \<or> sig') pc' p'"
proof -
  have pc: "pc \<noteq> Returned" "pc' = Returned \<longrightarrow> dn" using assms(1) by (auto elim: readerLoopE)
  with loop_informed [OF assms(1) _ assms(2), of up] assms(3) show ?thesis by (auto simp: reader_inv_def)
qed

lemma inv_rests:
  assumes "reader_inv reads tracks position envs dn fails (up \<or> sig) pc p" "\<not> (\<exists>t. readerLoop drain l dn (pc, p, sig) t)"
  shows "if dn then pc = Returned
    else fails \<or> (\<exists>ok. pc = Waits ok \<and> \<not> sig \<and> (ok \<and> \<not> up \<longrightarrow> unat (position p) = length envs \<and> tracks envs p))"
proof (cases "pc = Returned")
  case False
  then have "tracks envs p" using assms(1) by (simp add: reader_inv_def)
  from loop_goes_on [OF this _ assms(2)] assms(1) False tracks_upto [of envs p] this show ?thesis
    by (fastforce simp: reader_inv_def)
qed (use assms(1) in \<open>auto simp: reader_inv_def\<close>)

lemma inv_starts:
  assumes "started = Ret p0 \<or> fails" "fails \<longrightarrow> (\<forall>p. started \<noteq> Ret p)" "tracks envs p0"
  shows "reader_inv reads tracks position envs dn fails pending (fst (readerAt started q)) (snd (readerAt started q))"
  using assms by (cases started) (auto simp: reader_inv_def readerAt_def)

end

definition handler_inv :: "'l twal \<Rightarrow> ('l \<Rightarrow> nat) \<Rightarrow> ('l \<Rightarrow> bytes list) \<Rightarrow> database \<Rightarrow> bool \<Rightarrow> bool \<Rightarrow> 'l handler \<Rightarrow> bool" where
  "handler_inv ops base recs d0 dbFails mqFails s \<longleftrightarrow>
     output_reader ops base recs (outLog s) (history s) \<and> (fanAt s = FanReturned \<longrightarrow> ctxDone s) \<and>
     reader_inv (\<lambda>envs l. output_reader ops base recs l envs) (mirrors d0) dbAt (history s) (ctxDone s) dbFails (dbPending s \<or> dbSignal s) (dbReader s) (projecting s) \<and>
     reader_inv (\<lambda>envs l. output_reader ops base recs l envs) relays mqAt (history s) (ctxDone s) mqFails (mqPending s \<or> eventSignal s) (eventReader s) (publishing s)"

text \<open>Appending and cutting leave a log of the history.\<close>

context output_reader
begin

lemma reader_append:
  assumes "AppendWithIndex ops l builder = Ret (l', i)" "builder i = Some (messageFor env)" "rawEvents (envEvents env)"
    and "length envs + 101 < 2 ^ 64"
  shows "output_reader ops base recs l' (envs @ [env])"
proof
  have l': "recs l' = recs l @ [messageFor env]" "base l' = base l"
    using assms(2) by (auto intro: AppendWithIndex_Ret [OF laws assms(1)])
  show "unmarshal OutputEnvelope_Unmarshal (recs l' ! k) = Some ((envs @ [env]) ! (base l' + k))" if "k < length (recs l')" for k
    using that l' history holds [of k] OutputEnvelope_roundtrip [OF assms(3)]
    by (cases "k = length (recs l)") (auto simp: nth_append messageFor_def unmarshal_def)
  show "length (envs @ [env]) = base l' + length (recs l')" using l' history by simp
qed (use laws assms(4) in auto)

lemma reader_cut:
  assumes "TruncateFront ops l i = Truncated l'"
  shows "output_reader ops base recs l' envs"
proof -
  obtain k where "k < length (recs l)" "base l' = base l + k" "recs l' = drop k (recs l)"
    using assms laws unfolding twal_laws_def TruncateFront_def by blast
  then show ?thesis using laws history holds room by unfold_locales (auto simp: add.assoc)
qed

end

lemma goroutines_log: "goroutines ops s s' \<Longrightarrow> outLog s' = outLog s \<and> history s' = history s \<and> ctxDone s' = ctxDone s"
  by (erule goroutines.cases) (auto elim: fanOutSignals.cases)

lemma pending_frame [simp]:
  "dbPending (s\<lparr>dbReader := pc, projecting := p, dbSignal := sig\<rparr>) = dbPending s"
  "mqPending (s\<lparr>dbReader := pc, projecting := p, dbSignal := sig\<rparr>) = mqPending s"
  "dbPending (s\<lparr>eventReader := pc, publishing := q, eventSignal := sig\<rparr>) = dbPending s"
  "mqPending (s\<lparr>eventReader := pc, publishing := q, eventSignal := sig\<rparr>) = mqPending s"
  by (simp_all add: pending_defs)

lemma goroutines_inv:
  assumes "goroutines ops s s'" "handler_inv ops base recs d0 dbFails mqFails s"
  shows "handler_inv ops base recs d0 dbFails mqFails s'"
  using assms
proof (induction rule: goroutines.induct)
  case (fans s s')
  then show ?case
    by (cases rule: fanOutSignals.cases)
      (auto simp: handler_inv_def pending_defs elim!: dbWoken.inv_mono mqWoken.inv_mono)
next
  case (projects s pc p sig)
  then show ?case using dbWoken.inv_loop [OF projects(1)] by (simp add: handler_inv_def)
next
  case (publishes s pc p sig)
  then show ?case using mqWoken.inv_loop [OF publishes(1)] by (simp add: handler_inv_def)
qed (auto simp: handler_inv_def pending_defs elim!: dbWoken.inv_mono mqWoken.inv_mono)

lemma happens_inv:
  assumes "happens ops s s'" "handler_inv ops base recs d0 dbFails mqFails s"
  shows "handler_inv ops base recs d0 dbFails mqFails s'"
  using assms
proof (induction rule: happens.induct)
  case (appended s builder l i env)
  then show ?case
    by (auto simp: handler_inv_def pending_defs intro: output_reader.reader_append dbWoken.inv_append mqWoken.inv_append)
next
  case (cut s i l)
  then show ?case using output_reader.reader_cut [OF _ cut(1)] by (simp add: handler_inv_def pending_defs)
next
  case (db_ticks s ok)
  then show ?case by (auto simp: handler_inv_def pending_defs intro: dbWoken.inv_tick)
next
  case (mq_ticks s ok)
  then show ?case by (auto simp: handler_inv_def pending_defs intro: mqWoken.inv_tick)
qed (auto simp: handler_inv_def pending_defs elim!: dbWoken.inv_mono mqWoken.inv_mono)

lemma handled_inv:
  "handled ops s0 s \<Longrightarrow> handler_inv ops base recs d0 dbFails mqFails s0 \<Longrightarrow> handler_inv ops base recs d0 dbFails mqFails s"
  by (induction rule: handled.induct) (auto intro: goroutines_inv happens_inv)

lemma runs_handled: "(goroutines ops ^^ n) s t \<Longrightarrow> handled ops s0 s \<Longrightarrow> handled ops s0 t"
  by (induction n arbitrary: t) (auto intro: handled_goes)

section \<open>At rest\<close>

definition resting :: "'l twal \<Rightarrow> 'l handler \<Rightarrow> bool" where
  "resting ops s \<longleftrightarrow> \<not> (\<exists>t. goroutines ops s t)"

lemma resting_channels:
  assumes "resting ops s"
  shows "\<not> unannounced s" "fanAt s \<in> {FanSelects, FanReturned}" "fanAt s = FanSelects \<Longrightarrow> \<not> signal s \<and> \<not> ctxDone s"
  using assms announces [of s ops] fans [of s _ ops] fan_stops [of s] fan_receives [of s] fan_notifies_db [of s] fan_notifies_events [of s]
  unfolding resting_def by (cases "fanAt s"; blast)+

lemma resting_readers:
  assumes "resting ops s"
  shows "\<not> (\<exists>t. readerLoop (DBProjector_drain ops) (outLog s) (ctxDone s) (dbReader s, projecting s, dbSignal s) t)"
    and "\<not> (\<exists>t. readerLoop (EventPublisher_drain ops) (outLog s) (ctxDone s) (eventReader s, publishing s, eventSignal s) t)"
  using assms projects [of ops s] publishes [of ops s] unfolding resting_def by (metis prod.collapse)+

lemma resting_state:
  assumes "handler_inv ops base recs d0 dbFails mqFails s" "resting ops s"
  shows "if ctxDone s then fanAt s = FanReturned \<and> dbReader s = Returned \<and> eventReader s = Returned
    else (dbFails \<or> (\<exists>ok. dbReader s = Waits ok \<and>
            (ok \<longrightarrow> unat (dbAt (projecting s)) = length (history s) \<and> mirrors d0 (history s) (projecting s)))) \<and>
         (mqFails \<or> (\<exists>ok. eventReader s = Waits ok \<and>
            (ok \<longrightarrow> unat (mqAt (publishing s)) = length (history s) \<and> relays (history s) (publishing s))))"
proof -
  note inv = assms(1) [unfolded handler_inv_def] and ch = resting_channels [OF assms(2)]
  note db = dbWoken.inv_rests [OF inv [THEN conjunct2, THEN conjunct2, THEN conjunct1] resting_readers(1) [OF assms(2)]]
  note mq = mqWoken.inv_rests [OF inv [THEN conjunct2, THEN conjunct2, THEN conjunct2] resting_readers(2) [OF assms(2)]]
  show ?thesis
  proof (cases "ctxDone s")
    case True
    then show ?thesis using db mq ch by auto
  next
    case False
    then have fan: "fanAt s = FanSelects" using ch(2) inv by auto
    then have "\<not> dbPending s" "\<not> mqPending s" using ch(1,3) by (simp_all add: pending_defs)
    with False db mq show ?thesis by simp blast
  qed
qed

lemma comes_to_rest: "\<exists>n t. (goroutines ops ^^ n) s t \<and> resting ops t"
proof (induction "cost s" arbitrary: s rule: less_induct)
  case less
  show ?case
  proof (cases "resting ops s")
    case True
    then show ?thesis by (intro exI [of _ 0] exI [of _ s]) simp
  next
    case False
    then obtain s' where s': "goroutines ops s s'" by (auto simp: resting_def)
    from less [OF goroutines_cost [OF s']] obtain n t where "(goroutines ops ^^ n) s' t" "resting ops t" by blast
    then show ?thesis using relpowp_Suc_I2 [of "goroutines ops", OF s'] by blast
  qed
qed

lemma Handler_Run_inv:
  assumes "output_reader ops base recs l envs" "DBProjector_start False d = Ret p" "mirrors d0 envs p"
    and "EventPublisher_start False out d = Ret q" "relays envs q"
  shows "handler_inv ops base recs d0 dbFails mqFails (Handler_Run dbFails mqFails l envs out d)"
proof -
  have start: "DBProjector_start dbFails d = Ret p \<or> dbFails" "dbFails \<longrightarrow> (\<forall>p. DBProjector_start dbFails d \<noteq> Ret p)"
    "EventPublisher_start mqFails out d = Ret q \<or> mqFails" "mqFails \<longrightarrow> (\<forall>p. EventPublisher_start mqFails out d \<noteq> Ret p)"
    using assms(2,4) by (cases dbFails; cases mqFails; simp add: DBProjector_start_def EventPublisher_start_def LoadCursor_def)+
  show ?thesis
    using assms(1) by (simp add: handler_inv_def Handler_Run_def Let_def)
      (intro conjI dbWoken.inv_starts [OF start(1,2) assms(3)] mqWoken.inv_starts [OF start(3,4) assms(5)])
qed

text \<open>
  C8: No wake-up is lost. Start the handler on an output log and let the engine append, the cleanup
  cut, the timers fire and the goroutines interleave in any way. Left alone from there, the
  goroutines take at most 40 more steps, and when they can take none, then every reader whose last
  drain went through is at the end of the log and has delivered all of it, although channels drop
  signals; a reader whose last drain failed waits for its timer. When the context has ended, all
  goroutines have returned, and so does \<open>Run\<close>.
\<close>

theorem wakeups_not_lost:
  assumes "output_reader ops base recs l envs" "DBProjector_start False d = Ret p" "mirrors d0 envs p"
    and "EventPublisher_start False out d = Ret q" "relays envs q"
    and "handled ops (Handler_Run dbFails mqFails l envs out d) s" "(goroutines ops ^^ n) s t"
  shows "n \<le> 40 \<and> history t = history s \<and> (resting ops t \<longrightarrow>
    (if ctxDone s then fanAt t = FanReturned \<and> dbReader t = Returned \<and> eventReader t = Returned
     else (dbFails \<or> (\<exists>ok. dbReader t = Waits ok \<and>
             (ok \<longrightarrow> unat (dbAt (projecting t)) = length (history s) \<and> mirrors d0 (history s) (projecting t)))) \<and>
          (mqFails \<or> (\<exists>ok. eventReader t = Waits ok \<and>
             (ok \<longrightarrow> unat (mqAt (publishing t)) = length (history s) \<and> relays (history s) (publishing t))))))"
proof -
  have same: "history t = history s" "ctxDone t = ctxDone s"
    using assms(7) goroutines_log by (induction n arbitrary: t) (simp_all, fastforce+)
  have "handler_inv ops base recs d0 dbFails mqFails t"
    by (rule handled_inv [OF runs_handled [OF assms(7,6)] Handler_Run_inv [OF assms(1-5)]])
  note rest = resting_state [OF this, unfolded same]
  moreover have "n \<le> 40" using goroutines_runs [OF assms(7)] cost_bound [of s] by simp
  ultimately show ?thesis using same(1) by blast
qed

lemma sample_starts:
  "DBProjector_start False sampleDatabase = Ret \<lparr>stored = sampleDatabase, dbAt = 0\<rparr>"
  "EventPublisher_start False [] sampleDatabase = Ret \<lparr>sent = [], mqStored = sampleDatabase, mqAt = 0\<rparr>"
  "relays [sampleEnvelope] \<lparr>sent = [], mqStored = sampleDatabase, mqAt = 0\<rparr>"
  by (simp_all add: DBProjector_start_def EventPublisher_start_def relays_def LoadCursor_def q_LoadCursor_def sampleDatabase_def)

theorem wakeups_not_lost_witness:
  "\<exists>n t. (goroutines memOps ^^ n) (Handler_Run False False sampleLog [sampleEnvelope] [] sampleDatabase) t \<and> n \<le> 40 \<and>
     resting memOps t \<and> (\<exists>ok. dbReader t = Waits ok \<and> (ok \<longrightarrow> mirrors sampleDatabase [sampleEnvelope] (projecting t)))"
proof -
  let ?s = "Handler_Run False False sampleLog [sampleEnvelope] [] sampleDatabase"
  obtain n t where run: "(goroutines memOps ^^ n) ?s t" "resting memOps t" using comes_to_rest by blast
  have s: "history ?s = [sampleEnvelope]" "\<not> ctxDone ?s" by (simp_all add: Handler_Run_def Let_def)
  from wakeups_not_lost [OF sampleLog_reader sample_starts(1) sampleDatabase_mirrors sample_starts(2,3) handled_start run(1)]
    run s show ?thesis by (intro exI [of _ n] exI [of _ t]) auto
qed

text \<open>
  C11: When everything is delivered, the database shows the ledger. In every state of the handler
  in which no signal is on its way to the projector and its last drain went through, the database
  shows the holdings and statuses of the ledger that the requests behind the log have led to, and
  its balances and prices up to two sets: those the database did not show at the beginning, and the
  accounts registered and stocks listed since, each until its first change in the ledger. The
  requests are feasible in the sense of C2, and the rows of the accounts and stocks, which the
  projector does not insert, are in the database with whatever amounts.
\<close>

theorem quiet_database_shows_ledger:
  assumes "output_reader ops base recs l envs" "DBProjector_start False d = Ret p" "mirrors d0 envs p"
    and "EventPublisher_start False out d = Ret q" "relays envs q"
    and "handled ops (Handler_Run dbFails mqFails l envs out d) s"
    and "\<not> unannounced s" "\<not> signal s" "fanAt s \<noteq> FanToDb" "\<not> dbSignal s" "dbReader s = Waits True"
    and "served ops recs (tables d0) A P e (history s)"
  shows "follows A P (state e) (stored (projecting s))"
proof -
  have inv: "handler_inv ops base recs d0 dbFails mqFails s"
    by (rule handled_inv [OF assms(6) Handler_Run_inv [OF assms(1-5)]])
  then have "mirrors d0 (history s) (projecting s)" "\<not> unat (dbAt (projecting s)) < length (history s)"
    using assms(7-11) by (simp_all add: handler_inv_def reader_inv_def pending_defs)
  moreover have "twal_laws ops base recs" using assms(1) by (simp add: output_reader_def)
  ultimately show ?thesis by (intro caught_up_shows [OF _ assms(12)]) (auto simp: mirrors_def)
qed

theorem quiet_database_shows_ledger_witness:
  "\<exists>e l env s. served memOps mlRecs (tables followingDatabase) {} {} e [env] \<and> getAccount (state e) 9 = Some sampleRecipient \<and>
     handled memOps (Handler_Run False False l [env] [] followingDatabase) s \<and> follows {} {} (state e) (stored (projecting s))"
proof -
  obtain e r env d' where h: "served memOps mlRecs (tables followingDatabase) {} {} e [env]"
    "unmarshal OutputEnvelope_Unmarshal r = Some env" "applyEnvelopes (tables followingDatabase, None) [env] = Ret (tables d', None)"
    "getAccount (state e) 9 = Some sampleRecipient"
    by (rule sampleTransfer_served)
  let ?l = "\<lparr>mlBase = 0, mlRecs = [r]\<rparr>" and ?p = "\<lparr>stored = followingDatabase, dbAt = 0\<rparr>"
  let ?q = "\<lparr>sent = [], mqStored = followingDatabase, mqAt = 0\<rparr>"
  let ?s0 = "Handler_Run False False ?l [env] [] followingDatabase"
  have l: "output_reader memOps mlBase mlRecs ?l [env]" by unfold_locales (use h(2) in \<open>simp_all add: memOps_laws\<close>)
  have c: "LoadCursor t False followingDatabase = Ret 0" for t
    by (simp add: LoadCursor_def q_LoadCursor_def followingDatabase_def sampleDatabase_def)
  have m: "mirrors followingDatabase [env] ?p" "relays [env] ?q" by (simp_all add: mirrors_def relays_def c)
  have st: "DBProjector_start False followingDatabase = Ret ?p" "EventPublisher_start False [] followingDatabase = Ret ?q"
    by (simp_all add: DBProjector_start_def EventPublisher_start_def c)
  have pr: "projection memOps mlBase mlRecs ?l [env]" using l by (simp add: projection_def)
  obtain p' where p': "DBProjector_drain memOps ?l (\<lambda>_. None) ?p = Some (p', Ret ())"
    using projection.drain_completes [OF pr memOps_reliable refl h(3) m(1)] by auto
  let ?s1 = "?s0\<lparr>dbReader := Reads ?l, projecting := ?p, dbSignal := False\<rparr>"
  let ?s2 = "?s1\<lparr>dbReader := Waits True, projecting := p', dbSignal := False\<rparr>"
  have s0: "outLog ?s0 = ?l" "dbReader ?s0 = Drains" "projecting ?s0 = ?p" "\<not> dbSignal ?s0" "\<not> unannounced ?s0" "\<not> signal ?s0"
    "fanAt ?s0 = FanSelects" "history ?s0 = [env]"
    by (simp_all add: Handler_Run_def Let_def readerAt_def st)
  have "goroutines memOps ?s0 ?s1" by (rule projects) (use s0 looks in simp)
  moreover have "goroutines memOps ?s1 ?s2"
    by (rule projects) (use s0 drained [of "DBProjector_drain memOps", OF p'] in simp)
  ultimately have run: "handled memOps ?s0 ?s2" by (intro handled_goes [OF handled_goes [OF handled_start]])
  have "follows {} {} (state e) (stored (projecting ?s2))"
    by (rule quiet_database_shows_ledger [OF l st(1) m(1) st(2) m(2) run]) (use s0 h(1) in simp_all)
  with h(1,4) run show ?thesis by (intro exI conjI)
qed

end
