(* ===== verification/Changes.thy ===== *)
theory Changes
  imports Accounting
begin

text \<open>
  What single requests change, to the last share: an edit of a resting order and the adjustments of
  the administrator.
\<close>

section \<open>Edits\<close>

text \<open>
  C30: An edit is a new order without the old one. An accepted edit takes its target out of the
  book, keeps quantity, filled quantity, kind and side and replaces the price and the id; the
  replacement then trades with the counter side in price-time priority, and its rest queues behind
  every order of its side with a price at least as good, also behind those the target was ahead of.
  Nothing else in any book changes, and the ledger invariant and the totals stay.
\<close>

theorem edit_requeues:
  assumes "ledger_inv (state e) no_slack no_slack2" "feasible e (RqOrder x)" "oTradingType x = TRADING_EDIT"
    and "validateOrder (state e) x = (s, None)"
  shows "\<exists>c. Get (bookOf (state e) (oStockId x)) (oTargetId x) = Some c \<and>
    (let r = x\<lparr>oQuantity := oQuantity c, oFilledQuantity := oFilledQuantity c, oOrderType := oOrderType c, oTradingType := oTradingType c\<rparr>;
         t = oTradingType c; e' = fst (edit ops clk (e\<lparr>state := s\<rparr>) x);
         old = (\<lambda>t. filter (\<lambda>y. oId y \<noteq> oTargetId x) (prio (bookOf (state e) (oStockId x)) t));
         new = prio (bookOf (state e') (oStockId x));
         (ts, q, r') = greedy r (old (counterSide t))
     in new (counterSide t) = q \<and> new t = (if rests r' then insertPrio t r' (old t) else old t) \<and>
        (\<forall>i. i \<noteq> oStockId x \<longrightarrow> bookOf (state e') i = bookOf (state e) i) \<and>
        ledger_inv (state e') no_slack no_slack2 \<and> total_cash (state e') = total_cash (state e) \<and>
        total_shares (state e') = total_shares (state e))"
proof -
  let ?e = "e\<lparr>state := s\<rparr>" and ?st = "oStockId x"
  note k = validateOrder_keeps [OF assms(4)]
  have "validateEdit (state e) x = (s, None)"
    using assms(3,4) by (auto simp: validateOrder_def split: if_splits option.splits)
  then obtain c where c: "Get (bookOf (state e) ?st) (oTargetId x) = Some c" "oAccountId c = oAccountId x"
    "oPrice x \<noteq> 0" "validateEditAssets (state e) x c = None" "s = openBook (state e) ?st"
    by (auto elim: validateEdit_target)
  have hyps: "ledger_inv (state ?e) no_slack no_slack2" "Get (bookOf (state ?e) ?st) (oTargetId x) = Some c"
    "validateEditAssets (state ?e) x c = None" "Get (bookOf (state ?e) ?st) (oId x) = None"
    "lastTradeID ?e + int (unat (remaining c)) \<le> int64_max"
    using assms(1-3) c k by (simp_all add: fillable_def targetOf_def)
  obtain e0 e1 evs where E: "edit ops clk ?e x = orPanic (appendOutput ops clk e1
       (ev PatternOrderReplaced (EvOrder (orderEvent c)) #
        mergeOrderBookLevel evs (levelOf (state e1) ?st c) (oStockId c)))"
    "sound_step ?e e1 (ev PatternOrderReplaced (EvOrder (orderEvent c)) #
        mergeOrderBookLevel evs (levelOf (state e1) ?st c) (oStockId c))"
    "match_spec (replacementOf x c) e0 e1 evs"
    "\<And>t. is_side t \<Longrightarrow> prio (bookOf (state e0) ?st) t = filter (\<lambda>y. oId y \<noteq> oTargetId x) (prio (bookOf (state ?e) ?st) t)"
    "\<And>i. i \<noteq> ?st \<Longrightarrow> bookOf (state e0) i = bookOf (state ?e) i"
    by (rule edit_sound [OF hyps(1,2) c(2,3) hyps(3-5), of ops clk]) blast
  have e1: "state (fst (edit ops clk ?e x)) = state e1" by (simp add: E(1))
  have side: "is_side (oTradingType c)" using resting_facts [OF assms(1) c(1)] by blast
  have books: "bookOf s i = bookOf (state e) i" for i using k by simp
  have kept: "kept (state e) (state e1) 0 (\<lambda>_. 0)" using kept_edit [OF assms(1,2,4,3), of ops clk] by (simp only: e1)
  show ?thesis
    using c(1) E(3-5) side books kept unfolding match_spec_def replacementOf_def kept_def
    by (auto simp: Let_def e1 fun_eq_iff split: prod.splits)
qed

definition sampleEdit :: Order where
  "sampleEdit = (sampleOrder 3 7 TRADING_EDIT 120 0)\<lparr>oTargetId := 1\<rparr>"

lemma sampleEdit_simps [simp]:
  "oId sampleEdit = 3" "oAccountId sampleEdit = 7" "oStockId sampleEdit = 1" "oTargetId sampleEdit = 1" "oPrice sampleEdit = 120"
  "oTradingType sampleEdit = TRADING_EDIT"
  by (simp_all add: sampleEdit_def sampleOrder_def)

lemma sampleEdit_accepted: "validateOrder sampleState sampleEdit = (openBook sampleState 1, None)"
  by (simp add: validateOrder_def validateStock_def sample_rows validateEdit_def validateTargetRequest_def bookOf_sample Get_sample
      validateEditAssets_def Let_def)

theorem edit_requeues_witness:
  "\<exists>r. oId r = 3 \<and> oPrice r = 120 \<and> oQuantity r = 5 \<and>
     prio (bookOf (state (fst (edit memOps sampleClock (sampleEngine\<lparr>state := openBook sampleState 1\<rparr>) sampleEdit))) 1) TRADING_SELL = [r]"
proof -
  let ?r = "sampleEdit\<lparr>oQuantity := 5, oFilledQuantity := 0, oOrderType := ORDER_LIMIT, oTradingType := TRADING_SELL\<rparr>"
  have f: "feasible sampleEngine (RqOrder sampleEdit)"
    by (simp add: bookOf_sample Get_sample is_side_def fillable_def targetOf_def)
  have v: "validateOrder (state sampleEngine) sampleEdit = (openBook sampleState 1, None)" using sampleEdit_accepted by simp
  from edit_requeues [OF sample_hyps(1) f _ v, of memOps sampleClock]
  have "prio (bookOf (state (fst (edit memOps sampleClock (sampleEngine\<lparr>state := openBook sampleState 1\<rparr>) sampleEdit))) 1) TRADING_SELL = [?r]"
    by (simp add: bookOf_sample Get_sample prio_sample counterSide_def rests_def insertPrio_def Let_def)
  then show ?thesis by (intro exI [of _ ?r]) simp
qed

section \<open>Adjustments\<close>

text \<open>What an adjustment adds to the cash of an account and to its shares of a stock.\<close>

fun cashDelta :: "request \<Rightarrow> int32 \<Rightarrow> int" where
  "cashDelta (RqBalance r) a = (if a = baAccountId r then baDelta r else 0)"
| "cashDelta _ a = 0"

fun sharesDelta :: "request \<Rightarrow> int32 \<Rightarrow> int32 \<Rightarrow> int" where
  "sharesDelta (RqShares r) a st = (if a = sbaAccountId r \<and> st = sbaStockId r then sbaDelta r else 0)"
| "sharesDelta _ a st = 0"

text \<open>
  The cost of a holding: the average price is the request's for a new holding and stays otherwise,
  the total buy amount changes by the shares times that average, modulo \<open>2 ^ 64\<close>, and a holding
  without shares costs nothing.
\<close>

definition costed :: "StockBalanceAdjust \<Rightarrow> StockBalance option \<Rightarrow> StockBalance \<Rightarrow> bool" where
  "costed r old h \<longleftrightarrow>
     (let average = (case old of None \<Rightarrow> sbaAverage r | Some g \<Rightarrow> hAverage g);
          total = (case old of None \<Rightarrow> 0 | Some g \<Rightarrow> hTotalBuyAmount g)
      in if hQuantity h = 0 then hAverage h = 0 \<and> hTotalBuyAmount h = 0
         else hAverage h = average \<and> hTotalBuyAmount h = total + word_of_int (sbaDelta r) * average)"

definition adjusted :: "request \<Rightarrow> State \<Rightarrow> State \<Rightarrow> bool" where
  "adjusted rq s s' \<longleftrightarrow>
     (\<forall>a. int (bal s' a) = int (bal s a) + cashDelta rq a \<and> int (avl s' a) = int (avl s a) + cashDelta rq a) \<and>
     (\<forall>a st. int (qty s' a st) = int (qty s a st) + sharesDelta rq a st \<and> int (avq s' a st) = int (avq s a st) + sharesDelta rq a st) \<and>
     (\<forall>a. (\<forall>r. rq = RqBalance r \<longrightarrow> a \<noteq> baAccountId r) \<longrightarrow> getAccount s' a = getAccount s a) \<and>
     (\<forall>a st. (\<forall>r. rq = RqShares r \<longrightarrow> a \<noteq> sbaAccountId r \<or> st \<noteq> sbaStockId r) \<longrightarrow> getHolding s' a st = getHolding s a st) \<and>
     (\<forall>r. rq = RqShares r \<longrightarrow> (\<exists>h. getHolding s' (sbaAccountId r) (sbaStockId r) = Some h \<and>
        costed r (getHolding s (sbaAccountId r) (sbaStockId r)) h)) \<and>
     OrderBooks s' = OrderBooks s \<and> Stocks s' = Stocks s"

lemma balance_adjusted:
  assumes "ledger_inv (state e) no_slack no_slack2" "feasible e (RqBalance r)" "validateBalanceAdjust (state e) r = None"
  shows "adjusted (RqBalance r) (state e) (state (fst (applyBalanceAdjust ops clk e r)))"
proof -
  obtain acc where a: "getAccount (state e) (baAccountId r) = Some acc"
    "adjusts (bal (state e) (baAccountId r)) (baDelta r) (bal (setAccount (state e) (adjustedAccount acc (baDelta r))) (baAccountId r))"
    "adjusts (avl (state e) (baAccountId r)) (baDelta r) (avl (setAccount (state e) (adjustedAccount acc (baDelta r))) (baAccountId r))"
    by (rule balanceAdjust_sound [OF assms(1,3)]) (use assms(2) in simp_all)
  have s: "state (fst (applyBalanceAdjust ops clk e r)) = setAccount (state e) (adjustedAccount acc (baDelta r))"
    using assms(3) a(1) by (simp add: applyBalanceAdjust_def adminRequestCompleted_def now_def Let_def)
  have "aId acc = baAccountId r" using keys_getD(1) [OF _ a(1)] assms(1) by (simp add: ledger_inv_def)
  then have "aId (adjustedAccount acc (baDelta r)) = baAccountId r" by (simp add: adjustedAccount_def Let_def)
  with a(2,3) show ?thesis unfolding s adjusted_def by (auto simp: adjusts_def)
qed

lemma costed_adjusted:
  assumes "validateStockBalanceAdjust s r = None" "int64_min \<le> sbaDelta r" "sbaDelta r \<le> int64_max"
    and "int (unat (hQuantity (adjustedHolding s r))) = int (qty s (sbaAccountId r) (sbaStockId r)) + sbaDelta r"
  shows "costed r (getHolding s (sbaAccountId r) (sbaStockId r)) (adjustedHolding s r)"
proof (cases "getHolding s (sbaAccountId r) (sbaStockId r)")
  case None
  then have "sbaDelta r > 0" using assms(1) by (auto simp: validateStockBalanceAdjust_def split: if_splits)
  then have "hQuantity (adjustedHolding s r) \<noteq> 0" using assms(4) by auto
  with None show ?thesis by (auto simp: costed_def adjustedHolding_def uint64_of_def Let_def)
next
  case (Some g)
  show ?thesis
  proof (cases "sbaDelta r < 0")
    case True
    then show ?thesis using Some by (auto simp: costed_def adjustedHolding_def uint64_of_def Let_def eq_neg_iff_add_eq_0)
  next
    case False
    then have "sbaDelta r > 0" using assms(1) by (auto simp: validateStockBalanceAdjust_def split: if_splits)
    then have "hQuantity (adjustedHolding s r) \<noteq> 0" using assms(4) by auto
    with Some False show ?thesis by (auto simp: costed_def adjustedHolding_def uint64_of_def Let_def)
  qed
qed

lemma shares_adjusted:
  assumes "ledger_inv (state e) no_slack no_slack2" "feasible e (RqShares r)" "validateStockBalanceAdjust (state e) r = None"
  shows "adjusted (RqShares r) (state e) (state (fst (applyStockBalanceAdjust ops clk e r)))"
proof -
  let ?h = "adjustedHolding (state e) r"
  have d: "int64_min \<le> sbaDelta r" "sbaDelta r \<le> int64_max" "int (total_shares (state e) (sbaStockId r)) + sbaDelta r < 2 ^ 63"
    using assms(2) by simp_all
  have s: "state (fst (applyStockBalanceAdjust ops clk e r)) = setHolding (state e) ?h"
    using assms(3) by (simp add: applyStockBalanceAdjust_def adminRequestCompleted_def now_def Let_def)
  have key: "hAccountId ?h = sbaAccountId r \<and> hStockId ?h = sbaStockId r"
  proof (cases "getHolding (state e) (sbaAccountId r) (sbaStockId r)")
    case (Some h)
    then show ?thesis using keys_getD(2) [OF _ Some] assms(1) by (simp add: adjustedHolding_def ledger_inv_def Let_def)
  qed (simp add: adjustedHolding_def Let_def)
  note S = stockAdjust_sound(3,4) [OF assms(1,3) d]
  have q: "int (unat (hQuantity ?h)) = int (qty (state e) (sbaAccountId r) (sbaStockId r)) + sbaDelta r"
    using S(1) key by (simp add: adjusts_def)
  show ?thesis
    using S key costed_adjusted [OF assms(3) d(1,2) q] unfolding s adjusted_def by (auto simp: adjusts_def)
qed

text \<open>
  C31: An adjustment changes exactly what it names. When the administrator's deposit or withdrawal
  of cash is accepted, and it does not overflow the total cash of the exchange, balance and available
  balance of the account change by the amount, without wrapping around, and every other account, all
  holdings, all books and all stocks stay as they are. For an accepted deposit or withdrawal of shares
  that leaves fewer than \<open>2 ^ 63\<close> shares of the stock in the exchange the same holds of the holding it
  names: quantity and available quantity change by the amount; the average price is the request's for
  a new holding and stays otherwise; the total buy amount changes by the shares times the average,
  modulo \<open>2 ^ 64\<close>; both are zero when no shares are left; and every other holding, all accounts,
  books and stocks stay as they are. (The code does not check for the overflow; see the finding
  on \<^verbatim>\<open>handle_admin.go\<close>.)
\<close>

theorem adjustments_exact:
  assumes "ledger_inv (state e) no_slack no_slack2" "feasible e rq" "refusal (state e) rq = None"
    and "rq = RqBalance b \<or> rq = RqShares h"
  shows "adjusted rq (state e) (state (fst (applyRequest ops clk e rq)))"
  using assms balance_adjusted [OF assms(1), of b ops clk] shares_adjusted [OF assms(1), of h ops clk] by auto

definition sampleShares :: StockBalanceAdjust where
  "sampleShares = \<lparr>sbaId = 6, sbaAccountId = 7, sbaStockId = 1, sbaDelta = -4, sbaAverage = 0\<rparr>"

theorem adjustments_exact_witness:
  "adjusted (RqBalance \<lparr>baId = 5, baAccountId = 7, baDelta = -300\<rparr>) (state sampleEngine)
     (state (fst (applyRequest memOps sampleClock sampleEngine (RqBalance \<lparr>baId = 5, baAccountId = 7, baDelta = -300\<rparr>)))) \<and>
   adjusted (RqShares sampleShares) (state sampleEngine)
     (state (fst (applyRequest memOps sampleClock sampleEngine (RqShares sampleShares))))"
proof (intro conjI)
  show "adjusted (RqBalance \<lparr>baId = 5, baAccountId = 7, baDelta = -300\<rparr>) (state sampleEngine)
     (state (fst (applyRequest memOps sampleClock sampleEngine (RqBalance \<lparr>baId = 5, baAccountId = 7, baDelta = -300\<rparr>))))"
    by (rule adjustments_exact [OF sample_hyps(1) _ _ disjI1 [OF refl]])
      (simp_all add: sample_totals validateBalanceAdjust_def sample_rows uint64_of_def)
  show "adjusted (RqShares sampleShares) (state sampleEngine)
     (state (fst (applyRequest memOps sampleClock sampleEngine (RqShares sampleShares))))"
    by (rule adjustments_exact [OF sample_hyps(1) _ _ disjI2 [OF refl]])
      (simp_all add: sampleShares_def sample_totals validateStockBalanceAdjust_def sample_rows uint64_of_def)
qed

end
