(* ===== verification/MarketData.thy ===== *)
theory MarketData
  imports Reporting Accounting
begin

text \<open>
  Market data: the price levels an order request publishes. Every level of the book whose
  quantity changed is part of the book event of the request, with the quantity the level has
  afterwards, and every published level is one of the book.
\<close>

section \<open>The quantity of a level\<close>

lemma LevelQuantity_level: "LevelQuantity b t p = sum_list (map (\<lambda>x. remaining x) (level b t p))"
proof -
  have "foldl (\<lambda>sum a. sum + remaining (elemValue b a)) z as = z + sum_list (map (\<lambda>a. remaining (elemValue b a)) as)" for z as
    by (induction as arbitrary: z) (simp_all add: add.assoc)
  then show ?thesis
    by (simp add: LevelQuantity_def levelQuantity_def level_def comp_def split: option.split)
qed

lemma level_prio:
  assumes "wf_book b" "is_side t"
  shows "level b t p = filter (\<lambda>x. oPrice x = p) (prio b t)"
proof -
  have f: "filter (\<lambda>x. oPrice x = p) (level b t q) = (if q = p then level b t q else [])" for q
    using level_Get(3) [OF assms] by (auto simp: filter_id_conv filter_empty_conv)
  have "filter (\<lambda>x. oPrice x = p) (concat (map (level b t) ps)) = (if p \<in> set ps then level b t p else [])"
    if "distinct ps" for ps
    using that by (induction ps) (auto simp: f)
  moreover have "distinct (bestFirst b t)"
    using sidePrices_ascending [OF assms] by (auto simp: bestFirst_def strict_sorted_iff)
  ultimately show ?thesis using set_bestFirst [OF assms, of p] by (auto simp: prio_def)
qed

lemma LevelQuantity_prio:
  "wf_book b \<Longrightarrow> is_side t \<Longrightarrow>
   LevelQuantity b t p = sum_list (map (\<lambda>x. remaining x) (filter (\<lambda>x. oPrice x = p) (prio b t)))"
  by (simp add: LevelQuantity_level level_prio)

text \<open>The walk changes the levels it trades at, an insertion the level of the inserted order.\<close>

lemma greedy_levels:
  "greedy x q = (ts, q', x') \<Longrightarrow> p \<notin> oPrice ` fst ` set ts \<Longrightarrow>
   filter (\<lambda>y. oPrice y = p) q' = filter (\<lambda>y. oPrice y = p) q"
proof (induction x q arbitrary: ts q' x' rule: greedy.induct)
  case (2 x c cs)
  show ?case
  proof (cases "remaining x = 0 \<or> priceRefused x (oPrice c) \<or> remaining x < remaining c")
    case True
    with 2 show ?thesis by (auto split: if_splits)
  next
    case False
    then obtain us where g: "greedy (fill_order (remaining c) x) cs = (us, q', x')" "ts = (c, remaining c) # us"
      using "2.prems"(1) by (auto simp: Let_def split: prod.splits if_splits)
    then show ?thesis using "2.IH" [OF _ _ g(1)] "2.prems"(2) False by auto
  qed
qed simp

lemma insertPrio_levels: "oPrice x \<noteq> p \<Longrightarrow> filter (\<lambda>y. oPrice y = p) (insertPrio t x q) = filter (\<lambda>y. oPrice y = p) q"
  unfolding insertPrio_def Let_def by simp (metis filter_append takeWhile_dropWhile_id)

section \<open>Published levels\<close>

definition levelsIn :: "outEvent \<Rightarrow> (int32 \<times> OrderBookLevel) list" where
  "levelsIn e = (case data e of EvBook u \<Rightarrow> map (Pair (obuStockId u)) (obuLevels u) | _ \<Rightarrow> [])"

definition levelsOf :: "outEvent list \<Rightarrow> (int32 \<times> OrderBookLevel) list" where
  "levelsOf evs = concat (map levelsIn evs)"

definition bookish :: "int32 \<Rightarrow> outEvent \<Rightarrow> bool" where
  "bookish st e = (case data e of EvBook u \<Rightarrow> pattern e = PatternOrderBookUpdated \<and> obuStockId u = st | _ \<Rightarrow> True)"

text \<open>
  Every level in the events is a level of the book afterwards, with its quantity, and every
  level whose quantity differs from before is among them.
\<close>

definition publishes :: "int32 \<Rightarrow> outEvent list \<Rightarrow> OrderBook \<Rightarrow> OrderBook \<Rightarrow> bool" where
  "publishes st evs b b' \<longleftrightarrow> list_all (bookish st) evs \<and>
     (\<forall>(i, l) \<in> set (levelsOf evs). i = st \<and>
        (\<exists>t. is_side t \<and> lvSide l = orderBookSide t \<and> lvQuantity l = LevelQuantity b' t (lvPrice l))) \<and>
     (\<forall>t p. is_side t \<longrightarrow> LevelQuantity b' t p \<noteq> LevelQuantity b t p \<longrightarrow>
        (\<exists>l. (st, l) \<in> set (levelsOf evs) \<and> lvSide l = orderBookSide t \<and> lvPrice l = p))"

definition publishesOnly :: "int32 \<Rightarrow> outEvent list \<Rightarrow> State \<Rightarrow> State \<Rightarrow> bool" where
  "publishesOnly st evs s s' \<longleftrightarrow>
     publishes st evs (bookOf s st) (bookOf s' st) \<and> (\<forall>i. i \<noteq> st \<longrightarrow> bookOf s' i = bookOf s i)"

lemma levelsOf_simps [simp]:
  "levelsOf [] = []" "levelsOf (e # evs) = levelsIn e @ levelsOf evs" "levelsOf (evs @ evs') = levelsOf evs @ levelsOf evs'"
  by (simp_all add: levelsOf_def)

lemma levelsIn_ev [simp]:
  "levelsIn (ev p (EvTrade tr)) = []" "levelsIn (ev p (EvOrder oe)) = []" "levelsIn (ev p (EvRejected r)) = []"
  "levelsIn (ev p (EvAccount a)) = []" "levelsIn (ev p (EvHolding h)) = []" "levelsIn (ev p (EvStock t)) = []"
  "levelsIn (ev p (EvBook u)) = map (Pair (obuStockId u)) (obuLevels u)"
  by (simp_all add: levelsIn_def)

lemma bookish_ev [simp]:
  "bookish st (ev p (EvTrade tr))" "bookish st (ev p (EvOrder oe))" "bookish st (ev p (EvRejected r))"
  "bookish st (ev p (EvAccount a))" "bookish st (ev p (EvHolding h))" "bookish st (ev p (EvStock t))"
  "bookish st (ev p (EvBook u)) \<longleftrightarrow> p = PatternOrderBookUpdated \<and> obuStockId u = st"
  by (simp_all add: bookish_def)

lemma levelsOf_levelEvents:
  "levelsOf (levelEvents s st L) =
     map (\<lambda>(t, p). (st, \<lparr>lvSide = orderBookSide t, lvPrice = p, lvQuantity = LevelQuantity (bookOf s st) t p\<rparr>)) L"
  "list_all (bookish st) (levelEvents s st L)"
  by (auto simp: levelEvents_def)

lemma publishesI:
  assumes "\<And>t p. (t, p) \<in> set L \<Longrightarrow> is_side t"
    and "\<And>t p. is_side t \<Longrightarrow> LevelQuantity (bookOf s st) t p \<noteq> LevelQuantity b t p \<Longrightarrow> (t, p) \<in> set L"
    and "levelsOf evs = levelsOf (levelEvents s st L)" "list_all (bookish st) evs"
  shows "publishes st evs b (bookOf s st)"
  unfolding publishes_def assms(3) levelsOf_levelEvents(1)
proof (intro conjI allI impI)
  fix t p assume "is_side t" "LevelQuantity (bookOf s st) t p \<noteq> LevelQuantity b t p"
  from assms(2) [OF this]
  show "\<exists>l. (st, l) \<in> set (map (\<lambda>(t, p). (st, \<lparr>lvSide = orderBookSide t, lvPrice = p,
        lvQuantity = LevelQuantity (bookOf s st) t p\<rparr>)) L) \<and> lvSide l = orderBookSide t \<and> lvPrice l = p"
    by (intro exI [of _ "\<lparr>lvSide = orderBookSide t, lvPrice = p, lvQuantity = LevelQuantity (bookOf s st) t p\<rparr>"]) force
qed (use assms(1,4) in \<open>auto, blast\<close>)

section \<open>Matching\<close>

lemma set_track_foldl:
  "set (foldl (\<lambda>l (c, f). track (t, oPrice c) l) A ts) = set A \<union> (\<lambda>(c, f). (t, oPrice c)) ` set ts"
  by (induction ts arbitrary: A) auto

lemma accountEvents_bookless:
  "levelsOf (concat (map (accountEvents s st) ids)) = []" "list_all (bookish i) (concat (map (accountEvents s st) ids))"
  by (induction ids) (auto simp: accountEvents_def split: option.splits)

lemma traded_bookless: "list_all traded evs \<Longrightarrow> levelsOf evs = [] \<and> list_all (bookish st) evs"
  by (induction evs) (auto simp: traded_def levelsIn_def bookish_def)

lemma takerEvent_bookless: "levelsIn (fst (takerEvent clk e x)) = []" "bookish st (fst (takerEvent clk e x))"
  by (simp_all add: takerEvent_def now_def Let_def)

lemma restOrder_affected:
  "mAffected (snd (restOrder s m)) =
     (if rests (mOrder m) then track (oTradingType (mOrder m), oPrice (mOrder m)) (mAffected m) else mAffected m)"
  by (simp add: restOrder_def rests_def Let_def)

lemma match_levels:
  assumes b: "wf_book b" "wf_book b'" and t: "is_side t" "is_side t'"
    and g: "greedy x (prio b (counterSide t)) = (ts, prio b' (counterSide t), x')"
    and own: "prio b' t = (if rests x' then insertPrio t x' (prio b t) else prio b t)"
    and d: "LevelQuantity b' t' p \<noteq> LevelQuantity b t' p"
  shows "(t', p) \<in> (\<lambda>(c, f). (counterSide t, oPrice c)) ` set ts \<union> (if rests x' then {(t, oPrice x')} else {})"
proof (cases "t' = t")
  case True
  then show ?thesis
    using d own insertPrio_levels [of x' p t] by (auto simp: LevelQuantity_prio b t split: if_splits)
next
  case False
  then have t': "t' = counterSide t" using t by (auto simp: is_side_def counterSide_def split: TradingType.splits)
  have "p \<in> oPrice ` fst ` set ts"
  proof (rule ccontr)
    assume "p \<notin> oPrice ` fst ` set ts"
    from greedy_levels [OF g this] d t(2) t' show False by (simp add: LevelQuantity_prio b)
  qed
  then show ?thesis using t' by force
qed

lemma matchEvents_publishes:
  assumes inv: "ledger_inv (state e) no_slack no_slack2" and ok: "matchable (state e) x"
    and ids: "lastTradeID e + int (unat (remaining x)) \<le> int64_max"
    and m: "matchEvents clk e x = (e', Ret evs)"
  shows "publishesOnly (oStockId x) evs (state e) (state e')"
proof -
  let ?st = "oStockId x" and ?t = "oTradingType x" and ?c = "counterSide (oTradingType x)"
  define s0 where "s0 = lockAssets (openBook (state e) ?st) x (remaining x)"
  note start = start_loop_inv [OF inv ok ids, folded s0_def]
  obtain e1 m1 ts where l: "matchLoop clk (e\<lparr>state := s0\<rparr>) (startVars x) = (e1, Ret m1)" "loop_inv x e1 m1"
    "step_rel x ts (e\<lparr>state := s0\<rparr>) (startVars x) e1 m1"
    "greedy x (prio (bookOf (state e) ?st) ?c) = (ts, prio (bookOf (state e1) ?st) ?c, mOrder m1)"
    using matchLoop_spec [OF start(1), of clk] start(3) by (auto simp: startVars_def)
  obtain s m2 u where fin: "finishState (state e1) m1 (oFilledQuantity x) = (s, m2, u)" by (metis prod_cases3)
  have x: "oPrice x \<noteq> 0" "oOrderType x = ORDER_LIMIT \<or> oOrderType x = ORDER_MARKET" "oFilledQuantity x \<le> oQuantity x"
    "is_side ?t" using ok by (auto simp: matchable_def is_side_def)
  note F = finish_inv [OF l(2) x(1-3) fin] and D = loop_invD [OF l(2)]
  let ?tk = "fst (takerEvent clk (e1\<lparr>state := s\<rparr>) (mOrder m2))"
  have evs: "evs = mEvents m2 @ ?tk # levelEvents s ?st (mAffected m2) @
      concat (map (accountEvents s ?st) (mAccountIDs m2)) @
      (case u of None \<Rightarrow> [] | Some t \<Rightarrow> [ev PatternStockUpdated (EvStock t)])" "state e' = s"
    using m l(1) fin takerEvent_state [of clk "e1\<lparr>state := s\<rparr>" "mOrder m2"]
    by (auto simp: matchEvents_eq s0_def closeMatch_def Let_def split: prod.splits)
  have spec: "match_spec x e e' evs" by (rule matchEvents_spec [OF inv ok ids, of clk]) (use m in simp)
  have spec': "greedy x (prio (bookOf (state e) ?st) ?c) = (ts, prio (bookOf s ?st) ?c, mOrder m1)"
    "prio (bookOf s ?st) ?t = (if rests (mOrder m1) then insertPrio ?t (mOrder m1) (prio (bookOf (state e) ?st) ?t)
       else prio (bookOf (state e) ?st) ?t)"
    "\<And>i. i \<noteq> ?st \<Longrightarrow> bookOf s i = bookOf (state e) i"
    using spec l(4) by (simp_all add: match_spec_def Let_def evs(2))
  have wf: "wf_book (bookOf (state e) ?st)" "wf_book (bookOf s ?st)"
    using inv F(1) by (auto simp: ledger_inv_def books_ok_def book_ok_def)
  have aff: "set (mAffected m2) = (\<lambda>(c, f). (?c, oPrice c)) ` set ts \<union> (if rests (mOrder m1) then {(?t, oPrice (mOrder m1))} else {})"
    using l(3) by (simp add: F(5) restOrder_affected step_rel_def set_track_foldl D startVars_def)
  have "list_all traded (mEvents m1)"
  proof -
    have "keys_ok (state (e\<lparr>state := s0\<rparr>))" using start(1) by (simp add: loop_inv_def ledger_inv_def)
    from matchLoop_reporting [OF l(1) this] show ?thesis by (simp add: reporting_def startVars_def track_def)
  qed
  then have tr: "list_all traded (mEvents m2)" by (simp add: F(5))
  have "publishes ?st evs (bookOf (state e) ?st) (bookOf s ?st)"
  proof (rule publishesI)
    fix t p assume "(t, p) \<in> set (mAffected m2)"
    then show "is_side t" using x(4) by (auto simp: aff is_side_def counterSide_def split: if_splits TradingType.splits)
  next
    fix t p assume "is_side t" "LevelQuantity (bookOf s ?st) t p \<noteq> LevelQuantity (bookOf (state e) ?st) t p"
    then show "(t, p) \<in> set (mAffected m2)"
      unfolding aff by (intro match_levels [OF wf x(4) _ spec'(1,2)])
  next
    show "levelsOf evs = levelsOf (levelEvents s ?st (mAffected m2))" "list_all (bookish ?st) evs"
      using traded_bookless [OF tr, of ?st] levelsOf_levelEvents(2) [of ?st s "mAffected m2"]
      by (auto simp: evs(1) accountEvents_bookless takerEvent_bookless split: option.splits)
  qed
  then show ?thesis using spec'(3) by (simp add: publishesOnly_def evs(2))
qed

section \<open>Cancellations and edits\<close>

lemma remove_levels:
  assumes b: "wf_book b" "wf_book b'" and t: "is_side t"
    and r: "prio b' t = filter (\<lambda>y. oId y \<noteq> i) (prio b t)" and c: "Get b i = Some c"
    and d: "LevelQuantity b' t p \<noteq> LevelQuantity b t p"
  shows "(t, p) = (oTradingType c, oPrice c)"
proof -
  have "filter (\<lambda>y. oPrice y = p) (prio b' t) \<noteq> filter (\<lambda>y. oPrice y = p) (prio b t)"
    using d by (auto simp: LevelQuantity_prio b t)
  then have "\<exists>y \<in> set (prio b t). oPrice y = p \<and> oId y = i"
    by (auto simp: r filter_eq_iff intro: filter_cong)
  then show ?thesis using set_prio [OF b(1) t] c by auto
qed

lemma publishes_cancel:
  assumes inv: "ledger_inv (state e) no_slack no_slack2"
    and c: "Get (bookOf (state e) (oStockId x)) (oTargetId x) = Some c"
  shows "tells (publishesOnly (oStockId x)) ops clk e (cancel ops clk e x)"
proof -
  let ?st = "oStockId x"
  obtain s1 where s1: "removeAndRelease (openBook (state e) ?st) c = Some (True, s1)" "ledger_inv s1 no_slack no_slack2"
    "\<And>t. is_side t \<Longrightarrow> prio (bookOf s1 ?st) t = filter (\<lambda>y. oId y \<noteq> oTargetId x) (prio (bookOf (state e) ?st) t)"
    "\<And>j. j \<noteq> ?st \<Longrightarrow> bookOf s1 j = bookOf (state e) j"
    by (rule cancel_state [OF inv c, of ops clk]) blast
  have F: "oStockId c = ?st" "is_side (oTradingType c)" using resting_facts [OF inv c] by auto
  have wf: "wf_book (bookOf (state e) ?st)" "wf_book (bookOf s1 ?st)"
    using inv s1(2) by (auto simp: ledger_inv_def books_ok_def book_ok_def)
  have "publishes ?st (cancelEvents s1 x c) (bookOf (state e) ?st) (bookOf s1 ?st)"
  proof (rule publishesI [of "[(oTradingType c, oPrice c)]"])
    show "(t, p) \<in> set [(oTradingType c, oPrice c)]"
      if "is_side t" "LevelQuantity (bookOf s1 ?st) t p \<noteq> LevelQuantity (bookOf (state e) ?st) t p" for t p
      using remove_levels [OF wf that(1) s1(3) [OF that(1)] c that(2)] by simp
    show "levelsOf (cancelEvents s1 x c) = levelsOf (levelEvents s1 ?st [(oTradingType c, oPrice c)])"
      unfolding cancelEvents_def levelsOf_levelEvents
      by (simp add: levelOf_def F(1) split: TradingType.split option.split)
    show "list_all (bookish ?st) (cancelEvents s1 x c)"
      unfolding cancelEvents_def by (simp add: F(1) split: TradingType.split option.split)
  qed (use F(2) in simp)
  then have "publishesOnly ?st (cancelEvents s1 x c) (state e) s1" using s1(4) by (simp add: publishesOnly_def)
  then show ?thesis
    using c s1(1) by (auto simp: cancel_def Let_def cancelEvents_def intro!: tellsI(2))
qed

lemma mergeOrderBookLevel_levels:
  "list_all (bookish st) evs \<Longrightarrow> set (levelsOf (mergeOrderBookLevel evs l st)) = insert (st, l) (set (levelsOf evs)) \<and>
     list_all (bookish st) (mergeOrderBookLevel evs l st)"
proof (induction evs)
  case (Cons e evs)
  then show ?case by (cases "data e") (auto simp: bookish_def levelsIn_def)
qed simp

lemma publishes_merge:
  assumes "publishes st evs b b2" "is_side t"
    and "\<And>t' p'. is_side t' \<Longrightarrow> LevelQuantity b t' p' \<noteq> LevelQuantity b0 t' p' \<Longrightarrow> (t', p') = (t, p)"
    and "l = \<lparr>lvSide = orderBookSide t, lvPrice = p, lvQuantity = LevelQuantity b2 t p\<rparr>"
  shows "publishes st (mergeOrderBookLevel evs l st) b0 b2"
proof -
  have m: "set (levelsOf (mergeOrderBookLevel evs l st)) = insert (st, l) (set (levelsOf evs))"
    "list_all (bookish st) (mergeOrderBookLevel evs l st)"
    using mergeOrderBookLevel_levels [of st evs l] assms(1) by (auto simp: publishes_def)
  show ?thesis
    unfolding publishes_def m(1)
  proof (intro conjI allI impI m(2))
    show "\<forall>(i, l) \<in> insert (st, l) (set (levelsOf evs)). i = st \<and>
        (\<exists>t. is_side t \<and> lvSide l = orderBookSide t \<and> lvQuantity l = LevelQuantity b2 t (lvPrice l))"
      using assms(1,2) by (auto simp: publishes_def assms(4))
    fix t' p' assume d: "is_side t'" "LevelQuantity b2 t' p' \<noteq> LevelQuantity b0 t' p'"
    show "\<exists>l'. (st, l') \<in> insert (st, l) (set (levelsOf evs)) \<and> lvSide l' = orderBookSide t' \<and> lvPrice l' = p'"
    proof (cases "LevelQuantity b t' p' = LevelQuantity b0 t' p'")
      case True
      then have "LevelQuantity b2 t' p' \<noteq> LevelQuantity b t' p'" using d(2) by simp
      then show ?thesis using assms(1) d(1) unfolding publishes_def by blast
    next
      case False
      from assms(3) [OF d(1) this] show ?thesis by (intro exI [of _ l]) (simp add: assms(4))
    qed
  qed
qed

lemma publishes_edit:
  assumes inv: "ledger_inv (state e) no_slack no_slack2"
    and c: "Get (bookOf (state e) (oStockId x)) (oTargetId x) = Some c" "oAccountId c = oAccountId x"
      "oPrice x \<noteq> 0" "validateEditAssets (state e) x c = None" "Get (bookOf (state e) (oStockId x)) (oId x) = None"
    and ids: "lastTradeID e + int (unat (remaining c)) \<le> int64_max"
  shows "tells (publishesOnly (oStockId x)) ops clk e (edit ops clk e x)"
proof -
  let ?st = "oStockId x" and ?r = "replacementOf x c" and ?s0 = "openBook (state e) (oStockId x)"
  have h: "ledger_inv ?s0 no_slack no_slack2" "Get (bookOf ?s0 ?st) (oTargetId x) = Some c"
    "validateEditAssets ?s0 x c = None" "Get (bookOf ?s0 ?st) (oId x) = None"
    using inv c by simp_all
  obtain s1 where s1: "removeAndRelease ?s0 c = Some (True, s1)" "ledger_inv s1 no_slack no_slack2"
    "conserves ?s0 s1" "Get (bookOf s1 ?st) = (Get (bookOf ?s0 ?st))(oTargetId x := None)"
    "\<And>t. is_side t \<Longrightarrow> prio (bookOf s1 ?st) t = filter (\<lambda>y. oId y \<noteq> oTargetId x) (prio (bookOf ?s0 ?st) t)"
    "\<And>j. j \<noteq> ?st \<Longrightarrow> bookOf s1 j = bookOf ?s0 j"
    "\<And>a. avl s1 a = avl ?s0 a + held (cashW a) c" "\<And>a t. avq s1 a t = avq ?s0 a t + held (shareW a t) c"
    by (rule removeAndRelease_spec [OF h(1,2)]) blast
  have F: "oStockId c = ?st" "is_side (oTradingType c)" using resting_facts [OF inv c(1)] by auto
  have r: "oStockId ?r = ?st" using F(1) by (simp add: replacementOf_def)
  have m: "matchable (state (e\<lparr>state := s1\<rparr>)) ?r"
    using edit_matchable [OF h(1,2) c(2,3) h(3,4) s1(4,7,8,3)] by simp
  have i: "lastTradeID (e\<lparr>state := s1\<rparr>) + int (unat (remaining ?r)) \<le> int64_max"
    using ids by (simp add: replacementOf_def)
  have inv1: "ledger_inv (state (e\<lparr>state := s1\<rparr>)) no_slack no_slack2" using s1(2) by simp
  obtain e1 evs where e1: "matchEvents clk (e\<lparr>state := s1\<rparr>) ?r = (e1, Ret evs)" "frame (e\<lparr>state := s1\<rparr>) e1"
    by (rule matchEvents_spec [OF inv1 m i, of clk])
  have p1: "publishesOnly ?st evs s1 (state e1)"
    using matchEvents_publishes [OF inv1 m i e1(1)] r by simp
  have wf: "wf_book (bookOf (state e) ?st)" "wf_book (bookOf s1 ?st)"
    using inv s1(2) by (auto simp: ledger_inv_def books_ok_def book_ok_def)
  have s1': "prio (bookOf s1 ?st) t = filter (\<lambda>y. oId y \<noteq> oTargetId x) (prio (bookOf (state e) ?st) t)" if "is_side t" for t
    using s1(5) [OF that] by simp
  let ?m = "mergeOrderBookLevel evs (levelOf (state e1) ?st c) ?st"
  have "publishes ?st ?m (bookOf (state e) ?st) (bookOf (state e1) ?st)"
  proof (rule publishes_merge [OF _ F(2), of ?st evs "bookOf s1 ?st"])
    show "publishes ?st evs (bookOf s1 ?st) (bookOf (state e1) ?st)" using p1 by (simp add: publishesOnly_def)
  qed (use remove_levels [OF wf _ s1' c(1)] in \<open>auto simp: levelOf_def\<close>)
  then have "publishesOnly ?st (ev PatternOrderReplaced (EvOrder (orderEvent c)) # ?m) (state e) (state e1)"
    using p1 s1(6) by (simp add: publishesOnly_def publishes_def)
  moreover have "targetOf ?s0 x = c" using h(2) by (simp add: targetOf_def)
  ultimately show ?thesis
    using s1(1) e1 F(1) by (auto simp: edit_def Let_def intro!: tellsI(2))
qed

section \<open>Orders\<close>

lemma publishes_match:
  assumes "ledger_inv (state e) no_slack no_slack2" "matchable (state e) x"
    and "lastTradeID e + int (unat (remaining x)) \<le> int64_max"
  shows "tells (publishesOnly (oStockId x)) ops clk e (match ops clk e x)"
proof -
  obtain e1 evs where e1: "matchEvents clk e x = (e1, Ret evs)" "frame e e1" "evs \<noteq> []"
    by (rule matchEvents_spec [OF assms, of clk])
  with matchEvents_publishes [OF assms e1(1)] show ?thesis by (simp add: match_def tellsI)
qed

lemma publishes_nothing: "publishesOnly st evs s s'"
  if "levelsOf evs = []" "list_all (bookish st) evs" "\<And>i. bookOf s' i = bookOf s i"
  using that by (simp add: publishesOnly_def publishes_def)

lemma publishes_order:
  assumes inv: "ledger_inv (state e) no_slack no_slack2" and f: "feasible e (RqOrder x)"
  shows "tells (publishesOnly (oStockId x)) ops clk e (applyRequest ops clk e (RqOrder x))"
proof -
  let ?R = "publishesOnly (oStockId x)"
  obtain s r where v: "validateOrder (state e) x = (s, r)" by fastforce
  note K = validateOrder_keeps [OF v]
  let ?e = "e\<lparr>state := s\<rparr>"
  have inv': "ledger_inv (state ?e) no_slack no_slack2" using inv K by simp
  have T: "tells ?R ops clk e p" if "tells ?R ops clk ?e p" for p
    using that K(1) by (simp add: tells_def publishesOnly_def)
  have "tells ?R ops clk ?e (route ops clk ?e x)" if a: "r = None"
  proof -
    note v' = v [unfolded a]
    consider "is_side (oTradingType x)" | "oTradingType x = TRADING_EDIT" | "oTradingType x = TRADING_CANCEL"
      | w where "oTradingType x = TradingType_other w" by (cases "oTradingType x") (auto simp: is_side_def)
    then show ?thesis
    proof cases
      case 1
      have "matchable (state ?e) x" using validated_matchable [OF v' 1] f 1 by simp
      moreover have "lastTradeID ?e + int (unat (remaining x)) \<le> int64_max"
        using f 1 by (auto simp: fillable_def is_side_def)
      ultimately show ?thesis using publishes_match [OF inv'] 1 by (auto simp: route_def is_side_def)
    next
      case 2
      then have "validateEdit (state e) x = (s, None)"
        using v' by (auto simp: validateOrder_def split: if_splits option.splits)
      then obtain c where c: "Get (bookOf (state e) (oStockId x)) (oTargetId x) = Some c" "oAccountId c = oAccountId x"
        "oPrice x \<noteq> 0" "validateEditAssets (state e) x c = None" "s = openBook (state e) (oStockId x)"
        by (auto elim: validateEdit_target)
      show ?thesis
        using publishes_edit [of ?e x c ops clk] inv' c f 2 K(1) by (simp add: route_def fillable_def targetOf_def)
    next
      case 3
      then have "validateCancel (state e) x = (s, None)"
        using v' by (auto simp: validateOrder_def split: if_splits option.splits)
      then obtain c where "Get (bookOf (state e) (oStockId x)) (oTargetId x) = Some c"
        using validateTargetRequest_Inr [of "state e" x s]
        by (auto simp: validateCancel_def split: prod.splits sum.splits)
      then show ?thesis using publishes_cancel [OF inv', of x c] 3 K(1) by (simp add: route_def)
    next
      case 4
      then show ?thesis using v' by (auto simp: validateOrder_def split: if_splits option.splits)
    qed
  qed
  moreover have "tells ?R ops clk ?e (orPanic (appendReject ops clk ?e x reason))" for reason
    unfolding appendReject_def by (intro tellsI(2) publishes_nothing) simp_all
  ultimately show ?thesis by (cases r) (use v T in auto)
qed

text \<open>
  C13: The book events of an order request are complete. Whether the request is a buy or sell order,
  an edit, a cancellation or a refusal: each price level its envelope shows carries the quantity
  this level of the book has afterwards, each level of the book whose quantity changed is shown,
  and no other book changes.
\<close>

theorem order_publishes_levels:
  assumes "twal_laws ops base recs" "ledger_inv (state e) no_slack no_slack2" "feasible e (RqOrder x)" "\<not> suppressed e"
    and "applyRequest ops clk e (RqOrder x) = (e', Ret ())"
  shows "\<exists>env evs. recs (outputLog e') = recs (outputLog e) @ [Text (OutputEnvelope_Marshal env)] \<and>
    envInputSeq env = inputSeq e \<and> marshalEvents evs = Some (envEvents env) \<and>
    publishes (oStockId x) evs (bookOf (state e) (oStockId x)) (bookOf (state e') (oStockId x)) \<and>
    (\<forall>i. i \<noteq> oStockId x \<longrightarrow> bookOf (state e') i = bookOf (state e) i)"
  using tells_record [OF assms(1) publishes_order [OF assms(2,3)] assms(4,5)] by (simp add: publishesOnly_def)

lemma sampleBuy_matched:
  assumes e: "state e = sampleState" "lastTradeID e = 0" "outputLog e = memEmpty"
  obtains s e1 evs e' where "matchEvents sampleClock (e\<lparr>state := s\<rparr>) sampleBuy = (e1, Ret evs)"
    "match_spec sampleBuy (e\<lparr>state := s\<rparr>) e1 evs" "frame e e1" "evs \<noteq> []"
    "\<And>i. bookOf s i = bookOf sampleState i" "appendOutput memOps sampleClock e1 evs = (e', Ret ())"
    "applyRequest memOps sampleClock e (RqOrder sampleBuy) = (e', Ret ())"
proof -
  obtain s where v: "validateOrder sampleState sampleBuy = (s, None)"
    by (simp add: validateOrder_def validateStock_def validateBuy_def validateTrade_def sample_rows Mul64_def)
  let ?e = "e\<lparr>state := s\<rparr>"
  note K = validateOrder_keeps [OF v]
  have hyps: "ledger_inv (state ?e) no_slack no_slack2" "matchable (state ?e) sampleBuy"
    "lastTradeID ?e + int (unat (remaining sampleBuy)) \<le> int64_max"
    using sample_hyps K validated_matchable [OF v] sample_feasible e(2) by (simp_all add: sampleEngine_def is_side_def)
  obtain e1 evs where m: "matchEvents sampleClock ?e sampleBuy = (e1, Ret evs)" "frame ?e e1"
    "match_spec sampleBuy ?e e1 evs" "list_all marshals evs" "evs \<noteq> []"
    by (rule matchEvents_spec [OF hyps, of sampleClock])
  have "outputLog e1 = memEmpty" using m(2) e(3) by (simp add: frame_def)
  then obtain e' where a: "appendOutput memOps sampleClock e1 evs = (e', Ret ())"
    using appendOutput_reliable [OF memOps_laws memOps_reliable m(4), of e1 sampleClock] by (auto simp: memEmpty_def)
  with m(1) v e(1) have "applyRequest memOps sampleClock e (RqOrder sampleBuy) = (e', Ret ())"
    by (simp add: route_def match_def)
  with m a K(1) show thesis by (intro that [of s e1 evs e']) simp_all
qed

theorem order_publishes_levels_witness:
  "\<exists>e' env evs. applyRequest memOps sampleClock sampleEngine (RqOrder sampleBuy) = (e', Ret ()) \<and>
     mlRecs (outputLog e') = [Text (OutputEnvelope_Marshal env)] \<and> marshalEvents evs = Some (envEvents env) \<and>
     publishes 1 evs (bookOf sampleState 1) (bookOf (state e') 1)"
proof -
  obtain e' where a: "applyRequest memOps sampleClock sampleEngine (RqOrder sampleBuy) = (e', Ret ())"
    by (rule sampleBuy_matched [of sampleEngine]) (simp_all add: sampleEngine_def)
  have s: "state sampleEngine = sampleState" "mlRecs (outputLog sampleEngine) = []" "\<not> suppressed sampleEngine"
    by (simp_all add: sampleEngine_def suppressed_def memEmpty_def)
  from order_publishes_levels [OF memOps_laws sample_hyps(1) sample_feasible s(3) a] a s(1,2)
  show ?thesis by (auto simp del: applyRequest.simps)
qed

end
