(* ===== verification/TradeIds.thy ===== *)
theory TradeIds
  imports Projected Recovery MarketData
begin

text \<open>
  Trade ids. The trades of a request are numbered consecutively from the engine's last id, and
  after a restart the last id is found again, in the output log or in the database: no id is
  issued twice.
\<close>

section \<open>The trades of a request\<close>

definition idsIn :: "outEvent \<Rightarrow> int64 list" where
  "idsIn e = (case data e of EvTrade t \<Rightarrow> [trId t] | _ \<Rightarrow> [])"

definition idsOf :: "outEvent list \<Rightarrow> int64 list" where
  "idsOf evs = concat (map idsIn evs)"

lemma idsOf_simps [simp]:
  "idsOf [] = []" "idsOf (e # evs) = idsIn e @ idsOf evs" "idsOf (evs @ evs') = idsOf evs @ idsOf evs'"
  by (simp_all add: idsOf_def)

lemma idsIn_ev [simp]:
  "idsIn (ev p (EvTrade tr)) = [trId tr]" "idsIn (ev p (EvOrder oe)) = []" "idsIn (ev p (EvRejected r)) = []"
  "idsIn (ev p (EvAccount a)) = []" "idsIn (ev p (EvHolding h)) = []" "idsIn (ev p (EvStock t)) = []"
  "idsIn (ev p (EvBook u)) = []" "idsIn (ev p (EvTransferCompleted tc)) = []" "idsIn (ev p (EvTransferRejected tj)) = []"
  "idsIn (ev p (EvAdminCompleted ac)) = []" "idsIn (ev p (EvAdminRejected aj)) = []"
  by (simp_all add: idsIn_def)

text \<open>Trades are announced as trades, and nothing else is.\<close>

definition labelled :: "outEvent \<Rightarrow> bool" where
  "labelled e \<longleftrightarrow> (pattern e = PatternTradeExecuted \<longleftrightarrow> (\<exists>t. data e = EvTrade t))"

lemma labelled_ev [simp]:
  "labelled (ev PatternTradeExecuted (EvTrade tr))"
  "p \<noteq> PatternTradeExecuted \<Longrightarrow> (\<And>t. d \<noteq> EvTrade t) \<Longrightarrow> labelled (ev p d)"
  by (simp_all add: labelled_def)

lemma other_patterns [simp]:
  "PatternOrderOpen \<noteq> PatternTradeExecuted" "PatternOrderFilled \<noteq> PatternTradeExecuted"
  "PatternOrderCanceled \<noteq> PatternTradeExecuted" "PatternOrderReplaced \<noteq> PatternTradeExecuted"
  "PatternOrderCompleted \<noteq> PatternTradeExecuted" "PatternOrderRejected \<noteq> PatternTradeExecuted"
  "PatternAccountUpdated \<noteq> PatternTradeExecuted" "PatternAccountActivated \<noteq> PatternTradeExecuted"
  "PatternHoldingUpdated \<noteq> PatternTradeExecuted" "PatternStockListed \<noteq> PatternTradeExecuted"
  "PatternStockUpdated \<noteq> PatternTradeExecuted" "PatternOrderBookUpdated \<noteq> PatternTradeExecuted"
  "PatternTransferCompleted \<noteq> PatternTradeExecuted" "PatternTransferRejected \<noteq> PatternTradeExecuted"
  "PatternAdminRequestCompleted \<noteq> PatternTradeExecuted" "PatternAdminRequestRejected \<noteq> PatternTradeExecuted"
  by (simp_all add: pattern_defs)

text \<open>Trades name the incoming order and its stock.\<close>

definition ofTaker :: "Order \<Rightarrow> outEvent \<Rightarrow> bool" where
  "ofTaker x e = (case data e of EvTrade t \<Rightarrow> trTakerOrderId t = oId x \<and> trStockId t = oStockId x | _ \<Rightarrow> True)"

lemma ofTaker_noTrade: "idsIn e = [] \<Longrightarrow> ofTaker x e" "idsOf evs = [] \<Longrightarrow> list_all (ofTaker x) evs"
  by (auto simp: ofTaker_def idsIn_def idsOf_def list_all_iff split: evdata.splits)

lemma ofTaker_same: "oId y = oId x \<Longrightarrow> oStockId y = oStockId x \<Longrightarrow> ofTaker y = ofTaker x"
  by (simp add: ofTaker_def fun_eq_iff split: evdata.split)

lemma upto_extend: "i \<le> j \<Longrightarrow> j \<le> k \<Longrightarrow> [i + 1..j] @ [j + 1..k] = [i + 1..(k::int)]"
  using upto_split1 [of "i + 1" "j + 1" k] by (cases "i = j"; cases "j = k") auto

definition numbering :: "'l Engine \<Rightarrow> matchVars \<Rightarrow> 'l Engine \<Rightarrow> matchVars \<Rightarrow> bool" where
  "numbering e m e' m' \<longleftrightarrow> frame e e' \<and> lastTradeID e \<le> lastTradeID e' \<and>
     idsOf (mEvents m') = idsOf (mEvents m) @ [lastTradeID e + 1..lastTradeID e'] \<and>
     (list_all labelled (mEvents m) \<longrightarrow> list_all labelled (mEvents m')) \<and>
     oId (mOrder m') = oId (mOrder m) \<and> oStockId (mOrder m') = oStockId (mOrder m) \<and>
     (list_all (ofTaker (mOrder m)) (mEvents m) \<longrightarrow> list_all (ofTaker (mOrder m)) (mEvents m'))"

lemma numbering_refl: "numbering e m e m"
  by (simp add: numbering_def)

lemma numbering_trans: "numbering e m e1 m1 \<Longrightarrow> numbering e1 m1 e2 m2 \<Longrightarrow> numbering e m e2 m2"
  using ofTaker_same [of "mOrder m1" "mOrder m"] by (auto simp: numbering_def upto_extend intro: frame_trans)

lemma makerEvent_ids [simp]: "idsIn (fst (makerEvent clk e c f)) = []" "lastTradeID (snd (makerEvent clk e c f)) = lastTradeID e"
  "labelled (fst (makerEvent clk e c f))"
  by (simp_all add: makerEvent_def now_def Let_def)

lemma takerEvent_ids [simp]: "idsIn (fst (takerEvent clk e x)) = []" "lastTradeID (snd (takerEvent clk e x)) = lastTradeID e"
  "labelled (fst (takerEvent clk e x))"
  by (simp_all add: takerEvent_def now_def Let_def orderStatusPattern_def)

lemma executeTrade_numbering:
  assumes "executeTrade clk e m c best f = (e', Ret (Continue m'))" "\<not> suppressed e"
  shows "numbering e m e' m'"
proof -
  obtain s where s: "settleTrade (state e) (mOrder m) c best f = Ret s"
    using assms(1) by (auto simp: executeTrade_eq split: outcome.splits)
  have r: "andThen (tradeIDFor (e\<lparr>state := s\<rparr>)) (reportTrade clk m c best f) = (e', Ret (Continue m'))"
    using assms(1) s by (simp add: executeTrade_eq)
  then have i: "tradeIDFor (e\<lparr>state := s\<rparr>) = (e\<lparr>state := s, lastTradeID := lastTradeID e + 1\<rparr>, Ret (lastTradeID e + 1))"
    using assms(2) by (auto simp: tradeIDFor_def nextTradeID_def suppressed_def word_gt_0 split: if_splits)
  have "frame e e'" using executeTrade_frame [of e clk m c best f] assms(1) by simp
  with r i show ?thesis
    by (auto simp: numbering_def reportTrade_def now_def Let_def case_prod_beta ofTaker_noTrade)
      (simp_all add: ofTaker_def)
qed

lemma matchIter_numbering:
  assumes "matchIter clk e m = (e', Ret r)" "\<not> suppressed e"
  shows "numbering e m e' (case r of Break \<Rightarrow> m | Continue m' \<Rightarrow> m')"
proof -
  have put: "numbering e m (e\<lparr>state := putBook (state e) i b\<rparr>) m" for i b by (simp add: numbering_def)
  have ex: False if "executeTrade clk e0 m c best f = (e', Ret Break)" for e0 c best f
    using that by (auto simp: executeTrade_def Let_def andThen_def split: outcome.splits prod.splits)
  have ns: "\<not> suppressed (e\<lparr>state := s\<rparr>)" for s using assms(2) by (simp add: suppressed_def)
  show ?thesis
    using assms(1) put
    by (auto simp: matchIter_def Let_def numbering_refl split: option.splits if_splits prod.splits iteration.splits
        dest: ex intro: numbering_trans [OF put executeTrade_numbering] simp: ns)
qed

lemma matchLoop_numbering:
  assumes "matchLoop clk e m = (e', Ret m')" "\<not> suppressed e"
  shows "numbering e m e' m'"
proof (rule matchLoop_rel [OF assms(1), where Q = "\<lambda>e m. \<not> suppressed e"])
  fix clk and e :: "'a Engine" and m e' r
  assume r: "matchIter clk e m = (e', Ret r)" "\<not> suppressed e"
  from matchIter_numbering [OF r] r(2)
  show "numbering e m e' (case r of Break \<Rightarrow> m | Continue m' \<Rightarrow> m') \<and> \<not> suppressed e'"
    by (auto simp: numbering_def suppressed_frame)
qed (use assms(2) in \<open>auto intro: numbering_refl numbering_trans\<close>)

lemma closing_ids [simp]:
  "idsOf (levelEvents s st L) = []" "list_all labelled (levelEvents s st L)"
  "idsOf (concat (map (accountEvents s st) ids)) = []" "list_all labelled (concat (map (accountEvents s st) ids))"
proof -
  show "idsOf (levelEvents s st L) = []" "list_all labelled (levelEvents s st L)" by (simp_all add: levelEvents_def)
  show "idsOf (concat (map (accountEvents s st) ids)) = []" "list_all labelled (concat (map (accountEvents s st) ids))"
    by (induction ids) (auto simp: accountEvents_def split: option.splits)
qed

lemma matchEvents_numbers:
  assumes "matchEvents clk e x = (e', Ret evs)" "\<not> suppressed e"
  shows "lastTradeID e \<le> lastTradeID e'" "idsOf evs = [lastTradeID e + 1..lastTradeID e']" "list_all labelled evs"
    "list_all (ofTaker x) evs"
proof -
  define s0 where "s0 = lockAssets (openBook (state e) (oStockId x)) x (remaining x)"
  obtain e1 r where l: "matchLoop clk (e\<lparr>state := s0\<rparr>) (startVars x) = (e1, r)" by fastforce
  with assms(1) obtain m where m: "r = Ret m" "closeMatch clk x e1 m = (e', Ret evs)"
    by (cases r) (auto simp: matchEvents_eq s0_def)
  have "numbering (e\<lparr>state := s0\<rparr>) (startVars x) e1 m"
    using matchLoop_numbering [OF l [unfolded m(1)]] assms(2) by (simp add: suppressed_def)
  then have n: "lastTradeID e \<le> lastTradeID e1" "idsOf (mEvents m) = [lastTradeID e + 1..lastTradeID e1]"
    "list_all labelled (mEvents m)" "list_all (ofTaker x) (mEvents m)" by (simp_all add: numbering_def startVars_def)
  obtain s m1 u where f: "finishState (state e1) m (oFilledQuantity x) = (s, m1, u)" by (metis prod_cases3)
  obtain tk e2 where tk: "takerEvent clk (e1\<lparr>state := s\<rparr>) (mOrder m1) = (tk, e2)" by fastforce
  have t: "idsIn tk = []" "lastTradeID e2 = lastTradeID e1" "labelled tk"
    using takerEvent_ids [of clk "e1\<lparr>state := s\<rparr>" "mOrder m1", unfolded tk] by simp_all
  have e: "mEvents m1 = mEvents m"
    using f by (auto simp: finishState_def restOrder_def Let_def split: prod.splits if_splits)
  from m(2) f tk t e n
  show "lastTradeID e \<le> lastTradeID e'" "idsOf evs = [lastTradeID e + 1..lastTradeID e']" "list_all labelled evs"
    "list_all (ofTaker x) evs"
    by (auto simp: closeMatch_def ofTaker_noTrade split: option.splits)
qed

section \<open>Requests\<close>

definition numbers :: "'l twal \<Rightarrow> clock \<Rightarrow> 'l Engine \<Rightarrow> ('l, unit) result \<Rightarrow> bool" where
  "numbers ops clk e p \<longleftrightarrow> (\<forall>u. snd p = Ret u \<longrightarrow>
     (\<exists>e1 evs. evs \<noteq> [] \<and> frame e e1 \<and> appendOutput ops clk e1 evs = (fst p, Ret ()) \<and> list_all labelled evs \<and>
        lastTradeID e \<le> lastTradeID (fst p) \<and> idsOf evs = [lastTradeID e + 1..lastTradeID (fst p)]))"

lemma numbersI:
  assumes "evs \<noteq> []" "frame e e1" "list_all labelled evs" "lastTradeID e \<le> lastTradeID e1"
    and "idsOf evs = [lastTradeID e + 1..lastTradeID e1]"
  shows "numbers ops clk e (appendOutput ops clk e1 evs)" "numbers ops clk e (orPanic (appendOutput ops clk e1 evs))"
proof -
  obtain e2 r where a: "appendOutput ops clk e1 evs = (e2, r)" by fastforce
  have "lastTradeID e2 = lastTradeID e1" using appendOutput_frame [OF a] by simp
  with a assms show "numbers ops clk e (appendOutput ops clk e1 evs)"
    "numbers ops clk e (orPanic (appendOutput ops clk e1 evs))"
    by (cases r; force simp: numbers_def)+
qed

lemma numbers_fails [simp]: "numbers ops clk e (e', Err x)" "numbers ops clk e (e', Panic x)"
  by (simp_all add: numbers_def)

lemma numbers_matchEvents:
  assumes "frame e e0" "lastTradeID e0 = lastTradeID e" "\<not> suppressed e"
    and "\<And>e1 evs. evs \<noteq> [] \<Longrightarrow> f e1 evs \<noteq> []" "\<And>e1 evs. idsOf (f e1 evs) = idsOf evs"
    and "\<And>e1 evs. list_all labelled evs \<Longrightarrow> list_all labelled (f e1 evs)"
  shows "numbers ops clk e (andThen (matchEvents clk e0 x) (\<lambda>e1 evs. orPanic (appendOutput ops clk e1 (f e1 evs))))"
proof -
  obtain e1 r where m: "matchEvents clk e0 x = (e1, r)" by fastforce
  have fr: "frame e e1" using frame_trans [OF assms(1), of e1] matchEvents_frame [of e0 clk x] m by simp
  show ?thesis
  proof (cases r)
    case (Ret evs)
    have "\<not> suppressed e0" using suppressed_frame [OF assms(1)] assms(3) by simp
    note N = matchEvents_numbers [OF m [unfolded Ret] this]
    have "evs \<noteq> []"
      using m Ret unfolding matchEvents_eq andThen_def
      by (auto simp: closeMatch_def Let_def split: outcome.splits prod.splits)
    then have "numbers ops clk e (orPanic (appendOutput ops clk e1 (f e1 evs)))"
      using N assms(2,4-6) fr by (intro numbersI(2)) simp_all
    then show ?thesis using m Ret by simp
  qed (simp_all add: m)
qed

lemma mergeOrderBookLevel_ids [simp]:
  "idsOf (mergeOrderBookLevel evs l st) = idsOf evs"
  "list_all labelled evs \<Longrightarrow> list_all labelled (mergeOrderBookLevel evs l st)"
  by (induction evs l st rule: mergeOrderBookLevel.induct)
    (auto simp: idsIn_def labelled_def split: evdata.splits)

lemma numbers_orders:
  assumes "\<not> suppressed e"
  shows "numbers ops clk e (match ops clk e x)" "numbers ops clk e (edit ops clk e x)" "numbers ops clk e (cancel ops clk e x)"
proof -
  show "numbers ops clk e (match ops clk e x)" unfolding match_def by (rule numbers_matchEvents) (use assms in simp_all)
  have "numbers ops clk e (andThen (matchEvents clk (e\<lparr>state := s\<rparr>) (replacementOf x c)) (\<lambda>e1 evs. orPanic (appendOutput ops clk e1
      (ev PatternOrderReplaced (EvOrder (orderEvent c)) # mergeOrderBookLevel evs (levelOf (state e1) (oStockId x) c) (oStockId c)))))"
    for s c by (rule numbers_matchEvents) (use assms in simp_all)
  then show "numbers ops clk e (edit ops clk e x)"
    unfolding edit_def Let_def by (auto split: option.split bool.split)
  have "list_all labelled (cancelEvents s x c)" "idsOf (cancelEvents s x c) = []" "cancelEvents s x c \<noteq> []" for s c
    by (auto simp: cancelEvents_def split: TradingType.split option.split)
  then have "numbers ops clk e (orPanic (appendOutput ops clk (e\<lparr>state := s\<rparr>) (cancelEvents s x c)))" for s c
    by (intro numbersI(2)) simp_all
  then show "numbers ops clk e (cancel ops clk e x)"
    unfolding cancel_def Let_def by (auto split: option.split bool.split)
qed

lemma numbers_applyRequest:
  assumes "\<not> suppressed e"
  shows "numbers ops clk e (applyRequest ops clk e rq)"
proof (cases rq)
  case (RqOrder x)
  obtain s r where v: "validateOrder (state e) x = (s, r)" by fastforce
  have ns: "\<not> suppressed (e\<lparr>state := s\<rparr>)" using assms by (simp add: suppressed_def)
  have T: "numbers ops clk e p" if "numbers ops clk (e\<lparr>state := s\<rparr>) p" for p
    using that by (simp add: numbers_def)
  have "numbers ops clk (e\<lparr>state := s\<rparr>) (route ops clk (e\<lparr>state := s\<rparr>) x)"
    unfolding route_def using numbers_orders [OF ns] by (cases "oTradingType x") simp_all
  moreover have "numbers ops clk (e\<lparr>state := s\<rparr>) (orPanic (appendReject ops clk (e\<lparr>state := s\<rparr>) x reason))" for reason
    unfolding appendReject_def by (intro numbersI(2)) simp_all
  ultimately show ?thesis using RqOrder v T by (cases r) auto
next
  case (RqAccount a)
  then show ?thesis by (simp add: activateAccount_def numbersI)
next
  case (RqTransfer t)
  then show ?thesis
    by (auto simp: applyTransfer_def transferCompleted_def transferRejected_def moveCash_def now_def Let_def
        intro!: numbersI split: sum.split)
next
  case (RqStock t)
  then show ?thesis by (simp add: setStockStatus_def numbersI Let_def)
next
  case (RqBalance b)
  then show ?thesis
    by (auto simp: applyBalanceAdjust_def adminRequestCompleted_def adminRequestRejected_def now_def Let_def
        intro!: numbersI split: option.splits)
next
  case (RqShares h)
  then show ?thesis
    by (auto simp: applyStockBalanceAdjust_def adminRequestCompleted_def adminRequestRejected_def now_def Let_def
        intro!: numbersI split: option.splits)
qed

section \<open>Reading trade ids back\<close>

text \<open>The ids of the trades among marshalled events, when all of them can be decoded.\<close>

fun tradeIDsIn :: "OutputEvent list \<Rightarrow> int64 list option" where
  "tradeIDsIn [] = Some []"
| "tradeIDsIn (e # es) =
     (if outPattern e \<noteq> PatternTradeExecuted then tradeIDsIn es
      else case unmarshal Trade_Unmarshal (outData e) of
             None \<Rightarrow> None
           | Some trade \<Rightarrow> map_option (Cons (trId trade)) (tradeIDsIn es))"

lemma tradeIDsIn_join: "tradeIDsIn (xs @ ys) = Option.bind (tradeIDsIn xs) (\<lambda>is. map_option ((@) is) (tradeIDsIn ys))"
proof (induction xs)
  case (Cons a xs)
  then show ?case
    by (cases "tradeIDsIn xs"; cases "tradeIDsIn ys"; cases "unmarshal Trade_Unmarshal (outData a)") simp_all
qed (cases "tradeIDsIn ys"; simp)

lemma tradeIDsIn_append:
  "tradeIDsIn (xs @ ys) = Some ids \<longleftrightarrow> (\<exists>is js. tradeIDsIn xs = Some is \<and> tradeIDsIn ys = Some js \<and> ids = is @ js)"
  by (auto simp: tradeIDsIn_join bind_eq_Some_conv)

lemma Trade_decoded: "Trade_Marshal t = Some j \<Longrightarrow> Trade_Unmarshal j = Some u \<Longrightarrow> trId u = trId t"
  by (auto simp: Trade_Marshal_def Trade_Unmarshal_def dec_defs bind_eq_Some_conv dest!: decInt_Some [rotated])

lemma marshalled_ids:
  "marshalEvents evs = Some out \<Longrightarrow> list_all labelled evs \<Longrightarrow> tradeIDsIn out = Some ids \<Longrightarrow> ids = idsOf evs"
proof (induction evs arbitrary: out ids)
  case (Cons e evs)
  then show ?case
    by (cases "data e") (auto simp: labelled_def idsIn_def unmarshal_def split: option.splits dest: Trade_decoded)
qed simp

lemma lastTradeIn_rev:
  "tradeIDsIn es = Some ids \<Longrightarrow> \<forall>i \<in> set ids. 0 < i \<Longrightarrow>
   lastTradeIn (rev es) = Ret (if ids = [] then None else Some (last ids))"
proof (induction es arbitrary: ids rule: rev_induct)
  case (snoc e es)
  then obtain ks js where "tradeIDsIn es = Some ks" "tradeIDsIn [e] = Some js" "ids = ks @ js"
    unfolding tradeIDsIn_append by blast
  with snoc show ?case by (auto split: if_splits option.splits)
qed simp

lemma applyEvent_trades:
  assumes "applyEvent (d, n) event = Ret (d', n')" "tradeIDsIn [event] = Some ids"
  shows "fset (fmdom (dbTrades d')) = fset (fmdom (dbTrades d)) \<union> set ids"
proof -
  have elsewhere: "dbTrades d' = dbTrades d" if "outPattern event \<noteq> PatternTradeExecuted"
    using assms(1) that
    by (auto simp: applyEvent_def withData_def eventTx_defs Let_def q_defs split: if_splits option.splits dest!: exec_Some)
  show ?thesis
  proof (cases "outPattern event = PatternTradeExecuted")
    case True
    then show ?thesis
      using assms by (auto simp: applyEvent_def withData_def SaveTrade_def q_SaveTrade_def Let_def
          split: option.splits if_splits dest!: exec_Some)
  qed (use assms(2) elsewhere in simp)
qed

abbreviation "tradesIn envs \<equiv> tradeIDsIn (concat (map envEvents envs))"

lemma applyEvents_trades:
  "applyEvents (d, n) es = Ret (d', n') \<Longrightarrow> tradeIDsIn es = Some ids \<Longrightarrow>
   fset (fmdom (dbTrades d')) = fset (fmdom (dbTrades d)) \<union> set ids"
proof (induction es arbitrary: d n ids)
  case (Cons e es)
  obtain d1 n1 where s: "applyEvent (d, n) e = Ret (d1, n1)" "applyEvents (d1, n1) es = Ret (d', n')"
    using Cons.prems(1) by (auto split: outcome.splits)
  obtain ks js where "tradeIDsIn [e] = Some ks" "tradeIDsIn es = Some js" "ids = ks @ js"
    using Cons.prems(2) tradeIDsIn_append [of "[e]" es ids] by auto
  with applyEvent_trades [OF s(1)] Cons.IH [OF s(2)] show ?case by auto
qed simp

lemma applyEnvelopes_trades:
  "applyEnvelopes (d, n) envs = Ret (d', n') \<Longrightarrow> tradesIn envs = Some ids \<Longrightarrow>
   fset (fmdom (dbTrades d')) = fset (fmdom (dbTrades d)) \<union> set ids"
proof (induction envs arbitrary: d n ids)
  case (Cons e envs)
  obtain d1 n1 where s: "applyEvents (d, n) (envEvents e) = Ret (d1, n1)" "applyEnvelopes (d1, n1) envs = Ret (d', n')"
    using Cons.prems(1) by (auto split: outcome.splits)
  obtain ks js where "tradeIDsIn (envEvents e) = Some ks" "tradesIn envs = Some js" "ids = ks @ js"
    using Cons.prems(2) by (auto simp: tradeIDsIn_append)
  with applyEvents_trades [OF s(1)] Cons.IH [OF s(2)] show ?case by auto
qed simp

section \<open>Finding the last id after a restart\<close>

lemma readAs_record:
  assumes "twal_laws ops base recs" "base l + length (recs l) < 2 ^ 64" "k < length (recs l)"
    and "readAs f ops l (word_of_nat (base l + k + 1)) = Ret x"
  shows "unmarshal f (recs l ! k) = Some x"
proof -
  obtain r where r: "twal_Read ops l (word_of_nat (base l + k + 1)) = Some r" "unmarshal f r = Some x"
    using assms(4) by (auto simp: readAs_def Read_def split: option.splits)
  from assms(1) r(1) obtain j where j: "j < length (recs l)"
    "(word_of_nat (base l + k + 1) :: uint64) = word_of_nat (base l + j + 1)" "r = recs l ! j"
    unfolding twal_laws_def by blast
  have "unat (word_of_nat (base l + k + 1) :: uint64) = base l + k + 1" "unat (word_of_nat (base l + j + 1) :: uint64) = base l + j + 1"
    by (rule unat_word_of_nat64, use assms(2,3) j(1) in simp)+
  with j(2) have "k = j" by simp
  with r(2) j(3) show ?thesis by simp
qed

lemma findTradeID_last:
  assumes "twal_laws ops base recs" "base l + length (recs l) < 2 ^ 64"
    and "map (unmarshal OutputEnvelope_Unmarshal) (recs l) = map Some envs"
  shows "n \<le> length envs \<Longrightarrow> tradesIn (take n envs) = Some ids \<Longrightarrow> \<forall>i \<in> set ids. 0 < i \<Longrightarrow>
    findTradeID ops l (rev (map (\<lambda>k. word_of_nat (base l + k + 1)) [0..<n])) = Ret found \<Longrightarrow>
    found = (if ids = [] then None else Some (last ids))"
proof (induction n arbitrary: ids)
  case (Suc n)
  have len: "length (recs l) = length envs" using assms(3) map_eq_imp_length_eq by blast
  then have n: "n < length (recs l)" "n < length envs" using Suc.prems(1) by simp_all
  have dec: "unmarshal OutputEnvelope_Unmarshal (recs l ! n) = Some (envs ! n)"
    using arg_cong [OF assms(3), of "\<lambda>xs. xs ! n"] n by simp
  obtain ks js where ids: "tradesIn (take n envs) = Some ks" "tradeIDsIn (envEvents (envs ! n)) = Some js" "ids = ks @ js"
    using Suc.prems(2) n(2) by (auto simp: take_Suc_conv_app_nth tradeIDsIn_append)
  have f: "findTradeID ops l (word_of_nat (base l + n + 1) # rev (map (\<lambda>k. word_of_nat (base l + k + 1)) [0..<n])) = Ret found"
    using Suc.prems(4) by simp
  then obtain env where e: "readAs OutputEnvelope_Unmarshal ops l (word_of_nat (base l + n + 1)) = Ret env"
    by (auto split: outcome.splits)
  then have "env = envs ! n" using readAs_record [OF assms(1,2) n(1)] dec by fastforce
  moreover have "lastTradeIn (rev (envEvents (envs ! n))) = Ret (if js = [] then None else Some (last js))"
    using lastTradeIn_rev [OF ids(2)] Suc.prems(3) ids(3) by simp
  ultimately show ?case using f e Suc.IH [OF _ ids(1)] Suc.prems(1,3) ids(3) by (auto split: if_splits)
qed simp

text \<open>
  The log is searched first, then the database; \<open>envs\<close> are the envelopes of the log, and \<open>d\<close> is
  the database with everything that is no longer in the log.
\<close>

lemma upt_shift: "[Suc b..<Suc (b + n)] = map (\<lambda>k. Suc (b + k)) [0..<n]"
  by (induction n) simp_all

lemma no_trades: "fset (fmdom m) = {} \<longleftrightarrow> m = fmempty"
  by (metis bot_fset.rep_eq fmdom_empty fset_inject fmrestrict_fset_dom fmrestrict_fset_null)

lemma initializeTradeID_last:
  assumes laws: "twal_laws ops base recs" and bnd: "base (outputLog e) + length (recs (outputLog e)) < 2 ^ 64"
    and dec: "map (unmarshal OutputEnvelope_Unmarshal) (recs (outputLog e)) = map Some envs"
    and ids: "tradesIn envs = Some ids" "\<forall>i \<in> set ids. 0 < i"
    and new: "recs (outputLog e) = [] \<Longrightarrow> base (outputLog e) = 0"
    and run: "initializeTradeID ops (Some (LastTradeID fails d)) e = (e', Ret ())"
  shows "lastTradeID e' = (if ids \<noteq> [] then last ids else if dbTrades d = fmempty then 0 else Max (fset (fmdom (dbTrades d))))"
    and "outputLog e' = outputLog e"
proof -
  let ?l = "outputLog e" let ?n = "length (recs ?l)"
  have len: "?n = length envs" using dec map_eq_imp_length_eq by blast
  obtain a b where ab: "twal_LastIndex ops ?l = Some a" "twal_FirstIndex ops ?l = Some b"
    using run by (auto simp: initializeTradeID_def ofOutcome_def LastIndex_def FirstIndex_def split: option.splits)
  have a: "a = word_of_nat (base ?l + ?n)" by (rule twal_lawsD(1) [OF laws ab(1)])
  have b: "b = (if recs ?l = [] then 0 else word_of_nat (base ?l + 1))"
    using laws ab(2) unfolding twal_laws_def by blast
  have ua: "unat a = base ?l + ?n" unfolding a by (rule unat_word_of_nat64 [OF bnd])
  have "unat (max b 1) = base ?l + 1"
  proof (cases "recs ?l = []")
    case False
    then have "unat (word_of_nat (base ?l + 1) :: uint64) = base ?l + 1"
      by (intro unat_word_of_nat64) (use bnd in \<open>cases "recs ?l"; simp\<close>)
    then show ?thesis using b False by (auto simp: max_def word_le_nat_alt simp del: of_nat_add)
  qed (use b new in \<open>simp add: max_def\<close>)
  then have ix: "indices (max b 1) a = map (\<lambda>k. word_of_nat (base ?l + k + 1)) [0..<?n]"
    unfolding indices_def ua by (simp add: upt_shift del: of_nat_add of_nat_Suc upt_Suc)
  obtain found where f: "findTradeID ops ?l (rev (indices (max b 1) a)) = Ret found"
    using run ab by (cases "findTradeID ops ?l (rev (indices (max b 1) a))")
      (auto simp: initializeTradeID_def ofOutcome_def LastIndex_def FirstIndex_def)
  have "found = (if ids = [] then None else Some (last ids))"
    using findTradeID_last [OF laws bnd dec, of ?n ids found] ids f len ix by simp
  then show "lastTradeID e' = (if ids \<noteq> [] then last ids else if dbTrades d = fmempty then 0 else Max (fset (fmdom (dbTrades d))))"
    "outputLog e' = outputLog e"
    using run ab f by (auto simp: initializeTradeID_def ofOutcome_def LastIndex_def FirstIndex_def LastTradeID_def Let_def
        no_trades split: if_splits)
qed

section \<open>Runs number on\<close>

text \<open>
  A run of an engine appends envelopes to the output log. Their trades, when they can be decoded,
  have the ids between the engine's last id before the run and the one after it.
\<close>

definition continues :: "('l \<Rightarrow> nat) \<Rightarrow> ('l \<Rightarrow> bytes list) \<Rightarrow> 'l Engine \<Rightarrow> 'l Engine \<Rightarrow> OutputEnvelope list \<Rightarrow> bool" where
  "continues base recs e e' envs \<longleftrightarrow> base (outputLog e') = base (outputLog e) \<and>
     map (unmarshal OutputEnvelope_Unmarshal) (recs (outputLog e')) =
       map (unmarshal OutputEnvelope_Unmarshal) (recs (outputLog e)) @ map Some envs \<and>
     lastTradeID e \<le> lastTradeID e' \<and>
     (tradesIn envs \<noteq> None \<longrightarrow> tradesIn envs = Some [lastTradeID e + 1..lastTradeID e'])"

lemma continues_none: "outputLog e' = outputLog e \<Longrightarrow> lastTradeID e' = lastTradeID e \<Longrightarrow> continues base recs e e' []"
  by (simp add: continues_def)

lemma continues_trans:
  assumes "continues base recs e e1 xs" "continues base recs e1 e2 ys"
  shows "continues base recs e e2 (xs @ ys)"
proof -
  have "tradesIn (xs @ ys) = Some [lastTradeID e + 1..lastTradeID e2]" if t: "tradesIn (xs @ ys) \<noteq> None"
  proof -
    obtain ids where "tradesIn (xs @ ys) = Some ids" using t by blast
    then obtain us vs where "tradesIn xs = Some us" "tradesIn ys = Some vs" by (auto simp: tradeIDsIn_append)
    then show ?thesis using assms by (auto simp: continues_def tradeIDsIn_append upto_extend)
  qed
  then show ?thesis using assms by (simp add: continues_def)
qed

lemma continues_frame:
  assumes "continues base recs e0 e' envs" "outputLog e0 = outputLog e" "lastTradeID e0 = lastTradeID e"
  shows "continues base recs e e' envs"
  using assms by (simp add: continues_def)

text \<open>A request that is not suppressed writes one envelope; a suppressed one writes none and draws no id.\<close>

lemma continues_applyRequest:
  assumes laws: "twal_laws ops base recs" and run: "applyRequest ops clk e rq = (e', Ret ())"
  shows "\<exists>envs. continues base recs e e' envs"
proof (cases "suppressed e")
  case True
  then have "lastTradeID e' = lastTradeID e" using idKept_requests(1) [of e ops clk rq] run by (simp add: idKept_def)
  moreover have "outputLog e' = outputLog e"
    using reportsOnce_outputs [OF laws, of clk e e'] reportsOnce_applyRequest [of ops clk e rq] run True by simp
  ultimately show ?thesis using continues_none by blast
next
  case False
  obtain e1 evs where n: "evs \<noteq> []" "frame e e1" "appendOutput ops clk e1 evs = (e', Ret ())" "list_all labelled evs"
    "lastTradeID e \<le> lastTradeID e'" "idsOf evs = [lastTradeID e + 1..lastTradeID e']"
    using numbers_applyRequest [OF False, of ops clk rq] run by (auto simp: numbers_def)
  have e1: "\<not> suppressed e1" "outputLog e1 = outputLog e"
    using False n(2) suppressed_frame [OF n(2)] by (simp_all add: frame_def)
  obtain env where env: "recs (outputLog e') = recs (outputLog e1) @ [Text (OutputEnvelope_Marshal env)]"
    "unmarshal OutputEnvelope_Unmarshal (Text (OutputEnvelope_Marshal env)) = Some env"
    "marshalEvents evs = Some (envEvents env)" "base (outputLog e') = base (outputLog e1)"
    by (rule appendOutput_envelope [OF laws n(1) e1(1) n(3)])
  have "continues base recs e e' [env]"
    using env n(5) e1(2) marshalled_ids [OF env(3) n(4)] n(6) by (auto simp: continues_def)
  then show ?thesis by blast
qed

lemma replayRequest_Ret: "replayRequest ops clk e rq = (e', Ret ()) \<longleftrightarrow> applyRequest ops clk e rq = (e', Ret ())"
proof -
  have "orPanic p = (e', Ret ()) \<longleftrightarrow> p = (e', Ret ())" for p :: "('a, unit) result"
    by (cases p; cases "snd p") auto
  then show ?thesis by (cases rq) (auto simp: replayRequest_def split: prod.split option.split)
qed

lemma replayInput_Ret:
  assumes "replayInput ops clk e i = (e', Ret ())"
  obtains "e' = e" | rq where "applyRequest ops clk (e\<lparr>inputSeq := i\<rparr>) rq = (e', Ret ())"
proof -
  have "e' = e \<or> (\<exists>rq. replayRequest ops clk (e\<lparr>inputSeq := i\<rparr>) rq = (e', Ret ()))"
  proof (cases "readAs envelope_Unmarshal ops (inputLog e) i")
    case (Ret env)
    have O: "\<exists>rq. replayRequest ops clk (e\<lparr>inputSeq := i\<rparr>) rq =
        (case validateOrder (state e) x of (s, None) \<Rightarrow> route ops clk (e\<lparr>inputSeq := i, state := s\<rparr>) x
         | (s, Some reason) \<Rightarrow> appendReject ops clk (e\<lparr>inputSeq := i, state := s\<rparr>) x reason)" for x
      by (rule exI [of _ "RqOrder x"]) (simp add: replayRequest_def)
    have A: "\<exists>rq. replayRequest ops clk e1 rq = activateAccount ops clk e1 a" for e1 a
      by (rule exI [of _ "RqAccount a"]) (simp add: replayRequest_def)
    have T: "\<exists>rq. replayRequest ops clk e1 rq = applyTransfer ops clk e1 t" for e1 t
      by (rule exI [of _ "RqTransfer t"]) (simp add: replayRequest_def)
    have S: "\<exists>rq. replayRequest ops clk e1 rq = setStockStatus ops clk e1 t LISTED PatternStockListed" for e1 t
      by (rule exI [of _ "RqStock t"]) (simp add: replayRequest_def)
    have B: "\<exists>rq. replayRequest ops clk e1 rq = applyBalanceAdjust ops clk e1 b" for e1 b
      by (rule exI [of _ "RqBalance b"]) (simp add: replayRequest_def)
    have H: "\<exists>rq. replayRequest ops clk e1 rq = applyStockBalanceAdjust ops clk e1 h" for e1 h
      by (rule exI [of _ "RqShares h"]) (simp add: replayRequest_def)
    have D: "e' = e \<or> (\<exists>rq. replayRequest ops clk e1 rq = (e', Ret ()))"
      if "decoded e f raw g = (e', Ret ())" "\<And>x. \<exists>rq. replayRequest ops clk e1 rq = g x" for e1 f raw and g :: "'z \<Rightarrow> _"
      using that by (metis (no_types, lifting) decoded_def option.exhaust option.simps(4,5) outcome.distinct(1) prod.inject)
    show ?thesis
      using assms Ret unfolding replayInput_def ofOutcome_def Let_def
      by (auto split: if_splits elim!: D simp: O A T S B H)
  qed (use assms in \<open>simp_all add: replayInput_def ofOutcome_def\<close>)
  then show thesis using that by (auto simp: replayRequest_Ret)
qed

lemma continues_replay:
  assumes laws: "twal_laws ops base recs"
  shows "forEach (replayInput ops clk) e is = (e', Ret ()) \<Longrightarrow> \<exists>envs. continues base recs e e' envs"
proof (induction "is" arbitrary: e)
  case Nil
  then show ?case using continues_none [of e' e] by auto
next
  case (Cons i "is")
  obtain e1 where s: "replayInput ops clk e i = (e1, Ret ())" "forEach (replayInput ops clk) e1 is = (e', Ret ())"
    using Cons.prems by (cases "replayInput ops clk e i"; cases "snd (replayInput ops clk e i)") auto
  have "\<exists>envs. continues base recs e e1 envs"
  proof (cases rule: replayInput_Ret [OF s(1)])
    case (2 rq)
    then show ?thesis using continues_applyRequest [OF laws 2] continues_frame [of base recs "e\<lparr>inputSeq := i\<rparr>" e1 _ e] by auto
  qed (use continues_none [of e e] in auto)
  then show ?case using Cons.IH [OF s(2)] continues_trans by blast
qed

lemma loadSnapshot_frame:
  assumes "loadSnapshot dec store e = (e', Ret n)"
  shows "outputLog e' = outputLog e" "lastTradeID e' = lastTradeID e"
  using assms by (auto simp: loadSnapshot_def ofOutcome_def andThen_def split: option.splits outcome.splits prod.splits)

lemma continues_Replay:
  assumes laws: "twal_laws ops base recs" and run: "Replay ops clk dec store e = (e', Ret ())"
  shows "\<exists>envs. continues base recs e e' envs"
proof -
  obtain e1 n where l: "loadSnapshot dec store e = (e1, Ret n)"
    using run by (cases "loadSnapshot dec store e"; cases "snd (loadSnapshot dec store e)") (auto simp: Replay_def)
  obtain k where "LastIndex ops (inputLog e1) = Ret k"
    using run l by (cases "LastIndex ops (inputLog e1)") (auto simp: Replay_def ofOutcome_def)
  then have "forEach (replayInput ops clk) e1 (indices (n + 1) k) = (e', Ret ())"
    using run l by (simp add: Replay_def ofOutcome_def)
  from continues_replay [OF laws this] show ?thesis using continues_frame loadSnapshot_frame [OF l] by metis
qed

lemma continues_handle:
  assumes laws: "twal_laws ops base recs" and run: "handle ops clk e m = (e', Ret r)"
  shows "\<exists>envs. continues base recs e e' envs"
proof (cases rule: handle_Ret [OF run])
  case (2 rq l idx)
  then show ?thesis
    using continues_applyRequest [OF laws 2(5)] continues_frame [of base recs "admitted e rq l idx" e' _ e]
    by (auto simp: admitted_def)
qed (use continues_none [of e e] in auto)

section \<open>Histories\<close>

text \<open>
  The envelopes ever written to the output log. An engine handles messages; it may stop at any
  time, in the middle of a request or of a replay, the log may be cut in front up to what the
  database has applied, and the next engine is booted from the logs: \<open>NewEngine\<close>, the search for
  the last trade id, and the replay of an input log, on top of any snapshot, in which requests
  below the watermark are suppressed and the others are answered. \<open>logged\<close> says which envelopes a
  run has added; their trades can be decoded.
\<close>

definition logged :: "('l \<Rightarrow> bytes list) \<Rightarrow> 'l \<Rightarrow> 'l \<Rightarrow> OutputEnvelope list \<Rightarrow> bool" where
  "logged recs l l' envs \<longleftrightarrow> map (unmarshal OutputEnvelope_Unmarshal) (recs l') =
     map (unmarshal OutputEnvelope_Unmarshal) (recs l) @ map Some envs \<and> tradesIn envs \<noteq> None"

definition cutTo :: "('l \<Rightarrow> nat) \<Rightarrow> ('l \<Rightarrow> bytes list) \<Rightarrow> 'l \<Rightarrow> 'l \<Rightarrow> nat \<Rightarrow> bool" where
  "cutTo base recs l l' n \<longleftrightarrow> (\<exists>j. (j = 0 \<or> j < length (recs l)) \<and> base l' = base l + j \<and> recs l' = drop j (recs l) \<and> base l' \<le> n)"

inductive issued ::
  "'l twal \<Rightarrow> ('l \<Rightarrow> nat) \<Rightarrow> ('l \<Rightarrow> bytes list) \<Rightarrow> ('b \<Rightarrow> LedgerSnapshot option) \<Rightarrow> database \<Rightarrow> 'l Engine \<Rightarrow> OutputEnvelope list \<Rightarrow> bool"
  for ops base recs dec d0 where
  starts: "issued ops base recs dec d0 e []" if "lastTradeID e = 0" "recs (outputLog e) = []" "base (outputLog e) = 0"
| handles: "issued ops base recs dec d0 e' (envs @ new)"
    if "issued ops base recs dec d0 e envs" "handle ops clk e m = (e', Ret r)" "logged recs (outputLog e) (outputLog e') new"
| restarts: "issued ops base recs dec d0 e' (envs @ new)"
    if "issued ops base recs dec d0 e envs" "cutTo base recs (outputLog e) l n" "n \<le> length envs" "length envs < 2 ^ 64"
      "applyEnvelopes (d0, None) (take n envs) = Ret (d, None)"
      "NewEngine ops i l = (e1, Ret ())" "initializeTradeID ops (Some (LastTradeID fails d)) e1 = (e2, Ret ())"
      "Replay ops clk dec store e2 = (e', Ret ())" "logged recs l (outputLog e') new"
| interrupted: "issued ops base recs dec d0 e' (envs @ new)"
    if "issued ops base recs dec d0 e envs" "cutTo base recs (outputLog e) l n" "n \<le> length envs" "length envs < 2 ^ 64"
      "applyEnvelopes (d0, None) (take n envs) = Ret (d, None)"
      "NewEngine ops i l = (e1, Ret ())" "initializeTradeID ops (Some (LastTradeID fails d)) e1 = (e2, Ret ())"
      "loadSnapshot dec store e2 = (e3, Ret snap)" "LastIndex ops (inputLog e3) = Ret lastIdx"
      "forEach (replayInput ops clk) e3 (take k (indices (snap + 1) lastIdx)) = (e', Ret ())" "logged recs l (outputLog e') new"

definition ledgerOfIds :: "('l \<Rightarrow> nat) \<Rightarrow> ('l \<Rightarrow> bytes list) \<Rightarrow> 'l Engine \<Rightarrow> OutputEnvelope list \<Rightarrow> bool" where
  "ledgerOfIds base recs e envs \<longleftrightarrow> 0 \<le> lastTradeID e \<and> tradesIn envs = Some [1..lastTradeID e] \<and>
     base (outputLog e) + length (recs (outputLog e)) = length envs \<and>
     map (unmarshal OutputEnvelope_Unmarshal) (recs (outputLog e)) = map Some (drop (base (outputLog e)) envs) \<and>
     (recs (outputLog e) = [] \<longrightarrow> base (outputLog e) = 0)"

lemma ledgerOfIds_continues:
  assumes I: "ledgerOfIds base recs e envs" and run: "\<exists>ys. continues base recs e e' ys"
    and log: "logged recs (outputLog e) (outputLog e') new"
  shows "ledgerOfIds base recs e' (envs @ new)"
proof -
  obtain ys where ys: "continues base recs e e' ys" using run by blast
  then have "map Some ys = map Some new" using log unfolding continues_def logged_def by (metis same_append_eq)
  then have "ys = new" by (simp add: inj_map_eq_map)
  with ys log have c: "base (outputLog e') = base (outputLog e)" "lastTradeID e \<le> lastTradeID e'"
    "map (unmarshal OutputEnvelope_Unmarshal) (recs (outputLog e')) =
       map (unmarshal OutputEnvelope_Unmarshal) (recs (outputLog e)) @ map Some new"
    "tradesIn new = Some [lastTradeID e + 1..lastTradeID e']"
    by (simp_all add: continues_def logged_def)
  have "length (recs (outputLog e')) = length (recs (outputLog e)) + length new" using arg_cong [OF c(3), of length] by simp
  with c I show ?thesis
    using upto_extend [of 0 "lastTradeID e" "lastTradeID e'"] by (auto simp: ledgerOfIds_def tradeIDsIn_append)
qed

lemma tradesIn_split:
  assumes "tradesIn envs = Some ids"
  obtains ks js where "tradesIn (take n envs) = Some ks" "tradesIn (drop n envs) = Some js" "ids = ks @ js"
proof -
  have "concat (map envEvents envs) = concat (map envEvents (take n envs)) @ concat (map envEvents (drop n envs))"
    by (simp flip: concat_append map_append)
  then show thesis using assms that by (auto simp only: tradeIDsIn_append)
qed

lemma restart_id:
  assumes laws: "twal_laws ops base recs" and log: "base (outputLog e) + length (recs (outputLog e)) = length envs"
    "map (unmarshal OutputEnvelope_Unmarshal) (recs (outputLog e)) = map Some (drop (base (outputLog e)) envs)"
    "recs (outputLog e) = [] \<Longrightarrow> base (outputLog e) = 0"
    and ids: "tradesIn envs = Some [1..k]" "0 \<le> k" and d0: "dbTrades d0 = fmempty"
    and db: "base (outputLog e) \<le> n" "n \<le> length envs" "applyEnvelopes (d0, None) (take n envs) = Ret (d, None)"
    and run: "initializeTradeID ops (Some (LastTradeID fails d)) e = (e', Ret ())" "length envs < 2 ^ 64"
  shows "lastTradeID e' = k" "outputLog e' = outputLog e"
proof -
  let ?b = "base (outputLog e)"
  obtain ks js where s: "tradesIn (take ?b envs) = Some ks" "tradesIn (drop ?b envs) = Some js" "[1..k] = ks @ js"
    by (rule tradesIn_split [OF ids(1)])
  have pos: "\<forall>i \<in> set js. 0 < i"
    using arg_cong [OF s(3), of set] by (auto simp: set_upto dest!: equalityD2)
  note I = initializeTradeID_last [OF laws _ log(2) s(2) pos log(3) run(1)]
  show "outputLog e' = outputLog e" using I(2) log(1) run(2) by simp
  show "lastTradeID e' = k"
  proof (cases "js = []")
    case False
    then have "last js = last [1..k]" "[1..k] \<noteq> []" using s(3) by simp_all
    moreover have "last [1..k] = k" if "[1..k] \<noteq> []" using that by (subst upto_rec2) auto
    ultimately show ?thesis using I(1) log(1) run(2) False by simp
  next
    case True
    obtain ps ls where n: "tradesIn (take n envs) = Some ps" "[1..k] = ps @ ls"
      by (rule tradesIn_split [OF ids(1)])
    have "take n envs = take ?b envs @ take (n - ?b) (drop ?b envs)"
      using db(1) by (metis le_add_diff_inverse take_add)
    then obtain qs where "ps = ks @ qs" using n(1) s(1) by (auto simp: tradeIDsIn_append)
    then have "ps = [1..k]" using n(2) s(3) True by simp
    then have "set ps = {1..k}" by simp
    then have t: "fset (fmdom (dbTrades d)) = {1..k}" using applyEnvelopes_trades [OF db(3) n(1)] d0 by simp
    then have "dbTrades d = fmempty \<longleftrightarrow> k = 0" using no_trades [of "dbTrades d"] ids(2) by auto
    moreover have "Max {1..k} = k" if "k \<noteq> 0" using that ids(2) by (intro Max_eqI) auto
    ultimately show ?thesis using I(1) log(1) run(2) True t ids(2) by auto
  qed
qed

lemma rememberInput_outputLog: "outputLog (fst (rememberInput ops e i)) = outputLog e"
  by (cases "readAs envelope_Unmarshal ops (inputLog e) i")
    (simp_all add: rememberInput_def ofOutcome_def decoded_def Let_def split: option.split)

lemma NewEngine_outputLog:
  assumes "NewEngine ops i out = (e, Ret ())"
  shows "outputLog e = out"
proof -
  have F: "outputLog (fst (forEach (rememberInput ops) f is)) = outputLog f" for f :: "'a Engine" and "is"
  proof (induction "is" arbitrary: f)
    case (Cons i "is")
    obtain f1 r where "rememberInput ops f i = (f1, r)" by fastforce
    with Cons rememberInput_outputLog [of ops f i] show ?case by (cases r) simp_all
  qed simp
  have D: "outputLog (fst (loadDedup ops f)) = outputLog f" for f :: "'a Engine"
    by (cases "LastIndex ops (inputLog f)") (simp_all add: loadDedup_def ofOutcome_def F)
  have W: "outputLog (fst (loadOutputWatermark ops f)) = outputLog f" for f :: "'a Engine"
  proof (cases "LastIndex ops (outputLog f)")
    case (Ret n)
    then show ?thesis
      by (cases "readAs OutputEnvelope_Unmarshal ops (outputLog f) n") (simp_all add: loadOutputWatermark_def ofOutcome_def)
  qed (simp_all add: loadOutputWatermark_def ofOutcome_def)
  let ?f = "emptyEngine i out"
  have run: "andThen (loadOutputWatermark ops ?f) (\<lambda>e _. loadDedup ops e) = (e, Ret ())"
    using assms by (simp add: NewEngine_def emptyEngine_def)
  obtain f r where f: "loadOutputWatermark ops ?f = (f, r)" by fastforce
  then have "outputLog f = out" using W [of ?f] by simp
  with run f D [of f] show ?thesis by (cases r) simp_all
qed

text \<open>A boot up to the replay finds the ledger of ids again.\<close>

lemma boot_ids:
  assumes laws: "twal_laws ops base recs" and d0: "dbTrades d0 = fmempty" and I: "ledgerOfIds base recs e envs"
    and cut: "cutTo base recs (outputLog e) l n" "n \<le> length envs" "length envs < 2 ^ 64"
    and db: "applyEnvelopes (d0, None) (take n envs) = Ret (d, None)"
    and run: "NewEngine ops i l = (e1, Ret ())" "initializeTradeID ops (Some (LastTradeID fails d)) e1 = (e2, Ret ())"
  shows "ledgerOfIds base recs e2 envs" "outputLog e2 = l"
proof -
  have l1: "outputLog e1 = l" by (rule NewEngine_outputLog [OF run(1)])
  obtain j where j: "j = 0 \<or> j < length (recs (outputLog e))" "base l = base (outputLog e) + j"
    "recs l = drop j (recs (outputLog e))" "base l \<le> n"
    using cut(1) unfolding cutTo_def by blast
  have E: "0 \<le> lastTradeID e" "tradesIn envs = Some [1..lastTradeID e]"
    "base (outputLog e) + length (recs (outputLog e)) = length envs"
    "map (unmarshal OutputEnvelope_Unmarshal) (recs (outputLog e)) = map Some (drop (base (outputLog e)) envs)"
    "recs (outputLog e) = [] \<longrightarrow> base (outputLog e) = 0"
    using I by (simp_all add: ledgerOfIds_def)
  have l: "base (outputLog e1) + length (recs (outputLog e1)) = length envs"
    "map (unmarshal OutputEnvelope_Unmarshal) (recs (outputLog e1)) = map Some (drop (base (outputLog e1)) envs)"
    "recs (outputLog e1) = [] \<Longrightarrow> base (outputLog e1) = 0"
    using E(3-5) j(1-3) unfolding l1 by (auto simp flip: drop_map) (simp add: drop_map add.commute)
  have b: "base (outputLog e1) \<le> n" using j(4) l1 by simp
  note R = restart_id [OF laws l E(2,1) d0 b cut(2) db run(2) cut(3)]
  show "outputLog e2 = l" using R(2) l1 by simp
  show "ledgerOfIds base recs e2 envs" using R E(1,2) l by (simp add: ledgerOfIds_def)
qed

lemma issued_ids:
  assumes "issued ops base recs dec d0 e envs" "twal_laws ops base recs" "dbTrades d0 = fmempty"
  shows "ledgerOfIds base recs e envs"
  using assms(1)
proof (induction rule: issued.induct)
  case (starts e)
  then show ?case by (simp add: ledgerOfIds_def)
next
  case (handles e envs clk m e' r new)
  then show ?case using ledgerOfIds_continues continues_handle [OF assms(2)] by blast
next
  case (restarts e envs l n d i e1 fails e2 clk store e' new)
  note B = boot_ids [OF assms(2,3) restarts.IH restarts.hyps(2-7)]
  show ?case
    by (rule ledgerOfIds_continues [OF B(1) continues_Replay [OF assms(2) restarts.hyps(8)]]) (simp add: B(2) restarts.hyps(9))
next
  case (interrupted e envs l n d i e1 fails e2 store e3 snap lastIdx clk k e' new)
  note B = boot_ids [OF assms(2,3) interrupted.IH interrupted.hyps(2-7)]
  have "\<exists>ys. continues base recs e2 e' ys"
    using continues_replay [OF assms(2) interrupted.hyps(10)] continues_frame loadSnapshot_frame [OF interrupted.hyps(8)] by metis
  then show ?case by (rule ledgerOfIds_continues [OF B(1)]) (simp add: B(2) interrupted.hyps(11))
qed

text \<open>
  C12: Trade ids are never issued twice. Over the whole life of an exchange, through messages, stops
  at any point, boots that replay the input log, with or without a snapshot, finished or interrupted,
  and the removal of old output records that the database has applied, the trades in the output log
  are numbered 1, 2, 3 and so on in the order they were written, without a gap or a repetition, and
  the engine continues after the last of them. The boots are those that find the last id, the
  database had no trades before, and the trades written can be decoded.
\<close>

theorem trade_ids_unique:
  assumes "twal_laws ops base recs" "issued ops base recs dec d0 e envs" "dbTrades d0 = fmempty"
  shows "tradeIDsIn (concat (map envEvents envs)) = Some [1..lastTradeID e]"
  using issued_ids [OF assms(2,1,3)] by (simp add: ledgerOfIds_def)

text \<open>Trades whose ids fit their columns can be decoded.\<close>

definition inRange :: "Trade \<Rightarrow> bool" where
  "inRange t \<longleftrightarrow> int64_min \<le> trId t \<and> trId t \<le> int64_max \<and> int32_min \<le> trStockId t \<and> trStockId t \<le> int32_max \<and>
     int64_min \<le> trMakerOrderId t \<and> trMakerOrderId t \<le> int64_max \<and>
     int64_min \<le> trTakerOrderId t \<and> trTakerOrderId t \<le> int64_max"

lemma marshalled_decode:
  "marshalEvents evs = Some out \<Longrightarrow> list_all labelled evs \<Longrightarrow> \<forall>t. EvTrade t \<in> data ` set evs \<longrightarrow> inRange t \<Longrightarrow>
   tradeIDsIn out = Some (idsOf evs)"
proof (induction evs arbitrary: out)
  case (Cons e evs)
  then show ?case
    by (cases "data e") (auto simp: labelled_def idsIn_def unmarshal_def inRange_def Trade_decodes split: option.splits)
qed simp

lemma trade_listed:
  "EvTrade t \<in> data ` set evs \<Longrightarrow> trId t \<in> set (idsOf evs) \<and> (trMakerOrderId t, trPrice t, trQuantity t) \<in> set (tradesOf evs)"
  by (force simp: idsOf_def idsIn_def tradesOf_def)

lemma ids_trades: "length (idsOf evs) = length (tradesOf evs)"
  by (induction evs) (auto simp: idsIn_def tradesOf_def split: evdata.split)

lemma sampleBuy_trade:
  assumes e: "state e = sampleState" "lastTradeID e = 0" "outputLog e = memEmpty" "\<not> suppressed e"
  obtains e' env where "applyRequest memOps sampleClock e (RqOrder sampleBuy) = (e', Ret ())"
    "mlRecs (outputLog e') = [Text (OutputEnvelope_Marshal env)]" "mlBase (outputLog e') = 0"
    "unmarshal OutputEnvelope_Unmarshal (Text (OutputEnvelope_Marshal env)) = Some env"
    "tradeIDsIn (envEvents env) = Some [1]" "envInputSeq env = inputSeq e"
proof -
  obtain s e1 evs e' where m: "matchEvents sampleClock (e\<lparr>state := s\<rparr>) sampleBuy = (e1, Ret evs)"
    "match_spec sampleBuy (e\<lparr>state := s\<rparr>) e1 evs" "frame e e1" "evs \<noteq> []"
    "\<And>i. bookOf s i = bookOf sampleState i" "appendOutput memOps sampleClock e1 evs = (e', Ret ())"
    "applyRequest memOps sampleClock e (RqOrder sampleBuy) = (e', Ret ())"
    by (rule sampleBuy_matched [OF e(1-3)]) blast
  have ns: "\<not> suppressed (e\<lparr>state := s\<rparr>)" "\<not> suppressed e1" "outputLog e1 = memEmpty"
    using m(3) e(3,4) suppressed_frame [OF m(3)] by (simp_all add: frame_def suppressed_def)
  note N = matchEvents_numbers [OF m(1) ns(1)]
  have t: "tradesOf evs = [(1, 100, 5)]"
    using m(2,5) by (simp add: match_spec_def counterSide_def bookOf_sample prio_sample greedy_sample Let_def del: greedy.simps)
  have "length [1..lastTradeID e1] = 1" using N(2) ids_trades [of evs] t e(2) by simp
  then have "lastTradeID e1 = 1" by simp
  then have i: "idsOf evs = [1]" using N(2) e(2) by simp
  have "inRange u" if u: "EvTrade u \<in> data ` set evs" for u
  proof -
    obtain y where y: "y \<in> set evs" "data y = EvTrade u" using u by (metis imageE)
    then have "ofTaker sampleBuy y" using N(4) by (simp add: list_all_iff)
    with y(2) trade_listed [OF u] i t show ?thesis by (simp add: ofTaker_def inRange_def)
  qed
  then have "\<forall>u. EvTrade u \<in> data ` set evs \<longrightarrow> inRange u" by blast
  note D = marshalled_decode [OF _ N(3) this]
  obtain env where "mlRecs (outputLog e') = mlRecs (outputLog e1) @ [Text (OutputEnvelope_Marshal env)]"
    "unmarshal OutputEnvelope_Unmarshal (Text (OutputEnvelope_Marshal env)) = Some env"
    "marshalEvents evs = Some (envEvents env)" "mlBase (outputLog e') = mlBase (outputLog e1)"
    by (rule appendOutput_envelope [OF memOps_laws m(4) ns(2) m(6)])
  moreover from this have "envInputSeq env = inputSeq e"
    using reportsOnce_outputs [OF memOps_laws, of sampleClock e e'] reportsOnce_applyRequest [of memOps sampleClock e "RqOrder sampleBuy"]
      m(7) e(3,4) ns(3) by (simp add: answers_def memEmpty_def del: applyRequest.simps)
  ultimately show thesis using D i ns(3) m(7) by (intro that [of e' env]) (simp_all add: memEmpty_def)
qed

text \<open>The same order as a message, and the boot of an engine after it.\<close>

definition orderDocument :: "Order \<Rightarrow> string \<Rightarrow> string \<Rightarrow> json" where
  "orderDocument x ot tt = JObj [(''id'', encInt (oId x)), (''targetId'', encInt (oTargetId x)), (''accountId'', encInt (oAccountId x)),
     (''stockId'', encInt (oStockId x)), (''price'', encU64 (oPrice x)), (''quantity'', encU64 (oQuantity x)),
     (''filledQuantity'', encU64 (oFilledQuantity x)), (''orderType'', JStr ot), (''tradingType'', JStr tt), (''createdAt'', JTime (oCreatedAt x))]"

lemma orderDocument_decodes:
  assumes "OrderType_UnmarshalJSON ot = Some (oOrderType x)" "TradingType_UnmarshalJSON tt = Some (oTradingType x)"
    and "int64_min \<le> oId x" "oId x \<le> int64_max" "int64_min \<le> oTargetId x" "oTargetId x \<le> int64_max"
    and "int32_min \<le> oAccountId x" "oAccountId x \<le> int32_max" "int32_min \<le> oStockId x" "oStockId x \<le> int32_max"
  shows "Order_Unmarshal (orderDocument x ot tt) = Some x"
  using assms by (simp add: orderDocument_def Order_Unmarshal_def dec_defs)

definition messageBuy :: bytes where
  "messageBuy = messageOf PatternOrderCreated (orderDocument sampleBuy ''LIMIT'' ''BUY'')"

lemma request_messageBuy: "requestOf messageBuy = Some (RqOrder sampleBuy)"
proof -
  have "Order_Unmarshal (orderDocument sampleBuy ''LIMIT'' ''BUY'') = Some sampleBuy"
    by (rule orderDocument_decodes) (simp_all add: OrderType_UnmarshalJSON_def TradingType_UnmarshalJSON_def sampleBuy_def sampleOrder_def zeroOrder_def)
  then show ?thesis
    by (simp add: messageBuy_def requestOf_def envelope_messageOf decodeRequest_def unmarshal_def [of Order_Unmarshal])
qed

lemma sampleBuy_handled:
  obtains e env where "handle memOps sampleClock sampleEngine messageBuy = (e, Ret Ack)"
    "inputLog e = \<lparr>mlBase = 0, mlRecs = [messageBuy]\<rparr>" "outputLog e = \<lparr>mlBase = 0, mlRecs = [Text (OutputEnvelope_Marshal env)]\<rparr>"
    "unmarshal OutputEnvelope_Unmarshal (Text (OutputEnvelope_Marshal env)) = Some env"
    "tradeIDsIn (envEvents env) = Some [1]" "envInputSeq env = 1"
proof -
  let ?l = "\<lparr>mlBase = 0, mlRecs = [messageBuy]\<rparr>" let ?e = "admitted sampleEngine (RqOrder sampleBuy) ?l 1"
  obtain e env where e: "applyRequest memOps sampleClock ?e (RqOrder sampleBuy) = (e, Ret ())"
    "mlRecs (outputLog e) = [Text (OutputEnvelope_Marshal env)]" "mlBase (outputLog e) = 0"
    "unmarshal OutputEnvelope_Unmarshal (Text (OutputEnvelope_Marshal env)) = Some env"
    "tradeIDsIn (envEvents env) = Some [1]" "envInputSeq env = 1"
    by (rule sampleBuy_trade [of ?e]) (simp_all add: admitted_def sampleEngine_def suppressed_def)
  have "Append memOps (inputLog sampleEngine) messageBuy = Ret (?l, 1)" "\<not> dedup_has (dedup sampleEngine) k i" for k i
    by (simp_all add: sampleEngine_def Append_memEmpty)
  then have "handle memOps sampleClock sampleEngine messageBuy = (e, Ret Ack)"
    using e(1) by (simp add: handle_request request_messageBuy handleRequest_def admit_def admitted_def acked_def del: applyRequest.simps)
  moreover have "inputLog e = ?l"
    using applyRequest_inputLog(1) [of memOps sampleClock ?e "RqOrder sampleBuy"] e(1) by (simp add: admitted_def del: applyRequest.simps)
  moreover have "outputLog e = \<lparr>mlBase = 0, mlRecs = [Text (OutputEnvelope_Marshal env)]\<rparr>"
    using e(2,3) by (cases "outputLog e") simp
  ultimately show thesis using e(4-6) by (intro that)
qed

lemma NewState_refuses:
  obtains e where "applyRequest memOps sampleClock (emptyEngine memEmpty memEmpty) (RqOrder sampleBuy) = (e, Ret ())"
proof -
  obtain s reason where v: "validateOrder NewState sampleBuy = (s, Some reason)"
    by (simp add: validateOrder_def validateStock_def NewState_def getStock_def table_defs)
  show thesis
    using that v appendOutput_reliable [OF memOps_laws memOps_reliable, of "[ev PatternOrderRejected (EvRejected \<lparr>orOrderId = oId sampleBuy, orReason = reason\<rparr>)]"
        "(emptyEngine memEmpty memEmpty)\<lparr>state := s\<rparr>" sampleClock]
    by (auto simp: appendReject_def memEmpty_def)
qed

text \<open>The order trades; the engine is booted again and replays it without drawing an id.\<close>

lemma sampleBuy_restart:
  assumes l: "l = \<lparr>mlBase = 0, mlRecs = [messageBuy]\<rparr>" "out = \<lparr>mlBase = 0, mlRecs = [Text (OutputEnvelope_Marshal env)]\<rparr>"
    and env: "unmarshal OutputEnvelope_Unmarshal (Text (OutputEnvelope_Marshal env)) = Some env"
    "tradeIDsIn (envEvents env) = Some [1]" "envInputSeq env = 1"
  obtains f1 f2 f where "NewEngine memOps l out = (f1, Ret ())" "initializeTradeID memOps (Some (LastTradeID False d)) f1 = (f2, Ret ())"
    "Replay memOps sampleClock dec None f2 = (f, Ret ())" "outputLog f = out" "suppressed f" "lastTradeID f = 1"
proof -
  have la: "lastAnswer (mlRecs out) = 1" using env(1,3) l(2) by (simp add: lastAnswer_def answers_def)
  let ?d = "rememberAll (newDedup dedupWindow) (map keyOf (drop (length (mlRecs l) - windowSize) (mlRecs l)))"
  let ?f = "(emptyEngine l out)\<lparr>outputAppliedSeq := 1, dedup := ?d\<rparr>" let ?g = "?f\<lparr>lastTradeID := 1\<rparr>"
  have "NewEngine memOps l out = (?f, Ret ())"
    using NewEngine_boots [OF memOps_laws memOps_reliable, of out l] la l by (simp add: decodable_def request_messageBuy windowKept_def)
  moreover have "lastTradeIn (rev (envEvents env)) = Ret (Some 1)" using lastTradeIn_rev [OF env(2)] by simp
  then have "initializeTradeID memOps (Some (LastTradeID False d)) ?f = (?g, Ret ())"
    using env(1) l(2) by (simp add: initializeTradeID_def ofOutcome_def LastIndex_def FirstIndex_def memOps_def memLast_def
        indices_def readAs_def Read_def)
  moreover obtain f where f: "replayInput memOps sampleClock ?g 1 = (f, Ret ())" "replays ?g f" "inputSeq f = 1"
  proof -
    obtain e where e: "applyRequest memOps sampleClock (emptyEngine memEmpty memEmpty) (RqOrder sampleBuy) = (e, Ret ())"
      by (rule NewState_refuses)
    have rd: "Read memOps (inputLog ?g) 1 = Ret messageBuy" using l(1) by (simp add: Read_def memOps_def)
    show thesis by (rule replayInput_step [OF rd request_messageBuy _ _ _ e]) (use that in simp_all)
  qed
  moreover from f(1) have "Replay memOps sampleClock dec None ?g = (f, Ret ())"
    using l(1) by (simp add: Replay_def loadSnapshot_def ofOutcome_def LastIndex_def memOps_def memLast_def indices_def)
  ultimately show thesis by (intro that [of ?f ?g f]) (simp_all add: replays_def suppressed_def)
qed

theorem trade_ids_unique_witness:
  "\<exists>e f env. handle memOps sampleClock sampleEngine messageBuy = (e, Ret Ack) \<and>
     issued memOps mlBase mlRecs Some sampleDatabase f [env] \<and> suppressed f \<and>
     tradeIDsIn (concat (map envEvents [env])) = Some [1..lastTradeID f] \<and> lastTradeID f = 1"
proof -
  obtain e env where e: "handle memOps sampleClock sampleEngine messageBuy = (e, Ret Ack)"
    "inputLog e = \<lparr>mlBase = 0, mlRecs = [messageBuy]\<rparr>" "outputLog e = \<lparr>mlBase = 0, mlRecs = [Text (OutputEnvelope_Marshal env)]\<rparr>"
    "unmarshal OutputEnvelope_Unmarshal (Text (OutputEnvelope_Marshal env)) = Some env"
    "tradeIDsIn (envEvents env) = Some [1]" "envInputSeq env = 1" by (rule sampleBuy_handled)
  obtain f1 f2 f where f: "NewEngine memOps (inputLog e) (outputLog e) = (f1, Ret ())"
    "initializeTradeID memOps (Some (LastTradeID False sampleDatabase)) f1 = (f2, Ret ())"
    "Replay memOps sampleClock Some None f2 = (f, Ret ())" "outputLog f = outputLog e" "suppressed f" "lastTradeID f = 1"
    by (rule sampleBuy_restart [OF e(2-6)])
  have "issued memOps mlBase mlRecs Some sampleDatabase sampleEngine []"
    by (rule starts) (simp_all add: sampleEngine_def memEmpty_def)
  then have "issued memOps mlBase mlRecs Some sampleDatabase e ([] @ [env])"
    by (rule handles [OF _ e(1)]) (use e(3-5) in \<open>simp add: logged_def sampleEngine_def memEmpty_def\<close>)
  from restarts [OF this _ _ _ _ f(1-3), of 0 "[]"]
  have h: "issued memOps mlBase mlRecs Some sampleDatabase f [env]"
    using f(4) e(3) by (simp add: cutTo_def logged_def)
  have "tradeIDsIn (concat (map envEvents [env])) = Some [1..lastTradeID f]"
    by (rule trade_ids_unique [OF memOps_laws h]) (simp add: sampleDatabase_def)
  with h e(1) f(5,6) show ?thesis by blast
qed

end
