(* ===== verification/Metrics.thy ===== *)
theory Metrics
  imports Engine "HOL-Library.Signed_Division"
begin

text \<open>
  The measurements of the two readers of the output log (\<^verbatim>\<open>internal/metrics\<close> and the functions
  \<^verbatim>\<open>recordBatch\<close> of \<^verbatim>\<open>internal/publisher\<close>). A \<^verbatim>\<open>time.Duration\<close> is a 64-bit word read as a signed
  number, so sums wrap as Go's do. Both methods of a reporter hold its mutex, so a run is a
  sequence of records and windows. The text of a log line is left out, its numbers are kept,
  except for the two rates, which are the counts divided by five seconds.
\<close>

section \<open>The event publisher\<close>

type_synonym duration = "64 word"

record PublisherReporter =
  prCompleted :: uint64
  prEvents :: uint64
  prWalWaitTotal :: duration
  prWalWaitMax :: duration
  prMqTotal :: duration
  prMqMax :: duration
  prTotalTotal :: duration
  prTotalMax :: duration

record PublisherRecord =
  EventCount :: int
  WALWait :: duration
  MQConfirm :: duration
  WALToMQ :: duration

definition NewPublisherReporter :: PublisherReporter where
  "NewPublisherReporter =
     \<lparr>prCompleted = 0, prEvents = 0, prWalWaitTotal = 0, prWalWaitMax = 0, prMqTotal = 0, prMqMax = 0,
      prTotalTotal = 0, prTotalMax = 0\<rparr>"

definition longer :: "duration \<Rightarrow> duration \<Rightarrow> duration" where
  "longer d m = (if sint d > sint m then d else m)"

definition PublisherReporter_Record :: "PublisherReporter \<Rightarrow> PublisherRecord \<Rightarrow> PublisherReporter" where
  "PublisherReporter_Record r record =
     r\<lparr>prCompleted := prCompleted r + 1,
       prEvents := prEvents r + word_of_int (EventCount record),
       prWalWaitTotal := prWalWaitTotal r + WALWait record,
       prMqTotal := prMqTotal r + MQConfirm record,
       prTotalTotal := prTotalTotal r + WALToMQ record,
       prWalWaitMax := longer (WALWait record) (prWalWaitMax r),
       prMqMax := longer (MQConfirm record) (prMqMax r),
       prTotalMax := longer (WALToMQ record) (prTotalMax r)\<rparr>"

text \<open>A snapshot has the fields of the reporter; taking it sets them to zero.\<close>

definition PublisherReporter_snapshotAndReset :: "PublisherReporter \<Rightarrow> PublisherReporter \<times> PublisherReporter" where
  "PublisherReporter_snapshotAndReset r = (r, NewPublisherReporter)"

record windowLine =
  wlOutputLast :: uint64
  wlReader :: uint64
  wlBacklog :: uint64
  wlProduced :: uint64

definition windowOf :: "uint64 \<Rightarrow> uint64 \<Rightarrow> uint64 \<Rightarrow> windowLine" where
  "windowOf currentLast reader last' =
     \<lparr>wlOutputLast = currentLast, wlReader = reader,
      wlBacklog = (if currentLast > reader then currentLast - reader else 0),
      wlProduced = (if currentLast \<ge> last' then currentLast - last' else 0)\<rparr>"

text \<open>The averages of a window; a division by zero would panic.\<close>

definition average :: "duration \<Rightarrow> uint64 \<Rightarrow> duration outcome" where
  "average spent completed =
     (let count = sint completed in if count = 0 then Panic DivideByZero else Ret (word_of_int (sint spent sdiv count)))"

definition logPublisherWindow :: "windowLine \<Rightarrow> PublisherReporter \<Rightarrow> (windowLine \<times> duration list) outcome" where
  "logPublisherWindow w s =
     (if prCompleted s = 0 then Ret (w, [])
      else case (average (prWalWaitTotal s) (prCompleted s), average (prMqTotal s) (prCompleted s),
                 average (prTotalTotal s) (prCompleted s)) of
             (Ret a, Ret b, Ret c) \<Rightarrow> Ret (w, [a, b, c])
           | _ \<Rightarrow> Panic DivideByZero)"

text \<open>The last index of the previous window, the reporter, and what is logged, if anything.\<close>

definition PublisherReporter_logWindow ::
  "uint64 outcome \<Rightarrow> uint64 \<Rightarrow> uint64 \<Rightarrow> PublisherReporter \<Rightarrow>
   uint64 \<times> PublisherReporter \<times> (windowLine \<times> duration list) outcome option" where
  "PublisherReporter_logWindow outputLast published last' r =
     (case outputLast of
        Ret currentLast \<Rightarrow>
          (let w = windowOf currentLast published last';
               (s, r') = PublisherReporter_snapshotAndReset r
           in (currentLast, r',
               if wlProduced w = 0 \<and> prCompleted s = 0 \<and> wlBacklog w = 0 then None
               else Some (logPublisherWindow w s)))
      | _ \<Rightarrow> (last', r, None))"

section \<open>The database projector\<close>

record DBProjectorReporter =
  drCompleted :: uint64
  drEvents :: uint64
  drWaitTotal :: duration
  drWaitMax :: duration
  drDbTotal :: duration
  drDbMax :: duration

record DBProjectorRecord =
  dbEventCount :: int
  dbWALWait :: duration
  DBApply :: duration

definition NewDBProjectorReporter :: DBProjectorReporter where
  "NewDBProjectorReporter =
     \<lparr>drCompleted = 0, drEvents = 0, drWaitTotal = 0, drWaitMax = 0, drDbTotal = 0, drDbMax = 0\<rparr>"

definition DBProjectorReporter_Record :: "DBProjectorReporter \<Rightarrow> DBProjectorRecord \<Rightarrow> DBProjectorReporter" where
  "DBProjectorReporter_Record r record =
     r\<lparr>drCompleted := drCompleted r + 1,
       drEvents := drEvents r + word_of_int (dbEventCount record),
       drWaitTotal := drWaitTotal r + dbWALWait record,
       drDbTotal := drDbTotal r + DBApply record,
       drWaitMax := longer (dbWALWait record) (drWaitMax r),
       drDbMax := longer (DBApply record) (drDbMax r)\<rparr>"

definition DBProjectorReporter_snapshotAndReset :: "DBProjectorReporter \<Rightarrow> DBProjectorReporter \<times> DBProjectorReporter" where
  "DBProjectorReporter_snapshotAndReset r = (r, NewDBProjectorReporter)"

definition logDBProjectorWindow :: "windowLine \<Rightarrow> DBProjectorReporter \<Rightarrow> (windowLine \<times> duration list) outcome" where
  "logDBProjectorWindow w s =
     (if drCompleted s = 0 then Ret (w, [])
      else case (average (drWaitTotal s) (drCompleted s), average (drDbTotal s) (drCompleted s)) of
             (Ret a, Ret b) \<Rightarrow> Ret (w, [a, b])
           | _ \<Rightarrow> Panic DivideByZero)"

definition DBProjectorReporter_logWindow ::
  "uint64 outcome \<Rightarrow> uint64 \<Rightarrow> uint64 \<Rightarrow> DBProjectorReporter \<Rightarrow>
   uint64 \<times> DBProjectorReporter \<times> (windowLine \<times> duration list) outcome option" where
  "DBProjectorReporter_logWindow outputLast applied last' r =
     (case outputLast of
        Ret currentLast \<Rightarrow>
          (let w = windowOf currentLast applied last';
               (s, r') = DBProjectorReporter_snapshotAndReset r
           in (currentLast, r',
               if wlProduced w = 0 \<and> drCompleted s = 0 \<and> wlBacklog w = 0 then None
               else Some (logDBProjectorWindow w s)))
      | _ \<Rightarrow> (last', r, None))"

section \<open>The windows of a run\<close>

text \<open>
  The loop of \<^verbatim>\<open>Run\<close>: at every tick a window is logged. A tick comes with the batches recorded
  since the one before, the last index of the output log and the position of the reader.
\<close>

fun runWindows ::
  "(uint64 outcome \<Rightarrow> uint64 \<Rightarrow> uint64 \<Rightarrow> 'r \<Rightarrow> uint64 \<times> 'r \<times> 'w option) \<Rightarrow> ('r \<Rightarrow> 'm \<Rightarrow> 'r) \<Rightarrow> uint64 \<Rightarrow> 'r \<Rightarrow>
   ('m list \<times> uint64 outcome \<times> uint64) list \<Rightarrow> 'w option list" where
  "runWindows line rec last' r [] = []"
| "runWindows line rec last' r ((ms, outputLast, reader) # rounds) =
     (case line outputLast reader last' (foldl rec r ms) of (last'', r', logged) \<Rightarrow> logged # runWindows line rec last'' r' rounds)"

definition PublisherReporter_Run ::
  "uint64 outcome \<Rightarrow> (PublisherRecord list \<times> uint64 outcome \<times> uint64) list \<Rightarrow> (windowLine \<times> duration list) outcome option list" where
  "PublisherReporter_Run outputLast =
     runWindows PublisherReporter_logWindow PublisherReporter_Record (case outputLast of Ret n \<Rightarrow> n | _ \<Rightarrow> 0) NewPublisherReporter"

definition DBProjectorReporter_Run ::
  "uint64 outcome \<Rightarrow> (DBProjectorRecord list \<times> uint64 outcome \<times> uint64) list \<Rightarrow> (windowLine \<times> duration list) outcome option list" where
  "DBProjectorReporter_Run outputLast =
     runWindows DBProjectorReporter_logWindow DBProjectorReporter_Record (case outputLast of Ret n \<Rightarrow> n | _ \<Rightarrow> 0) NewDBProjectorReporter"

section \<open>Recording a batch\<close>

text \<open>Go's \<^verbatim>\<open>Time.Sub\<close> saturates at the ends of \<^verbatim>\<open>time.Duration\<close>.\<close>

definition timeSub :: "time \<Rightarrow> time \<Rightarrow> int" where
  "timeSub t u = max int64_min (min int64_max (t - u))"

definition waited :: "OutputEnvelope list \<Rightarrow> time \<Rightarrow> duration" where
  "waited envs t =
     (case envs of
        [] \<Rightarrow> 0
      | env # _ \<Rightarrow> if envCreatedAt env = 0 then 0 else word_of_int (max (timeSub t (envCreatedAt env)) 0))"

definition eventCount :: "OutputEnvelope list \<Rightarrow> int" where
  "eventCount envs = sum_list (map (\<lambda>env. int (length (envEvents env))) envs)"

definition EventPublisher_recordBatch ::
  "OutputEnvelope list \<Rightarrow> time \<Rightarrow> time \<Rightarrow> duration \<Rightarrow> PublisherReporter \<Rightarrow> PublisherReporter" where
  "EventPublisher_recordBatch envs started finished mqConfirm r =
     PublisherReporter_Record r
       \<lparr>EventCount = eventCount envs, WALWait = waited envs started, MQConfirm = mqConfirm, WALToMQ = waited envs finished\<rparr>"

definition DBProjector_recordBatch ::
  "OutputEnvelope list \<Rightarrow> time \<Rightarrow> duration \<Rightarrow> DBProjectorReporter \<Rightarrow> DBProjectorReporter" where
  "DBProjector_recordBatch envs started dbApply r =
     DBProjectorReporter_Record r
       \<lparr>dbEventCount = eventCount envs, dbWALWait = waited envs started, DBApply = dbApply\<rparr>"

section \<open>Nothing is lost between windows\<close>

datatype 'm activity = Measured 'm | Window

fun runReporter :: "('r \<Rightarrow> 'm \<Rightarrow> 'r) \<Rightarrow> ('r \<Rightarrow> 's \<times> 'r) \<Rightarrow> 'r \<Rightarrow> 'm activity list \<Rightarrow> 's list \<times> 'r" where
  "runReporter rec snap r [] = ([], r)"
| "runReporter rec snap r (Measured m # acts) = runReporter rec snap (rec r m) acts"
| "runReporter rec snap r (Window # acts) =
     (case snap r of (s, r') \<Rightarrow> map_prod (Cons s) id (runReporter rec snap r' acts))"

fun measured :: "'m activity list \<Rightarrow> 'm list" where
  "measured [] = []"
| "measured (Measured m # acts) = m # measured acts"
| "measured (Window # acts) = measured acts"

text \<open>
  The contract of a reporter: a record adds to each of its sums, and a snapshot takes the sums
  and leaves zeros.
\<close>

locale reporter =
  fixes rec :: "'r \<Rightarrow> 'm \<Rightarrow> 'r" and snap :: "'r \<Rightarrow> 's \<times> 'r"
    and held :: "'k \<Rightarrow> 'r \<Rightarrow> 64 word" and taken :: "'k \<Rightarrow> 's \<Rightarrow> 64 word" and part :: "'k \<Rightarrow> 'm \<Rightarrow> 64 word"
  assumes rec_adds: "held k (rec r m) = held k r + part k m"
    and snap_takes: "taken k (fst (snap r)) = held k r"
    and snap_resets: "held k (snd (snap r)) = 0"
begin

lemma conserved:
  "sum_list (map (taken k) (fst (runReporter rec snap r acts))) + held k (snd (runReporter rec snap r acts)) =
     held k r + sum_list (map (part k) (measured acts))"
proof (induction acts arbitrary: r rule: measured.induct)
  case (3 acts)
  show ?case using 3 [of "snd (snap r)"] snap_takes [of k r] snap_resets [of k r]
    by (simp add: case_prod_beta add.assoc)
qed (simp_all add: rec_adds add.assoc)

end

datatype pubSum = PubCompleted | PubEvents | PubWalWait | PubMq | PubTotal

fun pubHeld :: "pubSum \<Rightarrow> PublisherReporter \<Rightarrow> 64 word" where
  "pubHeld PubCompleted r = prCompleted r"
| "pubHeld PubEvents r = prEvents r"
| "pubHeld PubWalWait r = prWalWaitTotal r"
| "pubHeld PubMq r = prMqTotal r"
| "pubHeld PubTotal r = prTotalTotal r"

fun pubPart :: "pubSum \<Rightarrow> PublisherRecord \<Rightarrow> 64 word" where
  "pubPart PubCompleted m = 1"
| "pubPart PubEvents m = word_of_int (EventCount m)"
| "pubPart PubWalWait m = WALWait m"
| "pubPart PubMq m = MQConfirm m"
| "pubPart PubTotal m = WALToMQ m"

datatype dbSum = DbCompleted | DbEvents | DbWait | DbApply

fun dbHeld :: "dbSum \<Rightarrow> DBProjectorReporter \<Rightarrow> 64 word" where
  "dbHeld DbCompleted r = drCompleted r"
| "dbHeld DbEvents r = drEvents r"
| "dbHeld DbWait r = drWaitTotal r"
| "dbHeld DbApply r = drDbTotal r"

fun dbPart :: "dbSum \<Rightarrow> DBProjectorRecord \<Rightarrow> 64 word" where
  "dbPart DbCompleted m = 1"
| "dbPart DbEvents m = word_of_int (dbEventCount m)"
| "dbPart DbWait m = dbWALWait m"
| "dbPart DbApply m = DBApply m"

lemma pub_sums:
  "pubHeld k (PublisherReporter_Record r m) = pubHeld k r + pubPart k m"
  "pubHeld k (fst (PublisherReporter_snapshotAndReset r)) = pubHeld k r"
  "pubHeld k (snd (PublisherReporter_snapshotAndReset r)) = 0"
  by (cases k; simp add: PublisherReporter_Record_def PublisherReporter_snapshotAndReset_def NewPublisherReporter_def)+

lemma db_sums:
  "dbHeld k (DBProjectorReporter_Record r m) = dbHeld k r + dbPart k m"
  "dbHeld k (fst (DBProjectorReporter_snapshotAndReset r)) = dbHeld k r"
  "dbHeld k (snd (DBProjectorReporter_snapshotAndReset r)) = 0"
  by (cases k; simp add: DBProjectorReporter_Record_def DBProjectorReporter_snapshotAndReset_def NewDBProjectorReporter_def)+

interpretation pub: reporter PublisherReporter_Record PublisherReporter_snapshotAndReset pubHeld pubHeld pubPart
  by unfold_locales (rule pub_sums)+

interpretation db: reporter DBProjectorReporter_Record DBProjectorReporter_snapshotAndReset dbHeld dbHeld dbPart
  by unfold_locales (rule db_sums)+

section \<open>Windows\<close>

lemma average_Ret: "c \<noteq> 0 \<Longrightarrow> average d c = Ret (word_of_int (sint d sdiv sint c))"
  by (simp add: average_def signed_eq_0_iff)

lemma windows_never_panic:
  "logPublisherWindow w s \<noteq> Panic x" "logDBProjectorWindow w t \<noteq> Panic x"
  by (simp_all add: logPublisherWindow_def logDBProjectorWindow_def average_Ret)

text \<open>The backlog is what the reader has not reached yet, without wrap-around when it is ahead.\<close>

lemma windowOf_exact:
  "unat (wlBacklog (windowOf currentLast reader last')) = unat currentLast - unat reader"
  "unat (wlProduced (windowOf currentLast reader last')) = unat currentLast - unat last'"
  by (auto simp: windowOf_def word_less_nat_alt word_le_nat_alt unat_sub)

lemma logWindow_panics:
  "snd (snd (PublisherReporter_logWindow o1 p l r)) \<noteq> Some (Panic x)"
  "snd (snd (DBProjectorReporter_logWindow o2 p l t)) \<noteq> Some (Panic x)"
  by (auto simp: PublisherReporter_logWindow_def DBProjectorReporter_logWindow_def windows_never_panic Let_def
      split: outcome.split prod.split)

lemma runWindows_panics:
  assumes "\<And>out p l r. snd (snd (line out p l r)) \<noteq> Some (Panic x)"
  shows "Some (Panic x) \<notin> set (runWindows line rec l r rounds)"
proof (induction rounds arbitrary: l r)
  case (Cons tick rounds)
  obtain ms out p where t: "tick = (ms, out, p)" by (metis prod_cases3)
  obtain l' r' w where w: "line out p l (foldl rec r ms) = (l', r', w)" by (metis prod_cases3)
  then have "w \<noteq> Some (Panic x)" using assms [of out p l "foldl rec r ms"] by simp
  then show ?case using t w Cons.IH by simp
qed simp

text \<open>
  C38: The metrics lose nothing and count nothing twice. For both reporters, in every sequence of
  recorded batches and logged windows, each of the sums (completed records, events, the waiting
  and working times), added over all windows and what is still held, is what was recorded, in
  64-bit arithmetic; and no window divides by zero, whatever was recorded before it.
\<close>

theorem measurements_conserved:
  "sum_list (map (pubHeld k) (fst (runReporter PublisherReporter_Record PublisherReporter_snapshotAndReset r acts))) +
     pubHeld k (snd (runReporter PublisherReporter_Record PublisherReporter_snapshotAndReset r acts)) =
     pubHeld k r + sum_list (map (pubPart k) (measured acts)) \<and>
   sum_list (map (dbHeld j) (fst (runReporter DBProjectorReporter_Record DBProjectorReporter_snapshotAndReset t acts'))) +
     dbHeld j (snd (runReporter DBProjectorReporter_Record DBProjectorReporter_snapshotAndReset t acts')) =
     dbHeld j t + sum_list (map (dbPart j) (measured acts')) \<and>
   Some (Panic x) \<notin> set (PublisherReporter_Run outputLast rounds) \<and>
   Some (Panic x) \<notin> set (DBProjectorReporter_Run outputLast rounds')"
  unfolding PublisherReporter_Run_def DBProjectorReporter_Run_def
  by (intro conjI pub.conserved db.conserved runWindows_panics logWindow_panics)

text \<open>A batch counts every event of its envelopes once, and its waiting times are never negative.\<close>

lemma recordBatch_counts:
  "prEvents (EventPublisher_recordBatch envs started finished c r) = prEvents r + word_of_nat (length (concat (map envEvents envs)))"
  "drEvents (DBProjector_recordBatch envs started c t) = drEvents t + word_of_nat (length (concat (map envEvents envs)))"
proof -
  have "eventCount envs = int (length (concat (map envEvents envs)))"
    by (induction envs) (simp_all add: eventCount_def)
  then show "prEvents (EventPublisher_recordBatch envs started finished c r) = prEvents r + word_of_nat (length (concat (map envEvents envs)))"
    "drEvents (DBProjector_recordBatch envs started c t) = drEvents t + word_of_nat (length (concat (map envEvents envs)))"
    by (simp_all add: EventPublisher_recordBatch_def DBProjector_recordBatch_def PublisherReporter_Record_def
        DBProjectorReporter_Record_def)
qed

lemma waited_not_negative: "0 \<le> sint (waited envs t)"
proof -
  have "0 \<le> sint (word_of_int i :: 64 word)" if "0 \<le> i" "i \<le> int64_max" for i
    using that by (simp add: signed_of_int signed_take_bit_int_eq_self)
  moreover have "max (timeSub t u) 0 \<le> int64_max" "0 \<le> max (timeSub t u) 0" for u by (auto simp: timeSub_def)
  ultimately show ?thesis by (simp add: waited_def split: list.split)
qed

end
