(* ===== verification/Sqlc.thy ===== *)
theory Sqlc
  imports Storage
begin

text \<open>
  The generated access layer (\<^verbatim>\<open>internal/storage/sqlc/models.go\<close> and \<^verbatim>\<open>db.go\<close>): how enumerations
  travel between Go and the driver, and how a query is executed, as text or as a prepared
  statement, on the pool or in a transaction. The driver and the database are arguments.
\<close>

section \<open>Enumerations\<close>

text \<open>
  What the driver hands over for a column; of a value that is neither bytes nor a string only the
  name of its type matters. Scanning gives the variable afterwards and the error, if any.
\<close>

datatype sqlValue = NullValue | BytesValue string | StringValue string | OtherValue string

fun goType :: "sqlValue \<Rightarrow> string" where
  "goType NullValue = ''<nil>''"
| "goType (BytesValue s) = ''[]uint8''"
| "goType (StringValue s) = ''string''"
| "goType (OtherValue t) = t"

definition enumScan :: "string \<Rightarrow> sqlValue \<Rightarrow> string \<Rightarrow> string \<times> string option" where
  "enumScan typ src e =
     (case src of
        BytesValue s \<Rightarrow> (s, None)
      | StringValue s \<Rightarrow> (s, None)
      | _ \<Rightarrow> (e, Some (''unsupported scan type for '' @ typ @ '': '' @ goType src)))"

text \<open>The nullable form of an enumeration: a value with whether it is not NULL.\<close>

record NullEnum =
  enumValue :: string
  enumValid :: bool

definition nullScan :: "(sqlValue \<Rightarrow> string \<Rightarrow> string \<times> string option) \<Rightarrow> sqlValue \<Rightarrow> NullEnum \<Rightarrow> NullEnum \<times> string option" where
  "nullScan scan src ns =
     (if src = NullValue then (\<lparr>enumValue = [], enumValid = False\<rparr>, None)
      else (case scan src (enumValue ns) of (e, err) \<Rightarrow> (\<lparr>enumValue = e, enumValid = True\<rparr>, err)))"

definition nullValue :: "NullEnum \<Rightarrow> sqlValue" where
  "nullValue ns = (if \<not> enumValid ns then NullValue else StringValue (enumValue ns))"

definition AccountsStatus_Scan :: "sqlValue \<Rightarrow> string \<Rightarrow> string \<times> string option" where
  "AccountsStatus_Scan = enumScan ''AccountsStatus''"

definition NullAccountsStatus_Scan :: "sqlValue \<Rightarrow> NullEnum \<Rightarrow> NullEnum \<times> string option" where
  "NullAccountsStatus_Scan = nullScan AccountsStatus_Scan"

definition NullAccountsStatus_Value :: "NullEnum \<Rightarrow> sqlValue" where
  "NullAccountsStatus_Value = nullValue"

definition AdminRequestsRejectReason_Scan :: "sqlValue \<Rightarrow> string \<Rightarrow> string \<times> string option" where
  "AdminRequestsRejectReason_Scan = enumScan ''AdminRequestsRejectReason''"

definition NullAdminRequestsRejectReason_Scan :: "sqlValue \<Rightarrow> NullEnum \<Rightarrow> NullEnum \<times> string option" where
  "NullAdminRequestsRejectReason_Scan = nullScan AdminRequestsRejectReason_Scan"

definition NullAdminRequestsRejectReason_Value :: "NullEnum \<Rightarrow> sqlValue" where
  "NullAdminRequestsRejectReason_Value = nullValue"

definition AdminRequestsStatus_Scan :: "sqlValue \<Rightarrow> string \<Rightarrow> string \<times> string option" where
  "AdminRequestsStatus_Scan = enumScan ''AdminRequestsStatus''"

definition NullAdminRequestsStatus_Scan :: "sqlValue \<Rightarrow> NullEnum \<Rightarrow> NullEnum \<times> string option" where
  "NullAdminRequestsStatus_Scan = nullScan AdminRequestsStatus_Scan"

definition NullAdminRequestsStatus_Value :: "NullEnum \<Rightarrow> sqlValue" where
  "NullAdminRequestsStatus_Value = nullValue"

definition AdminRequestsType_Scan :: "sqlValue \<Rightarrow> string \<Rightarrow> string \<times> string option" where
  "AdminRequestsType_Scan = enumScan ''AdminRequestsType''"

definition NullAdminRequestsType_Scan :: "sqlValue \<Rightarrow> NullEnum \<Rightarrow> NullEnum \<times> string option" where
  "NullAdminRequestsType_Scan = nullScan AdminRequestsType_Scan"

definition NullAdminRequestsType_Value :: "NullEnum \<Rightarrow> sqlValue" where
  "NullAdminRequestsType_Value = nullValue"

definition CandlesType_Scan :: "sqlValue \<Rightarrow> string \<Rightarrow> string \<times> string option" where
  "CandlesType_Scan = enumScan ''CandlesType''"

definition NullCandlesType_Scan :: "sqlValue \<Rightarrow> NullEnum \<Rightarrow> NullEnum \<times> string option" where
  "NullCandlesType_Scan = nullScan CandlesType_Scan"

definition NullCandlesType_Value :: "NullEnum \<Rightarrow> sqlValue" where
  "NullCandlesType_Value = nullValue"

definition CursorsType_Scan :: "sqlValue \<Rightarrow> string \<Rightarrow> string \<times> string option" where
  "CursorsType_Scan = enumScan ''CursorsType''"

definition NullCursorsType_Scan :: "sqlValue \<Rightarrow> NullEnum \<Rightarrow> NullEnum \<times> string option" where
  "NullCursorsType_Scan = nullScan CursorsType_Scan"

definition NullCursorsType_Value :: "NullEnum \<Rightarrow> sqlValue" where
  "NullCursorsType_Value = nullValue"

definition OrdersCancelReason_Scan :: "sqlValue \<Rightarrow> string \<Rightarrow> string \<times> string option" where
  "OrdersCancelReason_Scan = enumScan ''OrdersCancelReason''"

definition NullOrdersCancelReason_Scan :: "sqlValue \<Rightarrow> NullEnum \<Rightarrow> NullEnum \<times> string option" where
  "NullOrdersCancelReason_Scan = nullScan OrdersCancelReason_Scan"

definition NullOrdersCancelReason_Value :: "NullEnum \<Rightarrow> sqlValue" where
  "NullOrdersCancelReason_Value = nullValue"

definition OrdersOrderType_Scan :: "sqlValue \<Rightarrow> string \<Rightarrow> string \<times> string option" where
  "OrdersOrderType_Scan = enumScan ''OrdersOrderType''"

definition NullOrdersOrderType_Scan :: "sqlValue \<Rightarrow> NullEnum \<Rightarrow> NullEnum \<times> string option" where
  "NullOrdersOrderType_Scan = nullScan OrdersOrderType_Scan"

definition NullOrdersOrderType_Value :: "NullEnum \<Rightarrow> sqlValue" where
  "NullOrdersOrderType_Value = nullValue"

definition OrdersRejectReason_Scan :: "sqlValue \<Rightarrow> string \<Rightarrow> string \<times> string option" where
  "OrdersRejectReason_Scan = enumScan ''OrdersRejectReason''"

definition NullOrdersRejectReason_Scan :: "sqlValue \<Rightarrow> NullEnum \<Rightarrow> NullEnum \<times> string option" where
  "NullOrdersRejectReason_Scan = nullScan OrdersRejectReason_Scan"

definition NullOrdersRejectReason_Value :: "NullEnum \<Rightarrow> sqlValue" where
  "NullOrdersRejectReason_Value = nullValue"

definition OrdersStatus_Scan :: "sqlValue \<Rightarrow> string \<Rightarrow> string \<times> string option" where
  "OrdersStatus_Scan = enumScan ''OrdersStatus''"

definition NullOrdersStatus_Scan :: "sqlValue \<Rightarrow> NullEnum \<Rightarrow> NullEnum \<times> string option" where
  "NullOrdersStatus_Scan = nullScan OrdersStatus_Scan"

definition NullOrdersStatus_Value :: "NullEnum \<Rightarrow> sqlValue" where
  "NullOrdersStatus_Value = nullValue"

definition OrdersTradingType_Scan :: "sqlValue \<Rightarrow> string \<Rightarrow> string \<times> string option" where
  "OrdersTradingType_Scan = enumScan ''OrdersTradingType''"

definition NullOrdersTradingType_Scan :: "sqlValue \<Rightarrow> NullEnum \<Rightarrow> NullEnum \<times> string option" where
  "NullOrdersTradingType_Scan = nullScan OrdersTradingType_Scan"

definition NullOrdersTradingType_Value :: "NullEnum \<Rightarrow> sqlValue" where
  "NullOrdersTradingType_Value = nullValue"

definition StocksStatus_Scan :: "sqlValue \<Rightarrow> string \<Rightarrow> string \<times> string option" where
  "StocksStatus_Scan = enumScan ''StocksStatus''"

definition NullStocksStatus_Scan :: "sqlValue \<Rightarrow> NullEnum \<Rightarrow> NullEnum \<times> string option" where
  "NullStocksStatus_Scan = nullScan StocksStatus_Scan"

definition NullStocksStatus_Value :: "NullEnum \<Rightarrow> sqlValue" where
  "NullStocksStatus_Value = nullValue"

definition TransfersRejectReason_Scan :: "sqlValue \<Rightarrow> string \<Rightarrow> string \<times> string option" where
  "TransfersRejectReason_Scan = enumScan ''TransfersRejectReason''"

definition NullTransfersRejectReason_Scan :: "sqlValue \<Rightarrow> NullEnum \<Rightarrow> NullEnum \<times> string option" where
  "NullTransfersRejectReason_Scan = nullScan TransfersRejectReason_Scan"

definition NullTransfersRejectReason_Value :: "NullEnum \<Rightarrow> sqlValue" where
  "NullTransfersRejectReason_Value = nullValue"

definition TransfersStatus_Scan :: "sqlValue \<Rightarrow> string \<Rightarrow> string \<times> string option" where
  "TransfersStatus_Scan = enumScan ''TransfersStatus''"

definition NullTransfersStatus_Scan :: "sqlValue \<Rightarrow> NullEnum \<Rightarrow> NullEnum \<times> string option" where
  "NullTransfersStatus_Scan = nullScan TransfersStatus_Scan"

definition NullTransfersStatus_Value :: "NullEnum \<Rightarrow> sqlValue" where
  "NullTransfersStatus_Value = nullValue"

definition UsersRole_Scan :: "sqlValue \<Rightarrow> string \<Rightarrow> string \<times> string option" where
  "UsersRole_Scan = enumScan ''UsersRole''"

definition NullUsersRole_Scan :: "sqlValue \<Rightarrow> NullEnum \<Rightarrow> NullEnum \<times> string option" where
  "NullUsersRole_Scan = nullScan UsersRole_Scan"

definition NullUsersRole_Value :: "NullEnum \<Rightarrow> sqlValue" where
  "NullUsersRole_Value = nullValue"

lemmas enum_defs =
  AccountsStatus_Scan_def NullAccountsStatus_Scan_def NullAccountsStatus_Value_def
  AdminRequestsRejectReason_Scan_def NullAdminRequestsRejectReason_Scan_def NullAdminRequestsRejectReason_Value_def
  AdminRequestsStatus_Scan_def NullAdminRequestsStatus_Scan_def NullAdminRequestsStatus_Value_def
  AdminRequestsType_Scan_def NullAdminRequestsType_Scan_def NullAdminRequestsType_Value_def
  CandlesType_Scan_def NullCandlesType_Scan_def NullCandlesType_Value_def
  CursorsType_Scan_def NullCursorsType_Scan_def NullCursorsType_Value_def
  OrdersCancelReason_Scan_def NullOrdersCancelReason_Scan_def NullOrdersCancelReason_Value_def
  OrdersOrderType_Scan_def NullOrdersOrderType_Scan_def NullOrdersOrderType_Value_def
  OrdersRejectReason_Scan_def NullOrdersRejectReason_Scan_def NullOrdersRejectReason_Value_def
  OrdersStatus_Scan_def NullOrdersStatus_Scan_def NullOrdersStatus_Value_def
  OrdersTradingType_Scan_def NullOrdersTradingType_Scan_def NullOrdersTradingType_Value_def
  StocksStatus_Scan_def NullStocksStatus_Scan_def NullStocksStatus_Value_def
  TransfersRejectReason_Scan_def NullTransfersRejectReason_Scan_def NullTransfersRejectReason_Value_def
  TransfersStatus_Scan_def NullTransfersStatus_Scan_def NullTransfersStatus_Value_def
  UsersRole_Scan_def NullUsersRole_Scan_def NullUsersRole_Value_def

text \<open>
  What a column of an enumeration relies on: text, as bytes or as a string, is taken as it is, and
  NULL clears the variable.
\<close>

locale nullable_enum =
  fixes scan :: "sqlValue \<Rightarrow> NullEnum \<Rightarrow> NullEnum \<times> string option" and value_of :: "NullEnum \<Rightarrow> sqlValue"
  assumes scan_text: "src \<in> {BytesValue s, StringValue s} \<Longrightarrow> scan src ns = (\<lparr>enumValue = s, enumValid = True\<rparr>, None)"
    and scan_null: "scan NullValue ns = (\<lparr>enumValue = [], enumValid = False\<rparr>, None)"
    and value_text: "value_of ns = (if enumValid ns then StringValue (enumValue ns) else NullValue)"
begin

lemma roundtrip: "scan (value_of ns) ns0 = (if enumValid ns then ns else \<lparr>enumValue = [], enumValid = False\<rparr>, None)"
  by (cases ns) (simp add: value_text scan_text scan_null)

lemma value_after_scan: "scan src ns0 = (ns, None) \<Longrightarrow> src \<in> {NullValue, StringValue s} \<Longrightarrow> value_of ns = src"
  using scan_text [of "StringValue s" s] scan_null by (auto simp: value_text)

end

interpretation AccountsStatus: nullable_enum NullAccountsStatus_Scan NullAccountsStatus_Value
  by unfold_locales (auto simp: enum_defs enumScan_def nullScan_def nullValue_def)

interpretation AdminRequestsRejectReason: nullable_enum NullAdminRequestsRejectReason_Scan NullAdminRequestsRejectReason_Value
  by unfold_locales (auto simp: enum_defs enumScan_def nullScan_def nullValue_def)

interpretation AdminRequestsStatus: nullable_enum NullAdminRequestsStatus_Scan NullAdminRequestsStatus_Value
  by unfold_locales (auto simp: enum_defs enumScan_def nullScan_def nullValue_def)

interpretation AdminRequestsType: nullable_enum NullAdminRequestsType_Scan NullAdminRequestsType_Value
  by unfold_locales (auto simp: enum_defs enumScan_def nullScan_def nullValue_def)

interpretation CandlesType: nullable_enum NullCandlesType_Scan NullCandlesType_Value
  by unfold_locales (auto simp: enum_defs enumScan_def nullScan_def nullValue_def)

interpretation CursorsType: nullable_enum NullCursorsType_Scan NullCursorsType_Value
  by unfold_locales (auto simp: enum_defs enumScan_def nullScan_def nullValue_def)

interpretation OrdersCancelReason: nullable_enum NullOrdersCancelReason_Scan NullOrdersCancelReason_Value
  by unfold_locales (auto simp: enum_defs enumScan_def nullScan_def nullValue_def)

interpretation OrdersOrderType: nullable_enum NullOrdersOrderType_Scan NullOrdersOrderType_Value
  by unfold_locales (auto simp: enum_defs enumScan_def nullScan_def nullValue_def)

interpretation OrdersRejectReason: nullable_enum NullOrdersRejectReason_Scan NullOrdersRejectReason_Value
  by unfold_locales (auto simp: enum_defs enumScan_def nullScan_def nullValue_def)

interpretation OrdersStatus: nullable_enum NullOrdersStatus_Scan NullOrdersStatus_Value
  by unfold_locales (auto simp: enum_defs enumScan_def nullScan_def nullValue_def)

interpretation OrdersTradingType: nullable_enum NullOrdersTradingType_Scan NullOrdersTradingType_Value
  by unfold_locales (auto simp: enum_defs enumScan_def nullScan_def nullValue_def)

interpretation StocksStatus: nullable_enum NullStocksStatus_Scan NullStocksStatus_Value
  by unfold_locales (auto simp: enum_defs enumScan_def nullScan_def nullValue_def)

interpretation TransfersRejectReason: nullable_enum NullTransfersRejectReason_Scan NullTransfersRejectReason_Value
  by unfold_locales (auto simp: enum_defs enumScan_def nullScan_def nullValue_def)

interpretation TransfersStatus: nullable_enum NullTransfersStatus_Scan NullTransfersStatus_Value
  by unfold_locales (auto simp: enum_defs enumScan_def nullScan_def nullValue_def)

interpretation UsersRole: nullable_enum NullUsersRole_Scan NullUsersRole_Value
  by unfold_locales (auto simp: enum_defs enumScan_def nullScan_def nullValue_def)

text \<open>The reason of a refusal reaches its column as the string it is.\<close>

lemma reject_reason_param:
  "NullOrdersRejectReason_Value \<lparr>enumValue = r, enumValid = True\<rparr> = StringValue r"
  "NullTransfersRejectReason_Value \<lparr>enumValue = r, enumValid = True\<rparr> = StringValue r"
  "NullAdminRequestsRejectReason_Value \<lparr>enumValue = r, enumValid = True\<rparr> = StringValue r"
  by (simp_all add: OrdersRejectReason.value_text TransfersRejectReason.value_text AdminRequestsRejectReason.value_text)

section \<open>Queries\<close>

datatype query =
    QActivateAccount | QCompleteAdminRequest | QCompleteTransfer | QDeleteHolding | QLatestSnapshot
  | QLoadDBAppliedCursor | QLoadMQPublishedCursor | QOldestSnapshotWalIndex | QPruneSnapshots
  | QRejectAdminRequest | QRejectOrder | QRejectTransfer | QSaveDBAppliedCursor | QSaveMQPublishedCursor
  | QSaveSnapshot | QSaveTrade | QUpdateAccountBalance | QUpdateOrderState | QUpdateStockPrice
  | QUpdateStockStatus | QUpsertHolding

definition queries :: "query list" where
  "queries =
     [QActivateAccount, QCompleteAdminRequest, QCompleteTransfer, QDeleteHolding, QLatestSnapshot,
      QLoadDBAppliedCursor, QLoadMQPublishedCursor, QOldestSnapshotWalIndex, QPruneSnapshots,
      QRejectAdminRequest, QRejectOrder, QRejectTransfer, QSaveDBAppliedCursor, QSaveMQPublishedCursor,
      QSaveSnapshot, QSaveTrade, QUpdateAccountBalance, QUpdateOrderState, QUpdateStockPrice,
      QUpdateStockStatus, QUpsertHolding]"

text \<open>
  The interface \<^verbatim>\<open>DBTX\<close> is a pool or a transaction. The fields with the prepared statements are a
  function of the query. \<^verbatim>\<open>dbtx\<close> holds what the database does with a query of some arguments: as text
  on the pool or in a transaction, or as a statement prepared before.
\<close>

record ('d, 't, 's) Queries =
  qDB :: "'d + 't"
  qTx :: "'t option"
  qStmt :: "query \<Rightarrow> 's option"

record ('d, 't, 's, 'a, 'r) dbtx =
  dbRun :: "'d \<Rightarrow> query \<Rightarrow> 'a \<Rightarrow> 'r"
  txRun :: "'t \<Rightarrow> query \<Rightarrow> 'a \<Rightarrow> 'r"
  stmtRun :: "'s \<Rightarrow> 'a \<Rightarrow> 'r"
  txStmtRun :: "'t \<Rightarrow> 's \<Rightarrow> 'a \<Rightarrow> 'r"

definition Queries_New :: "'d \<Rightarrow> ('d, 't, 's) Queries" where
  "Queries_New db = \<lparr>qDB = Inl db, qTx = None, qStmt = (\<lambda>_. None)\<rparr>"

text \<open>Preparing stops at the first statement that cannot be prepared and names it.\<close>

fun prepareAll :: "(query \<Rightarrow> 's option) \<Rightarrow> query list \<Rightarrow> query + (query \<times> 's) list" where
  "prepareAll prepare [] = Inr []"
| "prepareAll prepare (x # xs) =
     (case prepare x of
        None \<Rightarrow> Inl x
      | Some s \<Rightarrow> (case prepareAll prepare xs of Inl y \<Rightarrow> Inl y | Inr ss \<Rightarrow> Inr ((x, s) # ss)))"

definition Queries_Prepare :: "('d \<Rightarrow> query \<Rightarrow> 's option) \<Rightarrow> 'd \<Rightarrow> query + ('d, 't, 's) Queries" where
  "Queries_Prepare prepare db =
     (case prepareAll (prepare db) queries of
        Inl x \<Rightarrow> Inl x
      | Inr ss \<Rightarrow> Inr \<lparr>qDB = Inl db, qTx = None, qStmt = map_of ss\<rparr>)"

text \<open>Closing closes what was prepared, in order, and reports the last error.\<close>

fun closeAll :: "('s \<Rightarrow> bool) \<Rightarrow> (query \<Rightarrow> 's option) \<Rightarrow> query list \<Rightarrow> query option \<Rightarrow> 's list \<times> query option" where
  "closeAll fails stmt [] err = ([], err)"
| "closeAll fails stmt (x # xs) err =
     (case stmt x of
        None \<Rightarrow> closeAll fails stmt xs err
      | Some s \<Rightarrow> map_prod (Cons s) id (closeAll fails stmt xs (if fails s then Some x else err)))"

definition Queries_Close :: "('s \<Rightarrow> bool) \<Rightarrow> ('d, 't, 's) Queries \<Rightarrow> 's list \<times> query option" where
  "Queries_Close fails q = closeAll fails (qStmt q) queries None"

definition Queries_exec ::
  "('d, 't, 's, 'a, 'r) dbtx \<Rightarrow> ('d, 't, 's) Queries \<Rightarrow> 's option \<Rightarrow> query \<Rightarrow> 'a \<Rightarrow> 'r" where
  "Queries_exec ops q stmt x args =
     (case stmt of
        Some s \<Rightarrow> (case qTx q of Some t \<Rightarrow> txStmtRun ops t s args | None \<Rightarrow> stmtRun ops s args)
      | None \<Rightarrow> (case qDB q of Inl d \<Rightarrow> dbRun ops d x args | Inr t \<Rightarrow> txRun ops t x args))"

text \<open>Queries with rows and with one row are dispatched in the same way; their results differ.\<close>

definition Queries_query ::
  "('d, 't, 's, 'a, 'r) dbtx \<Rightarrow> ('d, 't, 's) Queries \<Rightarrow> 's option \<Rightarrow> query \<Rightarrow> 'a \<Rightarrow> 'r" where
  "Queries_query = Queries_exec"

definition Queries_queryRow ::
  "('d, 't, 's, 'a, 'r) dbtx \<Rightarrow> ('d, 't, 's) Queries \<Rightarrow> 's option \<Rightarrow> query \<Rightarrow> 'a \<Rightarrow> 'r" where
  "Queries_queryRow = Queries_exec"

definition Queries_WithTx :: "('d, 't, 's) Queries \<Rightarrow> 't \<Rightarrow> ('d, 't, 's) Queries" where
  "Queries_WithTx q tx = \<lparr>qDB = Inr tx, qTx = Some tx, qStmt = qStmt q\<rparr>"

lemma queries_complete: "x \<in> set queries" "distinct queries"
  by (cases x) (simp_all add: queries_def)

lemma prepareAll_Inr:
  "prepareAll prepare xs = Inr ss \<Longrightarrow> x \<in> set xs \<Longrightarrow> map_of ss x = prepare x \<and> prepare x \<noteq> None"
  by (induction xs arbitrary: ss) (auto split: option.splits sum.splits)

lemma prepareAll_fails: "(\<exists>x. prepareAll prepare xs = Inl x) \<longleftrightarrow> (\<exists>x \<in> set xs. prepare x = None)"
  by (induction xs) (auto split: option.split sum.split)

lemma Prepare_Inr:
  assumes "Queries_Prepare prepare db = Inr q"
  shows "qDB q = Inl db" "qTx q = None" "qStmt q x = prepare db x" "prepare db x \<noteq> None"
  using assms prepareAll_Inr [of "prepare db" queries _ x] queries_complete(1) [of x]
  by (auto simp: Queries_Prepare_def split: sum.splits)

lemma Prepare_fails: "(\<exists>x. Queries_Prepare prepare db = Inl x) \<longleftrightarrow> (\<exists>x. prepare db x = None)"
proof -
  have "(\<exists>x. Queries_Prepare prepare db = Inl x) \<longleftrightarrow> (\<exists>x. prepareAll (prepare db) queries = Inl x)"
    by (simp add: Queries_Prepare_def split: sum.split)
  then show ?thesis by (simp add: prepareAll_fails queries_complete(1) Bex_def)
qed

lemma closeAll_closes: "fst (closeAll fails stmt xs err) = List.map_filter stmt xs"
  by (induction xs arbitrary: err) (auto simp: List.map_filter_simps split: option.split)

lemma closeAll_error:
  "snd (closeAll fails stmt xs err) = None \<longleftrightarrow> err = None \<and> (\<forall>x \<in> set xs. \<forall>s. stmt x = Some s \<longrightarrow> \<not> fails s)"
  by (induction xs arbitrary: err) (auto split: option.split)

text \<open>Everything prepared is closed, each statement once, whether or not closing another fails.\<close>

lemma Close_closes:
  assumes "Queries_Prepare prepare db = Inr q"
  shows "fst (Queries_Close fails q) = List.map_filter (prepare db) queries" "length (fst (Queries_Close fails q)) = 21"
    "snd (Queries_Close fails q) = None \<longleftrightarrow> (\<forall>x s. prepare db x = Some s \<longrightarrow> \<not> fails s)"
proof -
  note q = Prepare_Inr [OF assms]
  then have stmt: "qStmt q = prepare db" by blast
  show "fst (Queries_Close fails q) = List.map_filter (prepare db) queries"
    "snd (Queries_Close fails q) = None \<longleftrightarrow> (\<forall>x s. prepare db x = Some s \<longrightarrow> \<not> fails s)"
    using queries_complete(1) by (auto simp: Queries_Close_def closeAll_closes closeAll_error stmt)
  have "filter (\<lambda>x. prepare db x \<noteq> None) queries = queries" using q(4) by simp
  then show "length (fst (Queries_Close fails q)) = 21"
    by (simp add: Queries_Close_def closeAll_closes stmt List.map_filter_def) (simp add: queries_def)
qed

text \<open>
  What the database documents: a prepared statement does what its text does, also in a transaction.
\<close>

definition prepared_laws :: "('d \<Rightarrow> query \<Rightarrow> 's option) \<Rightarrow> ('d, 't, 's, 'a, 'r) dbtx \<Rightarrow> bool" where
  "prepared_laws prepare ops \<longleftrightarrow> (\<forall>d x s. prepare d x = Some s \<longrightarrow>
     (\<forall>args. stmtRun ops s args = dbRun ops d x args) \<and> (\<forall>t args. txStmtRun ops t s args = txRun ops t x args))"

text \<open>
  Preparing the statements changes nothing but how they are sent. When \<open>Prepare\<close> returns no
  error, every query answers on the pool as without preparation, and after \<open>WithTx\<close> it runs in that
  transaction and nowhere else, with and without preparation.
\<close>

lemma prepared_queries_same:
  assumes "prepared_laws prepare ops" "Queries_Prepare prepare db = Inr q"
  shows "Queries_exec ops q (qStmt q x) x args = Queries_exec ops (Queries_New db) (qStmt (Queries_New db) x) x args \<and>
    Queries_exec ops (Queries_WithTx q tx) (qStmt (Queries_WithTx q tx) x) x args = txRun ops tx x args \<and>
    Queries_exec ops (Queries_WithTx (Queries_New db) tx) (qStmt (Queries_WithTx (Queries_New db) tx) x) x args = txRun ops tx x args"
proof -
  obtain s where "prepare db x = Some s" using Prepare_Inr(4) [OF assms(2)] by blast
  with assms(1) Prepare_Inr [OF assms(2)] show ?thesis
    by (simp add: Queries_exec_def Queries_New_def Queries_WithTx_def prepared_laws_def)
qed

lemma prepared_queries_sample:
  "\<exists>q. Queries_Prepare (\<lambda>d x. Some (d, x)) (7::nat) = Inr q \<and>
     Queries_exec \<lparr>dbRun = \<lambda>d x a. (d, x, a), txRun = \<lambda>t x a. (t, x, a), stmtRun = \<lambda>s a. (fst s, snd s, a),
       txStmtRun = \<lambda>t s a. (t, snd s, a)\<rparr> (Queries_WithTx q 8) (qStmt q QSaveTrade) QSaveTrade (5::nat) = (8, QSaveTrade, 5)"
proof -
  let ?prep = "\<lambda>(d::nat) x. Some (d, x)"
  let ?ops = "\<lparr>dbRun = \<lambda>d x a. (d, x, a), txRun = \<lambda>t x a. (t, x, a), stmtRun = \<lambda>s a. (fst s, snd s, a),
    txStmtRun = \<lambda>t s (a::nat). (t, snd s, a)\<rparr>"
  obtain q :: "(nat, nat, nat \<times> query) Queries" where q: "Queries_Prepare ?prep 7 = Inr q"
    using Prepare_fails [of ?prep 7] by (cases "Queries_Prepare ?prep 7 :: query + (nat, nat, nat \<times> query) Queries") auto
  have laws: "prepared_laws ?prep ?ops" by (simp add: prepared_laws_def)
  have "Queries_exec ?ops (Queries_WithTx q 8) (qStmt (Queries_WithTx q 8) QSaveTrade) QSaveTrade 5 = txRun ?ops 8 QSaveTrade 5"
    using prepared_queries_same [OF laws q, of QSaveTrade 5 8] by blast
  with q show ?thesis by (intro exI [of _ q]) (simp add: Queries_WithTx_def)
qed

end
