(* ===== verification/Messaging.thy ===== *)
theory Messaging
  imports Publisher Handle
begin

text \<open>
  The connection to the message broker (\<^verbatim>\<open>internal/messaging/rabbitmq.go\<close>). The channels of the
  AMQP package are arguments: a record of the two operations of a channel in confirm mode, what
  the package documents about them as the hypothesis \<open>amqp_laws\<close>, and which step of opening or
  closing a connection fails.
\<close>

section \<open>Publishing\<close>

record Message =
  RoutingKey :: string
  Payload :: bytes

datatype mqError = PublishFailed string | AwaitFailed string | NackedByBroker string

text \<open>
  \<open>amqp_Publish\<close> hands a message to the broker and returns the number under which it can be
  confirmed, or fails; \<open>amqp_Wait\<close> waits for the broker's verdict on a number, or fails.
\<close>

record 'c amqp =
  amqp_Publish :: "'c \<Rightarrow> string \<Rightarrow> bytes \<Rightarrow> 'c \<times> nat option"
  amqp_Wait :: "'c \<Rightarrow> nat \<Rightarrow> 'c \<times> bool option"

definition awaitConfirm :: "'c amqp \<Rightarrow> 'c \<Rightarrow> string \<Rightarrow> nat \<Rightarrow> 'c \<times> mqError option" where
  "awaitConfirm ops ch key conf =
     (case amqp_Wait ops ch conf of
        (ch', None) \<Rightarrow> (ch', Some (AwaitFailed key))
      | (ch', Some ok) \<Rightarrow> (ch', if ok then None else Some (NackedByBroker key)))"

definition Publish :: "'c amqp \<Rightarrow> 'c \<Rightarrow> Message \<Rightarrow> 'c \<times> mqError option" where
  "Publish ops ch msg =
     (case amqp_Publish ops ch (RoutingKey msg) (Payload msg) of
        (ch', None) \<Rightarrow> (ch', Some (PublishFailed (RoutingKey msg)))
      | (ch', Some conf) \<Rightarrow> awaitConfirm ops ch' (RoutingKey msg) conf)"

fun publishAll :: "'c amqp \<Rightarrow> 'c \<Rightarrow> Message list \<Rightarrow> 'c \<times> (mqError + nat list)" where
  "publishAll ops ch [] = (ch, Inr [])"
| "publishAll ops ch (msg # msgs) =
     (case amqp_Publish ops ch (RoutingKey msg) (Payload msg) of
        (ch', None) \<Rightarrow> (ch', Inl (PublishFailed (RoutingKey msg)))
      | (ch', Some conf) \<Rightarrow>
          (case publishAll ops ch' msgs of
             (ch'', Inl e) \<Rightarrow> (ch'', Inl e)
           | (ch'', Inr confs) \<Rightarrow> (ch'', Inr (conf # confs))))"

fun awaitAll :: "'c amqp \<Rightarrow> 'c \<Rightarrow> (Message \<times> nat) list \<Rightarrow> 'c \<times> mqError option" where
  "awaitAll ops ch [] = (ch, None)"
| "awaitAll ops ch ((msg, conf) # rest) =
     (case awaitConfirm ops ch (RoutingKey msg) conf of
        (ch', None) \<Rightarrow> awaitAll ops ch' rest
      | (ch', Some e) \<Rightarrow> (ch', Some e))"

definition PublishBatch :: "'c amqp \<Rightarrow> 'c \<Rightarrow> Message list \<Rightarrow> 'c \<times> mqError option" where
  "PublishBatch ops ch msgs =
     (if msgs = [] then (ch, None)
      else case publishAll ops ch msgs of
             (ch', Inl e) \<Rightarrow> (ch', Some e)
           | (ch', Inr confirms) \<Rightarrow> awaitAll ops ch' (zip msgs confirms))"

section \<open>Receiving\<close>

record amqpDelivery =
  adRoutingKey :: string
  adBody :: bytes
  adAck :: "bool \<Rightarrow> unit outcome"
  adNack :: "bool \<Rightarrow> bool \<Rightarrow> unit outcome"

definition toDelivery :: "amqpDelivery \<Rightarrow> Delivery" where
  "toDelivery d = \<lparr>routingKey = adRoutingKey d, payload = adBody d, dAck = adAck d False, dNack = adNack d False\<rparr>"

text \<open>
  What the \<^verbatim>\<open>select\<close>s of the forwarding goroutine receive: the end of the context, a delivery with
  whether the engine took it before the context ended, or the end of the broker's channel. The
  result is what the engine receives and whether its channel was closed.
\<close>

datatype consumeEvent = ContextDone | Received amqpDelivery bool | ChannelClosed

fun forwardDeliveries :: "consumeEvent list \<Rightarrow> Delivery list \<times> bool" where
  "forwardDeliveries [] = ([], False)"
| "forwardDeliveries (ContextDone # evs) = ([], True)"
| "forwardDeliveries (ChannelClosed # evs) = ([], True)"
| "forwardDeliveries (Received d taken # evs) =
     (if taken then map_prod (Cons (toDelivery d)) id (forwardDeliveries evs) else ([], True))"

definition Deliveries :: "bool \<Rightarrow> consumeEvent list \<Rightarrow> (Delivery list \<times> bool) outcome" where
  "Deliveries consumeFails evs = (if consumeFails then Err BrokerFailed else Ret (forwardDeliveries evs))"

section \<open>Opening and closing\<close>

datatype connHandle = Connection | ConsumeChannel | PublishChannel

datatype openStep = Dial | OpenConsume | SetQos | OpenPublish | SetConfirm

text \<open>
  The connection with the handles that are open; \<open>fails\<close> says which step fails, and the result
  names it.
\<close>

definition Open :: "(openStep \<Rightarrow> bool) \<Rightarrow> int \<Rightarrow> connHandle list \<times> openStep option" where
  "Open fails prefetchCount =
     (let close = (\<lambda>hs. filter (\<lambda>h. h \<notin> set hs))
      in if fails Dial then ([], Some Dial)
         else let hs = [Connection]
              in if fails OpenConsume then (close [Connection] hs, Some OpenConsume)
                 else let hs = ConsumeChannel # hs
                      in if prefetchCount > 0 \<and> fails SetQos then (close [ConsumeChannel, Connection] hs, Some SetQos)
                         else if fails OpenPublish then (close [ConsumeChannel, Connection] hs, Some OpenPublish)
                         else let hs = PublishChannel # hs
                              in if fails SetConfirm
                                 then (close [PublishChannel, ConsumeChannel, Connection] hs, Some SetConfirm)
                                 else (hs, None))"

text \<open>Closing attempts every handle that is set and joins the errors.\<close>

definition Close :: "(connHandle \<Rightarrow> bool) \<Rightarrow> connHandle list \<Rightarrow> connHandle list \<times> connHandle list" where
  "Close closeFails hs =
     (let tried = filter (\<lambda>h. h \<in> set hs) [PublishChannel, ConsumeChannel, Connection]
      in (tried, filter closeFails tried))"

section \<open>What the package documents\<close>

text \<open>
  \<open>given\<close> are the messages handed to the broker on this channel, in order, and \<open>confirmed\<close> the
  numbers it has confirmed. A publishing that fails may or may not have reached the broker.
\<close>

definition amqp_laws :: "'c amqp \<Rightarrow> ('c \<Rightarrow> Message list) \<Rightarrow> ('c \<Rightarrow> nat set) \<Rightarrow> bool" where
  "amqp_laws ops given confirmed \<longleftrightarrow>
     (\<forall>c k b c' r. amqp_Publish ops c k b = (c', r) \<longrightarrow> confirmed c \<subseteq> confirmed c' \<and>
        (case r of
           Some n \<Rightarrow> given c' = given c @ [\<lparr>RoutingKey = k, Payload = b\<rparr>] \<and> n = length (given c)
         | None \<Rightarrow> given c' = given c \<or> given c' = given c @ [\<lparr>RoutingKey = k, Payload = b\<rparr>])) \<and>
     (\<forall>c n c' r. amqp_Wait ops c n = (c', r) \<longrightarrow> given c' = given c \<and> confirmed c \<subseteq> confirmed c' \<and>
        (r = Some True \<longrightarrow> n \<in> confirmed c'))"

lemma amqp_PublishD:
  assumes "amqp_laws ops given confirmed" "amqp_Publish ops c (RoutingKey m) (Payload m) = (c', r)"
  shows "confirmed c \<subseteq> confirmed c'" "r = Some n \<Longrightarrow> given c' = given c @ [m] \<and> n = length (given c)"
    "r = None \<Longrightarrow> given c' = given c \<or> given c' = given c @ [m]"
proof -
  obtain k b where m: "m = \<lparr>RoutingKey = k, Payload = b\<rparr>" by (cases m) auto
  have call: "amqp_Publish ops c k b = (c', r)" using assms(2) m by simp
  have law: "confirmed c \<subseteq> confirmed c' \<and>
      (case r of
         Some n \<Rightarrow> given c' = given c @ [m] \<and> n = length (given c)
       | None \<Rightarrow> given c' = given c \<or> given c' = given c @ [m])"
    unfolding m using assms(1) call unfolding amqp_laws_def by blast
  then show "confirmed c \<subseteq> confirmed c'" by blast
  show "r = Some n \<Longrightarrow> given c' = given c @ [m] \<and> n = length (given c)"
    "r = None \<Longrightarrow> given c' = given c \<or> given c' = given c @ [m]"
    using law by simp_all
qed

lemma amqp_WaitD:
  assumes "amqp_laws ops given confirmed" "awaitConfirm ops c k n = (c', r)"
  shows "given c' = given c" "confirmed c \<subseteq> confirmed c'" "r = None \<Longrightarrow> n \<in> confirmed c'"
  using assms unfolding amqp_laws_def awaitConfirm_def by (fastforce split: prod.splits option.splits if_splits)+

section \<open>Batches\<close>

lemma publishAll_given:
  assumes "amqp_laws ops given confirmed"
  shows "publishAll ops c msgs = (c', r) \<Longrightarrow> confirmed c \<subseteq> confirmed c' \<and>
    (case r of
       Inr confs \<Rightarrow> given c' = given c @ msgs \<and> confs = [length (given c)..<length (given c) + length msgs]
     | Inl _ \<Rightarrow> \<exists>n \<le> length msgs. given c' = given c @ take n msgs)"
proof (induction msgs arbitrary: c c' r)
  case (Cons m msgs)
  obtain c1 p where p: "amqp_Publish ops c (RoutingKey m) (Payload m) = (c1, p)" by fastforce
  note P = amqp_PublishD [OF assms p]
  show ?case
  proof (cases p)
    case None
    then have r: "c' = c1" "r = Inl (PublishFailed (RoutingKey m))" using Cons.prems p by simp_all
    from P(3) [OF None] have "\<exists>n \<le> length (m # msgs). given c1 = given c @ take n (m # msgs)"
    proof
      assume "given c1 = given c"
      then show ?thesis by (intro exI [of _ 0]) simp
    next
      assume "given c1 = given c @ [m]"
      then show ?thesis by (intro exI [of _ 1]) simp
    qed
    with P(1) r show ?thesis by simp
  next
    case (Some n)
    obtain c2 q where q: "publishAll ops c1 msgs = (c2, q)" by fastforce
    note IH = Cons.IH [OF q] and G = P(2) [OF Some]
    show ?thesis
    proof (cases q)
      case (Inl e)
      then obtain k where "k \<le> length msgs" "given c2 = given c @ m # take k msgs" using IH G by auto
      then have "\<exists>n \<le> length (m # msgs). given c2 = given c @ take n (m # msgs)" by (intro exI [of _ "Suc k"]) simp
      then show ?thesis using Cons.prems p q Some Inl IH P(1) by auto
    next
      case (Inr confs)
      have up: "[k..<k + length (m # msgs)] = k # [Suc k..<Suc k + length msgs]" for k by (simp add: upt_conv_Cons del: upt_Suc)
      have r: "r = Inr (n # confs)" "c' = c2" using Cons.prems p q Some Inr by simp_all
      show ?thesis using IH P(1) G Inr unfolding r up by auto
    qed
  qed
qed simp

lemma awaitAll_confirmed:
  assumes "amqp_laws ops given confirmed"
  shows "awaitAll ops c mcs = (c', r) \<Longrightarrow> given c' = given c \<and> confirmed c \<subseteq> confirmed c' \<and>
    (r = None \<longrightarrow> snd ` set mcs \<subseteq> confirmed c')"
proof (induction mcs arbitrary: c)
  case (Cons mc mcs)
  obtain m n where mc: "mc = (m, n)" by fastforce
  obtain c1 w where w: "awaitConfirm ops c (RoutingKey m) n = (c1, w)" by fastforce
  note W = amqp_WaitD [OF assms w]
  show ?case using Cons.prems Cons.IH [of c1] W w mc by (cases w) auto
qed simp

lemma batch_sent:
  assumes "amqp_laws ops given confirmed" "PublishBatch ops c msgs = (c', r)"
  shows "r = None \<Longrightarrow> given c' = given c @ msgs \<and> {length (given c)..<length (given c')} \<subseteq> confirmed c'"
    and "\<exists>n \<le> length msgs. given c' = given c @ take n msgs"
proof -
  have "(r = None \<longrightarrow> given c' = given c @ msgs \<and> {length (given c)..<length (given c')} \<subseteq> confirmed c') \<and>
    (\<exists>n \<le> length msgs. given c' = given c @ take n msgs)"
  proof (cases "msgs = []")
    case True
    then show ?thesis using assms(2) by (simp add: PublishBatch_def)
  next
    case False
    obtain c1 q where q: "publishAll ops c msgs = (c1, q)" by fastforce
    note G = publishAll_given [OF assms(1) q]
    show ?thesis
    proof (cases q)
      case (Inl e)
      then show ?thesis using assms(2) False q G by (auto simp: PublishBatch_def)
    next
      case (Inr confs)
      then have a: "awaitAll ops c1 (zip msgs confs) = (c', r)" using assms(2) False q by (simp add: PublishBatch_def)
      have confs: "given c1 = given c @ msgs" "confs = [length (given c)..<length (given c) + length msgs]" using G Inr by simp_all
      then have "snd ` set (zip msgs confs) = {length (given c)..<length (given c) + length msgs}"
        by (metis length_upt add_diff_cancel_left' list.set_map map_snd_zip set_upt)
      with awaitAll_confirmed [OF assms(1) a] confs(1) show ?thesis by (auto intro!: exI [of _ "length msgs"])
    qed
  qed
  then show "r = None \<Longrightarrow> given c' = given c @ msgs \<and> {length (given c)..<length (given c')} \<subseteq> confirmed c'"
    "\<exists>n \<le> length msgs. given c' = given c @ take n msgs" by blast+
qed

lemma Publish_batch: "PublishBatch ops c [m] = Publish ops c m"
  by (auto simp: PublishBatch_def Publish_def split: prod.split option.split sum.split)

text \<open>
  C25: A batch that is reported as published was published. When \<open>PublishBatch\<close> returns no error,
  the broker received exactly the messages of the batch, in their order, and confirmed every one
  of them. When it returns an error, the broker received at most the messages of the batch, a
  prefix of them, which are not taken back. A single \<open>Publish\<close> is a batch of one.
\<close>

theorem batch_confirmed:
  assumes "amqp_laws ops given confirmed" "PublishBatch ops c msgs = (c', r)"
  shows "(r = None \<longrightarrow> given c' = given c @ msgs \<and> {length (given c)..<length (given c')} \<subseteq> confirmed c') \<and>
    (\<exists>n \<le> length msgs. given c' = given c @ take n msgs) \<and>
    (\<forall>m. msgs = [m] \<longrightarrow> Publish ops c m = (c', r))"
proof (intro conjI allI impI)
  fix m assume "msgs = [m]"
  then show "Publish ops c m = (c', r)" using assms(2) by (simp add: Publish_batch)
qed (use batch_sent [OF assms] in blast)+

text \<open>A broker in memory: it takes every message, and confirms those whose numbers it does not refuse.\<close>

record memBroker =
  mbGiven :: "Message list"
  mbConfirmed :: "nat set"

definition memAmqp :: "(nat \<Rightarrow> bool) \<Rightarrow> memBroker amqp" where
  "memAmqp refuses = \<lparr>
     amqp_Publish = (\<lambda>c k b. (c\<lparr>mbGiven := mbGiven c @ [\<lparr>RoutingKey = k, Payload = b\<rparr>]\<rparr>, Some (length (mbGiven c)))),
     amqp_Wait = (\<lambda>c n. if refuses n then (c, Some False) else (c\<lparr>mbConfirmed := insert n (mbConfirmed c)\<rparr>, Some True))\<rparr>"

lemma memAmqp_laws: "amqp_laws (memAmqp refuses) mbGiven mbConfirmed"
  by (auto simp: amqp_laws_def memAmqp_def split: if_splits)

theorem batch_confirmed_witness:
  "\<exists>c'. PublishBatch (memAmqp (\<lambda>n. False)) \<lparr>mbGiven = [], mbConfirmed = {}\<rparr>
      [\<lparr>RoutingKey = ''q'', Payload = NotJson\<rparr>, \<lparr>RoutingKey = ''q'', Payload = Text JNull\<rparr>] = (c', None) \<and>
    length (mbGiven c') = 2 \<and> {0..<2} \<subseteq> mbConfirmed c'"
proof -
  obtain c' where c: "PublishBatch (memAmqp (\<lambda>n. False)) \<lparr>mbGiven = [], mbConfirmed = {}\<rparr>
      [\<lparr>RoutingKey = ''q'', Payload = NotJson\<rparr>, \<lparr>RoutingKey = ''q'', Payload = Text JNull\<rparr>] = (c', None)"
    by (simp add: PublishBatch_def memAmqp_def awaitConfirm_def)
  with batch_confirmed [OF memAmqp_laws c] show ?thesis by (intro exI [of _ c']) auto
qed

section \<open>The publisher's view of a batch\<close>

text \<open>
  The publisher is modelled with a fault for each batch; this is the fault a connection shows,
  and the messages that reached the queue are those the publisher's model says.
\<close>

definition faultOf :: "'c amqp \<Rightarrow> ('c \<Rightarrow> Message list) \<Rightarrow> 'c \<Rightarrow> Message list \<Rightarrow> bool \<Rightarrow> publishFault" where
  "faultOf ops given c msgs cursorFails =
     (case PublishBatch ops c msgs of
        (c', Some _) \<Rightarrow> PublishFails (length (given c') - length (given c))
      | (c', None) \<Rightarrow> if cursorFails then CursorFails else Published)"

lemma faultOf_sent:
  assumes "amqp_laws ops given confirmed" "PublishBatch ops c msgs = (c', r)"
  shows "given c' = given c @ (case faultOf ops given c msgs cursorFails of PublishFails n \<Rightarrow> take n msgs | _ \<Rightarrow> msgs)"
proof -
  obtain n where "n \<le> length msgs" "given c' = given c @ take n msgs" using batch_sent(2) [OF assms] by blast
  then show ?thesis using assms(2) batch_sent(1) [OF assms] by (cases r) (simp_all add: faultOf_def)
qed

section \<open>Deliveries and connections\<close>

text \<open>
  The engine receives the broker's deliveries unchanged and in order; it misses at most those
  after the context ended.
\<close>

lemma forwardDeliveries_in_order:
  "\<exists>n. fst (forwardDeliveries evs) = take n (map toDelivery (concat (map (\<lambda>e. case e of Received d _ \<Rightarrow> [d] | _ \<Rightarrow> []) evs)))"
proof (induction evs)
  case (Cons e evs)
  then obtain n where n: "fst (forwardDeliveries evs) =
      take n (map toDelivery (concat (map (\<lambda>e. case e of Received d _ \<Rightarrow> [d] | _ \<Rightarrow> []) evs)))" by blast
  show ?case
  proof (cases e)
    case (Received d taken)
    then show ?thesis using n by (cases taken) (auto intro: exI [of _ "Suc n"] exI [of _ 0])
  qed (auto intro: exI [of _ 0])
qed simp

lemma forwardDeliveries_closed:
  "snd (forwardDeliveries evs) \<longleftrightarrow> (\<exists>e \<in> set evs. e = ContextDone \<or> e = ChannelClosed \<or> (\<exists>d. e = Received d False))"
  by (induction evs rule: forwardDeliveries.induct) auto

text \<open>A connection that could not be opened leaves nothing open; closing attempts every handle.\<close>

lemma Open_leaks_nothing:
  "Open fails prefetch = (hs, Some s) \<Longrightarrow> hs = [] \<and> fails s"
  "Open fails prefetch = (hs, None) \<Longrightarrow> set hs = {Connection, ConsumeChannel, PublishChannel} \<and> \<not> fails SetConfirm"
  by (auto simp: Open_def Let_def split: if_splits)

lemma Close_tries_all: "set (fst (Close closeFails hs)) = set hs"
proof -
  have "h \<in> set [PublishChannel, ConsumeChannel, Connection]" for h by (cases h) simp_all
  then show ?thesis unfolding Close_def Let_def fst_conv set_filter by blast
qed

end
