(* ===== verification/Config.thy ===== *)
theory Config
  imports Json
begin

text \<open>
  The configuration (\<^verbatim>\<open>internal/config/config.go\<close>). The environment is an argument, a function
  from names to values; \<^verbatim>\<open>strconv.Atoi\<close> is written out for decimal numbers of 64 bits.
\<close>

record MySQL =
  myHost :: string
  myPort :: int
  myUser :: string
  myPassword :: string
  myDatabase :: string

record RabbitMQ =
  rbHost :: string
  rbPort :: int
  rbUser :: string
  rbPassword :: string
  rbPrefetchCount :: int
  rbDataQueue :: string
  rbEventQueue :: string

record WALConfig =
  walDir :: string

record Config =
  cfMySQL :: MySQL
  cfRabbitMQ :: RabbitMQ
  cfWAL :: WALConfig

definition rabbitMQPrefetchCount :: int where
  "rabbitMQPrefetchCount = 256"

text \<open>An optional sign and at least one digit, with a value in the range of \<^verbatim>\<open>int\<close>.\<close>

definition digitOf :: "char \<Rightarrow> int option" where
  "digitOf c = (let n = int (of_char c) in if 48 \<le> n \<and> n \<le> 57 then Some (n - 48) else None)"

fun digits :: "int \<Rightarrow> string \<Rightarrow> int option" where
  "digits n [] = Some n"
| "digits n (c # cs) = Option.bind (digitOf c) (\<lambda>d. digits (n * 10 + d) cs)"

definition Atoi :: "string \<Rightarrow> int option" where
  "Atoi s =
     (let (sign, ds) = (case s of
            [] \<Rightarrow> (1, [])
          | c # cs \<Rightarrow> if c = CHR ''-'' then (-1, cs) else if c = CHR ''+'' then (1, cs) else (1, s))
      in if ds = [] then None
         else Option.bind (digits 0 ds) (\<lambda>n.
                if int64_min \<le> sign * n \<and> sign * n \<le> int64_max then Some (sign * n) else None))"

definition env :: "(string \<Rightarrow> string option) \<Rightarrow> string \<Rightarrow> string \<Rightarrow> string" where
  "env lookup key fallback = (case lookup key of Some v \<Rightarrow> if v \<noteq> [] then v else fallback | None \<Rightarrow> fallback)"

text \<open>A number, or the name of the variable that is not one.\<close>

definition envInt :: "(string \<Rightarrow> string option) \<Rightarrow> string \<Rightarrow> int \<Rightarrow> string + int" where
  "envInt lookup key fallback =
     (case lookup key of
        None \<Rightarrow> Inr fallback
      | Some v \<Rightarrow> if v = [] then Inr fallback else (case Atoi v of None \<Rightarrow> Inl key | Some n \<Rightarrow> Inr n))"

definition Load :: "(string \<Rightarrow> string option) \<Rightarrow> string + Config" where
  "Load lookup =
     (case envInt lookup ''MYSQL_PORT'' 3306 of
        Inl e \<Rightarrow> Inl e
      | Inr mysqlPort \<Rightarrow>
          (case envInt lookup ''RABBITMQ_PORT'' 5672 of
             Inl e \<Rightarrow> Inl e
           | Inr rabbitPort \<Rightarrow> Inr
               \<lparr>cfMySQL = \<lparr>myHost = env lookup ''MYSQL_HOST'' ''127.0.0.1'', myPort = mysqlPort,
                  myUser = env lookup ''MYSQL_USER'' ''root'', myPassword = env lookup ''MYSQL_PASSWORD'' ''1234'',
                  myDatabase = env lookup ''MYSQL_DATABASE'' ''stock''\<rparr>,
                cfRabbitMQ = \<lparr>rbHost = env lookup ''RABBITMQ_HOST'' ''127.0.0.1'', rbPort = rabbitPort,
                  rbUser = env lookup ''RABBITMQ_USER'' ''guest'', rbPassword = env lookup ''RABBITMQ_PASSWORD'' ''guest'',
                  rbPrefetchCount = rabbitMQPrefetchCount, rbDataQueue = ''data_queue'', rbEventQueue = ''event_queue''\<rparr>,
                cfWAL = \<lparr>walDir = env lookup ''WAL_DIR'' ''./data/wal''\<rparr>\<rparr>))"

section \<open>When loading fails\<close>

definition badPort :: "(string \<Rightarrow> string option) \<Rightarrow> string \<Rightarrow> bool" where
  "badPort lookup key \<longleftrightarrow> (\<exists>v. lookup key = Some v \<and> v \<noteq> [] \<and> Atoi v = None)"

lemma envInt_Inl: "envInt lookup key n = Inl e \<longleftrightarrow> e = key \<and> badPort lookup key"
  by (auto simp: envInt_def badPort_def split: option.splits)

lemma envInt_Inr: "envInt lookup key n = Inr m \<Longrightarrow> \<not> badPort lookup key"
  by (auto simp: envInt_def badPort_def split: option.splits if_splits)

lemma Load_fails:
  "(\<exists>e. Load lookup = Inl e) \<longleftrightarrow> badPort lookup ''MYSQL_PORT'' \<or> badPort lookup ''RABBITMQ_PORT''"
  by (auto simp: Load_def envInt_Inl split: sum.split dest: envInt_Inr)

lemma Load_error_names_variable: "Load lookup = Inl e \<Longrightarrow> badPort lookup e \<and> e \<in> {''MYSQL_PORT'', ''RABBITMQ_PORT''}"
  by (auto simp: Load_def envInt_Inl split: sum.splits)

end
