(* ===== verification/Process.thy ===== *)
theory Process
  imports Recovery Messaging Config
begin

text \<open>
  The process around the engine (\<^verbatim>\<open>cmd/engine/main.go\<close>): it opens the database
  (\<^verbatim>\<open>internal/storage/mysql.go\<close>), the broker and the two logs, runs the publisher and the engine, and
  closes everything. What the environment answers is an argument; the result is the order in which
  things are opened, started, ended and closed.
\<close>

datatype resource = MySQLPool | Broker | InputWal | OutputWal

datatype worker = EngineRun | PublisherRun

datatype action =
    Opens resource | Closes resource | Begins worker | Returns worker | Panics worker
  | Cancels | Fatal string | LogsShutDown

section \<open>Opening and closing\<close>

subsection \<open>The database\<close>

record dsnConfig =
  dsnUser :: string
  dsnPasswd :: string
  dsnNet :: string
  dsnAddr :: string
  dsnDBName :: string
  dsnUTC :: bool
  dsnParseTime :: bool
  dsnAllowNativePasswords :: bool

record sqlDB =
  dbDSN :: dsnConfig
  dbMaxOpenConns :: int
  dbMaxIdleConns :: int
  dbConnMaxLifetime :: int
  dbConnMaxIdleTime :: int

datatype mysqlStep = OpenPool | PingPool

text \<open>Durations are in nanoseconds.\<close>

definition second :: int where
  "second = 1000000000"

definition mysqlDSN :: "MySQL \<Rightarrow> dsnConfig" where
  "mysqlDSN cfg = \<lparr>dsnUser = myUser cfg, dsnPasswd = myPassword cfg, dsnNet = ''tcp'',
     dsnAddr = myHost cfg @ '':'' @ showInt (myPort cfg), dsnDBName = myDatabase cfg,
     dsnUTC = True, dsnParseTime = True, dsnAllowNativePasswords = True\<rparr>"

definition OpenMySQL :: "(mysqlStep \<Rightarrow> bool) \<Rightarrow> MySQL \<Rightarrow> action list \<times> (mysqlStep + sqlDB)" where
  "OpenMySQL fails cfg =
     (let dsn = mysqlDSN cfg
      in if fails OpenPool then ([], Inl OpenPool)
         else let db = \<lparr>dbDSN = dsn, dbMaxOpenConns = 25, dbMaxIdleConns = 25,
                        dbConnMaxLifetime = 5 * 60 * second, dbConnMaxIdleTime = 5 * 60 * second\<rparr>
              in if fails PingPool then ([Opens MySQLPool, Closes MySQLPool], Inl PingPool)
                 else ([Opens MySQLPool], Inr db))"

subsection \<open>The logs\<close>

definition WAL_Open :: "(string \<Rightarrow> 'l option) \<Rightarrow> string \<Rightarrow> 'l outcome" where
  "WAL_Open files path = (case files path of None \<Rightarrow> Err WalFailed | Some l \<Rightarrow> Ret l)"

definition WAL_Sync :: "('l \<Rightarrow> bool) \<Rightarrow> 'l \<Rightarrow> unit outcome" where
  "WAL_Sync syncs l = (if syncs l then Ret () else Err WalFailed)"

text \<open>Closing a log that is closed already, or was never opened, is no error.\<close>

datatype closeResult = ClosedNow | AlreadyClosed | CloseFailed

definition WAL_Close :: "('l \<Rightarrow> closeResult) \<Rightarrow> 'l option \<Rightarrow> unit outcome" where
  "WAL_Close closes w =
     (case w of None \<Rightarrow> Ret () | Some l \<Rightarrow> if closes l = CloseFailed then Err WalFailed else Ret ())"

text \<open>The engine closes both logs, whatever the first answers, and joins the errors.\<close>

definition Engine_Close :: "('l \<Rightarrow> closeResult) \<Rightarrow> 'l Engine \<Rightarrow> action list \<times> err list" where
  "Engine_Close closes e =
     (let r1 = WAL_Close closes (Some (inputLog e)); r2 = WAL_Close closes (Some (outputLog e))
      in ([Closes InputWal, Closes OutputWal], concat (map (\<lambda>r. case r of Err x \<Rightarrow> [x] | _ \<Rightarrow> []) [r1, r2])))"

text \<open>\<^verbatim>\<open>NewEngine\<close> with the logs it opens; it does not close them when it fails.\<close>

definition openEngine :: "'l twal \<Rightarrow> (string \<Rightarrow> 'l option) \<Rightarrow> action list \<times> 'l Engine outcome" where
  "openEngine ops files =
     (case WAL_Open files ''./data/wal/input'' of
        Ret i \<Rightarrow>
          (case WAL_Open files ''./data/wal/output'' of
             Ret out \<Rightarrow>
               ([Opens InputWal, Opens OutputWal],
                case NewEngine ops i out of (e, Ret _) \<Rightarrow> Ret e | (_, Err x) \<Rightarrow> Err x | (_, Panic x) \<Rightarrow> Panic x)
           | Err x \<Rightarrow> ([Opens InputWal], Err x)
           | Panic x \<Rightarrow> ([Opens InputWal], Panic x))
      | Err x \<Rightarrow> ([], Err x)
      | Panic x \<Rightarrow> ([], Panic x))"

section \<open>The process\<close>

text \<open>
  \<open>publisherAt\<close> says when the publisher returns: before the engine does, between that and the
  cancellation, or after it, as it does when nothing else ended the context; the process waits for
  it. A panic of the engine runs the deferred calls, without that wait. \<^verbatim>\<open>log.Fatalf\<close> ends the
  process and skips the deferred calls.
\<close>

record 'l environment =
  envLookup :: "string \<Rightarrow> string option"
  mysqlFails :: "mysqlStep \<Rightarrow> bool"
  brokerFails :: "openStep \<Rightarrow> bool"
  walFiles :: "string \<Rightarrow> 'l option"
  walCloses :: "'l \<Rightarrow> closeResult"
  enginePanics :: bool
  publisherAt :: nat

definition deferred :: "'l environment \<Rightarrow> 'l Engine \<Rightarrow> action list" where
  "deferred v e = Cancels # fst (Engine_Close (walCloses v) e) @ [Closes Broker, Closes MySQLPool]"

definition runAll :: "'l environment \<Rightarrow> 'l Engine \<Rightarrow> action list" where
  "runAll v e =
     [Begins PublisherRun, Begins EngineRun] @
     (if enginePanics v then Panics EngineRun # deferred v e
      else let ends = [Returns EngineRun, Cancels]
           in take (publisherAt v) ends @ [Returns PublisherRun] @ drop (publisherAt v) ends @ [LogsShutDown] @ deferred v e)"

definition main :: "'l twal \<Rightarrow> 'l environment \<Rightarrow> action list" where
  "main ops v =
     (case Load (envLookup v) of
        Inl key \<Rightarrow> [Fatal ''load config'']
      | Inr cfg \<Rightarrow>
          (case OpenMySQL (mysqlFails v) (cfMySQL cfg) of
             (acts, Inl step) \<Rightarrow> acts @ [Fatal ''connect mysql'']
           | (acts, Inr db) \<Rightarrow> acts @
               (case Open (brokerFails v) (rbPrefetchCount (cfRabbitMQ cfg)) of
                  (hs, Some step) \<Rightarrow> [Fatal ''connect rabbitmq'']
                | (hs, None) \<Rightarrow> Opens Broker #
                    (case openEngine ops (walFiles v) of
                       (acts, Ret e) \<Rightarrow> acts @ runAll v e
                     | (acts, _) \<Rightarrow> acts @ [Fatal ''create engine'']))))"

section \<open>Nothing is used after it was closed\<close>

text \<open>
  A sequence of actions is in order when nothing is opened twice or closed while it is not open,
  and everything is open while somebody works with it. \<open>res\<close> is what is open, \<open>ws\<close> who works.
\<close>

fun inOrder :: "resource set \<Rightarrow> worker set \<Rightarrow> action list \<Rightarrow> bool" where
  "inOrder res ws [] = True"
| "inOrder res ws (Opens r # as) = (r \<notin> res \<and> inOrder (insert r res) ws as)"
| "inOrder res ws (Closes r # as) = (r \<in> res \<and> ws = {} \<and> inOrder (res - {r}) ws as)"
| "inOrder res ws (Begins w # as) =
     (w \<notin> ws \<and> {MySQLPool, Broker, InputWal, OutputWal} \<subseteq> res \<and> inOrder res (insert w ws) as)"
| "inOrder res ws (Returns w # as) = (w \<in> ws \<and> inOrder res (ws - {w}) as)"
| "inOrder res ws (Panics w # as) = (w \<in> ws \<and> inOrder res (ws - {w}) as)"
| "inOrder res ws (_ # as) = inOrder res ws as"

fun leftOpen :: "action list \<Rightarrow> resource set" where
  "leftOpen [] = {}"
| "leftOpen (Closes r # as) = leftOpen as - {r}"
| "leftOpen (Opens r # as) = (if Closes r \<in> set as then leftOpen as else insert r (leftOpen as))"
| "leftOpen (_ # as) = leftOpen as"

definition ends_fatally :: "action list \<Rightarrow> bool" where
  "ends_fatally as \<longleftrightarrow> (\<exists>m. Fatal m \<in> set as)"

lemma runAll_in_order:
  assumes "\<not> enginePanics v"
  shows "inOrder {InputWal, OutputWal, Broker, MySQLPool} {} (runAll v e)"
proof -
  have "publisherAt v = 0 \<or> publisherAt v = 1 \<or> publisherAt v \<ge> 2" by arith
  with assms show ?thesis by (auto simp: runAll_def deferred_def Engine_Close_def Let_def)
qed

lemma Load_prefetch: "Load lookup = Inr cfg \<Longrightarrow> rbPrefetchCount (cfRabbitMQ cfg) = rabbitMQPrefetchCount"
  by (auto simp: Load_def split: sum.splits)

text \<open>How far the process gets.\<close>

lemma main_cases:
  obtains (config) key where "Load (envLookup v) = Inl key" "main ops v = [Fatal ''load config'']"
  | (mysql) acts where "mysqlFails v OpenPool \<or> mysqlFails v PingPool" "acts = [] \<or> acts = [Opens MySQLPool, Closes MySQLPool]"
      "main ops v = acts @ [Fatal ''connect mysql'']"
  | (broker) step where "snd (Open (brokerFails v) rabbitMQPrefetchCount) = Some step"
      "main ops v = [Opens MySQLPool, Fatal ''connect rabbitmq'']"
  | (engine) acts where "\<not> (\<exists>e. snd (openEngine ops (walFiles v)) = Ret e)" "acts \<in> {[], [Opens InputWal], [Opens InputWal, Opens OutputWal]}"
      "main ops v = [Opens MySQLPool, Opens Broker] @ acts @ [Fatal ''create engine'']"
  | (runs) e where "\<not> (\<exists>key. Load (envLookup v) = Inl key)" "\<not> mysqlFails v OpenPool" "\<not> mysqlFails v PingPool"
      "snd (Open (brokerFails v) rabbitMQPrefetchCount) = None" "snd (openEngine ops (walFiles v)) = Ret e"
      "main ops v = [Opens MySQLPool, Opens Broker, Opens InputWal, Opens OutputWal] @ runAll v e"
proof (cases "Load (envLookup v)")
  case (Inl key)
  then show ?thesis by (intro config [of key]) (simp_all add: main_def)
next
  case (Inr cfg)
  note cfg = Inr Load_prefetch [OF Inr]
  show ?thesis
  proof (cases "mysqlFails v OpenPool \<or> mysqlFails v PingPool")
    case True
    then show ?thesis
      by (intro mysql [of "fst (OpenMySQL (mysqlFails v) (cfMySQL cfg))"]) (auto simp: main_def cfg OpenMySQL_def Let_def)
  next
    case False
    obtain hs st where op: "Open (brokerFails v) rabbitMQPrefetchCount = (hs, st)" by fastforce
    show ?thesis
    proof (cases st)
      case (Some step)
      then show ?thesis using False by (intro broker [of step]) (auto simp: main_def cfg op OpenMySQL_def Let_def)
    next
      case None
      obtain acts r where eng: "openEngine ops (walFiles v) = (acts, r)" by fastforce
      have acts: "acts \<in> {[], [Opens InputWal], [Opens InputWal, Opens OutputWal]}" "r = Ret e \<Longrightarrow> acts = [Opens InputWal, Opens OutputWal]" for e
        using eng by (auto simp: openEngine_def split: outcome.splits prod.splits)
      have m: "main ops v = [Opens MySQLPool, Opens Broker] @ acts @ (case r of Ret e \<Rightarrow> runAll v e | _ \<Rightarrow> [Fatal ''create engine''])"
        using False None by (simp add: main_def cfg op eng OpenMySQL_def Let_def split: outcome.split)
      show ?thesis
      proof (cases "\<exists>e. r = Ret e")
        case True
        then obtain e where "r = Ret e" by blast
        with False None acts(2) m show ?thesis by (intro runs [of e]) (auto simp: cfg op eng)
      next
        case none: False
        have "(case r of Ret e \<Rightarrow> runAll v e | _ \<Rightarrow> [Fatal ''create engine'']) = [Fatal ''create engine'']" using none by (cases r) auto
        moreover have "\<not> (\<exists>e. snd (openEngine ops (walFiles v)) = Ret e)" unfolding eng using none by simp
        ultimately show ?thesis using m by (intro engine [OF _ acts(1)]) simp_all
      qed
    qed
  qed
qed

lemma runAll_closes:
  "leftOpen ([Opens MySQLPool, Opens Broker, Opens InputWal, Opens OutputWal] @ runAll v e) = {}"
  "\<not> ends_fatally (runAll v e)"
proof -
  have "publisherAt v = 0 \<or> publisherAt v = 1 \<or> publisherAt v \<ge> 2" by arith
  then show "leftOpen ([Opens MySQLPool, Opens Broker, Opens InputWal, Opens OutputWal] @ runAll v e) = {}"
    "\<not> ends_fatally (runAll v e)"
    by (auto simp: runAll_def deferred_def Engine_Close_def ends_fatally_def Let_def)
qed

text \<open>The configured directory of the logs has no effect.\<close>

lemma Load_other:
  assumes "key \<notin> {''MYSQL_PORT'', ''RABBITMQ_PORT'', ''MYSQL_HOST'', ''MYSQL_USER'', ''MYSQL_PASSWORD'', ''MYSQL_DATABASE'',
    ''RABBITMQ_HOST'', ''RABBITMQ_USER'', ''RABBITMQ_PASSWORD''}"
  shows "map_sum id (\<lambda>c. (cfMySQL c, cfRabbitMQ c)) (Load (lookup(key := x))) = map_sum id (\<lambda>c. (cfMySQL c, cfRabbitMQ c)) (Load lookup)"
proof -
  have e: "envInt (lookup(key := x)) k n = envInt lookup k n" "env (lookup(key := x)) k d = env lookup k d" if "key \<noteq> k" for k n d
    using that by (auto simp: envInt_def env_def)
  show ?thesis using assms by (simp add: Load_def e split: sum.split)
qed

lemma runAll_config: "runAll (v\<lparr>envLookup := lookup'\<rparr>) e = runAll v e"
  by (simp add: runAll_def deferred_def Let_def)

lemma main_config:
  assumes "map_sum id (\<lambda>c. (cfMySQL c, cfRabbitMQ c)) (Load lookup') = map_sum id (\<lambda>c. (cfMySQL c, cfRabbitMQ c)) (Load (envLookup v))"
  shows "main ops (v\<lparr>envLookup := lookup'\<rparr>) = main ops v"
  using assms by (cases "Load lookup'"; cases "Load (envLookup v)") (simp_all add: main_def runAll_config)

lemma wal_dir_has_no_effect: "main ops (v\<lparr>envLookup := (envLookup v)(''WAL_DIR'' := dir)\<rparr>) = main ops v"
  by (rule main_config, rule Load_other) simp

text \<open>
  C26: The process closes what it opened, and not too early. When the engine does not panic, nothing
  is opened twice or closed before it was opened, every resource is open while the engine and the
  publisher run, and both have returned before the first is closed. The process starts exactly when
  the configuration loads, database and broker answer and the engine can be created from its logs;
  then nothing is left open, and otherwise it ends at once, without having started anything.
\<close>

theorem shutdown_order:
  assumes "\<not> enginePanics v"
  shows "inOrder {} {} (main ops v) \<and>
    (ends_fatally (main ops v) \<longleftrightarrow>
       (\<exists>key. Load (envLookup v) = Inl key) \<or> mysqlFails v OpenPool \<or> mysqlFails v PingPool \<or>
       (\<exists>step. snd (Open (brokerFails v) rabbitMQPrefetchCount) = Some step) \<or>
       \<not> (\<exists>e. snd (openEngine ops (walFiles v)) = Ret e)) \<and>
    (if ends_fatally (main ops v) then (\<forall>w. Begins w \<notin> set (main ops v)) else leftOpen (main ops v) = {})"
proof (cases rule: main_cases [of v ops])
  case (runs e)
  then have "inOrder {} {} (main ops v)" "leftOpen (main ops v) = {}" "\<not> ends_fatally (main ops v)"
    using runAll_in_order [OF assms, of e] runAll_closes [of v e] by (auto simp: insert_commute ends_fatally_def)
  with runs show ?thesis by simp
qed (auto simp: ends_fatally_def)

text \<open>A panic of the engine still closes everything, but does not wait for the publisher.\<close>

lemma panic_closes:
  assumes "enginePanics v"
  shows "ends_fatally (main ops v) \<or> leftOpen (main ops v) = {} \<and> Returns PublisherRun \<notin> set (main ops v)"
proof (cases rule: main_cases [of v ops])
  case (runs e)
  then show ?thesis using runAll_closes(1) [of v e] assms by (simp add: runAll_def deferred_def Engine_Close_def Let_def)
qed (auto simp: ends_fatally_def)

definition sampleEnvironment :: "memLog environment" where
  "sampleEnvironment = \<lparr>envLookup = (\<lambda>_. None), mysqlFails = (\<lambda>_. False), brokerFails = (\<lambda>_. False),
     walFiles = (\<lambda>_. Some memEmpty), walCloses = (\<lambda>_. ClosedNow), enginePanics = False, publisherAt = 2\<rparr>"

theorem shutdown_order_witness:
  "\<not> enginePanics sampleEnvironment \<and> inOrder {} {} (main memOps sampleEnvironment) \<and>
   leftOpen (main memOps sampleEnvironment) = {} \<and> \<not> ends_fatally (main memOps sampleEnvironment)"
proof -
  have new: "snd (NewEngine memOps memEmpty memEmpty) = Ret ()"
    using NewEngine_boots [OF memOps_laws memOps_reliable, of memEmpty memEmpty]
    by (simp add: memEmpty_def decodable_def windowKept_def lastAnswer_def rememberAll_def emptyEngine_def)
  then have "\<exists>e. snd (openEngine memOps (walFiles sampleEnvironment)) = Ret e"
    by (cases "NewEngine memOps memEmpty memEmpty") (simp add: openEngine_def WAL_Open_def sampleEnvironment_def)
  moreover have "\<not> (\<exists>key. Load (envLookup sampleEnvironment) = Inl key)"
    by (simp add: Load_fails badPort_def sampleEnvironment_def)
  moreover have "snd (Open (brokerFails sampleEnvironment) rabbitMQPrefetchCount) = None"
    by (simp add: Open_def sampleEnvironment_def)
  moreover have v: "\<not> enginePanics sampleEnvironment" "\<not> mysqlFails sampleEnvironment st" for st by (simp_all add: sampleEnvironment_def)
  ultimately show ?thesis using shutdown_order [OF v(1), of memOps] by simp
qed

end
