(* ===== verification/Spec2Isabelle.thy ===== *)
theory Spec2Isabelle
  imports Exchange Signals Changes MarketData TradeIds Metrics Sqlc Process
begin

text \<open>
  Verification of the KRONEX stock-exchange engine (\<^verbatim>\<open>src/\<close>, Go).

  \<^bold>\<open>The program.\<close> The engine (\<^verbatim>\<open>internal/core\<close>) takes requests from a message queue: orders to buy
  or sell, edits and cancellations, new accounts and stocks, transfers, administrator's
  adjustments. Each new request is appended to the input log, checked, applied to the ledger
  (\<^verbatim>\<open>internal/ledger\<close>: accounts, holdings, stocks, one order book per stock) and answered by one
  envelope of events in the output log (\<^verbatim>\<open>internal/wal\<close> around a third-party log). Two readers of
  the output log (\<^verbatim>\<open>internal/publisher\<close>) write the events to the database
  (\<^verbatim>\<open>internal/storage\<close>) and send the envelopes to the queue. Snapshots of the ledger go to the
  database, old log records are removed, and after a crash the engine is rebuilt from the
  latest snapshot and the logs.

  \<^bold>\<open>How the code is represented.\<close> A struct is a record, an enumeration a datatype with one
  constructor per constant and one for the other numbers, \<^verbatim>\<open>uint64\<close> is \<open>64 word\<close> with Go's
  wrap-around, a map is a finite map. A method of the engine takes the engine and returns the
  engine it leaves behind with its outcome: a value, an error or a panic (\<open>outcome\<close> in
  \<open>Prelude\<close>); \<open>andThen\<close> is Go's early return on an error. Loops are recursive functions whose
  termination is proved; the loops of the two readers, whose ends depend on the absence of
  wrap-around, are \<^verbatim>\<open>partial_function\<close>s with the value \<open>None\<close> for a loop that does not end, and it
  is proved that they do end. Code outside the repository is an argument: the log package as a
  record of operations with its documented behaviour as the hypotheses \<open>twal_laws\<close> and
  \<open>twal_reliable\<close> (satisfied by the log in memory \<open>memOps\<close>), the protobuf codec, the clock, and
  what the database and the broker answer or when they fail.

  \<^bold>\<open>Theories and sources.\<close>
  \<^item> \<open>Prelude\<close>: machine types, outcomes, \<^verbatim>\<open>slices\<close> and \<^verbatim>\<open>math/bits\<close>, sums over finite maps.
  \<^item> \<open>Domain\<close>: \<^verbatim>\<open>internal/domain\<close>. \<open>Json\<close>: the JSON form of every struct that is read or written,
    with round trips.
  \<^item> \<open>OrderBook\<close>: \<^verbatim>\<open>internal/ledger/orderbook.go\<close>, a book as two maps from prices to queues of
    list elements that are shared with an index by order id. \<open>BookLaws\<close>: the invariant of a book,
    kept by every operation; a locale states the contract of a book that the ledger relies on,
    interpreted on the model. \<open>BookSpec\<close>: the book refines two queues in price-time priority.
  \<^item> \<open>Ledger\<close>, \<open>LedgerInv\<close>: tables and state, totals, what resting orders reserve, and the ledger
    invariant: every balance is its available part plus what the account's resting orders
    reserve. A locale for keyed tables is interpreted for accounts, holdings and stocks.
  \<^item> \<open>Wal\<close>, \<open>Dedup\<close>, \<open>Engine\<close>: \<^verbatim>\<open>internal/wal/wal.go\<close>, \<^verbatim>\<open>core/dedup.go\<close>, and of \<^verbatim>\<open>core/engine.go\<close>
    the patterns, the output envelopes and \<^verbatim>\<open>appendOutput\<close>.
  \<^item> \<open>Matching\<close>: \<^verbatim>\<open>matchEvents\<close> of \<^verbatim>\<open>core/order.go\<close> with its loop, settlement and closing steps.
    \<open>Settle\<close>, \<open>MatchLoop\<close>, \<open>MatchSpec\<close>: each of them keeps the invariant with the part of the
    reservation that is not in the book; the loop refines a greedy walk along the counter queue.
    \<open>MatchProps\<close>: the theorems about matching.
  \<^item> \<open>Validation\<close>, \<open>Orders\<close>, \<open>Requests\<close>: \<^verbatim>\<open>core/order_validation.go\<close>, \<^verbatim>\<open>match\<close>, \<^verbatim>\<open>edit\<close>, \<^verbatim>\<open>cancel\<close>,
    \<^verbatim>\<open>route\<close>, \<^verbatim>\<open>core/transfer.go\<close> and the adjustments of \<^verbatim>\<open>core/handle_admin.go\<close>.
  \<^item> \<open>Handle\<close>: \<^verbatim>\<open>core/handle.go\<close>; all handlers are shown to be one function \<open>handleRequest\<close> of
    the decoded request. \<open>Accounting\<close>: what each request does to the ledger; \<open>Changes\<close>: what an
    edit does to the books and an adjustment to the tables, exactly, with the cost of a holding.
  \<^item> \<open>Snapshot\<close>: \<^verbatim>\<open>Serialize\<close> and \<^verbatim>\<open>Restore\<close> with the conversions to the protobuf messages of
    \<^verbatim>\<open>ledgerpb\<close>; a locale for the rows of a table is interpreted three times.
  \<^item> \<open>Determinism\<close>: the ledger after a request depends only on the ledger before. \<open>Retrace\<close>: a request
    that returned once returns when it is carried out again, and a suppressed one draws no trade id.
    \<open>Recovery\<close>:
    \<^verbatim>\<open>NewEngine\<close>, the watermark, the duplicate filter, the last trade id and \<^verbatim>\<open>Replay\<close>.
  \<^item> \<open>Lifecycle\<close>: \<^verbatim>\<open>Run\<close>, snapshots, the saver, the cleanup of both logs, and
    \<^verbatim>\<open>storage/snapshot.go\<close>. \<open>Exchange\<close>: messages, ticks, saves, publishing, crashes and reboots
    as a step relation, and the invariant of every reachable exchange.
  \<^item> \<open>Storage\<close>, \<open>Publisher\<close>: \<^verbatim>\<open>storage/event.go\<close> with the statements and constraints of the
    database, the projector and the event publisher. A locale states the contract of a loop
    over batches; it is instantiated for both readers. \<open>Readers\<close>: their loops \<^verbatim>\<open>Run\<close> and restarts
    while the log changes, again through a locale with two interpretations. \<open>Signals\<close>:
    \<^verbatim>\<open>publisher/handler.go\<close>, the goroutines as processes that interleave in any order over channels
    that drop signals; a locale states what a reader needs to be woken in time and is interpreted
    for both readers. \<open>Sqlc\<close>: the generated query layer, \<^verbatim>\<open>sqlc/models.go\<close> and \<^verbatim>\<open>sqlc/db.go\<close>, with a
    locale for nullable enumerations.
  \<^item> \<open>Reporting\<close>: what the events of a request say about the ledger. \<open>Projected\<close>: the database
    that applies them shows the ledger, up to amounts the projector has not written yet.
    \<open>MarketData\<close>: the price levels they publish. \<open>TradeIds\<close>: the numbering of trades over histories
    of messages, boots with their replays, interrupted ones too, and cleanups.
  \<^item> \<open>Messaging\<close>: \<^verbatim>\<open>messaging/rabbitmq.go\<close> over the AMQP package as a record of operations with the
    hypothesis \<open>amqp_laws\<close>, and how it gives the publisher's model of a batch. \<open>Metrics\<close>:
    \<^verbatim>\<open>internal/metrics\<close>; a locale states the contract of a reporter and is interpreted for both.
    \<open>Config\<close>: \<^verbatim>\<open>internal/config\<close>. \<open>Process\<close>: \<^verbatim>\<open>cmd/engine/main.go\<close>, \<^verbatim>\<open>storage/mysql.go\<close> and the
    opening and closing of the logs, as the order of what is opened, started, ended and closed.

  \<^bold>\<open>What is proved.\<close> Price-time priority and limit prices, that the book never crosses; that
  every feasible request (\<open>feasible\<close>, below) keeps the ledger backed and conserves cash and shares up
  to what it brings in, that refused requests change nothing, and exactly which orders are accepted;
  that cancelling gives back what an order held, that an edit queues anew and a feasible adjustment
  changes exactly what it names; that snapshots can be restored. For crashes: a boot from the two
  logs alone, without a snapshot, succeeds and ends with the ledger of before, also when the last
  input was not answered yet, and then answers it; and in every order of messages, snapshots,
  cleanups, crashes and reboots, from snapshots too, every input is answered exactly once, in order
  (that the ledger is the same after a boot from a snapshot is not proved: it is so only up to the
  creation times a snapshot loses). The cleanup never removes what recovery or the
  readers need; the events of a request describe its whole effect on accounts, holdings and
  stocks, and the price levels of the books; they are applied to the database exactly once, so
  that a database that has caught up shows the ledger, except for the balances of an account that was
  registered and the price of a stock that was listed, until they first change: these the projector
  does not write. The events are sent to the queue at least once and in
  order; no reader sleeps through a record, although signals are dropped, and the database
  shows the ledger, with this exception, whenever the signals have settled; trades are numbered without
  gap or repetition, also across boots and their replays; matching
  ends, and the duplicate filter, for ids other than zero, and the stored snapshots stay within their
  bounds; a batch reported as published was confirmed by the broker; the metrics lose no measurement;
  the process closes what it opened, and not before engine and publisher have returned.

  \<^bold>\<open>Bounds.\<close> Log indices stay below the largest 64-bit number (for the readers, by one batch), the
  total cash below $2^{64}$ and the shares of a stock below $2^{63}$: the code itself does not
  check them. Trade ids do not run out during a request. Matching a market buy needs that no
  ask above its price is in the book (\<open>askCap\<close>), which the code leaves to its caller; an order has a
  fresh id and a registered account is new, which it does not check either. \<open>matchable\<close> and \<open>feasible\<close>
  collect these conditions.

  The bound of 40 in the theorem about signals is the largest value of a measure on the goroutines'
  positions and the signals under way, which every step lowers.

  \<^bold>\<open>Not modelled.\<close> The generated accessors and the reflection of the protobuf messages
  (\<^verbatim>\<open>ledgerpb\<close>), which only the protobuf library calls. The goroutines that save snapshots and report
  metrics run beside the ones of \<open>Signals\<close> and \<open>Process\<close>; they appear as steps of \<open>Exchange\<close> and
  windows of \<open>Metrics\<close>, and the process does not wait for them. Timers appear as steps that may
  happen at any time; the texts of errors and log lines and the rounding of times in the database
  are left out, as are panics of the publisher's goroutines, of which the code has none of its own.
  A commit that reports an error has not happened (\<open>Commit\<close>, \<open>SaveSnapshotAndPrune\<close>): the outcome in
  which the database commits and only its acknowledgement is lost is left out. Of a batch that the
  broker did not confirm a prefix was delivered (\<open>publishBatch\<close>), not any subset of it. The
  database is written by the projector only: the rows that other services insert, of accounts, stocks,
  orders and requests, are in it from the beginning of a history, with amounts that are not assumed.
\<close>

section \<open>Properties that span components\<close>

lemmas reject_reasons = RejectInvalidOrder_def RejectInsufficientBalance_def RejectInsufficientStock_def
  RejectStockNotTradable_def RejectOrderNotActive_def TransferRejectInsufficientBalance_def
  TransferRejectInvalidSender_def TransferRejectInvalidRecipient_def TransferRejectSelfTransfer_def
  TransferRejectInvalidRequest_def AdminRejectTargetNotFound_def AdminRejectInvalidState_def
  AdminRejectInsufficientBalance_def AdminRejectInsufficientStock_def AdminRejectInvalidRequest_def

lemmas reason_columns = OrdersRejectReason_def TransfersRejectReason_def AdminRequestsRejectReason_def

lemma order_reasons:
  "validateStock s x = Some r \<Longrightarrow> r \<in> set OrdersRejectReason"
  "validateBuy s x = Some r \<Longrightarrow> r \<in> set OrdersRejectReason"
  "validateSell s x = Some r \<Longrightarrow> r \<in> set OrdersRejectReason"
  "snd (validateTargetRequest s x) = Inl r \<Longrightarrow> r \<in> set OrdersRejectReason"
  "validateEditAssets s x t = Some r \<Longrightarrow> r \<in> set OrdersRejectReason"
  by (auto simp: validateStock_def validateBuy_def validateTrade_def validateSell_def validateTargetRequest_def
      validateEditAssets_def reject_reasons reason_columns Let_def
      split: option.splits if_splits prod.splits TradingType.splits)

lemma validateEdit_reason: "snd (validateEdit s x) = Some r \<Longrightarrow> r \<in> set OrdersRejectReason"
  using order_reasons(4) [of s x]
  by (auto simp: validateEdit_def split: prod.splits sum.splits if_splits dest: order_reasons(5))
    (simp_all add: reject_reasons reason_columns)

lemma validateCancel_reason: "snd (validateCancel s x) = Some r \<Longrightarrow> r \<in> set OrdersRejectReason"
  using order_reasons(4) [of s x] by (auto simp: validateCancel_def split: prod.splits sum.splits)

lemma validateOrder_reason: "snd (validateOrder s x) = Some r \<Longrightarrow> r \<in> set OrdersRejectReason"
  by (auto simp: validateOrder_def split: if_splits option.splits TradingType.splits
      dest: order_reasons validateEdit_reason validateCancel_reason)
    (simp_all add: reject_reasons reason_columns)

lemma request_reasons:
  "validateTransfer s t = Inl r \<Longrightarrow> r \<in> set TransfersRejectReason"
  "validateBalanceAdjust s b = Some r \<Longrightarrow> r \<in> set AdminRequestsRejectReason"
  "validateStockBalanceAdjust s h = Some r \<Longrightarrow> r \<in> set AdminRequestsRejectReason"
  by (auto simp: validateTransfer_def validateBalanceAdjust_def validateStockBalanceAdjust_def
      reject_reasons reason_columns Let_def split: option.splits if_splits)

text \<open>
  C39: Every refusal can be stored. When an order, a transfer or an administrator's adjustment is
  refused, the statement that records the reason passes the ENUM constraint of its column, and
  so does every order status and stock status that the projector writes: the database never
  refuses the projection of a verdict, whatever the rows.
\<close>

theorem refusals_are_storable:
  "(refusal s (RqOrder x) = Some r \<longrightarrow> q_RejectOrder r i d \<noteq> None) \<and>
   (refusal s (RqTransfer t) = Some r \<longrightarrow> q_RejectTransfer r c i d \<noteq> None) \<and>
   (refusal s (RqBalance b) = Some r \<longrightarrow> q_RejectAdminRequest r c i d \<noteq> None) \<and>
   (refusal s (RqShares h) = Some r \<longrightarrow> q_RejectAdminRequest r c i d \<noteq> None) \<and>
   q_UpdateOrderState (orderStatus p) n f c i d \<noteq> None \<and>
   q_UpdateStockStatus (StockStatus_String st) j d \<noteq> None"
  using validateOrder_reason [of s x r] request_reasons [of s]
  by (cases st) (auto simp: q_RejectOrder_def q_RejectTransfer_def q_RejectAdminRequest_def q_UpdateOrderState_def
      q_UpdateStockStatus_def orderStatus_def OrdersStatus_def StocksStatus_def split: sum.splits)

theorem refusals_are_storable_witness:
  "refusal sampleState (RqOrder (sampleBuy\<lparr>oQuantity := 100\<rparr>)) = Some RejectInsufficientBalance \<and>
   q_RejectOrder RejectInsufficientBalance 7 sampleDatabase \<noteq> None"
proof -
  have "refusal sampleState (RqOrder (sampleBuy\<lparr>oQuantity := 100\<rparr>)) = Some RejectInsufficientBalance"
    by (simp add: validateOrder_def validateStock_def validateBuy_def validateTrade_def sample_rows Mul64_def)
  with refusals_are_storable [of sampleState "sampleBuy\<lparr>oQuantity := 100\<rparr>" RejectInsufficientBalance 7 sampleDatabase]
  show ?thesis by blast
qed

end
